(* ===== verification/KBase.thy ===== *)
theory KBase
  imports Main "HOL-Library.Word"
begin

text \<open>
  The prelude of the development: what every model of a C function uses.

  A C function that can run into undefined behaviour or fail to return has a result of type
  \<open>'a res\<close>: \<open>Inr\<close> the value, or \<open>Inl\<close> the reason why the C code has none
  (a null or stray pointer, an access outside its array, an overflow of a signed integer, or no
  result within the fuel of a loop whose termination is not structural). \<open>rbind\<close> sequences
  such steps. C integers are \<open>int\<close> or \<open>nat\<close> with their conversions written out
  (\<open>c_int\<close>, \<open>u32\<close>, \<open>u64\<close>) or words where the code works bitwise.
\<close>

section \<open>Results of C code\<close>

datatype fault = NullDeref | OutOfBounds | IntOverflow | OutOfFuel

type_synonym 'a res = "fault + 'a"

type_synonym addr = int

definition rbind :: "'a res \<Rightarrow> ('a \<Rightarrow> 'b res) \<Rightarrow> 'b res" where
  "rbind m f = (case m of Inl e \<Rightarrow> Inl e | Inr x \<Rightarrow> f x)"

lemma rbind_Inl [simp]: "rbind (Inl e) f = Inl e"
  by (simp add: rbind_def)

lemma rbind_Inr [simp]: "rbind (Inr x) f = f x"
  by (simp add: rbind_def)

lemma rbind_assoc: "rbind (rbind m f) g = rbind m (\<lambda>x. rbind (f x) g)"
  by (cases m) simp_all

lemma rbind_eq_Inr: "rbind m f = Inr y \<longleftrightarrow> (\<exists>x. m = Inr x \<and> f x = Inr y)"
  by (cases m) simp_all

lemma rbind_InrE:
  assumes "rbind m f = Inr y"
  obtains x where "m = Inr x" and "f x = Inr y"
  using assms by (auto simp: rbind_eq_Inr)

lemma rbind_cong [fundef_cong]:
  "m = m' \<Longrightarrow> (\<And>x. m' = Inr x \<Longrightarrow> f x = f' x) \<Longrightarrow> rbind m f = rbind m' f'"
  by (cases m') simp_all

text \<open>The result of a loop written as a \<open>partial_function\<close>: \<open>None\<close>, a loop that does not end, is a
  fault of the function that runs it.\<close>

primrec returns :: "'a option \<Rightarrow> 'a res" where
  "returns None = Inl OutOfFuel"
| "returns (Some x) = Inr x"

lemma returns_eq_Inr [simp]: "returns r = Inr x \<longleftrightarrow> r = Some x"
  by (cases r) auto

text \<open>The same for a loop whose body may fault.\<close>

definition finish :: "'a res option \<Rightarrow> 'a res" where
  "finish r = (case r of None \<Rightarrow> Inl OutOfFuel | Some x \<Rightarrow> x)"

lemma finish_simps [simp]: "finish None = Inl OutOfFuel" "finish (Some x) = x"
  by (simp_all add: finish_def)

text \<open>Following a pointer that may be \<open>NULL\<close>.\<close>

primrec deref :: "'a option \<Rightarrow> 'a res" where
  "deref None = Inl NullDeref"
| "deref (Some x) = Inr x"

lemma deref_eq_Inr [simp]: "deref p = Inr x \<longleftrightarrow> p = Some x"
  by (cases p) auto

section \<open>Integer conversions\<close>

text \<open>
  The value of an unsigned quantity converted to \<open>int\<close> (32 bits, two's complement), and
  unsigned arithmetic at 32 and 64 bits.
\<close>

definition c_int :: "nat \<Rightarrow> int" where
  "c_int n = (int n + 2 ^ 31) mod 2 ^ 32 - 2 ^ 31"

definition u32 :: "int \<Rightarrow> nat" where
  "u32 i = nat (i mod 2 ^ 32)"

definition u64 :: "int \<Rightarrow> nat" where
  "u64 i = nat (i mod 2 ^ 64)"

lemma c_int_small: "n < 2 ^ 31 \<Longrightarrow> c_int n = int n"
  by (simp add: c_int_def)

lemma c_int_bounds: "- (2 ^ 31) \<le> c_int n \<and> c_int n < 2 ^ 31"
proof -
  have "0 \<le> (int n + 2 ^ 31) mod 2 ^ 32" and "(int n + 2 ^ 31) mod 2 ^ 32 < 2 ^ 32"
    by simp_all
  then show ?thesis by (simp add: c_int_def)
qed

lemma u64_small: "0 \<le> i \<Longrightarrow> i < 2 ^ 64 \<Longrightarrow> u64 i = nat i"
  by (simp add: u64_def)

lemma u64_bound: "u64 i < 2 ^ 64"
proof -
  have "i mod 2 ^ 64 < 2 ^ 64" by simp
  then show ?thesis by (simp add: u64_def nat_less_iff)
qed

section \<open>Powers of two and alignment\<close>

lemma two_power_pos [simp]: "(0::int) < 2 ^ n"
  by simp

lemma two_power_ge1 [simp]: "(1::int) \<le> 2 ^ n"
  by simp

lemma nat_Suc_diff1: "0 < l \<Longrightarrow> nat l = Suc (nat (l - 1))"
  by simp

lemma two_power_split: "0 < l \<Longrightarrow> (2::int) ^ nat l = 2 ^ nat (l - 1) + 2 ^ nat (l - 1)"
  by (simp add: nat_Suc_diff1)

lemma two_power_join: "0 \<le> l \<Longrightarrow> (2::int) ^ nat (l + 1) = 2 * 2 ^ nat l"
  by (simp add: nat_add_distrib)

text \<open>An address aligned to a block size is not strictly inside an aligned block of that size.\<close>

lemma aligned_gap:
  fixes i j :: int
  assumes "(2::int) ^ m dvd i" and "2 ^ m dvd j" and "i < j"
  shows "i + 2 ^ m \<le> j"
proof -
  obtain a b where "i = 2 ^ m * a" and "j = 2 ^ m * b"
    using assms by (auto elim!: dvdE)
  then have "2 ^ m * a < 2 ^ m * b" using assms by simp
  then have "a + 1 \<le> b" by simp
  then have "2 ^ m * (a + 1) \<le> 2 ^ m * b" by (intro mult_left_mono) simp_all
  then show ?thesis using \<open>i = _\<close> \<open>j = _\<close> by (simp add: distrib_left)
qed

lemma dvd_two_power_le:
  fixes i :: int
  assumes "(2::int) ^ m dvd i" and "k \<le> m"
  shows "2 ^ k dvd i"
  using assms le_imp_power_dvd dvd_trans by blast

end
