(* ===== verification/Page.thy ===== *)
theory Page
  imports KBase
begin

text \<open>
  The page allocator of \<open>lib/malloc.c\<close>: a buddy system over the page frames. Blocks of
  \<open>2 ^ order\<close> pages are described by the array \<open>frame\<close>, one entry per page; the free
  blocks of each order are on a doubly linked list whose nodes (\<open>page_item\<close>) lie in the last
  24 bytes of the free block's first page. Here are the state and the operations, as the code has
  them; the invariants are in \<open>PageInv\<close> and the theorems in the theories after it.

  A pointer to a \<open>page_item\<close> is an address, \<open>None\<close> for \<open>NULL\<close>. Every access to the
  arrays is checked, so an access outside them is the fault \<open>OutOfBounds\<close>, and so is every
  pointer, so following \<open>NULL\<close> is the fault \<open>NullDeref\<close>. Messages printed on the console
  are not part of the state.
\<close>

section \<open>State\<close>

definition PAGE_MAX_ORDER :: int where
  "PAGE_MAX_ORDER = 16"

definition PAGE_FREE :: int where
  "PAGE_FREE = -1"

definition PAGE_ALLOCATED :: int where
  "PAGE_ALLOCATED = -2"

definition PAGE_RESERVED :: int where
  "PAGE_RESERVED = -3"

definition PAGE_MAX_ENTRY :: int where
  "PAGE_MAX_ENTRY = 0x3c000000 div 0x1000"

record frame_info =
  fi_status :: nat
  fi_index :: int

record page_item =
  pi_index :: int
  pi_previous :: "addr option"
  pi_next :: "addr option"

text \<open>
  \<open>frame\<close> and \<open>page_list\<close> are the arrays of these names; \<open>page_mem\<close> is the memory
  of the pages, read as \<open>page_item\<close> records.
\<close>

record page_state =
  frame :: "int \<Rightarrow> frame_info"
  page_list :: "int \<Rightarrow> addr option"
  page_mem :: "addr \<Rightarrow> page_item"

definition SIZEOF_page_item :: int where
  "SIZEOF_page_item = 24"

definition item_addr :: "int \<Rightarrow> addr" where
  "item_addr i = i * 0x1000 + 0x1000 - SIZEOF_page_item"

section \<open>Checked accesses\<close>

definition frame_get :: "int \<Rightarrow> page_state \<Rightarrow> frame_info res" where
  "frame_get i s = (if 0 \<le> i \<and> i < PAGE_MAX_ENTRY then Inr (frame s i) else Inl OutOfBounds)"

definition frame_set_index :: "int \<Rightarrow> int \<Rightarrow> page_state \<Rightarrow> page_state res" where
  "frame_set_index i v s =
     (if 0 \<le> i \<and> i < PAGE_MAX_ENTRY
      then Inr (s\<lparr>frame := (frame s)(i := (frame s i)\<lparr>fi_index := v\<rparr>)\<rparr>)
      else Inl OutOfBounds)"

definition frame_set_status :: "int \<Rightarrow> nat \<Rightarrow> page_state \<Rightarrow> page_state res" where
  "frame_set_status i v s =
     (if 0 \<le> i \<and> i < PAGE_MAX_ENTRY
      then Inr (s\<lparr>frame := (frame s)(i := (frame s i)\<lparr>fi_status := v\<rparr>)\<rparr>)
      else Inl OutOfBounds)"

definition list_get :: "int \<Rightarrow> page_state \<Rightarrow> addr option res" where
  "list_get l s = (if 0 \<le> l \<and> l \<le> PAGE_MAX_ORDER then Inr (page_list s l) else Inl OutOfBounds)"

definition list_set :: "int \<Rightarrow> addr option \<Rightarrow> page_state \<Rightarrow> page_state res" where
  "list_set l p s =
     (if 0 \<le> l \<and> l \<le> PAGE_MAX_ORDER then Inr (s\<lparr>page_list := (page_list s)(l := p)\<rparr>)
      else Inl OutOfBounds)"

definition item_get :: "addr option \<Rightarrow> page_state \<Rightarrow> page_item res" where
  "item_get p s = (case p of None \<Rightarrow> Inl NullDeref | Some a \<Rightarrow> Inr (page_mem s a))"

definition item_set :: "addr \<Rightarrow> page_item \<Rightarrow> page_state \<Rightarrow> page_state" where
  "item_set a x s = s\<lparr>page_mem := (page_mem s)(a := x)\<rparr>"

definition set_next :: "addr \<Rightarrow> addr option \<Rightarrow> page_state \<Rightarrow> page_state" where
  "set_next a p s = item_set a ((page_mem s a)\<lparr>pi_next := p\<rparr>) s"

definition set_previous :: "addr \<Rightarrow> addr option \<Rightarrow> page_state \<Rightarrow> page_state" where
  "set_previous a p s = item_set a ((page_mem s a)\<lparr>pi_previous := p\<rparr>) s"

section \<open>Logarithms and powers\<close>

text \<open>
  The loop of \<open>log2\<close> doubles \<open>ans\<close> until it exceeds \<open>value\<close>; for values from
  \<open>2 ^ 30\<close> the doubling overflows. (\<open>ans\<close> starts at 1, so it is never below 1: that part
  of the overflow test only makes the recursion total.)
\<close>

function log2_loop :: "int \<Rightarrow> int \<Rightarrow> int \<Rightarrow> int res" where
  "log2_loop ans i value =
     (if value < ans then Inr (if i - 1 > PAGE_MAX_ORDER then PAGE_MAX_ORDER else i - 1)
      else if ans < 1 \<or> 2 ^ 31 \<le> ans * 2 then Inl IntOverflow
      else log2_loop (ans * 2) (i + 1) value)"
  by pat_completeness auto
termination
  by (relation "measure (\<lambda>(ans, i, value). nat (2 ^ 31 - ans))") auto

definition log2 :: "int \<Rightarrow> int res" where
  "log2 value = log2_loop 1 0 value"

function power2_loop :: "int \<Rightarrow> int \<Rightarrow> int \<Rightarrow> int" where
  "power2_loop ans i value = (if i < value then power2_loop (ans * 2) (i + 1) value else ans)"
  by pat_completeness auto
termination
  by (relation "measure (\<lambda>(ans, i, value). nat (value - i))") auto

definition power2 :: "int \<Rightarrow> int" where
  "power2 value = power2_loop 1 0 value"

declare log2_loop.simps [simp del] power2_loop.simps [simp del]

definition aling8 :: "nat \<Rightarrow> nat" where
  "aling8 value = (if value mod 8 = 0 then value else 8 + value - value mod 8)"

section \<open>The lists of free blocks\<close>

definition add_page_item :: "int \<Rightarrow> page_state \<Rightarrow> page_state res" where
  "add_page_item index s =
     rbind (frame_get index s) (\<lambda>f.
     let level = fi_index f;
         free_page = item_addr index;
         s = item_set free_page \<lparr>pi_index = index, pi_previous = None, pi_next = None\<rparr> s in
     rbind (list_get level s) (\<lambda>head.
     case head of
       None \<Rightarrow> list_set level (Some free_page) s
     | Some current \<Rightarrow>
         let s = set_next free_page head s;
             s = set_previous current (Some free_page) s in
         list_set level (Some free_page) s))"

definition delete_page_item :: "int \<Rightarrow> page_state \<Rightarrow> page_state res" where
  "delete_page_item index s =
     rbind (frame_get index s) (\<lambda>f.
     let level = fi_index f;
         current = page_mem s (item_addr index);
         previous = pi_previous current;
         next = pi_next current in
     case (next, previous) of
       (Some n, Some p) \<Rightarrow>
         let s = set_next p next s in Inr (set_previous n previous s)
     | (Some n, None) \<Rightarrow>
         let s = set_previous n None s in list_set level next s
     | (None, Some p) \<Rightarrow> Inr (set_next p None s)
     | (None, None) \<Rightarrow> list_set level None s)"

section \<open>Loops over the frames of a block\<close>

text \<open>\<open>for(int i=lo; i<hi; i++) (frame+base+i)->index = v\<close>\<close>

function mark_loop :: "int \<Rightarrow> int \<Rightarrow> int \<Rightarrow> int \<Rightarrow> page_state \<Rightarrow> page_state res" where
  "mark_loop base i hi v s =
     (if i < hi then rbind (frame_set_index (base + i) v s) (mark_loop base (i + 1) hi v)
      else Inr s)"
  by pat_completeness auto
termination
  by (relation "measure (\<lambda>(base, i, hi, v, s). nat (hi - i))") auto

declare mark_loop.simps [simp del]

section \<open>Splitting\<close>

text \<open>
  \<open>page_divide level\<close> splits the first free block of this order, after splitting a bigger one
  when the list is empty, but it looks no further than order 5. The C recursion need not end, so
  the model takes fuel: \<open>OutOfFuel\<close> at every fuel means that the code recurses for ever.
\<close>

fun page_divide :: "nat \<Rightarrow> int \<Rightarrow> page_state \<Rightarrow> page_state res" where
  "page_divide 0 level s = Inl OutOfFuel"
| "page_divide (Suc fuel) level s =
     rbind (list_get level s) (\<lambda>head.
     case head of
       Some current \<Rightarrow>
         let item = page_mem s current;
             index = pi_index item in
         rbind (list_set level (pi_next item) s) (\<lambda>s.
         rbind (frame_get index s) (\<lambda>f.
         rbind (frame_set_index index (fi_index f - 1) s) (\<lambda>s.
         rbind (add_page_item index s) (\<lambda>s.
         rbind (frame_set_index (index + power2 (level - 1)) (level - 1) s) (\<lambda>s.
         add_page_item (index + power2 (level - 1)) s)))))
     | None \<Rightarrow>
         if level < 5 then
           rbind (page_divide fuel (level + 1) s) (\<lambda>s. page_divide fuel level s)
         else Inr s)"

section \<open>Allocation\<close>

text \<open>
  The level for a request: \<open>log2((size-1)/0x1000)+1\<close>, where \<open>size - 1\<close> wraps at 64 bits
  and the quotient is converted to \<open>int\<close> for the call.
\<close>

definition page_level :: "nat \<Rightarrow> int res" where
  "page_level sz =
     rbind (log2 (c_int (u64 (int sz - 1) div 0x1000))) (\<lambda>l. Inr (l + 1))"

text \<open>The result is the index of the block, or -1 and the unchanged state. \<open>take_first\<close> is the
  end of the function: it takes the first block of the list, whatever happened before.\<close>

definition take_first :: "int \<Rightarrow> page_state \<Rightarrow> (int \<times> page_state) res" where
  "take_first level s =
     rbind (list_get level s) (\<lambda>current.
     rbind (item_get current s) (\<lambda>item.
     rbind (frame_set_status (pi_index item) 1 s) (\<lambda>s.
     rbind (mark_loop (pi_index item) 1 (power2 level) PAGE_ALLOCATED s) (\<lambda>s.
     rbind (list_set level (pi_next item) s) (\<lambda>s.
     Inr (pi_index item, s))))))"

definition page_allocate :: "nat \<Rightarrow> nat \<Rightarrow> page_state \<Rightarrow> (int \<times> page_state) res" where
  "page_allocate fuel sz s =
     rbind (page_level sz) (\<lambda>level.
     rbind (list_get level s) (\<lambda>head.
     case head of
       Some p \<Rightarrow> take_first level s
     | None \<Rightarrow>
         if level < PAGE_MAX_ORDER then rbind (page_divide fuel (level + 1) s) (take_first level)
         else Inr (-1, s)))"

definition page_allocate_addr :: "nat \<Rightarrow> nat \<Rightarrow> page_state \<Rightarrow> (addr \<times> page_state) res" where
  "page_allocate_addr fuel sz s =
     rbind (page_allocate fuel sz s) (\<lambda>(i, s). Inr (int (u64 (i * 0x1000)), s))"

section \<open>Release\<close>

text \<open>
  \<open>merge\<close> joins a free block with its buddy while both are free and of one order. Each call
  raises the order, so fuel 17 is enough (\<open>PageMerge.merge_enough_fuel\<close>). The code's \<open>%\<close> is
  applied to a nonnegative index.
\<close>

fun merge :: "nat \<Rightarrow> int \<Rightarrow> page_state \<Rightarrow> page_state res" where
  "merge 0 index s = Inl OutOfFuel"
| "merge (Suc fuel) index s =
     rbind (frame_get index s) (\<lambda>f.
     if fi_index f = PAGE_MAX_ORDER then Inr s
     else
       let sz = power2 (fi_index f);
           merge_index = (if index mod (2 * sz) \<noteq> 0 then index - sz else index + sz) in
       rbind (frame_get merge_index s) (\<lambda>g.
       if fi_index f = fi_index g then
         if fi_status f = 0 \<and> fi_status g = 0 then
           rbind (delete_page_item index s) (\<lambda>s.
           rbind (delete_page_item merge_index s) (\<lambda>s.
           let hi = (if merge_index > index then merge_index else index);
               lo = (if merge_index > index then index else merge_index) in
           rbind (frame_set_index hi PAGE_FREE s) (\<lambda>s.
           rbind (frame_get lo s) (\<lambda>h.
           rbind (frame_set_index lo (fi_index h + 1) s) (\<lambda>s.
           rbind (add_page_item lo s) (\<lambda>s.
           merge fuel lo s))))))
         else Inr s
       else Inr s))"

definition page_free :: "nat \<Rightarrow> int \<Rightarrow> page_state \<Rightarrow> page_state res" where
  "page_free fuel index s =
     rbind (frame_get index s) (\<lambda>f.
     let sz = fi_index f in
     rbind (add_page_item index s) (\<lambda>s.
     rbind (frame_set_status index 0 s) (\<lambda>s.
     rbind (mark_loop index 1 (power2 sz) PAGE_FREE s) (\<lambda>s.
     merge fuel index s))))"

end
