(* ===== verification/PageInv.thy ===== *)
theory PageInv
  imports Page
begin

text \<open>
  What the page allocator's data structures mean. \<open>tiling\<close> says that the frames describe a
  partition of the pages into aligned blocks, \<open>chain\<close> that a list of \<open>page_item\<close>s in memory
  is a given list of blocks, \<open>page_inv s L\<close> that the partition is a tiling and that the list of
  each order holds exactly the free blocks of that order. \<open>L\<close> is the abstraction: a list of
  block indices per order.
\<close>

section \<open>Logarithms and powers\<close>

lemma power2_loop_eq: "power2_loop ans i v = ans * 2 ^ nat (v - i)"
proof (induction ans i v rule: power2_loop.induct)
  case (1 ans i v)
  show ?case
  proof (cases "i < v")
    case True
    then have "nat (v - i) = Suc (nat (v - (i + 1)))" by simp
    with 1 True show ?thesis by (simp add: power2_loop.simps [of ans i v])
  next
    case False
    then show ?thesis by (simp add: power2_loop.simps [of ans i v])
  qed
qed

lemma power2_eq [simp]: "power2 v = 2 ^ nat v"
  by (simp add: power2_def power2_loop_eq)

lemma log2_loop_eq:
  assumes "2 ^ k \<le> v" and "v < 2 ^ Suc k" and "k < 30" and "n \<le> Suc k"
  shows "log2_loop (2 ^ n) (int n) v = Inr (min PAGE_MAX_ORDER (int k))"
  using assms(4)
proof (induction "Suc k - n" arbitrary: n)
  case 0
  then have "n = Suc k" by simp
  then show ?case using assms
    by (simp add: log2_loop.simps [of "2 * 2 ^ k"] min_def PAGE_MAX_ORDER_def)
next
  case (Suc d)
  then have "n \<le> k" and d: "d = Suc k - Suc n" by simp_all
  have "(2::int) ^ n \<le> 2 ^ k" using \<open>n \<le> k\<close> by (intro power_increasing) simp_all
  then have a: "\<not> v < 2 ^ n" using assms(1) by linarith
  have "n \<le> 29" using \<open>n \<le> k\<close> assms(3) by simp
  then have "(2::int) ^ n \<le> 2 ^ 29" by (intro power_increasing) simp_all
  then have b: "\<not> ((2::int) ^ n < 1 \<or> (2::int) ^ 31 \<le> 2 ^ n * 2)" by (simp add: not_less)
  have "log2_loop (2 ^ n) (int n) v = log2_loop (2 ^ Suc n) (int (Suc n)) v"
    using a b by (simp add: log2_loop.simps [of "2 ^ n"] mult.commute add.commute)
  then show ?case using Suc.hyps(1) [OF d] \<open>n \<le> k\<close> by simp
qed

lemma log2_eq:
  assumes "2 ^ k \<le> v" and "v < 2 ^ Suc k" and "k < 30"
  shows "log2 v = Inr (min PAGE_MAX_ORDER (int k))"
  using log2_loop_eq [of k v 0] assms by (simp add: log2_def)

lemma log2_nonpos: "v < 1 \<Longrightarrow> log2 v = Inr (-1)"
  by (simp add: log2_def log2_loop.simps PAGE_MAX_ORDER_def)

lemma int_log_exists:
  fixes v :: int
  assumes "1 \<le> v"
  obtains k where "2 ^ k \<le> v" and "v < 2 ^ Suc k"
proof -
  have "1 \<le> nat v" using assms by simp
  then obtain k where k: "2 ^ k \<le> nat v" "nat v < 2 ^ Suc k"
    using ex_power_ivl1 [of 2 "nat v"] by auto
  have "int (2 ^ k) \<le> int (nat v)" using k(1) by (simp only: of_nat_le_iff)
  moreover have "int (nat v) < int (2 ^ Suc k)" using k(2) by (simp only: of_nat_less_iff)
  ultimately have "2 ^ k \<le> v" and "v < 2 ^ Suc k" using assms by simp_all
  then show thesis by (rule that)
qed

section \<open>Marking frames\<close>

definition mark_range :: "int \<Rightarrow> int \<Rightarrow> int \<Rightarrow> (int \<Rightarrow> frame_info) \<Rightarrow> int \<Rightarrow> frame_info" where
  "mark_range lo hi v fr = (\<lambda>j. if lo \<le> j \<and> j < hi then (fr j)\<lparr>fi_index := v\<rparr> else fr j)"

lemma mark_range_empty: "hi \<le> lo \<Longrightarrow> mark_range lo hi v fr = fr"
  by (auto simp: mark_range_def fun_eq_iff)

lemma mark_loop_eq:
  "0 \<le> base + i \<Longrightarrow> base + hi \<le> PAGE_MAX_ENTRY \<Longrightarrow>
   mark_loop base i hi v s = Inr (s\<lparr>frame := mark_range (base + i) (base + hi) v (frame s)\<rparr>)"
proof (induction base i hi v s rule: mark_loop.induct)
  case (1 base i hi v s)
  show ?case
  proof (cases "i < hi")
    case True
    let ?s = "s\<lparr>frame := (frame s)(base + i := (frame s (base + i))\<lparr>fi_index := v\<rparr>)\<rparr>"
    have set: "frame_set_index (base + i) v s = Inr ?s"
      using True "1.prems" by (simp add: frame_set_index_def)
    have "mark_loop base i hi v s = mark_loop base (i + 1) hi v ?s"
      using True set by (simp add: mark_loop.simps [of base i])
    also have "\<dots> = Inr (?s\<lparr>frame := mark_range (base + (i + 1)) (base + hi) v (frame ?s)\<rparr>)"
      by (rule "1.IH" [OF True set]) (use "1.prems" in simp_all)
    also have "mark_range (base + (i + 1)) (base + hi) v (frame ?s)
      = mark_range (base + i) (base + hi) v (frame s)"
      using True by (auto simp: mark_range_def fun_eq_iff)
    finally show ?thesis by simp
  next
    case False
    then show ?thesis by (simp add: mark_loop.simps [of base i] mark_range_empty)
  qed
qed

section \<open>The partition into blocks\<close>

definition block_head :: "(int \<Rightarrow> frame_info) \<Rightarrow> int \<Rightarrow> bool" where
  "block_head fr i \<longleftrightarrow> 0 \<le> i \<and> i < PAGE_MAX_ENTRY \<and> 0 \<le> fi_index (fr i)"

definition block_size :: "(int \<Rightarrow> frame_info) \<Rightarrow> int \<Rightarrow> int" where
  "block_size fr i = 2 ^ nat (fi_index (fr i))"

definition block_ok :: "(int \<Rightarrow> frame_info) \<Rightarrow> int \<Rightarrow> bool" where
  "block_ok fr i \<longleftrightarrow>
     fi_index (fr i) \<le> PAGE_MAX_ORDER \<and> block_size fr i dvd i \<and>
     i + block_size fr i \<le> PAGE_MAX_ENTRY \<and>
     (\<forall>j. i < j \<and> j < i + block_size fr i \<longrightarrow> fi_index (fr j) < 0)"

definition tiling :: "(int \<Rightarrow> frame_info) \<Rightarrow> bool" where
  "tiling fr \<longleftrightarrow>
     (\<forall>i. block_head fr i \<longrightarrow> block_ok fr i) \<and>
     (\<forall>j. 0 \<le> j \<and> j < PAGE_MAX_ENTRY \<longrightarrow>
        (\<exists>i. block_head fr i \<and> i \<le> j \<and> j < i + block_size fr i)) \<and>
     (\<forall>j. 0 \<le> j \<and> j < PAGE_MAX_ENTRY \<and> fi_status (fr j) \<noteq> 0 \<longrightarrow> 0 \<le> fi_index (fr j))"

definition free_head :: "(int \<Rightarrow> frame_info) \<Rightarrow> int \<Rightarrow> int \<Rightarrow> bool" where
  "free_head fr l i \<longleftrightarrow> block_head fr i \<and> fi_index (fr i) = l \<and> fi_status (fr i) = 0"

lemma block_size_pos [simp]: "0 < block_size fr i"
  by (simp add: block_size_def)

lemma block_size_neq0 [simp]: "block_size fr i \<noteq> 0"
  by (simp add: block_size_def)

lemma block_size_ge1 [simp]: "1 \<le> block_size fr i"
  by (simp add: block_size_def)

lemma block_okD:
  assumes "block_ok fr i"
  shows "fi_index (fr i) \<le> PAGE_MAX_ORDER" and "block_size fr i dvd i"
    and "i + block_size fr i \<le> PAGE_MAX_ENTRY"
    and "i < j \<Longrightarrow> j < i + block_size fr i \<Longrightarrow> fi_index (fr j) < 0"
  using assms by (auto simp only: block_ok_def)

lemma tilingD_ok: "tiling fr \<Longrightarrow> block_head fr i \<Longrightarrow> block_ok fr i"
  by (simp add: tiling_def)

lemma tilingD_cover:
  assumes "tiling fr" and "0 \<le> j" and "j < PAGE_MAX_ENTRY"
  obtains i where "block_head fr i" and "i \<le> j" and "j < i + block_size fr i"
  using assms unfolding tiling_def by blast

lemma tilingD_status:
  "tiling fr \<Longrightarrow> 0 \<le> j \<Longrightarrow> j < PAGE_MAX_ENTRY \<Longrightarrow> fi_index (fr j) < 0 \<Longrightarrow> fi_status (fr j) = 0"
  unfolding tiling_def using not_le by blast

lemma tilingI:
  assumes "\<And>i. block_head fr i \<Longrightarrow> block_ok fr i"
    and "\<And>j. 0 \<le> j \<Longrightarrow> j < PAGE_MAX_ENTRY \<Longrightarrow> \<exists>i. block_head fr i \<and> i \<le> j \<and> j < i + block_size fr i"
    and "\<And>j. 0 \<le> j \<Longrightarrow> j < PAGE_MAX_ENTRY \<Longrightarrow> fi_status (fr j) \<noteq> 0 \<Longrightarrow> 0 \<le> fi_index (fr j)"
  shows "tiling fr"
  unfolding tiling_def using assms by blast

lemma blocks_apart:
  assumes "tiling fr" and "block_head fr i" and "block_head fr j" and "i < j"
  shows "i + block_size fr i \<le> j"
proof (rule ccontr)
  assume "\<not> ?thesis"
  moreover have "block_ok fr i" using assms by (blast intro: tilingD_ok)
  ultimately have "fi_index (fr j) < 0" using assms(4) by (auto simp: block_ok_def)
  with assms(3) show False by (simp add: block_head_def)
qed

lemma inside_not_head:
  assumes "tiling fr" and "block_head fr i" and "i < j" and "j < i + block_size fr i"
  shows "\<not> block_head fr j"
  using assms blocks_apart [of fr i j] by auto

text \<open>A page belongs to one block only.\<close>

lemma block_unique:
  assumes "tiling fr" and "block_head fr i" and "i \<le> k" and "k < i + block_size fr i"
    and "block_head fr j" and "j \<le> k" and "k < j + block_size fr j"
  shows "i = j"
proof (rule ccontr)
  assume "i \<noteq> j"
  then consider "i < j" | "j < i" by linarith
  then show False
  proof cases
    case 1
    with assms show False using blocks_apart [of fr i j] by linarith
  next
    case 2
    with assms show False using blocks_apart [of fr j i] by linarith
  qed
qed

section \<open>Splitting a block and joining two\<close>

definition split_frames :: "int \<Rightarrow> (int \<Rightarrow> frame_info) \<Rightarrow> int \<Rightarrow> frame_info" where
  "split_frames i fr =
     (let l = fi_index (fr i) - 1; b = i + 2 ^ nat l in
      fr(i := (fr i)\<lparr>fi_index := l\<rparr>, b := (fr b)\<lparr>fi_index := l\<rparr>))"

definition join_frames :: "int \<Rightarrow> (int \<Rightarrow> frame_info) \<Rightarrow> int \<Rightarrow> frame_info" where
  "join_frames i fr =
     (let l = fi_index (fr i); b = i + 2 ^ nat l in
      fr(b := (fr b)\<lparr>fi_index := PAGE_FREE\<rparr>, i := (fr i)\<lparr>fi_index := l + 1\<rparr>))"

text \<open>The upper half of a block that is not a single page.\<close>

lemma upper_half:
  assumes "tiling fr" and "block_head fr i" and "1 \<le> fi_index (fr i)"
  defines "h \<equiv> 2 ^ nat (fi_index (fr i) - 1)"
  shows "block_size fr i = h + h" and "i < i + h" and "0 \<le> i + h" and "i + h < PAGE_MAX_ENTRY"
    and "fi_index (fr (i + h)) < 0" and "fi_status (fr (i + h)) = 0" and "h dvd i"
    and "i + (h + h) \<le> PAGE_MAX_ENTRY"
proof -
  have ok: "block_ok fr i" using assms by (blast intro: tilingD_ok)
  show sz: "block_size fr i = h + h"
    using two_power_split [of "fi_index (fr i)"] assms(3) by (simp add: block_size_def h_def)
  show gt: "i < i + h" by (simp add: h_def)
  show ge: "0 \<le> i + h" using gt assms(2) by (simp add: block_head_def)
  show lim: "i + (h + h) \<le> PAGE_MAX_ENTRY" using ok sz by (simp add: block_ok_def)
  then show lt: "i + h < PAGE_MAX_ENTRY" using gt by simp
  have "i + h < i + block_size fr i" using gt sz by simp
  then show neg: "fi_index (fr (i + h)) < 0" using ok gt by (simp add: block_ok_def)
  show "fi_status (fr (i + h)) = 0" by (rule tilingD_status [OF assms(1) ge lt neg])
  have "h + h dvd i" using ok sz by (simp add: block_ok_def)
  then show "h dvd i" by (metis dvd_trans dvd_add_triv_left_iff dvd_refl)
qed

lemma split_block_head:
  assumes "tiling fr" and "block_head fr i" and "1 \<le> fi_index (fr i)"
  shows "block_head (split_frames i fr) j \<longleftrightarrow>
    block_head fr j \<or> j = i + 2 ^ nat (fi_index (fr i) - 1)"
  using assms upper_half [OF assms] by (auto simp: split_frames_def Let_def block_head_def)

lemma split_index:
  assumes "tiling fr" and "block_head fr i" and "1 \<le> fi_index (fr i)"
  shows "fi_index (split_frames i fr j) =
    (if j = i \<or> j = i + 2 ^ nat (fi_index (fr i) - 1) then fi_index (fr i) - 1 else fi_index (fr j))"
  by (simp add: split_frames_def Let_def)

lemma split_status [simp]: "fi_status (split_frames i fr j) = fi_status (fr j)"
  by (simp add: split_frames_def Let_def)

lemma split_block_ok:
  assumes "tiling fr" and "block_head fr i" and "1 \<le> fi_index (fr i)"
    and "block_head (split_frames i fr) a"
  shows "block_ok (split_frames i fr) a"
proof -
  define h :: int where "h = 2 ^ nat (fi_index (fr i) - 1)"
  note u = upper_half [OF assms(1-3), folded h_def]
  note ix = split_index [OF assms(1-3), folded h_def]
  have ok: "block_ok fr i" using assms by (blast intro: tilingD_ok)
  consider "a = i" | "a = i + h" | "block_head fr a" "a \<noteq> i" "a \<noteq> i + h"
    using assms(4) split_block_head [OF assms(1-3)] unfolding h_def by blast
  then show ?thesis
  proof cases
    case 1
    have "block_size (split_frames i fr) i = h" by (simp add: block_size_def ix h_def)
    moreover have "fi_index (split_frames i fr j) < 0" if "i < j" "j < i + h" for j
      using ok that u by (simp add: ix block_ok_def)
    ultimately show ?thesis using 1 ok u by (simp add: block_ok_def ix)
  next
    case 2
    have "block_size (split_frames i fr) (i + h) = h" by (simp add: block_size_def ix h_def)
    moreover have "fi_index (split_frames i fr j) < 0" if "i + h < j" "j < i + h + h" for j
      using ok that u by (simp add: ix block_ok_def)
    ultimately show ?thesis using 2 ok u by (simp add: block_ok_def ix)
  next
    case 3
    have oka: "block_ok fr a" using 3 assms(1) by (blast intro: tilingD_ok)
    have sz: "block_size (split_frames i fr) a = block_size fr a"
      using 3 by (simp add: block_size_def ix)
    have "fi_index (split_frames i fr j) < 0" if j: "a < j" "j < a + block_size fr a" for j
    proof -
      have "j \<noteq> i" using inside_not_head [OF assms(1) 3(1) j] assms(2) by blast
      moreover have "j \<noteq> i + h"
        using block_unique [OF assms(1) 3(1) _ j(2) assms(2)] j 3 u by auto
      ultimately show ?thesis using oka j by (simp add: ix block_ok_def)
    qed
    then show ?thesis using 3 oka sz by (simp add: block_ok_def ix)
  qed
qed

lemma split_tiling:
  assumes "tiling fr" and "block_head fr i" and "1 \<le> fi_index (fr i)"
  shows "tiling (split_frames i fr)"
proof (rule tilingI)
  fix a assume "block_head (split_frames i fr) a"
  then show "block_ok (split_frames i fr) a" by (rule split_block_ok [OF assms])
next
  define h :: int where "h = 2 ^ nat (fi_index (fr i) - 1)"
  note u = upper_half [OF assms, folded h_def]
  note ix = split_index [OF assms, folded h_def]
  note bh = split_block_head [OF assms, folded h_def]
  fix j assume j: "0 \<le> j" "j < PAGE_MAX_ENTRY"
  obtain a where a: "block_head fr a" "a \<le> j" "j < a + block_size fr a"
    using assms(1) j by (rule tilingD_cover)
  show "\<exists>i'. block_head (split_frames i fr) i' \<and> i' \<le> j \<and> j < i' + block_size (split_frames i fr) i'"
  proof (cases "a = i")
    case True
    have "block_size (split_frames i fr) i = h" "block_size (split_frames i fr) (i + h) = h"
      by (simp_all add: block_size_def ix h_def)
    then show ?thesis using True a u bh assms(2)
      by (cases "j < i + h") (force intro: exI [of _ i] exI [of _ "i + h"])+
  next
    case False
    have "a \<noteq> i + h" using a(1) u by (auto simp: block_head_def)
    then have "block_size (split_frames i fr) a = block_size fr a"
      using False by (simp add: block_size_def ix)
    then show ?thesis using a bh by auto
  qed
next
  fix j assume "0 \<le> j" "j < PAGE_MAX_ENTRY" "fi_status (split_frames i fr j) \<noteq> 0"
  then have "0 \<le> fi_index (fr j)" using assms(1) by (simp add: tiling_def)
  then show "0 \<le> fi_index (split_frames i fr j)"
    using split_index [OF assms, of j] assms(3) by simp
qed

text \<open>The free blocks after a free block is split.\<close>

lemma split_free_head:
  assumes "tiling fr" and "free_head fr l i" and "1 \<le> l"
  shows "free_head (split_frames i fr) k j \<longleftrightarrow>
    (if j = i \<or> j = i + 2 ^ nat (l - 1) then k = l - 1 else free_head fr k j)"
proof -
  have hd: "block_head fr i" "fi_index (fr i) = l" "fi_status (fr i) = 0"
    using assms(2) by (simp_all add: free_head_def)
  have pos: "1 \<le> fi_index (fr i)" using hd assms(3) by simp
  show ?thesis
    using upper_half [OF assms(1) hd(1) pos] split_block_head [OF assms(1) hd(1) pos, of j]
      split_index [OF assms(1) hd(1) pos, of j] hd
    by (auto simp: free_head_def)
qed

text \<open>Two blocks of one order that lie next to each other, the first aligned for the next order.\<close>

definition buddies :: "(int \<Rightarrow> frame_info) \<Rightarrow> int \<Rightarrow> bool" where
  "buddies fr i \<longleftrightarrow>
     block_head fr i \<and> block_head fr (i + block_size fr i) \<and>
     fi_index (fr (i + block_size fr i)) = fi_index (fr i) \<and>
     fi_index (fr i) < PAGE_MAX_ORDER \<and> 2 * block_size fr i dvd i \<and>
     fi_status (fr (i + block_size fr i)) = 0"

lemma join_index:
  "fi_index (join_frames i fr j) =
    (if j = i then fi_index (fr i) + 1 else if j = i + block_size fr i then PAGE_FREE
     else fi_index (fr j))"
  by (simp add: join_frames_def Let_def block_size_def)

lemma join_status [simp]: "fi_status (join_frames i fr j) = fi_status (fr j)"
  by (simp add: join_frames_def Let_def)

lemma join_block_head:
  assumes "buddies fr i"
  shows "block_head (join_frames i fr) j \<longleftrightarrow> block_head fr j \<and> j \<noteq> i + block_size fr i"
  using assms by (auto simp: buddies_def block_head_def join_index PAGE_FREE_def)

lemma join_block_size:
  assumes "buddies fr i"
  shows "block_size (join_frames i fr) i = block_size fr i + block_size fr i"
  using assms two_power_join [of "fi_index (fr i)"]
  by (simp add: block_size_def join_index buddies_def block_head_def)

lemma join_block_size_other:
  "j \<noteq> i \<Longrightarrow> j \<noteq> i + block_size fr i \<Longrightarrow> block_size (join_frames i fr) j = block_size fr j"
  by (simp add: block_size_def join_index)

lemma join_block_ok:
  assumes "tiling fr" and "buddies fr i" and "block_head (join_frames i fr) a"
  shows "block_ok (join_frames i fr) a"
proof -
  define h where "h = block_size fr i"
  have hd: "block_head fr i" "block_head fr (i + h)" and ix: "fi_index (fr (i + h)) = fi_index (fr i)"
    and lt: "fi_index (fr i) < PAGE_MAX_ORDER" and al: "2 * h dvd i"
    using assms(2) by (simp_all add: buddies_def h_def)
  have ok: "block_ok fr i" "block_ok fr (i + h)" using assms(1) hd by (blast intro: tilingD_ok)+
  have szb: "block_size fr (i + h) = h" using ix by (simp add: h_def block_size_def)
  note sz = join_block_size [OF assms(2), folded h_def]
  have a: "block_head fr a" "a \<noteq> i + h"
    using assms(3) join_block_head [OF assms(2)] by (simp_all add: h_def)
  show ?thesis
  proof (cases "a = i")
    case True
    have neg: "fi_index (join_frames i fr j) < 0" if "i < j" "j < i + (h + h)" for j
    proof -
      consider "j < i + h" | "j = i + h" | "i + h < j" by linarith
      then show ?thesis
      proof cases
        case 1
        then have "fi_index (fr j) < 0"
          using block_okD(4) [OF ok(1), of j] that by (simp add: h_def)
        then show ?thesis using 1 that by (simp add: join_index h_def)
      next
        case 2
        then show ?thesis using that by (simp add: join_index h_def PAGE_FREE_def)
      next
        case 3
        then have "fi_index (fr j) < 0"
          using block_okD(4) [OF ok(2), of j] that by (simp add: szb add.assoc)
        then show ?thesis using 3 that by (simp add: join_index h_def)
      qed
    qed
    have lim: "i + (h + h) \<le> PAGE_MAX_ENTRY"
      using block_okD(3) [OF ok(2)] szb by linarith
    have al2: "h + h dvd i" using al by (simp only: mult_2)
    have "fi_index (join_frames i fr i) \<le> PAGE_MAX_ORDER" using lt by (simp add: join_index)
    then show ?thesis unfolding True block_ok_def sz using lim al2 neg by blast
  next
    case False
    have oka: "block_ok fr a" using a assms(1) by (blast intro: tilingD_ok)
    have s: "block_size (join_frames i fr) a = block_size fr a"
      using False a by (simp add: join_block_size_other h_def)
    have "fi_index (join_frames i fr j) < 0" if j: "a < j" "j < a + block_size fr a" for j
    proof -
      have "\<not> block_head fr j" by (rule inside_not_head [OF assms(1) a(1) j])
      then have "j \<noteq> i" using hd by blast
      then show ?thesis using oka j by (simp add: join_index block_ok_def PAGE_FREE_def)
    qed
    then show ?thesis using False a oka s by (simp add: block_ok_def join_index h_def)
  qed
qed

lemma join_tiling:
  assumes "tiling fr" and "buddies fr i"
  shows "tiling (join_frames i fr)"
proof (rule tilingI)
  fix a assume "block_head (join_frames i fr) a"
  then show "block_ok (join_frames i fr) a" by (rule join_block_ok [OF assms])
next
  define h where "h = block_size fr i"
  note sz = join_block_size [OF assms(2), folded h_def]
  note bh = join_block_head [OF assms(2), folded h_def]
  have szb: "block_size fr (i + h) = h"
    using assms(2) by (simp add: h_def block_size_def buddies_def)
  have hd: "block_head (join_frames i fr) i"
    using bh assms(2) block_size_pos [of fr i] by (simp add: buddies_def h_def)
  fix j assume j: "0 \<le> j" "j < PAGE_MAX_ENTRY"
  obtain a where a: "block_head fr a" "a \<le> j" "j < a + block_size fr a"
    using assms(1) j by (rule tilingD_cover)
  have h: "0 < h" by (simp add: h_def)
  show "\<exists>i'. block_head (join_frames i fr) i' \<and> i' \<le> j \<and> j < i' + block_size (join_frames i fr) i'"
  proof (cases "a = i \<or> a = i + h")
    case True
    then have "i \<le> j" "j < i + (h + h)" using a h szb by (auto simp: h_def)
    then show ?thesis using hd sz by auto
  next
    case False
    then have "block_size (join_frames i fr) a = block_size fr a"
      by (simp add: join_block_size_other h_def)
    then show ?thesis using False a bh by auto
  qed
next
  fix j assume j: "0 \<le> j" "j < PAGE_MAX_ENTRY" "fi_status (join_frames i fr j) \<noteq> 0"
  then have "0 \<le> fi_index (fr j)" using assms(1) by (simp add: tiling_def)
  moreover have "j \<noteq> i + block_size fr i" using j assms(2) by (auto simp: buddies_def)
  ultimately show "0 \<le> fi_index (join_frames i fr j)"
    using assms(2) by (simp add: join_index buddies_def block_head_def)
qed

lemma join_free_head:
  assumes "buddies fr i" and "fi_status (fr i) = 0"
  shows "free_head (join_frames i fr) k j \<longleftrightarrow>
    (if j = i then k = fi_index (fr i) + 1
     else j \<noteq> i + block_size fr i \<and> free_head fr k j)"
  using assms block_size_pos [of fr i]
  by (auto simp: free_head_def join_block_head join_index buddies_def)

section \<open>The free pages\<close>

definition free_pages :: "(int \<Rightarrow> frame_info) \<Rightarrow> int set" where
  "free_pages fr = {p. \<exists>l i. free_head fr l i \<and> i \<le> p \<and> p < i + 2 ^ nat l}"

lemma free_pagesI: "free_head fr l i \<Longrightarrow> i \<le> p \<Longrightarrow> p < i + 2 ^ nat l \<Longrightarrow> p \<in> free_pages fr"
  unfolding free_pages_def by blast

lemma free_pagesE:
  assumes "p \<in> free_pages fr"
  obtains l i where "free_head fr l i" and "i \<le> p" and "p < i + 2 ^ nat l"
  using assms unfolding free_pages_def by blast

lemma free_head_size: "free_head fr l i \<Longrightarrow> block_size fr i = 2 ^ nat l"
  by (simp add: free_head_def block_size_def)

lemma free_head_bounds:
  assumes "tiling fr" and "free_head fr l i"
  shows "0 \<le> l" and "l \<le> PAGE_MAX_ORDER" and "0 \<le> i" and "i + 2 ^ nat l \<le> PAGE_MAX_ENTRY"
    and "2 ^ nat l dvd i"
proof -
  have "block_ok fr i" using assms by (auto simp: free_head_def intro: tilingD_ok)
  then have ok: "fi_index (fr i) \<le> PAGE_MAX_ORDER" "block_size fr i dvd i"
    "i + block_size fr i \<le> PAGE_MAX_ENTRY" by (blast dest: block_okD)+
  have "fi_index (fr i) = l" using assms(2) by (simp add: free_head_def)
  then show "l \<le> PAGE_MAX_ORDER" and "i + 2 ^ nat l \<le> PAGE_MAX_ENTRY" and "2 ^ nat l dvd i"
    using ok by (simp_all add: free_head_size [OF assms(2)])
  show "0 \<le> l" and "0 \<le> i" using assms(2) by (auto simp: free_head_def block_head_def)
qed

text \<open>Splitting does not change which pages are free.\<close>

lemma split_free_pages:
  assumes "tiling fr" and "free_head fr l i" and "1 \<le> l"
  shows "free_pages (split_frames i fr) = free_pages fr"
proof -
  define h :: int where "h = 2 ^ nat (l - 1)"
  have sz: "(2::int) ^ nat l = h + h" using two_power_split [of l] assms(3) by (simp add: h_def)
  have h: "0 < h" by (simp add: h_def)
  note fh = split_free_head [OF assms, folded h_def]
  show ?thesis
  proof (rule set_eqI, rule iffI)
    fix p assume "p \<in> free_pages (split_frames i fr)"
    then obtain k j where kj: "free_head (split_frames i fr) k j" "j \<le> p" "p < j + 2 ^ nat k"
      by (rule free_pagesE)
    show "p \<in> free_pages fr"
    proof (cases "j = i \<or> j = i + h")
      case True
      then have "2 ^ nat k = h" using kj(1) fh by (auto simp: h_def)
      then have "i \<le> p" "p < i + 2 ^ nat l" using True kj h sz by auto
      then show ?thesis using assms(2) by (blast intro: free_pagesI)
    next
      case False
      then show ?thesis using kj fh by (auto intro: free_pagesI)
    qed
  next
    fix p assume "p \<in> free_pages fr"
    then obtain k j where kj: "free_head fr k j" "j \<le> p" "p < j + 2 ^ nat k"
      by (rule free_pagesE)
    have "block_head fr i" "1 \<le> fi_index (fr i)" "fi_index (fr i) = l"
      using assms by (auto simp: free_head_def)
    note u = upper_half [OF assms(1) this(1,2), unfolded this(3), folded h_def]
    show "p \<in> free_pages (split_frames i fr)"
    proof (cases "j = i")
      case True
      then have "k = l" using kj(1) assms(2) by (auto simp: free_head_def)
      show ?thesis
      proof (cases "p < i + h")
        case True
        have "free_head (split_frames i fr) (l - 1) i" using fh by simp
        then show ?thesis using True kj \<open>j = i\<close> by (auto simp: h_def intro: free_pagesI)
      next
        case False
        have "free_head (split_frames i fr) (l - 1) (i + h)" using fh by simp
        moreover have "p < i + h + 2 ^ nat (l - 1)"
          using kj \<open>j = i\<close> \<open>k = l\<close> sz by (simp add: h_def)
        ultimately show ?thesis using False by (auto intro: free_pagesI)
      qed
    next
      case False
      have "j \<noteq> i + h" using u(5) kj(1) by (auto simp: free_head_def block_head_def)
      then have "free_head (split_frames i fr) k j" using False fh kj(1) by simp
      then show ?thesis using kj by (blast intro: free_pagesI)
    qed
  qed
qed

text \<open>Frames with the same blocks, whatever the marks inside them.\<close>

lemma tiling_same:
  assumes "tiling fr"
    and ix: "\<And>j. fi_index (fr' j) = fi_index (fr j) \<or> fi_index (fr j) < 0 \<and> fi_index (fr' j) < 0"
    and st: "\<And>j. 0 \<le> j \<Longrightarrow> j < PAGE_MAX_ENTRY \<Longrightarrow> fi_status (fr' j) \<noteq> 0 \<Longrightarrow> 0 \<le> fi_index (fr j)"
  shows "tiling fr'"
proof -
  have pos: "0 \<le> fi_index (fr' j) \<longleftrightarrow> 0 \<le> fi_index (fr j)" for j using ix [of j] by linarith
  have eq: "fi_index (fr' j) = fi_index (fr j)" if "0 \<le> fi_index (fr j)" for j
    using ix [of j] that by linarith
  have bh: "block_head fr' j \<longleftrightarrow> block_head fr j" for j by (simp add: block_head_def pos)
  have sz: "block_size fr' j = block_size fr j" if "block_head fr j" for j
    using that eq [of j] by (simp add: block_size_def block_head_def)
  show ?thesis
  proof (rule tilingI)
    fix i assume "block_head fr' i"
    then have hd: "block_head fr i" by (simp add: bh)
    then have ok: "block_ok fr i" using assms(1) by (blast intro: tilingD_ok)
    have "fi_index (fr' j) < 0" if "i < j" "j < i + block_size fr i" for j
      using block_okD(4) [OF ok that] pos [of j] by linarith
    moreover have "fi_index (fr' i) = fi_index (fr i)" using hd eq by (simp add: block_head_def)
    ultimately show "block_ok fr' i"
      unfolding block_ok_def sz [OF hd] using block_okD(1-3) [OF ok] by simp
  next
    fix j assume "0 \<le> j" "j < PAGE_MAX_ENTRY"
    with assms(1) obtain i where "block_head fr i" "i \<le> j" "j < i + block_size fr i"
      by (rule tilingD_cover)
    then show "\<exists>i. block_head fr' i \<and> i \<le> j \<and> j < i + block_size fr' i" using bh sz by metis
  next
    fix j assume "0 \<le> j" "j < PAGE_MAX_ENTRY" "fi_status (fr' j) \<noteq> 0"
    then show "0 \<le> fi_index (fr' j)" using st pos by blast
  qed
qed

end
