(* ===== verification/Chain.thy ===== *)
theory Chain
  imports KBase
begin

text \<open>
  Linked lists in memory. The kernel links its free pages, its memory pools, its tasks and its
  timers through \<open>next\<close> fields; \<open>chain nx p as\<close> says that following \<open>nx\<close> from the
  pointer \<open>p\<close> visits the nodes \<open>as\<close> and ends at \<open>NULL\<close>, and \<open>backlinks pv q as\<close>
  that each node of \<open>as\<close> points back with \<open>pv\<close> to the node before it (the first one to
  \<open>q\<close>).
\<close>

primrec chain :: "('p \<Rightarrow> 'p option) \<Rightarrow> 'p option \<Rightarrow> 'p list \<Rightarrow> bool" where
  "chain nx p [] \<longleftrightarrow> p = None"
| "chain nx p (a # as) \<longleftrightarrow> p = Some a \<and> chain nx (nx a) as"

primrec path :: "('p \<Rightarrow> 'p option) \<Rightarrow> 'p option \<Rightarrow> 'p list \<Rightarrow> 'p option \<Rightarrow> bool" where
  "path nx p [] q \<longleftrightarrow> p = q"
| "path nx p (a # as) q \<longleftrightarrow> p = Some a \<and> path nx (nx a) as q"

primrec backlinks :: "('p \<Rightarrow> 'p option) \<Rightarrow> 'p option \<Rightarrow> 'p list \<Rightarrow> bool" where
  "backlinks pv q [] \<longleftrightarrow> True"
| "backlinks pv q (a # as) \<longleftrightarrow> pv a = q \<and> backlinks pv (Some a) as"

lemma chain_None [simp]: "chain nx None as \<longleftrightarrow> as = []"
  by (cases as) auto

lemma chain_Some: "chain nx (Some a) as \<longleftrightarrow> (\<exists>bs. as = a # bs \<and> chain nx (nx a) bs)"
  by (cases as) auto

lemma chain_append: "chain nx p (as @ bs) \<longleftrightarrow> (\<exists>q. path nx p as q \<and> chain nx q bs)"
  by (induction as arbitrary: p) auto

lemma path_append: "path nx p (as @ bs) q \<longleftrightarrow> (\<exists>r. path nx p as r \<and> path nx r bs q)"
  by (induction as arbitrary: p) auto

lemma path_nonempty: "path nx p as q \<Longrightarrow> as \<noteq> [] \<Longrightarrow> p = Some (hd as)"
  by (cases as) auto

lemma chain_cong:
  "(\<And>a. a \<in> set as \<Longrightarrow> nx a = nx' a) \<Longrightarrow> chain nx p as \<longleftrightarrow> chain nx' p as"
  by (induction as arbitrary: p) auto

lemma path_cong:
  "(\<And>a. a \<in> set as \<Longrightarrow> nx a = nx' a) \<Longrightarrow> path nx p as q \<longleftrightarrow> path nx' p as q"
  by (induction as arbitrary: p) auto

lemma backlinks_cong:
  "(\<And>a. a \<in> set as \<Longrightarrow> pv a = pv' a) \<Longrightarrow> backlinks pv q as \<longleftrightarrow> backlinks pv' q as"
  by (induction as arbitrary: q) auto

lemma chain_upd [simp]: "a \<notin> set as \<Longrightarrow> chain (nx(a := q)) p as \<longleftrightarrow> chain nx p as"
  by (rule chain_cong) auto

lemma path_upd [simp]: "a \<notin> set as \<Longrightarrow> path (nx(a := r)) p as q \<longleftrightarrow> path nx p as q"
  by (rule path_cong) auto

lemma backlinks_upd [simp]: "a \<notin> set as \<Longrightarrow> backlinks (pv(a := r)) q as \<longleftrightarrow> backlinks pv q as"
  by (rule backlinks_cong) auto

lemma backlinks_append:
  "backlinks pv q (as @ bs) \<longleftrightarrow>
     backlinks pv q as \<and> backlinks pv (if as = [] then q else Some (last as)) bs"
  by (induction as arbitrary: q) auto

text \<open>A pointer has one chain, and no node occurs twice on it.\<close>

lemma chain_unique: "chain nx p as \<Longrightarrow> chain nx p bs \<Longrightarrow> as = bs"
proof (induction as arbitrary: p bs)
  case Nil
  then show ?case by simp
next
  case (Cons a as)
  then show ?case by (auto simp: chain_Some)
qed

lemma chain_suffix:
  assumes "chain nx p (as @ a # bs)"
  shows "chain nx (nx a) bs"
  using assms by (auto simp: chain_append)

lemma chain_distinct: "chain nx p as \<Longrightarrow> distinct as"
proof (induction as arbitrary: p)
  case Nil
  then show ?case by simp
next
  case (Cons a as)
  have "a \<notin> set as"
  proof
    assume "a \<in> set as"
    then obtain xs ys where "as = xs @ a # ys" by (auto simp: in_set_conv_decomp)
    moreover have "chain nx (nx a) as" using Cons.prems by simp
    ultimately have "chain nx (nx a) ys" and "chain nx (nx a) as"
      by (auto dest: chain_suffix)
    then have "ys = as" by (rule chain_unique)
    with \<open>as = xs @ a # ys\<close> show False by simp
  qed
  then show ?case using Cons by auto
qed

text \<open>Appending a node: its predecessor's link, or the list's head, is redirected to it.\<close>

lemma path_snoc:
  "path nx p as (Some a) \<Longrightarrow> path nx p (as @ [a]) (nx a)"
  by (simp add: path_append)

lemma chain_snoc:
  assumes "chain nx p (as @ [z])" and "a \<notin> set (as @ [z])"
  shows "chain (nx(z := Some a, a := None)) p (as @ [z, a])"
proof -
  have d: "distinct (as @ [z])" using assms(1) by (rule chain_distinct)
  obtain q where "path nx p as q" "q = Some z" using assms(1) by (auto simp: chain_append)
  then show ?thesis using assms(2) d by (auto simp: chain_append)
qed

text \<open>Unlinking a node: the link into it is redirected to its successor.\<close>

lemma chain_delete_head: "chain nx p (a # as) \<Longrightarrow> chain nx (nx a) as"
  by simp

lemma chain_delete:
  assumes "chain nx p (as @ a # bs)" and "as \<noteq> []"
  shows "chain (nx(last as := nx a)) p (as @ bs)"
proof -
  obtain cs z where as: "as = cs @ [z]" using assms(2) by (cases as rule: rev_cases) auto
  have "distinct (as @ a # bs)" using assms(1) by (rule chain_distinct)
  then show ?thesis using assms(1) unfolding as by (auto simp: chain_append path_append)
qed

lemma backlinks_delete_last: "backlinks pv q (as @ [a]) \<Longrightarrow> backlinks pv q as"
  by (simp add: backlinks_append)

lemma backlinks_delete:
  assumes "backlinks pv q (as @ a # b # bs)" and "distinct (as @ a # b # bs)"
  shows "backlinks (pv(b := pv a)) q (as @ b # bs)"
  using assms by (auto simp: backlinks_append)

end
