(* ===== verification/PageLists.thy ===== *)
theory PageLists
  imports PageInv Chain
begin

text \<open>
  The free lists of the page allocator as chains of \<open>page_item\<close>s, and what the two list
  operations do to them. \<open>lists_rep s L\<close> says that memory holds the lists \<open>L\<close>;
  \<open>tails_ok s L\<close> that the \<open>previous\<close> fields are right too, but for the first node of each
  list, where the code that takes the first block of a list leaves a stale one. \<open>add_page_item\<close>
  repairs its list (\<open>back_at\<close>), and \<open>delete_page_item\<close> needs a repaired list.
\<close>

type_synonym free_lists = "int \<Rightarrow> int list"

definition item_next :: "page_state \<Rightarrow> addr \<Rightarrow> addr option" where
  "item_next s a = pi_next (page_mem s a)"

definition item_prev :: "page_state \<Rightarrow> addr \<Rightarrow> addr option" where
  "item_prev s a = pi_previous (page_mem s a)"

definition lists_rep :: "page_state \<Rightarrow> free_lists \<Rightarrow> bool" where
  "lists_rep s L \<longleftrightarrow>
     (\<forall>l. l < 0 \<or> PAGE_MAX_ORDER < l \<longrightarrow> L l = []) \<and>
     (\<forall>l. 0 \<le> l \<and> l \<le> PAGE_MAX_ORDER \<longrightarrow>
        chain (item_next s) (page_list s l) (map item_addr (L l))) \<and>
     (\<forall>l. \<forall>i \<in> set (L l). pi_index (page_mem s (item_addr i)) = i) \<and>
     (\<forall>l k i. i \<in> set (L l) \<longrightarrow> i \<in> set (L k) \<longrightarrow> l = k)"

definition back_at :: "page_state \<Rightarrow> int list \<Rightarrow> bool" where
  "back_at s is \<longleftrightarrow> backlinks (item_prev s) None (map item_addr is)"

definition tail_ok :: "page_state \<Rightarrow> int list \<Rightarrow> bool" where
  "tail_ok s is \<longleftrightarrow> (is = [] \<or>
     backlinks (item_prev s) (Some (item_addr (hd is))) (map item_addr (tl is)))"

definition tails_ok :: "page_state \<Rightarrow> free_lists \<Rightarrow> bool" where
  "tails_ok s L \<longleftrightarrow> (\<forall>l. tail_ok s (L l))"

lemma back_at_tail: "back_at s is \<Longrightarrow> tail_ok s is"
  by (cases "is") (simp_all add: back_at_def tail_ok_def)

lemma tail_ok_Cons [simp]:
  "tail_ok s (i # r) \<longleftrightarrow> backlinks (item_prev s) (Some (item_addr i)) (map item_addr r)"
  by (simp add: tail_ok_def)

lemma tail_ok_Nil [simp]: "tail_ok s []"
  by (simp add: tail_ok_def)

lemma tail_ok_tl: "tail_ok s (i # r) \<Longrightarrow> tail_ok s r"
  by (cases r) simp_all

lemma tail_ok_cong:
  "(\<And>i. i \<in> set (tl is) \<Longrightarrow> item_prev s' (item_addr i) = item_prev s (item_addr i)) \<Longrightarrow>
   tail_ok s' is \<longleftrightarrow> tail_ok s is"
  unfolding tail_ok_def
  using backlinks_cong [of "map item_addr (tl is)" "item_prev s'" "item_prev s"] by auto

lemma tails_okI: "(\<And>l. tail_ok s (L l)) \<Longrightarrow> tails_ok s L"
  by (simp add: tails_ok_def)

lemma tails_okD: "tails_ok s L \<Longrightarrow> tail_ok s (L l)"
  by (simp add: tails_ok_def)

lemma item_addr_inj [simp]: "item_addr i = item_addr j \<longleftrightarrow> i = j"
  by (simp add: item_addr_def)

lemma item_addr_image [simp]: "item_addr i \<in> item_addr ` A \<longleftrightarrow> i \<in> A"
  by (auto simp: image_iff)

lemma lists_repD:
  assumes "lists_rep s L"
  shows "0 \<le> l \<Longrightarrow> l \<le> PAGE_MAX_ORDER \<Longrightarrow> chain (item_next s) (page_list s l) (map item_addr (L l))"
    and "i \<in> set (L l) \<Longrightarrow> pi_index (page_mem s (item_addr i)) = i"
    and "i \<in> set (L l) \<Longrightarrow> i \<in> set (L k) \<Longrightarrow> l = k"
    and "L l \<noteq> [] \<Longrightarrow> 0 \<le> l \<and> l \<le> PAGE_MAX_ORDER"
proof -
  have a: "\<forall>l. l < 0 \<or> PAGE_MAX_ORDER < l \<longrightarrow> L l = []"
    using assms unfolding lists_rep_def by (elim conjE)
  have b: "\<forall>l. 0 \<le> l \<and> l \<le> PAGE_MAX_ORDER \<longrightarrow>
        chain (item_next s) (page_list s l) (map item_addr (L l))"
    using assms unfolding lists_rep_def by (elim conjE)
  have c: "\<forall>l. \<forall>i \<in> set (L l). pi_index (page_mem s (item_addr i)) = i"
    using assms unfolding lists_rep_def by (elim conjE)
  have d: "\<forall>l k i. i \<in> set (L l) \<longrightarrow> i \<in> set (L k) \<longrightarrow> l = k"
    using assms unfolding lists_rep_def by (elim conjE)
  show "0 \<le> l \<Longrightarrow> l \<le> PAGE_MAX_ORDER \<Longrightarrow> chain (item_next s) (page_list s l) (map item_addr (L l))"
    using b by simp
  show "i \<in> set (L l) \<Longrightarrow> pi_index (page_mem s (item_addr i)) = i" using c by blast
  show "i \<in> set (L l) \<Longrightarrow> i \<in> set (L k) \<Longrightarrow> l = k" using d by blast
  show "L l \<noteq> [] \<Longrightarrow> 0 \<le> l \<and> l \<le> PAGE_MAX_ORDER" using a not_less by blast
qed

lemma lists_repI:
  assumes "\<And>l. L l \<noteq> [] \<Longrightarrow> 0 \<le> l \<and> l \<le> PAGE_MAX_ORDER"
    and "\<And>l. 0 \<le> l \<Longrightarrow> l \<le> PAGE_MAX_ORDER \<Longrightarrow>
      chain (item_next s) (page_list s l) (map item_addr (L l))"
    and "\<And>l i. i \<in> set (L l) \<Longrightarrow> pi_index (page_mem s (item_addr i)) = i"
    and "\<And>l k i. i \<in> set (L l) \<Longrightarrow> i \<in> set (L k) \<Longrightarrow> l = k"
  shows "lists_rep s L"
proof -
  have "L l = []" if "l < 0 \<or> PAGE_MAX_ORDER < l" for l
    using that assms(1) [of l] by fastforce
  then show ?thesis unfolding lists_rep_def using assms(2-4) by simp
qed

lemma lists_rep_distinct:
  assumes "lists_rep s L"
  shows "distinct (L l)"
proof (cases "L l = []")
  case False
  then have "chain (item_next s) (page_list s l) (map item_addr (L l))"
    using lists_repD(1,4) [OF assms] by blast
  then have "distinct (map item_addr (L l))" by (rule chain_distinct)
  then show ?thesis by (simp add: distinct_map)
qed simp

lemma lists_rep_head:
  assumes "lists_rep s L" and "0 \<le> l" and "l \<le> PAGE_MAX_ORDER"
  shows "page_list s l = (case L l of [] \<Rightarrow> None | i # _ \<Rightarrow> Some (item_addr i))"
  using lists_repD(1) [OF assms] by (cases "L l") auto

text \<open>\<open>lists_rep\<close> does not look at the frames.\<close>

lemma item_next_frame [simp]: "item_next (s\<lparr>frame := f\<rparr>) = item_next s"
  by (simp add: item_next_def fun_eq_iff)

lemma item_prev_frame [simp]: "item_prev (s\<lparr>frame := f\<rparr>) = item_prev s"
  by (simp add: item_prev_def fun_eq_iff)

lemma lists_rep_frame [simp]: "lists_rep (s\<lparr>frame := f\<rparr>) L \<longleftrightarrow> lists_rep s L"
  by (simp add: lists_rep_def)

lemma tail_ok_frame [simp]: "tail_ok (s\<lparr>frame := f\<rparr>) is \<longleftrightarrow> tail_ok s is"
  by (simp add: tail_ok_def)

lemma tails_ok_frame [simp]: "tails_ok (s\<lparr>frame := f\<rparr>) L \<longleftrightarrow> tails_ok s L"
  by (simp add: tails_ok_def)

lemma back_at_frame [simp]: "back_at (s\<lparr>frame := f\<rparr>) is \<longleftrightarrow> back_at s is"
  by (simp add: back_at_def)

text \<open>Nor do the links depend on \<open>page_list\<close>; a popped list keeps its links.\<close>

lemma tails_ok_pop:
  assumes "tails_ok s L" and "L l = i # r"
  shows "tails_ok (s\<lparr>page_list := q\<rparr>) (L(l := r))"
proof (rule tails_okI)
  fix k
  have "tail_ok s (L k)" "tail_ok s r"
    using tails_okD [OF assms(1)] tail_ok_tl [of s i r] assms(2) by metis+
  moreover have "tail_ok (s\<lparr>page_list := q\<rparr>) is \<longleftrightarrow> tail_ok s is" for "is"
    by (rule tail_ok_cong) (simp add: item_prev_def)
  ultimately show "tail_ok (s\<lparr>page_list := q\<rparr>) ((L(l := r)) k)" by simp
qed

section \<open>Taking the first block of a list\<close>

lemma lists_rep_pop:
  assumes "lists_rep s L" and "L l = i # r"
  shows "lists_rep (s\<lparr>page_list := (page_list s)(l := pi_next (page_mem s (item_addr i)))\<rparr>) (L(l := r))"
proof -
  have l: "0 \<le> l" "l \<le> PAGE_MAX_ORDER" using assms lists_repD(4) [OF assms(1), of l] by auto
  have ch: "chain (item_next s) (item_next s (item_addr i)) (map item_addr r)"
    using lists_repD(1) [OF assms(1) l] assms(2) by simp
  have nx: "item_next (s\<lparr>page_list := q\<rparr>) = item_next s" for q
    by (simp add: item_next_def fun_eq_iff)
  show ?thesis
  proof (rule lists_repI, unfold nx, goal_cases)
    case (1 k)
    then show ?case using l lists_repD(4) [OF assms(1), of k] by (auto split: if_splits)
  next
    case (2 k)
    then show ?case using ch lists_repD(1) [OF assms(1), of k] by (auto simp: item_next_def)
  next
    case (3 k j)
    then have "j \<in> set (L k)" using assms(2) by (auto split: if_splits)
    then show ?case using lists_repD(2) [OF assms(1)] by simp
  next
    case (4 k k' j)
    then have "j \<in> set (L k)" "j \<in> set (L k')" using assms(2) by (auto split: if_splits)
    then show ?case by (rule lists_repD(3) [OF assms(1)])
  qed
qed

section \<open>add_page_item\<close>

lemma add_page_item_run:
  assumes "0 \<le> i" and "i < PAGE_MAX_ENTRY" and "fi_index (frame s i) = l"
    and "0 \<le> l" and "l \<le> PAGE_MAX_ORDER"
  defines "m \<equiv> (page_mem s)(item_addr i := \<lparr>pi_index = i, pi_previous = None, pi_next = page_list s l\<rparr>)"
  shows "add_page_item i s = Inr (s\<lparr>page_list := (page_list s)(l := Some (item_addr i)),
      page_mem := (case page_list s l of None \<Rightarrow> m
        | Some c \<Rightarrow> m(c := (m c)\<lparr>pi_previous := Some (item_addr i)\<rparr>))\<rparr>)"
  using assms
  by (cases "page_list s l")
    (simp_all add: add_page_item_def frame_get_def list_get_def list_set_def item_set_def
      set_next_def set_previous_def Let_def)

text \<open>A block that is on no list is put in front of the list of its order.\<close>

lemma add_page_item_rep:
  assumes "lists_rep s L" and "0 \<le> i" and "i < PAGE_MAX_ENTRY" and "fi_index (frame s i) = l"
    and "0 \<le> l" and "l \<le> PAGE_MAX_ORDER" and new: "\<And>k. i \<notin> set (L k)" and tails: "tails_ok s L"
  obtains s' where "add_page_item i s = Inr s'" and "frame s' = frame s"
    and "lists_rep s' (L(l := i # L l))" and "tails_ok s' (L(l := i # L l))"
    and "back_at s' (i # L l)"
proof -
  define c where "c = page_list s l"
  define m where "m = (page_mem s)(item_addr i := \<lparr>pi_index = i, pi_previous = None, pi_next = c\<rparr>)"
  define m' where "m' = (case c of None \<Rightarrow> m
    | Some c \<Rightarrow> m(c := (m c)\<lparr>pi_previous := Some (item_addr i)\<rparr>))"
  define s' where "s' = s\<lparr>page_list := (page_list s)(l := Some (item_addr i)), page_mem := m'\<rparr>"
  have run: "add_page_item i s = Inr s'"
    using add_page_item_run [OF assms(2-6)] by (simp only: s'_def m'_def m_def c_def)
  have nx: "item_next s' = (item_next s)(item_addr i := c)"
    by (auto simp: item_next_def s'_def m'_def m_def fun_eq_iff split: option.splits)
  have ix: "pi_index (page_mem s' a) = (if a = item_addr i then i else pi_index (page_mem s a))" for a
    by (auto simp: s'_def m'_def m_def split: option.splits)
  have hd: "c = (case L l of [] \<Rightarrow> None | j # _ \<Rightarrow> Some (item_addr j))"
    using lists_rep_head [OF assms(1,5,6)] by (simp add: c_def)
  have notin: "item_addr i \<notin> set (map item_addr (L k))" for k
    using new by auto
  have rep: "lists_rep s' (L(l := i # L l))"
  proof (rule lists_repI, unfold nx, goal_cases)
    case (1 k)
    then show ?case using assms(5,6) lists_repD(4) [OF assms(1), of k] by (auto split: if_splits)
  next
    case (2 k)
    then show ?case using notin [of k] lists_repD(1) [OF assms(1), of k] c_def
      by (auto simp: s'_def)
  next
    case (3 k j)
    then show ?case using lists_repD(2) [OF assms(1), of j k] lists_repD(2) [OF assms(1), of j l]
      by (auto simp: ix split: if_splits)
  next
    case (4 k k' j)
    then show ?case using new lists_repD(3) [OF assms(1), of j] by (auto split: if_splits)
  qed
  have pv: "item_prev s' a = (if c = Some a \<and> a \<noteq> item_addr i then Some (item_addr i)
    else if a = item_addr i then None else item_prev s a)" for a
    using hd notin [of l]
    by (auto simp: item_prev_def s'_def m'_def m_def split: option.splits list.splits)
  have same: "item_prev s' (item_addr j) = item_prev s (item_addr j)"
    if "j \<in> set (L k)" "k \<noteq> l \<or> j \<in> set (tl (L l))" for j k
  proof -
    have "c \<noteq> Some (item_addr j)"
    proof (cases "k = l")
      case True
      then show ?thesis using that(2) hd lists_rep_distinct [OF assms(1), of l] by (cases "L l") auto
    next
      case False
      then have "j \<notin> set (L l)" using lists_repD(3) [OF assms(1) that(1), of l] by blast
      then show ?thesis using hd by (cases "L l") auto
    qed
    moreover have "j \<noteq> i" using that(1) new [of k] by blast
    ultimately show ?thesis by (simp add: pv)
  qed
  have tail: "tail_ok s' (L k)" for k
  proof -
    have "tail_ok s' (L k) \<longleftrightarrow> tail_ok s (L k)"
    proof (rule tail_ok_cong)
      fix j assume "j \<in> set (tl (L k))"
      then have "j \<in> set (L k)" "k \<noteq> l \<or> j \<in> set (tl (L l))" by (auto intro: list.set_sel(2))
      then show "item_prev s' (item_addr j) = item_prev s (item_addr j)" by (rule same)
    qed
    then show ?thesis using tails_okD [OF tails] by simp
  qed
  have links: "back_at s' (i # L l)"
    using tail [of l] hd notin [of l] by (cases "L l") (auto simp: back_at_def pv)
  have "tails_ok s' (L(l := i # L l))"
    using tail back_at_tail [OF links] by (intro tails_okI) simp
  then show thesis using that run rep links by (simp add: s'_def)
qed

section \<open>delete_page_item\<close>

text \<open>The state without block \<open>i\<close> in its list, of order \<open>l\<close>: the neighbours' links pass it by.\<close>

definition unlinked :: "int \<Rightarrow> int \<Rightarrow> page_state \<Rightarrow> page_state" where
  "unlinked l i s = (let n = item_next s (item_addr i); p = item_prev s (item_addr i) in
     s\<lparr>page_list := (if p = None then (page_list s)(l := n) else page_list s),
       page_mem := (\<lambda>a. (page_mem s a)\<lparr>
         pi_next := (if p = Some a then n else pi_next (page_mem s a)),
         pi_previous := (if n = Some a then p else pi_previous (page_mem s a))\<rparr>)\<rparr>)"

lemma delete_page_item_run:
  assumes "0 \<le> i" and "i < PAGE_MAX_ENTRY" and "fi_index (frame s i) = l" and "0 \<le> l" and "l \<le> PAGE_MAX_ORDER"
  shows "delete_page_item i s = Inr (unlinked l i s)"
  using assms
  by (cases "item_next s (item_addr i)"; cases "item_prev s (item_addr i)")
    (auto simp: delete_page_item_def frame_get_def list_set_def item_set_def item_next_def unlinked_def
      item_prev_def set_next_def set_previous_def Let_def fun_eq_iff intro!: page_state.equality)

lemma unlinked_simps:
  shows "item_next (unlinked l i s) a = (if item_prev s (item_addr i) = Some a then item_next s (item_addr i) else item_next s a)"
    and "item_prev (unlinked l i s) a = (if item_next s (item_addr i) = Some a then item_prev s (item_addr i) else item_prev s a)"
    and "pi_index (page_mem (unlinked l i s) a) = pi_index (page_mem s a)"
    and "page_list (unlinked l i s) k =
      (if k = l \<and> item_prev s (item_addr i) = None then item_next s (item_addr i) else page_list s k)"
    and "frame (unlinked l i s) = frame s"
  by (simp_all add: unlinked_def item_next_def item_prev_def Let_def)

text \<open>The neighbours of a block on a well-linked list, and that no block of another list is one of them.\<close>

lemma neighbours:
  assumes rep: "lists_rep s L" and bk: "back_at s (L l)" and l: "0 \<le> l" "l \<le> PAGE_MAX_ORDER" and L: "L l = xs @ i # ys"
  shows "item_next s (item_addr i) = (if ys = [] then None else Some (item_addr (hd ys)))"
    and "item_prev s (item_addr i) = (if xs = [] then None else Some (item_addr (last xs)))"
    and "k \<noteq> l \<Longrightarrow> j \<in> set (L k) \<Longrightarrow> item_prev s (item_addr i) \<noteq> Some (item_addr j) \<and> item_next s (item_addr i) \<noteq> Some (item_addr j)"
proof -
  have ch: "chain (item_next s) (page_list s l) (map item_addr xs @ item_addr i # map item_addr ys)"
    using lists_repD(1) [OF rep l] L by simp
  have bl: "backlinks (item_prev s) None (map item_addr xs @ item_addr i # map item_addr ys)"
    using bk L by (simp add: back_at_def)
  show n: "item_next s (item_addr i) = (if ys = [] then None else Some (item_addr (hd ys)))"
    using ch by (cases ys) (auto simp: chain_append)
  show p: "item_prev s (item_addr i) = (if xs = [] then None else Some (item_addr (last xs)))"
    using bl by (auto simp: backlinks_append last_map)
  assume "k \<noteq> l" and j: "j \<in> set (L k)"
  then have "j \<notin> set (L l)" using lists_repD(3) [OF rep j, of l] by blast
  then show "item_prev s (item_addr i) \<noteq> Some (item_addr j) \<and> item_next s (item_addr i) \<noteq> Some (item_addr j)"
    using n p L by (auto split: if_splits)
qed

lemma unlinked_chain:
  assumes rep: "lists_rep s L" and bk: "back_at s (L l)" and l: "0 \<le> l" "l \<le> PAGE_MAX_ORDER" and L: "L l = xs @ i # ys"
  shows "chain (item_next (unlinked l i s)) (page_list (unlinked l i s) l) (map item_addr (xs @ ys))"
proof -
  have ch: "chain (item_next s) (page_list s l) (map item_addr xs @ item_addr i # map item_addr ys)"
    using lists_repD(1) [OF rep l] L by simp
  note p = neighbours(2) [OF assms]
  show ?thesis
  proof (cases "xs = []")
    case True
    then have "item_next (unlinked l i s) = item_next s" using p by (simp add: unlinked_simps fun_eq_iff)
    then show ?thesis using ch True p by (simp add: unlinked_simps(4))
  next
    case False
    have "chain ((item_next s)(last (map item_addr xs) := item_next s (item_addr i)))
        (page_list s l) (map item_addr xs @ map item_addr ys)"
      by (rule chain_delete [OF ch]) (use False in simp)
    moreover have "item_next (unlinked l i s) = (item_next s)(last (map item_addr xs) := item_next s (item_addr i))"
      using False p by (auto simp: unlinked_simps last_map fun_eq_iff)
    ultimately show ?thesis using False p by (simp add: unlinked_simps(4))
  qed
qed

lemma unlinked_lists:
  assumes rep: "lists_rep s L" and bk: "back_at s (L l)" and l: "0 \<le> l" "l \<le> PAGE_MAX_ORDER" and L: "L l = xs @ i # ys"
  shows "lists_rep (unlinked l i s) (L(l := xs @ ys))"
proof (rule lists_repI, goal_cases)
  case (1 k)
  then show ?case using l lists_repD(4) [OF rep, of k] by (auto split: if_splits)
next
  case (2 k)
  have "chain (item_next (unlinked l i s)) (page_list (unlinked l i s) k) (map item_addr (L k))" if "k \<noteq> l"
  proof -
    have "chain (item_next s) (page_list s k) (map item_addr (L k))" by (rule lists_repD(1) [OF rep 2])
    moreover have "item_next (unlinked l i s) a = item_next s a" if "a \<in> set (map item_addr (L k))" for a
      using neighbours(3) [OF assms \<open>k \<noteq> l\<close>] that by (auto simp: unlinked_simps)
    ultimately have "chain (item_next (unlinked l i s)) (page_list s k) (map item_addr (L k))"
      using chain_cong [of "map item_addr (L k)" "item_next (unlinked l i s)" "item_next s"] by blast
    then show ?thesis using \<open>k \<noteq> l\<close> by (simp add: unlinked_simps(4))
  qed
  then show ?case using unlinked_chain [OF assms] by auto
next
  case (3 k j)
  then have "j \<in> set (L k)" using L by (auto split: if_splits)
  then show ?case using lists_repD(2) [OF rep] by (simp add: unlinked_simps(3))
next
  case (4 k k' j)
  then have "j \<in> set (L k)" "j \<in> set (L k')" using L by (auto split: if_splits)
  then show ?case by (rule lists_repD(3) [OF rep])
qed

lemma unlinked_back:
  assumes rep: "lists_rep s L" and bk: "back_at s (L l)" and l: "0 \<le> l" "l \<le> PAGE_MAX_ORDER" and L: "L l = xs @ i # ys"
  shows "back_at (unlinked l i s) (xs @ ys)"
proof -
  have bl: "backlinks (item_prev s) None (map item_addr xs @ item_addr i # map item_addr ys)"
    using bk L by (simp add: back_at_def)
  note n = neighbours(1) [OF assms]
  show ?thesis unfolding back_at_def
  proof (cases ys)
    case Nil
    moreover have "item_prev (unlinked l i s) = item_prev s" using n Nil by (simp add: unlinked_simps fun_eq_iff)
    ultimately show "backlinks (item_prev (unlinked l i s)) None (map item_addr (xs @ ys))"
      using bl backlinks_delete_last by auto
  next
    case (Cons y zs)
    have "distinct (map item_addr xs @ item_addr i # item_addr y # map item_addr zs)"
      using lists_rep_distinct [OF rep, of l] unfolding L Cons by (auto simp: distinct_map inj_on_def)
    moreover have "backlinks (item_prev s) None (map item_addr xs @ item_addr i # item_addr y # map item_addr zs)"
      using bl Cons by simp
    ultimately have "backlinks ((item_prev s)(item_addr y := item_prev s (item_addr i))) None
        (map item_addr xs @ item_addr y # map item_addr zs)"
      by (intro backlinks_delete)
    moreover have "item_prev (unlinked l i s) = (item_prev s)(item_addr y := item_prev s (item_addr i))"
      using n Cons by (auto simp: unlinked_simps fun_eq_iff)
    ultimately show "backlinks (item_prev (unlinked l i s)) None (map item_addr (xs @ ys))" using Cons by simp
  qed
qed

lemma unlinked_tails:
  assumes rep: "lists_rep s L" and bk: "back_at s (L l)" and l: "0 \<le> l" "l \<le> PAGE_MAX_ORDER" and L: "L l = xs @ i # ys"
    and tails: "tails_ok s L"
  shows "tails_ok (unlinked l i s) (L(l := xs @ ys))"
proof -
  have "tail_ok (unlinked l i s) (L k)" if "k \<noteq> l" for k
  proof -
    have "tail_ok (unlinked l i s) (L k) \<longleftrightarrow> tail_ok s (L k)"
    proof (rule tail_ok_cong)
      fix j assume "j \<in> set (tl (L k))"
      then have "j \<in> set (L k)" by (auto intro: list.set_sel(2))
      then show "item_prev (unlinked l i s) (item_addr j) = item_prev s (item_addr j)"
        using neighbours(3) [OF rep bk l L \<open>k \<noteq> l\<close>] by (simp add: unlinked_simps)
    qed
    then show ?thesis using tails_okD [OF tails] by simp
  qed
  then show ?thesis using back_at_tail [OF unlinked_back [OF rep bk l L]] by (intro tails_okI) simp
qed

text \<open>A block on a well-linked list is unlinked from it, wherever it stands.\<close>

lemma delete_page_item_rep:
  assumes "lists_rep s L" and "back_at s (L l)" and "0 \<le> i" and "i < PAGE_MAX_ENTRY"
    and "fi_index (frame s i) = l" and "i \<in> set (L l)" and tails: "tails_ok s L"
  obtains s' where "delete_page_item i s = Inr s'" and "frame s' = frame s"
    and "lists_rep s' (L(l := remove1 i (L l)))" and "tails_ok s' (L(l := remove1 i (L l)))"
    and "back_at s' (remove1 i (L l))"
proof -
  have "L l \<noteq> []" using assms(6) by auto
  then have l: "0 \<le> l" "l \<le> PAGE_MAX_ORDER" using lists_repD(4) [OF assms(1)] by simp_all
  obtain xs ys where L: "L l = xs @ i # ys" and xs: "i \<notin> set xs"
    using assms(6) by (meson split_list_first)
  have rm: "remove1 i (L l) = xs @ ys" using L xs by (simp add: remove1_append)
  note H = assms(1,2) l L
  show thesis
    using that [OF delete_page_item_run [OF assms(3-5) l] unlinked_simps(5)] unlinked_lists [OF H] unlinked_tails [OF H tails]
      unlinked_back [OF H] unfolding rm by blast
qed

end
