(* ===== verification/PageAlloc.thy ===== *)
theory PageAlloc
  imports PageLists
begin

text \<open>
  Allocation of pages. The abstraction of the allocator is one list of block indices per order;
  \<open>adivide\<close> and \<open>aallocate\<close> are \<open>page_divide\<close> and \<open>page_allocate\<close> on it, and the
  code refines them (\<open>page_divide_refines\<close>, \<open>page_allocate_refines\<close>). What a call does is
  then read off the lists: when it returns a block, when it follows \<open>NULL\<close>, and when it does
  not return.
\<close>

definition page_inv :: "page_state \<Rightarrow> free_lists \<Rightarrow> bool" where
  "page_inv s L \<longleftrightarrow> tiling (frame s) \<and> lists_rep s L \<and> tails_ok s L \<and>
     (\<forall>l i. i \<in> set (L l) \<longleftrightarrow> free_head (frame s) l i)"

text \<open>The blocks in use are not touched.\<close>

definition used_kept :: "(int \<Rightarrow> frame_info) \<Rightarrow> (int \<Rightarrow> frame_info) \<Rightarrow> bool" where
  "used_kept fr fr' \<longleftrightarrow> (\<forall>j. fi_status (fr j) \<noteq> 0 \<longrightarrow> block_head fr j \<longrightarrow> fr' j = fr j)"

lemma page_invD:
  assumes "page_inv s L"
  shows "tiling (frame s)" and "lists_rep s L" and "i \<in> set (L l) \<longleftrightarrow> free_head (frame s) l i"
    and "tails_ok s L"
  using assms by (simp_all add: page_inv_def)

lemma page_inv_head:
  assumes "page_inv s L" and "L l = i # r"
  shows "free_head (frame s) l i" and "block_head (frame s) i" and "fi_index (frame s i) = l"
    and "fi_status (frame s i) = 0" and "0 \<le> i" and "i < PAGE_MAX_ENTRY"
    and "0 \<le> l" and "l \<le> PAGE_MAX_ORDER"
proof -
  show f: "free_head (frame s) l i" using page_invD(3) [OF assms(1), of i l] assms(2) by simp
  then show "block_head (frame s) i" and "fi_index (frame s i) = l" and "fi_status (frame s i) = 0"
    and "0 \<le> i" and "i < PAGE_MAX_ENTRY" by (simp_all add: free_head_def block_head_def)
  show "0 \<le> l" and "l \<le> PAGE_MAX_ORDER"
    using lists_repD(4) [OF page_invD(2) [OF assms(1)], of l] assms(2) by simp_all
qed

lemma page_list_eq:
  assumes "page_inv s L" and "0 \<le> l" and "l \<le> PAGE_MAX_ORDER"
  shows "page_list s l = (case L l of [] \<Rightarrow> None | i # _ \<Rightarrow> Some (item_addr i))"
  using lists_rep_head [OF page_invD(2) [OF assms(1)] assms(2,3)] .

lemma used_kept_refl: "used_kept fr fr"
  by (simp add: used_kept_def)

section \<open>Splitting\<close>

definition asplit :: "int \<Rightarrow> int \<Rightarrow> int list \<Rightarrow> free_lists \<Rightarrow> free_lists" where
  "asplit l i r L = L(l := r, l - 1 := (i + 2 ^ nat (l - 1)) # i # L (l - 1))"

fun adivide :: "nat \<Rightarrow> int \<Rightarrow> free_lists \<Rightarrow> free_lists option" where
  "adivide 0 l L = None"
| "adivide (Suc fuel) l L =
     (case L l of
        i # r \<Rightarrow> Some (asplit l i r L)
      | [] \<Rightarrow> if l < 5 then
                (case adivide fuel (l + 1) L of None \<Rightarrow> None | Some L' \<Rightarrow> adivide fuel l L')
              else Some L)"

lemma page_divide_head:
  assumes inv: "page_inv s L" and L: "L l = i # r" and "1 \<le> l"
  obtains s' where "page_divide (Suc fuel) l s = Inr s'" and "page_inv s' (asplit l i r L)"
    and "frame s' = split_frames i (frame s)"
proof -
  note h = page_inv_head [OF inv L]
  note til = page_invD(1) [OF inv]
  define b where "b = i + 2 ^ nat (l - 1)"
  have pos: "1 \<le> fi_index (frame s i)" using h \<open>1 \<le> l\<close> by simp
  note u = upper_half [OF til h(2) pos, unfolded h(3), folded b_def]
  have ix: "pi_index (page_mem s (item_addr i)) = i"
    using lists_repD(2) [OF page_invD(2) [OF inv]] L by (metis list.set_intros(1))
  define L1 where "L1 = L(l := r)"
  define L2 where "L2 = L1(l - 1 := i # L1 (l - 1))"
  define L3 where "L3 = L2(l - 1 := b # L2 (l - 1))"
  have order: "0 \<le> l - 1" "l - 1 \<le> PAGE_MAX_ORDER" using \<open>1 \<le> l\<close> h(8) by simp_all
  define s1 where "s1 = s\<lparr>page_list := (page_list s)(l := pi_next (page_mem s (item_addr i)))\<rparr>"
  have r1: "lists_rep s1 L1"
    unfolding s1_def L1_def by (rule lists_rep_pop [OF page_invD(2) [OF inv] L])
  have t1: "tails_ok s1 L1"
    unfolding s1_def L1_def by (rule tails_ok_pop [OF page_invD(4) [OF inv] L])
  define s2 where "s2 = s1\<lparr>frame := (frame s)(i := (frame s i)\<lparr>fi_index := l - 1\<rparr>)\<rparr>"
  have r2: "lists_rep s2 L1" "tails_ok s2 L1" using r1 t1 by (simp_all add: s2_def)
  have f2: "fi_index (frame s2 i) = l - 1" by (simp add: s2_def)
  have d: "i \<notin> set r" using lists_rep_distinct [OF page_invD(2) [OF inv], of l] L by simp
  have new: "i \<notin> set (L1 k)" for k
    using d L page_invD(3) [OF inv, of i k] h(3) by (auto simp: free_head_def L1_def)
  obtain s3 where s3: "add_page_item i s2 = Inr s3" "frame s3 = frame s2" "lists_rep s3 L2"
    "tails_ok s3 L2"
    unfolding L2_def by (rule add_page_item_rep [OF r2(1) h(5,6) f2 order new r2(2)])
  define s4 where "s4 = s3\<lparr>frame := (frame s3)(b := (frame s3 b)\<lparr>fi_index := l - 1\<rparr>)\<rparr>"
  have r4: "lists_rep s4 L2" "tails_ok s4 L2" using s3(3,4) by (simp_all add: s4_def)
  have f4: "fi_index (frame s4 b) = l - 1" by (simp add: s4_def)
  have nob: "b \<notin> set (L k)" for k
    using page_invD(3) [OF inv, of b k] u(5) by (simp add: free_head_def block_head_def)
  then have "b \<notin> set r" using L by (metis list.set_intros(2))
  then have newb: "b \<notin> set (L2 k)" for k using nob u(2) by (auto simp: L2_def L1_def)
  obtain s5 where s5: "add_page_item b s4 = Inr s5" "frame s5 = frame s4" "lists_rep s5 L3"
    "tails_ok s5 L3"
    unfolding L3_def by (rule add_page_item_rep [OF r4(1) u(3,4) f4 order newb r4(2)])
  have fr: "frame s5 = split_frames i (frame s)"
    using s5(2) s3(2) u(2) h(3)
    by (auto simp: s4_def s2_def split_frames_def Let_def b_def fun_eq_iff)
  have lst: "L3 = asplit l i r L"
    by (simp add: asplit_def b_def L3_def L2_def L1_def fun_eq_iff)
  have "page_divide (Suc fuel) l s = Inr s5"
    using L h ix s3(1) s5(1) u(3,4) page_list_eq [OF inv h(7,8)]
    by (simp add: list_get_def list_set_def frame_get_def frame_set_index_def Let_def
        s1_def [symmetric] s2_def s4_def b_def)
      (simp add: s1_def)
  moreover have "page_inv s5 (asplit l i r L)"
    unfolding page_inv_def fr
  proof (intro conjI allI)
    show "tiling (split_frames i (frame s))" by (rule split_tiling [OF til h(2) pos])
    show "lists_rep s5 (asplit l i r L)" using s5(3) lst by simp
    show "tails_ok s5 (asplit l i r L)" using s5(4) lst by simp
    fix k j
    have mem: "j \<in> set (asplit l i r L k) \<longleftrightarrow>
      (if k = l then j \<in> set r else if k = l - 1 then j = b \<or> j = i \<or> j \<in> set (L k) else j \<in> set (L k))"
      by (simp add: asplit_def b_def)
    have fh: "free_head (split_frames i (frame s)) k j \<longleftrightarrow>
      (if j = i \<or> j = b then k = l - 1 else free_head (frame s) k j)"
      unfolding b_def by (rule split_free_head [OF til h(1) \<open>1 \<le> l\<close>])
    have "i \<in> set (L k) \<longleftrightarrow> k = l"
      using page_invD(3) [OF inv, of i k] h(1) by (auto simp: free_head_def)
    moreover have "j \<in> set (L l) \<longleftrightarrow> j = i \<or> j \<in> set r" using L by simp
    ultimately show "j \<in> set (asplit l i r L k) \<longleftrightarrow> free_head (split_frames i (frame s)) k j"
      using mem fh page_invD(3) [OF inv, of j k] nob [of k] nob [of l] d by (auto split: if_splits)
  qed
  ultimately show thesis using that fr by blast
qed

lemma used_kept_trans:
  assumes "used_kept fr fr'" and "used_kept fr' fr''"
  shows "used_kept fr fr''"
  using assms unfolding used_kept_def block_head_def by metis

lemma used_kept_split:
  assumes "tiling fr" and "free_head fr l i" and "1 \<le> l"
  shows "used_kept fr (split_frames i fr)"
proof -
  have h: "block_head fr i" "1 \<le> fi_index (fr i)" "fi_status (fr i) = 0"
    using assms by (auto simp: free_head_def)
  have "fi_status (fr (i + 2 ^ nat (fi_index (fr i) - 1))) = 0"
    by (rule upper_half(6) [OF assms(1) h(1,2)])
  then show ?thesis using h by (auto simp: used_kept_def split_frames_def Let_def)
qed

text \<open>\<open>page_divide\<close> does to memory what \<open>adivide\<close> does to the lists.\<close>

lemma page_divide_refines:
  assumes "page_inv s L" and "1 \<le> l" and "l \<le> PAGE_MAX_ORDER"
  shows "case adivide fuel l L of
      None \<Rightarrow> page_divide fuel l s = Inl OutOfFuel
    | Some L' \<Rightarrow> \<exists>s'. page_divide fuel l s = Inr s' \<and> page_inv s' L' \<and>
        used_kept (frame s) (frame s') \<and> free_pages (frame s') = free_pages (frame s)"
  using assms
proof (induction fuel arbitrary: l s L)
  case 0
  then show ?case by simp
next
  case (Suc fuel)
  show ?case
  proof (cases "L l")
    case (Cons i r)
    obtain s' where s': "page_divide (Suc fuel) l s = Inr s'" "page_inv s' (asplit l i r L)"
      "frame s' = split_frames i (frame s)"
      using page_divide_head [of s L l i r fuel] Suc.prems Cons by blast
    have fh: "free_head (frame s) l i" by (rule page_inv_head(1) [OF Suc.prems(1) Cons])
    have "used_kept (frame s) (frame s')" and "free_pages (frame s') = free_pages (frame s)"
      unfolding s'(3)
      using used_kept_split [OF page_invD(1) [OF Suc.prems(1)] fh Suc.prems(2)]
        split_free_pages [OF page_invD(1) [OF Suc.prems(1)] fh Suc.prems(2)] by simp_all
    then show ?thesis using s' Cons by auto
  next
    case Nil
    have pl: "list_get l s = Inr None"
      using page_list_eq [OF Suc.prems(1), of l] Suc.prems Nil by (simp add: list_get_def)
    show ?thesis
    proof (cases "l < 5")
      case False
      then show ?thesis using pl Nil Suc.prems by (auto intro: used_kept_refl)
    next
      case True
      then have l1: "1 \<le> l + 1" "l + 1 \<le> PAGE_MAX_ORDER"
        using Suc.prems by (simp_all add: PAGE_MAX_ORDER_def)
      note up = Suc.IH [OF Suc.prems(1) l1]
      show ?thesis
      proof (cases "adivide fuel (l + 1) L")
        case None
        then show ?thesis using up pl True Nil by simp
      next
        case (Some L1)
        then obtain s1 where s1: "page_divide fuel (l + 1) s = Inr s1" "page_inv s1 L1"
          "used_kept (frame s) (frame s1)" "free_pages (frame s1) = free_pages (frame s)"
          using up by auto
        have eq: "page_divide (Suc fuel) l s = page_divide fuel l s1"
          "adivide (Suc fuel) l L = adivide fuel l L1"
          using pl True Nil Some s1(1) by simp_all
        show ?thesis
          using Suc.IH [OF s1(2) Suc.prems(2,3)] unfolding eq
          by (auto split: option.splits simp: s1(4) intro: used_kept_trans [OF s1(3)])
      qed
    qed
  qed
qed

section \<open>Taking a block\<close>

text \<open>Marking a free block as in use; \<open>v\<close> is \<open>PAGE_ALLOCATED\<close>, or \<open>PAGE_RESERVED\<close> in
  \<open>memory_reserve\<close>.\<close>

lemma page_marks [simp]: "PAGE_ALLOCATED < 0" "PAGE_RESERVED < 0"
  by (simp_all add: PAGE_ALLOCATED_def PAGE_RESERVED_def)

definition take_frames :: "int \<Rightarrow> int \<Rightarrow> int \<Rightarrow> (int \<Rightarrow> frame_info) \<Rightarrow> int \<Rightarrow> frame_info" where
  "take_frames v i l fr =
     mark_range (i + 1) (i + 2 ^ nat l) v (fr(i := (fr i)\<lparr>fi_status := 1\<rparr>))"

lemma take_frames_index:
  assumes "tiling fr" and "free_head fr l i" and "v < 0"
  shows "fi_index (take_frames v i l fr j) = fi_index (fr j) \<or>
    fi_index (fr j) < 0 \<and> fi_index (take_frames v i l fr j) < 0"
proof -
  have "block_ok fr i" using assms by (auto simp: free_head_def intro: tilingD_ok)
  then have "fi_index (fr j) < 0" if "i < j" "j < i + 2 ^ nat l"
    using block_okD(4) that free_head_size [OF assms(2)] by simp
  then show ?thesis using assms(3) by (auto simp: take_frames_def mark_range_def)
qed

lemma take_frames_status:
  "fi_status (take_frames v i l fr j) = (if j = i then 1 else fi_status (fr j))"
  by (simp add: take_frames_def mark_range_def)

lemma take_used_kept:
  assumes "tiling fr" and "free_head fr l i" and "v < 0"
  shows "used_kept fr (take_frames v i l fr)"
  unfolding used_kept_def
proof (intro allI impI)
  fix j assume j: "fi_status (fr j) \<noteq> 0" "block_head fr j"
  have hd: "block_head fr i" "fi_status (fr i) = 0" using assms(2) by (simp_all add: free_head_def)
  have "\<not> (i < j \<and> j < i + 2 ^ nat l)"
    using inside_not_head [OF assms(1) hd(1)] j(2) free_head_size [OF assms(2)] by auto
  moreover have "j \<noteq> i" using j hd by auto
  ultimately show "take_frames v i l fr j = fr j" by (auto simp: take_frames_def mark_range_def)
qed

lemma take_free_head:
  assumes "tiling fr" and "free_head fr l i" and "v < 0"
  shows "free_head (take_frames v i l fr) k j \<longleftrightarrow> j \<noteq> i \<and> free_head fr k j"
  using take_frames_index [OF assms, of j] by (auto simp: free_head_def block_head_def take_frames_status)

lemma take_tiling:
  assumes "tiling fr" and "free_head fr l i" and "v < 0"
  shows "tiling (take_frames v i l fr)"
proof (rule tiling_same [OF assms(1) take_frames_index [OF assms]])
  fix j assume "0 \<le> j" "j < PAGE_MAX_ENTRY" "fi_status (take_frames v i l fr j) \<noteq> 0"
  then show "0 \<le> fi_index (fr j)"
    using assms by (cases "j = i") (auto simp: take_frames_status free_head_def block_head_def tiling_def)
qed

lemma take_free_pages:
  assumes "tiling fr" and "free_head fr l i" and "v < 0"
  shows "free_pages (take_frames v i l fr) = free_pages fr - {i..<i + 2 ^ nat l}"
proof (rule set_eqI, rule iffI)
  fix p assume "p \<in> free_pages (take_frames v i l fr)"
  then obtain k j where kj: "free_head (take_frames v i l fr) k j" "j \<le> p" "p < j + 2 ^ nat k"
    by (rule free_pagesE)
  then have f: "free_head fr k j" "j \<noteq> i" using take_free_head [OF assms] by auto
  have "\<not> (i \<le> p \<and> p < i + 2 ^ nat l)"
    using block_unique [OF assms(1), of i p j] f kj assms(2) free_head_size [OF f(1)]
      free_head_size [OF assms(2)] by (auto simp: free_head_def)
  then show "p \<in> free_pages fr - {i..<i + 2 ^ nat l}"
    using f kj by (auto intro: free_pagesI)
next
  fix p assume p: "p \<in> free_pages fr - {i..<i + 2 ^ nat l}"
  then obtain k j where kj: "free_head fr k j" "j \<le> p" "p < j + 2 ^ nat k"
    by (auto elim: free_pagesE)
  have "j \<noteq> i" using p kj assms(2) by (auto simp: free_head_def)
  then have "free_head (take_frames v i l fr) k j" using kj take_free_head [OF assms] by simp
  then show "p \<in> free_pages (take_frames v i l fr)" using kj by (blast intro: free_pagesI)
qed

lemma take_first_run:
  assumes inv: "page_inv s L" and L: "L l = i # r"
  obtains s' where "take_first l s = Inr (i, s')" and "frame s' = take_frames PAGE_ALLOCATED i l (frame s)"
    and "page_inv s' (L(l := r))"
proof -
  note h = page_inv_head [OF inv L]
  note til = page_invD(1) [OF inv]
  note rep = page_invD(2) [OF inv]
  note fb = free_head_bounds [OF til h(1)]
  have ix: "pi_index (page_mem s (item_addr i)) = i"
    using lists_repD(2) [OF rep] L by (metis list.set_intros(1))
  define s1 where "s1 = s\<lparr>frame := (frame s)(i := (frame s i)\<lparr>fi_status := 1\<rparr>)\<rparr>"
  define s2 where "s2 = s\<lparr>frame := take_frames PAGE_ALLOCATED i l (frame s)\<rparr>"
  define s' where "s' = s2\<lparr>page_list := (page_list s2)(l := pi_next (page_mem s2 (item_addr i)))\<rparr>"
  have m: "mark_loop i 1 (2 ^ nat l) PAGE_ALLOCATED s1 = Inr s2"
    using mark_loop_eq [of i 1 "2 ^ nat l" PAGE_ALLOCATED s1] fb(3,4)
    by (simp add: s1_def s2_def take_frames_def)
  have "take_first l s = Inr (i, s')"
    using h L ix m page_list_eq [OF inv h(7,8)]
    by (simp add: take_first_def list_get_def item_get_def frame_set_status_def list_set_def
        s1_def s2_def s'_def)
  moreover have fr: "frame s' = take_frames PAGE_ALLOCATED i l (frame s)" by (simp add: s'_def s2_def)
  moreover have "page_inv s' (L(l := r))"
    unfolding page_inv_def
  proof (intro conjI allI)
    show "tiling (frame s')" unfolding fr by (rule take_tiling [OF til h(1) page_marks(1)])
    have "lists_rep s2 L" using rep by (simp add: s2_def)
    then show "lists_rep s' (L(l := r))" unfolding s'_def using L by (rule lists_rep_pop)
    have "tails_ok s2 L" using page_invD(4) [OF inv] by (simp add: s2_def)
    then show "tails_ok s' (L(l := r))" unfolding s'_def using L by (rule tails_ok_pop)
    fix k j
    have "i \<notin> set r" using lists_rep_distinct [OF rep, of l] L by simp
    moreover have "i \<in> set (L k) \<longleftrightarrow> k = l"
      using page_invD(3) [OF inv, of i k] h(1) by (auto simp: free_head_def)
    ultimately show "j \<in> set ((L(l := r)) k) \<longleftrightarrow> free_head (frame s') k j"
      unfolding fr take_free_head [OF til h(1) page_marks(1)]
      using page_invD(3) [OF inv, of j k] L by auto
  qed
  ultimately show thesis using that by blast
qed

section \<open>The level of a request\<close>

lemma page_level_range:
  assumes "page_level sz = Inr l"
  shows "0 \<le> l" and "l \<le> PAGE_MAX_ORDER + 1"
proof -
  define v where "v = c_int (u64 (int sz - 1) div 0x1000)"
  obtain g where g: "log2 v = Inr g" "l = g + 1"
    using assms by (auto simp: page_level_def v_def rbind_eq_Inr)
  have "-1 \<le> g \<and> g \<le> PAGE_MAX_ORDER"
  proof (cases "v < 1")
    case True
    then show ?thesis using g(1) log2_nonpos [of v] by (simp add: PAGE_MAX_ORDER_def)
  next
    case False
    have loop: "-1 \<le> g \<and> g \<le> PAGE_MAX_ORDER" if "log2_loop a i v = Inr g" "0 \<le> i" for a i
      using that
    proof (induction a i v rule: log2_loop.induct)
      case (1 ans i v)
      then show ?case
        by (subst (asm) log2_loop.simps [of ans])
          (auto split: if_splits simp: PAGE_MAX_ORDER_def)
    qed
    then show ?thesis using g(1) by (simp add: log2_def)
  qed
  then show "0 \<le> l" and "l \<le> PAGE_MAX_ORDER + 1" using g(2) by simp_all
qed

text \<open>For up to \<open>2 ^ 16\<close> pages the level is the least that is big enough.\<close>

lemma page_level_small:
  assumes "1 \<le> sz" and "sz \<le> 4096 * 2 ^ 16"
  obtains l where "page_level sz = Inr l" and "0 \<le> l" and "l \<le> PAGE_MAX_ORDER"
    and "int sz \<le> 4096 * 2 ^ nat l" and "l = 0 \<or> 4096 * 2 ^ nat (l - 1) < int sz"
proof -
  define p where "p = (sz - 1) div 4096"
  have p: "p < 2 ^ 16" using assms by (simp add: p_def less_mult_imp_div_less)
  have "u64 (int sz - 1) = sz - 1" using assms by (simp add: u64_small nat_diff_distrib')
  moreover have "c_int p = int p" using p by (intro c_int_small) simp
  ultimately have lv: "page_level sz = rbind (log2 (int p)) (\<lambda>l. Inr (l + 1))"
    by (simp add: page_level_def p_def)
  show thesis
  proof (cases "p = 0")
    case True
    then have "page_level sz = Inr 0" by (simp add: lv log2_nonpos)
    moreover have "sz \<le> 4096" using True assms by (simp add: p_def div_eq_0_iff)
    ultimately show thesis using that [of 0] by (simp add: PAGE_MAX_ORDER_def)
  next
    case False
    then obtain k where k: "2 ^ k \<le> int p" "int p < 2 ^ Suc k"
      using int_log_exists [of "int p"] by auto
    have "k < 16"
    proof (rule ccontr)
      assume "\<not> k < 16"
      then have "(2::int) ^ 16 \<le> 2 ^ k" by (intro power_increasing) simp_all
      moreover have "int p < 2 ^ 16" using p by simp
      ultimately show False using k(1) by linarith
    qed
    then have "page_level sz = Inr (int k + 1)"
      using log2_eq [OF k] by (simp add: lv PAGE_MAX_ORDER_def min_def)
    moreover have "int sz \<le> 4096 * 2 ^ nat (int k + 1)"
    proof -
      have "int (sz - 1) < 4096 * (int p + 1)" by (simp add: p_def zdiv_int)
      moreover have "4096 * (int p + 1) \<le> 4096 * 2 ^ Suc k" using k(2) by simp
      ultimately have "int (sz - 1) < 4096 * 2 ^ Suc k" by linarith
      moreover have "nat (int k + 1) = Suc k" by simp
      ultimately show ?thesis using assms(1) by simp
    qed
    moreover have "4096 * 2 ^ k < int sz"
    proof -
      have "4096 * int p \<le> int (sz - 1)" by (simp add: p_def zdiv_int)
      moreover have "4096 * 2 ^ k \<le> 4096 * int p" using k(1) by simp
      ultimately show ?thesis using assms(1) by linarith
    qed
    ultimately show thesis using that [of "int k + 1"] \<open>k < 16\<close> by (simp add: PAGE_MAX_ORDER_def)
  qed
qed

section \<open>What adivide does\<close>

lemma asplit_below [simp]: "asplit l i r L (l - 1) \<noteq> []"
  by (simp add: asplit_def)

text \<open>A block of a bigger order is reached when its order is at most 5, or when it is next.\<close>

lemma adivide_some:
  assumes "L k \<noteq> []" and "l \<le> k" and "k \<le> 5 \<or> k = l" and "nat (k - l) < fuel"
  shows "\<exists>L'. adivide fuel l L = Some L' \<and> L' (l - 1) \<noteq> []"
  using assms
proof (induction fuel arbitrary: l)
  case 0
  then show ?case by simp
next
  case (Suc fuel)
  show ?case
  proof (cases "L l")
    case (Cons i r)
    then show ?thesis by simp
  next
    case Nil
    then have "k \<noteq> l" using Suc.prems(1) by auto
    then have l: "l < 5" "l + 1 \<le> k" "nat (k - (l + 1)) < fuel" using Suc.prems by auto
    then obtain L1 where L1: "adivide fuel (l + 1) L = Some L1" "L1 l \<noteq> []"
      using Suc.IH [of "l + 1"] Suc.prems by fastforce
    obtain f where "fuel = Suc f" using l(3) by (cases fuel) auto
    then have "\<exists>L'. adivide fuel l L1 = Some L' \<and> L' (l - 1) \<noteq> []"
      using L1(2) by (cases "L1 l") auto
    then show ?thesis using l Nil L1 by auto
  qed
qed

text \<open>With nothing free from this order up to order 5 the recursion never ends.\<close>

lemma adivide_none:
  assumes "l < 5" and "\<And>j. l \<le> j \<Longrightarrow> j \<le> 5 \<Longrightarrow> L j = []"
  shows "adivide fuel l L = None"
  using assms
proof (induction fuel arbitrary: l)
  case 0
  then show ?case by simp
next
  case (Suc fuel)
  have l: "L l = []" using Suc.prems by simp
  show ?case
  proof (cases "l + 1 < 5")
    case True
    then have "adivide fuel (l + 1) L = None" using Suc.IH [of "l + 1"] Suc.prems by simp
    then show ?thesis using l Suc.prems(1) by simp
  next
    case False
    then have l4: "l = 4" using Suc.prems(1) by simp
    have "adivide fuel l L = None" using Suc.IH [OF Suc.prems] .
    moreover have "adivide fuel 5 L = None \<or> adivide fuel 5 L = Some L"
      using Suc.prems(2) [of 5] l4 by (cases fuel) simp_all
    ultimately show ?thesis using l l4 by auto
  qed
qed

section \<open>page_allocate\<close>

lemma page_allocate_cases:
  assumes inv: "page_inv s L" and lv: "page_level sz = Inr l" and le: "l \<le> PAGE_MAX_ORDER"
  shows "page_allocate fuel sz s =
    (if L l \<noteq> [] then take_first l s
     else if l < PAGE_MAX_ORDER then rbind (page_divide fuel (l + 1) s) (take_first l)
     else Inr (-1, s))"
  using page_list_eq [OF inv page_level_range(1) [OF lv] le] page_level_range(1) [OF lv] le
  by (cases "L l") (simp_all add: page_allocate_def lv list_get_def)

lemma take_first_none:
  assumes "page_inv s L" and "L l = []" and "0 \<le> l" and "l \<le> PAGE_MAX_ORDER"
  shows "take_first l s = Inl NullDeref"
  using page_list_eq [OF assms(1,3,4)] assms(2-4)
  by (simp add: take_first_def list_get_def item_get_def)

text \<open>The state and the lists from which the block is finally taken.\<close>

lemma page_allocate_source:
  assumes inv: "page_inv s L" and lv: "page_level sz = Inr l" and le: "l \<le> PAGE_MAX_ORDER"
    and run: "page_allocate fuel sz s = Inr (i, s')" and pos: "i \<noteq> -1 \<or> l < PAGE_MAX_ORDER"
  obtains s1 L1 r where "page_inv s1 L1" and "L1 l = i # r" and "take_first l s1 = Inr (i, s')"
    and "used_kept (frame s) (frame s1)" and "free_pages (frame s1) = free_pages (frame s)"
proof -
  note goal = that
  have src: thesis if a: "page_inv s1 L1" "take_first l s1 = Inr (i, s')"
    "used_kept (frame s) (frame s1)" "free_pages (frame s1) = free_pages (frame s)" for s1 L1
  proof (cases "L1 l")
    case Nil
    then have "take_first l s1 = Inl NullDeref"
      using take_first_none [OF a(1)] page_level_range(1) [OF lv] le by blast
    with a(2) show thesis by simp
  next
    case (Cons j r)
    obtain s2 where "take_first l s1 = Inr (j, s2)" by (rule take_first_run [OF a(1) Cons])
    then have "j = i" using a(2) by simp
    then show thesis using goal [OF a(1) _ a(2-4)] Cons by blast
  qed
  note c = page_allocate_cases [OF inv lv le, of fuel]
  show thesis
  proof (cases "L l = []")
    case False
    then show thesis using src [OF inv] run c used_kept_refl by auto
  next
    case True
    then have lt: "l < PAGE_MAX_ORDER" using c run pos by (cases "l < PAGE_MAX_ORDER") auto
    then have "rbind (page_divide fuel (l + 1) s) (take_first l) = Inr (i, s')"
      using c run True by simp
    then obtain s1 where s1: "page_divide fuel (l + 1) s = Inr s1" "take_first l s1 = Inr (i, s')"
      by (rule rbind_InrE)
    have "1 \<le> l + 1" "l + 1 \<le> PAGE_MAX_ORDER" using page_level_range(1) [OF lv] lt by simp_all
    from page_divide_refines [OF inv this, of fuel] s1(1)
    obtain L1 where "page_inv s1 L1" "used_kept (frame s) (frame s1)"
      "free_pages (frame s1) = free_pages (frame s)" by (auto split: option.splits)
    with src s1(2) show thesis by blast
  qed
qed

end
