(* ===== verification/PageMerge.thy ===== *)
theory PageMerge
  imports PageAlloc
begin

text \<open>
  Release of pages. \<open>merge\<close> keeps the invariant, joins buddies as long as it can and returns
  within 17 calls, provided the block lies below page 229376, where the last block of order 14
  starts, whose buddy lies outside the frames. The first block of a list may have a stale
  \<open>previous\<close> pointer; \<open>merge\<close> never uses it, because each round has just put its block in
  front of the list that it takes both blocks from (\<open>back_at\<close>).
\<close>

definition last_block :: int where
  "last_block = 229376"

lemma buddy_in_range:
  assumes "tiling fr" and "free_head fr l i" and "l < PAGE_MAX_ORDER" and "i < last_block"
    and "2 * 2 ^ nat l dvd i"
  shows "i + 2 ^ nat l < PAGE_MAX_ENTRY"
proof (rule ccontr)
  note b = free_head_bounds [OF assms(1,2)]
  assume "\<not> ?thesis"
  then have eq: "i + 2 ^ nat l = PAGE_MAX_ENTRY" using b(4) by simp
  show False
  proof (cases "nat l \<le> 14")
    case True
    then have "(2::int) ^ nat l \<le> 2 ^ 14" by (intro power_increasing) simp_all
    then show False using eq assms(4) by (simp add: PAGE_MAX_ENTRY_def last_block_def)
  next
    case False
    then have "nat l = 15" using assms(3) by (simp add: PAGE_MAX_ORDER_def)
    then have "i = 212992" using eq by (simp add: PAGE_MAX_ENTRY_def)
    then show False using b(5) \<open>nat l = 15\<close> by simp
  qed
qed

text \<open>The two blocks that \<open>merge\<close> compares, in order.\<close>

lemma merge_partner:
  fixes i h :: int
  assumes "0 < h" and "h dvd i" and "0 \<le> i"
  defines "j \<equiv> (if i mod (2 * h) \<noteq> 0 then i - h else i + h)"
  defines "lo \<equiv> (if j > i then i else j)" and "hi \<equiv> (if j > i then j else i)"
  shows "hi = lo + h" and "2 * h dvd lo" and "0 \<le> lo" and "lo \<le> i" and "j \<noteq> i"
    and "{lo, hi} = {i, j}"
proof -
  obtain k where k: "i = h * k" using assms(2) by (auto elim: dvdE)
  have k0: "0 \<le> k" using assms(1,3) k by (simp add: zero_le_mult_iff)
  have "2 * h dvd lo \<and> 0 \<le> lo \<and> hi = lo + h \<and> lo \<le> i \<and> j \<noteq> i \<and> {lo, hi} = {i, j}"
  proof (cases "even k")
    case True
    then have "2 * h dvd i" using k by (auto simp: mult_dvd_mono mult.commute)
    then have "i mod (2 * h) = 0" by simp
    then show ?thesis using \<open>2 * h dvd i\<close> assms(1,3) by (auto simp: j_def lo_def hi_def)
  next
    case False
    then obtain m where m: "k = 2 * m + 1" by (auto elim: oddE)
    then have i: "i = 2 * h * m + h" using k by (simp add: algebra_simps)
    have "i mod (2 * h) = h" unfolding i using assms(1) by simp
    then have "j = i - h" using assms(1) by (simp add: j_def)
    moreover have "2 * h dvd i - h" unfolding i by simp
    moreover have "h \<le> i" using i k0 m assms(1) by simp
    ultimately show ?thesis using assms(1) by (auto simp: lo_def hi_def)
  qed
  then show "hi = lo + h" and "2 * h dvd lo" and "0 \<le> lo" and "lo \<le> i" and "j \<noteq> i"
    and "{lo, hi} = {i, j}" by blast+
qed

text \<open>Joining does not change which pages are free.\<close>

lemma join_free_pages:
  assumes "tiling fr" and "buddies fr i" and "fi_status (fr i) = 0"
  shows "free_pages (join_frames i fr) = free_pages fr"
proof -
  define l where "l = fi_index (fr i)"
  define h where "h = block_size fr i"
  have l0: "0 \<le> l" using assms(2) by (simp add: buddies_def block_head_def l_def)
  have hl: "h = 2 ^ nat l" by (simp add: h_def block_size_def l_def)
  have sz: "(2::int) ^ nat (l + 1) = h + h" using two_power_join [OF l0] by (simp add: hl)
  have h: "0 < h" by (simp add: h_def)
  note fh = join_free_head [OF assms(2,3), folded h_def l_def]
  have fi: "free_head fr l i" "free_head fr l (i + h)"
    using assms(2,3) by (simp_all add: free_head_def buddies_def l_def h_def)
  show ?thesis
  proof (rule set_eqI, rule iffI)
    fix p assume "p \<in> free_pages (join_frames i fr)"
    then obtain k j where kj: "free_head (join_frames i fr) k j" "j \<le> p" "p < j + 2 ^ nat k"
      by (rule free_pagesE)
    show "p \<in> free_pages fr"
    proof (cases "j = i")
      case True
      then have "k = l + 1" using kj(1) fh by simp
      then have "p < i + (h + h)" "i \<le> p" using kj sz True by simp_all
      then show ?thesis
        using fi by (cases "p < i + h") (auto simp: hl intro: free_pagesI)
    next
      case False
      then show ?thesis using kj fh by (auto intro: free_pagesI)
    qed
  next
    fix p assume "p \<in> free_pages fr"
    then obtain k j where kj: "free_head fr k j" "j \<le> p" "p < j + 2 ^ nat k"
      by (rule free_pagesE)
    show "p \<in> free_pages (join_frames i fr)"
    proof (cases "j = i \<or> j = i + h")
      case True
      then have "k = l" using kj(1) fi by (auto simp: free_head_def)
      then have "i \<le> p" "p < i + 2 ^ nat (l + 1)" using True kj sz h by (auto simp: hl)
      moreover have "free_head (join_frames i fr) (l + 1) i" using fh by simp
      ultimately show ?thesis by (blast intro: free_pagesI)
    next
      case False
      then have "free_head (join_frames i fr) k j" using fh kj(1) by simp
      then show ?thesis using kj by (blast intro: free_pagesI)
    qed
  qed
qed

lemma join_used_kept:
  assumes "buddies fr i" and "fi_status (fr i) = 0"
  shows "used_kept fr (join_frames i fr)"
  using assms by (auto simp: used_kept_def join_frames_def Let_def buddies_def block_size_def)

text \<open>One round of \<open>merge\<close>: both blocks leave their list, and the joined block is put on its own.\<close>

definition ajoin :: "int \<Rightarrow> int \<Rightarrow> int \<Rightarrow> int \<Rightarrow> free_lists \<Rightarrow> free_lists" where
  "ajoin l i j lo L = L(l := remove1 j (remove1 i (L l)), l + 1 := lo # L (l + 1))"

lemma merge_round:
  assumes inv: "page_inv s L" and bk: "back_at s (L l)" and fi: "free_head (frame s) l i"
    and fj: "free_head (frame s) l j" and lt: "l < PAGE_MAX_ORDER"
    and lo: "{lo, lo + 2 ^ nat l} = {i, j}" and al: "2 * 2 ^ nat l dvd lo"
  obtains s1 s2 s3 where "delete_page_item i s = Inr s1" and "delete_page_item j s1 = Inr s2"
    and "frame s2 = frame s"
    and "add_page_item lo (s2\<lparr>frame := join_frames lo (frame s)\<rparr>) = Inr s3"
    and "frame s3 = join_frames lo (frame s)" and "page_inv s3 (ajoin l i j lo L)"
    and "back_at s3 (ajoin l i j lo L (l + 1))" and "buddies (frame s) lo"
proof -
  note til = page_invD(1) [OF inv] and rep = page_invD(2) [OF inv] and mem = page_invD(3) [OF inv]
  define h where "h = (2::int) ^ nat l"
  have h: "0 < h" by (simp add: h_def)
  have ij: "i \<noteq> j" using lo h by (auto simp: h_def doubleton_eq_iff)
  have flo: "free_head (frame s) l lo" "free_head (frame s) l (lo + h)"
    using lo fi fj unfolding h_def by (metis doubleton_eq_iff)+
  have bud: "buddies (frame s) lo"
    using flo al lt by (simp add: buddies_def free_head_def block_size_def h_def)
  have r: "0 \<le> i" "i < PAGE_MAX_ENTRY" "0 \<le> j" "j < PAGE_MAX_ENTRY" "fi_index (frame s i) = l"
    "fi_index (frame s j) = l" "0 \<le> lo" "lo < PAGE_MAX_ENTRY" "fi_index (frame s lo) = l" "0 \<le> l"
    using fi fj flo by (auto simp: free_head_def block_head_def)
  have iL: "i \<in> set (L l)" "j \<in> set (L l)" using fi fj mem by simp_all
  obtain s1 where s1: "delete_page_item i s = Inr s1" "frame s1 = frame s"
    "lists_rep s1 (L(l := remove1 i (L l)))" "tails_ok s1 (L(l := remove1 i (L l)))"
    "back_at s1 (remove1 i (L l))"
    by (rule delete_page_item_rep [OF rep bk r(1,2,5) iL(1) page_invD(4) [OF inv]])
  let ?L1 = "L(l := remove1 i (L l))"
  have j1: "back_at s1 (?L1 l)" "fi_index (frame s1 j) = l" "j \<in> set (?L1 l)"
    using r(6) s1(2,5) iL(2) ij by simp_all
  obtain s2 where s2': "delete_page_item j s1 = Inr s2" "frame s2 = frame s1"
    "lists_rep s2 (?L1(l := remove1 j (?L1 l)))" "tails_ok s2 (?L1(l := remove1 j (?L1 l)))"
    by (rule delete_page_item_rep [OF s1(3) j1(1) r(3,4) j1(2,3) s1(4)])
  have s2: "delete_page_item j s1 = Inr s2" "frame s2 = frame s"
    "lists_rep s2 (L(l := remove1 j (remove1 i (L l))))"
    "tails_ok s2 (L(l := remove1 j (remove1 i (L l))))"
    using s2' s1(2) by simp_all
  let ?s = "s2\<lparr>frame := join_frames lo (frame s)\<rparr>" and ?L = "L(l := remove1 j (remove1 i (L l)))"
  have d: "distinct (L l)" by (rule lists_rep_distinct [OF rep])
  have set: "set (remove1 j (remove1 i (L l))) = set (L l) - {i, j}"
    using d by (auto simp: set_remove1_eq)
  have lo_in: "lo \<in> {i, j}" using lo by blast
  have new: "lo \<notin> set (?L k)" for k
    using mem [of lo k] flo(1) lo_in set by (auto simp: free_head_def)
  have f: "fi_index (frame ?s lo) = l + 1" using r(9) by (simp add: join_index)
  have o: "0 \<le> l + 1" "l + 1 \<le> PAGE_MAX_ORDER" using lt r(10) by simp_all
  have rs: "lists_rep ?s ?L" "tails_ok ?s ?L" using s2(3,4) by simp_all
  obtain s3 where s3: "add_page_item lo ?s = Inr s3" "frame s3 = frame ?s"
    "lists_rep s3 (?L(l + 1 := lo # ?L (l + 1)))"
    "tails_ok s3 (?L(l + 1 := lo # ?L (l + 1)))" "back_at s3 (lo # ?L (l + 1))"
    by (rule add_page_item_rep [OF rs(1) r(7,8) f o new rs(2)])
  have lst: "?L(l + 1 := lo # ?L (l + 1)) = ajoin l i j lo L" by (simp add: ajoin_def fun_eq_iff)
  have st: "fi_status (frame s lo) = 0" using flo(1) by (simp add: free_head_def)
  have bs: "block_size (frame s) lo = h" using r(9) by (simp add: block_size_def h_def)
  have "page_inv s3 (ajoin l i j lo L)"
    unfolding page_inv_def
  proof (intro conjI allI)
    show "tiling (frame s3)" using join_tiling [OF til bud] s3(2) by simp
    show "lists_rep s3 (ajoin l i j lo L)" using s3(3) lst by simp
    show "tails_ok s3 (ajoin l i j lo L)" using s3(4) lst by simp
    fix k p
    have m: "p \<in> set (ajoin l i j lo L k) \<longleftrightarrow>
      (if k = l then p \<in> set (L k) - {i, j} else if k = l + 1 then p = lo \<or> p \<in> set (L k)
       else p \<in> set (L k))"
      using set by (simp add: ajoin_def)
    have f: "free_head (frame s3) k p \<longleftrightarrow>
      (if p = lo then k = l + 1 else p \<noteq> lo + h \<and> free_head (frame s) k p)"
      using join_free_head [OF bud st, of k p] s3(2) r(9) bs by simp
    have ijlo: "p \<in> {i, j} \<longleftrightarrow> p = lo \<or> p = lo + h" using lo by (auto simp: h_def)
    have only: "p = lo \<or> p = lo + h \<Longrightarrow> free_head (frame s) k p \<longleftrightarrow> k = l"
      using flo by (auto simp: free_head_def)
    show "p \<in> set (ajoin l i j lo L k) \<longleftrightarrow> free_head (frame s3) k p"
      unfolding m f Diff_iff ijlo mem [of p k] using only h by (cases "p = lo"; cases "p = lo + h") (simp_all, auto)
  qed
  moreover have "back_at s3 (ajoin l i j lo L (l + 1))" using s3(5) by (simp add: ajoin_def)
  ultimately show thesis using that s1(1) s2(1,2) s3(1,2) bud by simp
qed

section \<open>Merging\<close>

definition buddy_of :: "int \<Rightarrow> int \<Rightarrow> int" where
  "buddy_of l i = (if i mod (2 * 2 ^ nat l) \<noteq> 0 then i - 2 ^ nat l else i + 2 ^ nat l)"

text \<open>No further joining is possible around page \<open>p\<close>.\<close>

definition merged_at :: "(int \<Rightarrow> frame_info) \<Rightarrow> int \<Rightarrow> bool" where
  "merged_at fr p \<longleftrightarrow> (\<exists>l i. free_head fr l i \<and> i \<le> p \<and> p < i + 2 ^ nat l \<and>
     (l = PAGE_MAX_ORDER \<or> \<not> free_head fr l (buddy_of l i)))"

lemma buddy_of_props:
  assumes "tiling fr" and "free_head fr l i" and "l < PAGE_MAX_ORDER" and "i < last_block"
  defines "j \<equiv> buddy_of l i"
  defines "lo \<equiv> (if j > i then i else j)" and "hi \<equiv> (if j > i then j else i)"
  shows "0 \<le> j" and "j < PAGE_MAX_ENTRY" and "hi = lo + 2 ^ nat l" and "2 * 2 ^ nat l dvd lo"
    and "0 \<le> lo" and "lo \<le> i" and "i < lo + 2 * 2 ^ nat l" and "{lo, hi} = {i, j}"
proof -
  note b = free_head_bounds [OF assms(1,2)]
  have i0: "0 \<le> i" and iM: "i < PAGE_MAX_ENTRY"
    using assms(2) by (simp_all add: free_head_def block_head_def)
  have pos: "0 < (2::int) ^ nat l" by simp
  note m = merge_partner [OF pos b(5) i0, folded buddy_of_def j_def, folded lo_def hi_def]
  show "hi = lo + 2 ^ nat l" "2 * 2 ^ nat l dvd lo" "0 \<le> lo" "lo \<le> i" "{lo, hi} = {i, j}"
    by (rule m)+
  show "i < lo + 2 * 2 ^ nat l"
  proof (cases "j > i")
    case True
    then show ?thesis using pos by (simp add: lo_def)
  next
    case False
    then have "hi = i" by (simp add: hi_def)
    then show ?thesis using m(1) pos by linarith
  qed
  have "j \<in> {lo, hi}" using m(6) by blast
  then show "0 \<le> j" using m(1,3) by auto
  show "j < PAGE_MAX_ENTRY"
  proof (cases "i mod (2 * 2 ^ nat l) = 0")
    case True
    then have "2 * 2 ^ nat l dvd i" by (rule mod_0_imp_dvd)
    then show ?thesis using buddy_in_range [OF assms(1-4)] True by (simp add: j_def buddy_of_def)
  next
    case False
    then have "j = i - 2 ^ nat l" by (simp add: j_def buddy_of_def)
    then show ?thesis using iM pos by linarith
  qed
qed

lemma free_pages_head: "free_head fr l i \<Longrightarrow> i \<le> p \<Longrightarrow> p < i + 2 ^ nat l \<Longrightarrow>
    l = PAGE_MAX_ORDER \<or> \<not> free_head fr l (buddy_of l i) \<Longrightarrow> merged_at fr p"
  unfolding merged_at_def by blast

text \<open>The unfolding of \<open>merge\<close> on a free block of known order.\<close>

lemma merge_unfold:
  assumes "free_head (frame s) l i" and "l \<noteq> PAGE_MAX_ORDER"
    and "0 \<le> buddy_of l i" and "buddy_of l i < PAGE_MAX_ENTRY" and "0 \<le> l"
  shows "merge (Suc fuel) i s =
    (if fi_index (frame s (buddy_of l i)) = l \<and> fi_status (frame s (buddy_of l i)) = 0 then
       rbind (delete_page_item i s) (\<lambda>s.
       rbind (delete_page_item (buddy_of l i) s) (\<lambda>s.
       let hi = (if buddy_of l i > i then buddy_of l i else i);
           lo = (if buddy_of l i > i then i else buddy_of l i) in
       rbind (frame_set_index hi PAGE_FREE s) (\<lambda>s.
       rbind (frame_get lo s) (\<lambda>h.
       rbind (frame_set_index lo (fi_index h + 1) s) (\<lambda>s.
       rbind (add_page_item lo s) (merge fuel lo))))))
     else Inr s)"
  using assms
  by (auto simp: free_head_def block_head_def frame_get_def Let_def buddy_of_def [symmetric])

lemma merge_correct:
  assumes "page_inv s L" and "back_at s (L l)" and "free_head (frame s) l i" and "i < last_block"
    and "17 - l \<le> int fuel" and "i \<le> p" and "p < i + 2 ^ nat l"
  shows "\<exists>s' L'. merge fuel i s = Inr s' \<and> page_inv s' L' \<and>
    free_pages (frame s') = free_pages (frame s) \<and> used_kept (frame s) (frame s') \<and>
    merged_at (frame s') p"
  using assms
proof (induction fuel arbitrary: i l s L)
  case 0
  have "l \<le> 16" using free_head_bounds [OF page_invD(1) [OF "0.prems"(1)] "0.prems"(3)]
    by (simp add: PAGE_MAX_ORDER_def)
  then show ?case using 0 by simp
next
  case (Suc fuel)
  note til = page_invD(1) [OF Suc.prems(1)]
  note fi = Suc.prems(3)
  note fb = free_head_bounds [OF til fi]
  have ih: "block_head (frame s) i" "fi_index (frame s i) = l" "0 \<le> i" "i < PAGE_MAX_ENTRY" "0 \<le> l"
    using fi by (auto simp: free_head_def block_head_def)
  define j where "j = buddy_of l i"
  show ?case
  proof (cases "l = PAGE_MAX_ORDER")
    case True
    then have "merge (Suc fuel) i s = Inr s" using ih by (simp add: frame_get_def)
    moreover have "merged_at (frame s) p" using free_pages_head [OF fi] Suc.prems(6,7) True by simp
    ultimately show ?thesis using Suc.prems(1,2) used_kept_refl by blast
  next
    case neq: False
    then have lt: "l < PAGE_MAX_ORDER" using fb by simp
    note bp = buddy_of_props [OF til fi lt Suc.prems(4), folded j_def]
    note un = merge_unfold [OF fi neq bp(1,2) [unfolded j_def] ih(5), folded j_def, of fuel]
    show ?thesis
    proof (cases "fi_index (frame s j) = l \<and> fi_status (frame s j) = 0")
      case False
      then have "merge (Suc fuel) i s = Inr s" using un by auto
      moreover have "merged_at (frame s) p"
        using free_pages_head [OF fi Suc.prems(6,7)] False by (auto simp: j_def free_head_def)
      ultimately show ?thesis using Suc.prems(1,2) used_kept_refl by blast
    next
      case True
      then have fj: "free_head (frame s) l j" using bp(1,2) ih(5) by (simp add: free_head_def block_head_def)
      define lo where "lo = (if j > i then i else j)"
      define hi where "hi = (if j > i then j else i)"
      note lo = bp(3-8) [folded lo_def hi_def]
      have set2: "{lo, lo + 2 ^ nat l} = {i, j}" using lo(1,6) by simp
      obtain s1 s2 s3 where r: "delete_page_item i s = Inr s1" "delete_page_item j s1 = Inr s2"
        "frame s2 = frame s" "add_page_item lo (s2\<lparr>frame := join_frames lo (frame s)\<rparr>) = Inr s3"
        "frame s3 = join_frames lo (frame s)" "page_inv s3 (ajoin l i j lo L)"
        "back_at s3 (ajoin l i j lo L (l + 1))" "buddies (frame s) lo"
        by (rule merge_round [OF Suc.prems(1,2) fi fj lt set2 lo(2)])
      have fl: "free_head (frame s) l lo" using set2 fi fj by (metis doubleton_eq_iff)
      have lol: "fi_index (frame s lo) = l" "fi_status (frame s lo) = 0" "lo < PAGE_MAX_ENTRY"
        using fl by (auto simp: free_head_def block_head_def)
      have hi: "0 \<le> hi" "hi < PAGE_MAX_ENTRY" using ih bp(1,2) by (auto simp: hi_def)
      have "frame_set_index hi PAGE_FREE s2 =
          Inr (s2\<lparr>frame := (frame s)(hi := (frame s hi)\<lparr>fi_index := PAGE_FREE\<rparr>)\<rparr>)"
        using hi r(3) by (simp add: frame_set_index_def)
      moreover have "lo \<noteq> hi" using lo(1) by simp
      ultimately have run: "merge (Suc fuel) i s = merge fuel lo s3"
        using r(1-4) True lol lo(3) un lo(1)
        by (simp add: frame_get_def frame_set_index_def Let_def lo_def [symmetric] hi_def [symmetric]
            join_frames_def)
      have fh3: "free_head (frame s3) (l + 1) lo"
        unfolding r(5) using join_free_head [OF r(8) lol(2), of "l + 1" lo] lol(1) by simp
      have lim: "lo < last_block" "17 - (l + 1) \<le> int fuel" using lo(4) Suc.prems(4,5) by simp_all
      have pr: "lo \<le> p" "p < lo + 2 ^ nat (l + 1)"
        using lo(1,4) Suc.prems(6,7) two_power_join [OF ih(5)] hi_def lo_def
        by (auto split: if_splits)
      have fp: "free_pages (frame s3) = free_pages (frame s)"
        unfolding r(5) by (rule join_free_pages [OF til r(8) lol(2)])
      have uk: "used_kept (frame s) (frame s3)"
        unfolding r(5) by (rule join_used_kept [OF r(8) lol(2)])
      show ?thesis
        using Suc.IH [OF r(6,7) fh3 lim pr] used_kept_trans [OF uk] unfolding run fp by blast
    qed
  qed
qed

lemma merge_enough_fuel:
  assumes "page_inv s L" and "back_at s (L l)" and "free_head (frame s) l i" and "i < last_block"
    and "17 \<le> fuel"
  shows "\<exists>s'. merge fuel i s = Inr s'"
  using merge_correct [OF assms(1-4), where fuel = fuel and p = i] assms(3,5)
  by (auto simp: free_head_def block_head_def)

section \<open>page_free\<close>

text \<open>The frames once the block is marked free, before it is merged.\<close>

definition free_frames :: "int \<Rightarrow> int \<Rightarrow> (int \<Rightarrow> frame_info) \<Rightarrow> int \<Rightarrow> frame_info" where
  "free_frames i l fr =
     mark_range (i + 1) (i + 2 ^ nat l) PAGE_FREE (fr(i := (fr i)\<lparr>fi_status := 0\<rparr>))"

lemma free_frames_index:
  assumes "tiling fr" and "block_head fr i" and "fi_index (fr i) = l"
  shows "fi_index (free_frames i l fr j) = fi_index (fr j) \<or>
    fi_index (fr j) < 0 \<and> fi_index (free_frames i l fr j) < 0"
proof -
  have "block_ok fr i" using assms by (auto intro: tilingD_ok)
  then have "fi_index (fr j) < 0" if "i < j" "j < i + 2 ^ nat l"
    using block_okD(4) that assms(3) by (simp add: block_size_def)
  then show ?thesis by (auto simp: free_frames_def mark_range_def PAGE_FREE_def)
qed

lemma free_frames_status:
  "fi_status (free_frames i l fr j) = (if j = i then 0 else fi_status (fr j))"
  by (simp add: free_frames_def mark_range_def)

lemma free_frames_tiling:
  assumes "tiling fr" and "block_head fr i" and "fi_index (fr i) = l"
  shows "tiling (free_frames i l fr)"
proof (rule tiling_same [OF assms(1) free_frames_index [OF assms]])
  fix j assume "0 \<le> j" "j < PAGE_MAX_ENTRY" "fi_status (free_frames i l fr j) \<noteq> 0"
  then show "0 \<le> fi_index (fr j)"
    using assms by (cases "j = i") (auto simp: free_frames_status tiling_def)
qed

lemma free_frames_head:
  assumes "tiling fr" and "block_head fr i" and "fi_index (fr i) = l"
  shows "free_head (free_frames i l fr) k j \<longleftrightarrow> (if j = i then k = l else free_head fr k j)"
  using free_frames_index [OF assms, of j] assms
  by (auto simp: free_head_def block_head_def free_frames_status)

lemma free_frames_pages:
  assumes "tiling fr" and "block_head fr i" and "fi_index (fr i) = l" and "fi_status (fr i) \<noteq> 0"
  shows "free_pages (free_frames i l fr) = free_pages fr \<union> {i..<i + 2 ^ nat l}"
proof (rule set_eqI, rule iffI)
  fix p assume "p \<in> free_pages (free_frames i l fr)"
  then obtain k j where "free_head (free_frames i l fr) k j" "j \<le> p" "p < j + 2 ^ nat k"
    by (rule free_pagesE)
  then show "p \<in> free_pages fr \<union> {i..<i + 2 ^ nat l}"
    using free_frames_head [OF assms(1-3), of k j] by (auto split: if_splits intro: free_pagesI)
next
  fix p assume p: "p \<in> free_pages fr \<union> {i..<i + 2 ^ nat l}"
  show "p \<in> free_pages (free_frames i l fr)"
  proof (cases "p \<in> free_pages fr")
    case True
    then obtain k j where kj: "free_head fr k j" "j \<le> p" "p < j + 2 ^ nat k" by (rule free_pagesE)
    then have "j \<noteq> i" using assms(4) by (auto simp: free_head_def)
    then have "free_head (free_frames i l fr) k j" using kj free_frames_head [OF assms(1-3)] by simp
    then show ?thesis using kj by (blast intro: free_pagesI)
  next
    case False
    then have "i \<le> p" "p < i + 2 ^ nat l" using p by auto
    moreover have "free_head (free_frames i l fr) l i" using free_frames_head [OF assms(1-3)] by simp
    ultimately show ?thesis by (blast intro: free_pagesI)
  qed
qed

text \<open>The blocks in use, apart from block \<open>i\<close>, are not touched.\<close>

definition others_kept :: "int \<Rightarrow> (int \<Rightarrow> frame_info) \<Rightarrow> (int \<Rightarrow> frame_info) \<Rightarrow> bool" where
  "others_kept i fr fr' \<longleftrightarrow>
     (\<forall>j. j \<noteq> i \<longrightarrow> fi_status (fr j) \<noteq> 0 \<longrightarrow> block_head fr j \<longrightarrow> fr' j = fr j)"

lemma free_others_kept:
  assumes "tiling fr" and "block_head fr i" and "fi_index (fr i) = l"
  shows "others_kept i fr (free_frames i l fr)"
  unfolding others_kept_def
proof (intro allI impI)
  fix j assume j: "j \<noteq> i" "fi_status (fr j) \<noteq> 0" "block_head fr j"
  have "\<not> (i < j \<and> j < i + 2 ^ nat l)"
    using inside_not_head [OF assms(1,2)] j(3) assms(3) by (auto simp: block_size_def)
  then show "free_frames i l fr j = fr j" using j(1) by (auto simp: free_frames_def mark_range_def)
qed

lemma others_kept_trans:
  assumes "others_kept i fr fr'" and "used_kept fr' fr''"
  shows "others_kept i fr fr''"
  unfolding others_kept_def
proof (intro allI impI)
  fix j assume j: "j \<noteq> i" "fi_status (fr j) \<noteq> 0" "block_head fr j"
  then have eq: "fr' j = fr j" using assms(1) by (simp add: others_kept_def)
  then have "block_head fr' j" using j(3) by (simp add: block_head_def)
  then show "fr'' j = fr j" using assms(2) eq j(2) by (simp add: used_kept_def)
qed

text \<open>\<open>page_free\<close> up to its call of \<open>merge\<close>.\<close>

lemma page_free_enlist:
  assumes inv: "page_inv s L" and hd: "block_head (frame s) i"
    and used: "fi_status (frame s i) \<noteq> 0" and l: "fi_index (frame s i) = l"
  obtains s1 where "page_free fuel i s = merge fuel i s1"
    and "frame s1 = free_frames i l (frame s)" and "page_inv s1 (L(l := i # L l))"
    and "back_at s1 (i # L l)"
proof -
  note til = page_invD(1) [OF inv] and rep = page_invD(2) [OF inv] and mem = page_invD(3) [OF inv]
  have ok: "block_ok (frame s) i" by (rule tilingD_ok [OF til hd])
  have r: "0 \<le> i" "i < PAGE_MAX_ENTRY" "0 \<le> l" using hd l by (auto simp: block_head_def)
  have lM: "l \<le> PAGE_MAX_ORDER" and iM: "i + 2 ^ nat l \<le> PAGE_MAX_ENTRY"
    using block_okD(1,3) [OF ok] l by (simp_all add: block_size_def)
  have new: "i \<notin> set (L k)" for k using mem [of i k] used by (simp add: free_head_def)
  obtain s0 where s0: "add_page_item i s = Inr s0" "frame s0 = frame s"
    "lists_rep s0 (L(l := i # L l))" "tails_ok s0 (L(l := i # L l))" "back_at s0 (i # L l)"
    by (rule add_page_item_rep [OF rep r(1,2) l r(3) lM new page_invD(4) [OF inv]])
  define s1 where "s1 = s0\<lparr>frame := free_frames i l (frame s)\<rparr>"
  have m: "mark_loop i 1 (2 ^ nat l) PAGE_FREE
      (s0\<lparr>frame := (frame s)(i := (frame s i)\<lparr>fi_status := 0\<rparr>)\<rparr>) = Inr s1"
    using mark_loop_eq [of i 1 "2 ^ nat l" PAGE_FREE
        "s0\<lparr>frame := (frame s)(i := (frame s i)\<lparr>fi_status := 0\<rparr>)\<rparr>"] r iM
    by (simp add: s1_def free_frames_def)
  have "page_free fuel i s = merge fuel i s1"
    using r l s0(1,2) m by (simp add: page_free_def frame_get_def frame_set_status_def)
  moreover have "page_inv s1 (L(l := i # L l))"
    unfolding page_inv_def
  proof (intro conjI allI)
    show "tiling (frame s1)" using free_frames_tiling [OF til hd l] by (simp add: s1_def)
    show "lists_rep s1 (L(l := i # L l))" using s0(3) by (simp add: s1_def)
    show "tails_ok s1 (L(l := i # L l))" using s0(4) by (simp add: s1_def)
    fix k j
    show "j \<in> set ((L(l := i # L l)) k) \<longleftrightarrow> free_head (frame s1) k j"
      using free_frames_head [OF til hd l, of k j] mem [of j k] new [of k]
      by (auto simp: s1_def)
  qed
  ultimately show thesis using that s0(5) by (simp add: s1_def)
qed

end
