(* ===== verification/PageProps.thy ===== *)
theory PageProps
  imports PageMerge
begin

text \<open>
  The properties of page allocation and release, with a concrete allocator state (\<open>boot_state\<close>: the five
  blocks that \<open>page_init\<close> starts from, all free) in which each of them applies.
\<close>

section \<open>A concrete state\<close>

definition boot_index :: "int \<Rightarrow> int" where
  "boot_index i =
     (if i = 0 \<or> i = 65536 \<or> i = 131072 then 16
      else if i = 196608 then 15 else if i = 229376 then 14 else PAGE_FREE)"

definition boot_lists :: free_lists where
  "boot_lists = (\<lambda>_. [])(16 := [131072, 65536, 0], 15 := [196608], 14 := [229376])"

definition boot_frames :: "int \<Rightarrow> frame_info" where
  "boot_frames i = \<lparr>fi_status = 0, fi_index = boot_index i\<rparr>"

definition boot_item :: "int \<Rightarrow> int option \<Rightarrow> int option \<Rightarrow> page_item" where
  "boot_item i p n = \<lparr>pi_index = i, pi_previous = map_option item_addr p,
     pi_next = map_option item_addr n\<rparr>"

definition boot_state :: page_state where
  "boot_state = \<lparr>frame = boot_frames,
     page_list = (\<lambda>_. None)(16 := Some (item_addr 131072), 15 := Some (item_addr 196608),
       14 := Some (item_addr 229376)),
     page_mem = (\<lambda>_. boot_item 0 (Some 65536) None)(
       item_addr 131072 := boot_item 131072 None (Some 65536),
       item_addr 65536 := boot_item 65536 (Some 131072) (Some 0),
       item_addr 196608 := boot_item 196608 None None,
       item_addr 229376 := boot_item 229376 None None)\<rparr>"

lemma boot_block_head:
  assumes "\<And>i. fi_index (fr i) = boot_index i"
  shows "block_head fr i \<longleftrightarrow> i \<in> {0, 65536, 131072, 196608, 229376}"
  by (auto simp: block_head_def assms boot_index_def PAGE_FREE_def PAGE_MAX_ENTRY_def)

lemma boot_tiling:
  assumes ix: "\<And>i. fi_index (fr i) = boot_index i" and st: "\<And>i. fi_status (fr i) = 0"
  shows "tiling fr"
proof (rule tilingI)
  fix i assume "block_head fr i"
  then show "block_ok fr i"
    unfolding boot_block_head [OF ix]
    by (auto simp: block_ok_def block_size_def ix boot_index_def PAGE_FREE_def PAGE_MAX_ENTRY_def
        PAGE_MAX_ORDER_def)
next
  fix j :: int assume j: "0 \<le> j" "j < PAGE_MAX_ENTRY"
  consider "j < 65536" | "65536 \<le> j" "j < 131072" | "131072 \<le> j" "j < 196608"
    | "196608 \<le> j" "j < 229376" | "229376 \<le> j" by linarith
  then show "\<exists>i. block_head fr i \<and> i \<le> j \<and> j < i + block_size fr i"
    unfolding boot_block_head [OF ix]
  proof cases
    case 1
    then show "\<exists>i. i \<in> {0, 65536, 131072, 196608, 229376} \<and> i \<le> j \<and> j < i + block_size fr i"
      using j by (intro exI [of _ 0]) (simp add: block_size_def ix boot_index_def)
  next
    case 2
    then show "\<exists>i. i \<in> {0, 65536, 131072, 196608, 229376} \<and> i \<le> j \<and> j < i + block_size fr i"
      by (intro exI [of _ 65536]) (simp add: block_size_def ix boot_index_def)
  next
    case 3
    then show "\<exists>i. i \<in> {0, 65536, 131072, 196608, 229376} \<and> i \<le> j \<and> j < i + block_size fr i"
      by (intro exI [of _ 131072]) (simp add: block_size_def ix boot_index_def)
  next
    case 4
    then show "\<exists>i. i \<in> {0, 65536, 131072, 196608, 229376} \<and> i \<le> j \<and> j < i + block_size fr i"
      by (intro exI [of _ 196608]) (simp add: block_size_def ix boot_index_def)
  next
    case 5
    then show "\<exists>i. i \<in> {0, 65536, 131072, 196608, 229376} \<and> i \<le> j \<and> j < i + block_size fr i"
      using j by (intro exI [of _ 229376])
        (simp add: block_size_def ix boot_index_def PAGE_MAX_ENTRY_def)
  qed
next
  fix j :: int assume "fi_status (fr j) \<noteq> 0"
  then show "0 \<le> fi_index (fr j)" by (simp add: st)
qed

lemma boot_inv: "page_inv boot_state boot_lists"
  unfolding page_inv_def
proof (intro conjI allI)
  have ix: "fi_index (frame boot_state i) = boot_index i"
    and st: "fi_status (frame boot_state i) = 0" for i
    by (simp_all add: boot_state_def boot_frames_def)
  show "tiling (frame boot_state)" using ix st by (rule boot_tiling)
  show "lists_rep boot_state boot_lists"
    by (rule lists_repI)
      (auto simp: boot_lists_def boot_state_def boot_item_def item_next_def PAGE_MAX_ORDER_def
        split: if_splits)
  show "tails_ok boot_state boot_lists"
    by (rule tails_okI) (simp add: boot_lists_def boot_state_def boot_item_def item_prev_def)
  fix l i
  show "i \<in> set (boot_lists l) \<longleftrightarrow> free_head (frame boot_state) l i"
    unfolding free_head_def boot_block_head [OF ix] ix st
    by (auto simp: boot_lists_def boot_index_def split: if_splits)
qed

section \<open>Allocation is correct\<close>

lemma page_allocate_run:
  assumes "page_inv s L" and "1 \<le> sz" and "sz \<le> 4096 * 2 ^ 16"
    and "page_allocate fuel sz s = Inr (i, s')" and "i \<noteq> -1 \<or> sz \<le> 4096 * 2 ^ 15"
  shows "\<exists>l L'. page_level sz = Inr l \<and>
    int sz \<le> 4096 * 2 ^ nat l \<and> (l = 0 \<or> 4096 * 2 ^ nat (l - 1) < int sz) \<and>
    2 ^ nat l dvd i \<and> {i..<i + 2 ^ nat l} \<subseteq> free_pages (frame s) \<and>
    free_pages (frame s') = free_pages (frame s) - {i..<i + 2 ^ nat l} \<and>
    frame s' i = \<lparr>fi_status = 1, fi_index = l\<rparr> \<and>
    used_kept (frame s) (frame s') \<and> page_inv s' L'"
proof -
  obtain l where l: "page_level sz = Inr l" "0 \<le> l" "l \<le> PAGE_MAX_ORDER"
    "int sz \<le> 4096 * 2 ^ nat l" "l = 0 \<or> 4096 * 2 ^ nat (l - 1) < int sz"
    using assms(2,3) by (rule page_level_small)
  have pos: "i \<noteq> -1 \<or> l < PAGE_MAX_ORDER"
  proof (cases "l < PAGE_MAX_ORDER")
    case False
    then have "l = 16" using l(3) by (simp add: PAGE_MAX_ORDER_def)
    then have "4096 * 2 ^ 15 < int sz" using l(5) by simp
    then have "\<not> sz \<le> 4096 * 2 ^ 15" by simp
    then show ?thesis using assms(5) by blast
  qed simp
  obtain s1 L1 r where s1: "page_inv s1 L1" "L1 l = i # r" "take_first l s1 = Inr (i, s')"
    "used_kept (frame s) (frame s1)" "free_pages (frame s1) = free_pages (frame s)"
    by (rule page_allocate_source [OF assms(1) l(1,3) assms(4) pos])
  obtain s2 where s2: "take_first l s1 = Inr (i, s2)" "frame s2 = take_frames PAGE_ALLOCATED i l (frame s1)"
    "page_inv s2 (L1(l := r))" by (rule take_first_run [OF s1(1,2)])
  have s': "s' = s2" using s1(3) s2(1) by simp
  note fh = page_inv_head(1) [OF s1(1,2)]
  note til = page_invD(1) [OF s1(1)]
  have "{i..<i + 2 ^ nat l} \<subseteq> free_pages (frame s)"
    using fh by (auto simp: s1(5) [symmetric] intro: free_pagesI)
  moreover have "free_pages (frame s') = free_pages (frame s) - {i..<i + 2 ^ nat l}"
    unfolding s' s2(2) take_free_pages [OF til fh page_marks(1)] s1(5) ..
  moreover have "frame s' i = \<lparr>fi_status = 1, fi_index = l\<rparr>"
    using fh by (auto simp: s' s2(2) take_frames_def mark_range_def free_head_def
        intro: frame_info.equality)
  moreover have "used_kept (frame s) (frame s')"
    unfolding s' s2(2) using s1(4) take_used_kept [OF til fh page_marks(1)] by (rule used_kept_trans)
  moreover have "2 ^ nat l dvd i" using free_head_bounds(5) [OF til fh] .
  ultimately show ?thesis using l s2(3) s' by blast
qed

text \<open>C1: a successful page_allocate(sz), for 1 to 2^16 pages, returns the index of an aligned
  block that is just big enough for the request and all of whose pages were free; afterwards
  exactly these pages are no longer free, the blocks in use before are untouched, and the frames
  and free lists are consistent again.\<close>

theorem page_allocate_correct:
  assumes "page_inv s L" and "1 \<le> sz" and "sz \<le> 4096 * 2 ^ 16"
    and "page_allocate fuel sz s = Inr (i, s')" and "i \<noteq> -1"
  shows "\<exists>l L'. page_level sz = Inr l \<and>
    int sz \<le> 4096 * 2 ^ nat l \<and> (l = 0 \<or> 4096 * 2 ^ nat (l - 1) < int sz) \<and>
    2 ^ nat l dvd i \<and> {i..<i + 2 ^ nat l} \<subseteq> free_pages (frame s) \<and>
    free_pages (frame s') = free_pages (frame s) - {i..<i + 2 ^ nat l} \<and>
    frame s' i = \<lparr>fi_status = 1, fi_index = l\<rparr> \<and>
    used_kept (frame s) (frame s') \<and> page_inv s' L'"
  by (rule page_allocate_run [OF assms(1-4) disjI1 [OF assms(5)]])

lemma page_level_16: "page_level 268435456 = Inr 16"
  by (simp add: page_level_def log2_def log2_loop.simps u64_def c_int_def PAGE_MAX_ORDER_def)

lemma boot_allocate_16:
  obtains s' where "page_allocate fuel 268435456 boot_state = Inr (131072, s')"
proof -
  have L: "boot_lists 16 = 131072 # [65536, 0]" by (simp add: boot_lists_def)
  obtain s' where "take_first 16 boot_state = Inr (131072, s')"
    by (rule take_first_run [OF boot_inv L])
  then show thesis
    using page_allocate_cases [OF boot_inv page_level_16, of fuel] that L
    by (simp add: PAGE_MAX_ORDER_def)
qed

theorem page_allocate_correct_witness:
  "\<exists>s'. page_allocate 6 268435456 boot_state = Inr (131072, s') \<and>
     {131072..<196608} \<subseteq> free_pages (frame boot_state) \<and>
     free_pages (frame s') = free_pages (frame boot_state) - {131072..<196608}"
proof -
  obtain s' where run: "page_allocate 6 268435456 boot_state = Inr (131072, s')"
    by (rule boot_allocate_16)
  show ?thesis
    using page_allocate_correct [OF boot_inv _ _ run] page_level_16 run by auto
qed

section \<open>When allocation returns\<close>

text \<open>C34: page_allocate returns a block whenever a block of the requested order is free, or of
  the next order, or of a bigger order up to 5; six nested calls of page_divide are enough.\<close>

theorem page_allocate_returns:
  assumes "page_inv s L" and "page_level sz = Inr l" and "L k \<noteq> []"
    and "l \<le> k" and "k \<le> 5 \<or> k \<le> l + 1" and "6 \<le> fuel"
  shows "\<exists>i s'. page_allocate fuel sz s = Inr (i, s') \<and> 0 \<le> i"
proof -
  have took: "\<exists>i s'. take_first l s1 = Inr (i, s') \<and> 0 \<le> i"
    if inv: "page_inv s1 L1" "L1 l \<noteq> []" for s1 L1
  proof -
    obtain i r where L1: "L1 l = i # r" using inv(2) by (cases "L1 l") auto
    obtain s2 where "take_first l s1 = Inr (i, s2)" by (rule take_first_run [OF inv(1) L1])
    then show ?thesis using page_inv_head(5) [OF inv(1) L1] by blast
  qed
  have k: "k \<le> PAGE_MAX_ORDER" using lists_repD(4) [OF page_invD(2) [OF assms(1)] assms(3)] by simp
  have l: "0 \<le> l" "l \<le> PAGE_MAX_ORDER" using page_level_range(1) [OF assms(2)] assms(4) k by simp_all
  show ?thesis
  proof (cases "L l = []")
    case False
    then show ?thesis using page_allocate_cases [OF assms(1,2) l(2)] took [OF assms(1)] by simp
  next
    case True
    then have lt: "l + 1 \<le> k" using assms(3,4) by (cases "k = l") auto
    have "nat (k - (l + 1)) < fuel" using assms(5,6) l by auto
    then obtain L1 where L1: "adivide fuel (l + 1) L = Some L1" "L1 l \<noteq> []"
      using adivide_some [where L = L, OF assms(3) lt, of fuel] assms(5) lt by auto
    have "1 \<le> l + 1" "l + 1 \<le> PAGE_MAX_ORDER" using l lt k by simp_all
    from page_divide_refines [OF assms(1) this, of fuel]
    obtain s1 where s1: "page_divide fuel (l + 1) s = Inr s1" "page_inv s1 L1" using L1 by auto
    then show ?thesis
      using page_allocate_cases [OF assms(1,2) l(2), of fuel] True lt k
        took [where ?L1.0 = L1, OF s1(2) L1(2)] by simp
  qed
qed

theorem page_allocate_returns_witness:
  "\<exists>i s'. page_allocate 6 268435456 boot_state = Inr (i, s') \<and> 0 \<le> i"
  by (rule page_allocate_returns [OF boot_inv page_level_16, of 16])
    (simp_all add: boot_lists_def)

text \<open>page_allocate follows a null pointer when the requested order is at least 4 and neither
  this order nor the next has a free block, however many bigger blocks are free: page_divide
  stops looking at order 5, although orders go up to 16.\<close>

theorem page_allocate_null:
  assumes "page_inv s L" and "page_level sz = Inr l" and "4 \<le> l" and "l < PAGE_MAX_ORDER"
    and "L l = []" and "L (l + 1) = []" and "0 < fuel"
  shows "page_allocate fuel sz s = Inl NullDeref"
proof -
  obtain f where f: "fuel = Suc f" using assms(7) by (cases fuel) auto
  have "list_get (l + 1) s = Inr None"
    using page_list_eq [OF assms(1), of "l + 1"] assms(3,4,6) by (simp add: list_get_def)
  then have "page_divide fuel (l + 1) s = Inr s" using f assms(3) by simp
  then show ?thesis
    using page_allocate_cases [OF assms(1,2), of fuel] take_first_none [OF assms(1,5)] assms
    by simp
qed

lemma page_level_4: "page_level 65536 = Inr 4"
  by (simp add: page_level_def log2_def log2_loop.simps u64_def c_int_def PAGE_MAX_ORDER_def)

theorem page_allocate_null_example:
  "boot_lists 16 \<noteq> [] \<and> page_allocate 1 65536 boot_state = Inl NullDeref"
  using page_allocate_null [OF boot_inv page_level_4, of 1]
  by (simp add: boot_lists_def PAGE_MAX_ORDER_def)

text \<open>page_allocate does not return, whatever the fuel, when the requested order is below 4 and
  no block of this order up to order 5 is free: page_divide then calls itself for ever, although
  bigger blocks may be free.\<close>

theorem page_allocate_diverges:
  assumes "page_inv s L" and "page_level sz = Inr l" and "l < 4"
    and "\<And>j. l \<le> j \<Longrightarrow> j \<le> 5 \<Longrightarrow> L j = []"
  shows "page_allocate fuel sz s = Inl OutOfFuel"
proof -
  have l: "1 \<le> l + 1" "l + 1 \<le> PAGE_MAX_ORDER" "l \<le> PAGE_MAX_ORDER"
    using page_level_range(1) [OF assms(2)] assms(3) by (simp_all add: PAGE_MAX_ORDER_def)
  have "adivide fuel (l + 1) L = None" using assms(3,4) by (intro adivide_none) simp_all
  then have "page_divide fuel (l + 1) s = Inl OutOfFuel"
    using page_divide_refines [OF assms(1) l(1,2), of fuel] by simp
  then show ?thesis
    using page_allocate_cases [OF assms(1,2) l(3), of fuel] assms(3) assms(4) [of l]
    by (simp add: PAGE_MAX_ORDER_def)
qed

lemma page_level_0: "page_level 4096 = Inr 0"
  by (simp add: page_level_def log2_def log2_loop.simps u64_def c_int_def PAGE_MAX_ORDER_def)

theorem page_allocate_diverges_example:
  "\<forall>fuel. page_allocate fuel 4096 boot_state = Inl OutOfFuel"
  using page_allocate_diverges [OF boot_inv page_level_0] by (simp add: boot_lists_def)

text \<open>page_allocate reads page_list outside the array for every request of more than 2^16
  pages (up to 2^42 bytes), because the level computed for it is 17, one more than the last
  index.\<close>

theorem page_allocate_out_of_bounds:
  assumes "4096 * 2 ^ 16 < sz" and "sz \<le> 4096 * 2 ^ 30"
  shows "page_allocate fuel sz s = Inl OutOfBounds"
proof -
  define p where "p = (sz - 1) div 4096"
  have p: "2 ^ 16 \<le> p" "p < 2 ^ 30"
    using assms div_le_mono [of "4096 * 2 ^ 16" "sz - 1" 4096]
    by (simp_all add: p_def less_mult_imp_div_less)
  obtain k where k: "2 ^ k \<le> int p" "int p < 2 ^ Suc k"
    using int_log_exists [of "int p"] p(1) by auto
  have "\<not> k < 16"
  proof
    assume "k < 16"
    then have "(2::int) ^ Suc k \<le> 2 ^ 16" by (intro power_increasing) simp_all
    then show False using k(2) p(1) by simp
  qed
  moreover have "k < 30"
  proof (rule ccontr)
    assume "\<not> k < 30"
    then have "(2::int) ^ 30 \<le> 2 ^ k" by (intro power_increasing) simp_all
    moreover have "int p < 2 ^ 30" using p(2) by simp
    ultimately show False using k(1) by linarith
  qed
  ultimately have "log2 (int p) = Inr 16" using log2_eq [OF k] by (simp add: PAGE_MAX_ORDER_def min_def)
  moreover have "u64 (int sz - 1) = sz - 1" using assms by (simp add: u64_small nat_diff_distrib')
  moreover have "c_int p = int p" using p by (intro c_int_small) simp
  ultimately have "page_level sz = Inr 17" by (simp add: page_level_def p_def)
  then show ?thesis by (simp add: page_allocate_def list_get_def PAGE_MAX_ORDER_def)
qed

section \<open>Release is correct\<close>

lemma page_free_run:
  assumes "page_inv s L" and "block_head (frame s) i" and "fi_status (frame s i) \<noteq> 0"
    and "i < last_block" and "17 \<le> fuel"
  shows "\<exists>s' L'. page_free fuel i s = Inr s' \<and> page_inv s' L' \<and>
    free_pages (frame s') =
      free_pages (frame s) \<union> {i..<i + 2 ^ nat (fi_index (frame s i))} \<and>
    merged_at (frame s') i \<and> others_kept i (frame s) (frame s')"
proof -
  note til = page_invD(1) [OF assms(1)]
  define l where "l = fi_index (frame s i)"
  obtain s1 where s1: "page_free fuel i s = merge fuel i s1"
    "frame s1 = free_frames i l (frame s)" "page_inv s1 (L(l := i # L l))"
    "back_at s1 (i # L l)"
    by (rule page_free_enlist [OF assms(1-3) l_def [symmetric]])
  have l0: "0 \<le> l" using assms(2) by (simp add: block_head_def l_def)
  have fh: "free_head (frame s1) l i"
    unfolding s1(2) using free_frames_head [OF til assms(2) l_def [symmetric]] by simp
  have bk: "back_at s1 ((L(l := i # L l)) l)" using s1(4) by simp
  obtain s' L' where s': "merge fuel i s1 = Inr s'" "page_inv s' L'"
    "free_pages (frame s') = free_pages (frame s1)" "used_kept (frame s1) (frame s')"
    "merged_at (frame s') i"
    using merge_correct [OF s1(3) bk fh assms(4), of fuel i] assms(5) l0 by auto
  have "free_pages (frame s1) = free_pages (frame s) \<union> {i..<i + 2 ^ nat l}"
    unfolding s1(2) by (rule free_frames_pages [OF til assms(2) l_def [symmetric] assms(3)])
  moreover have "others_kept i (frame s) (frame s')"
    using free_others_kept [OF til assms(2) l_def [symmetric]] s'(4)
    unfolding s1(2) by (rule others_kept_trans)
  ultimately show ?thesis using s' s1(1) by (auto simp: l_def)
qed

text \<open>C2: page_free of a block in use that starts below page 229376 returns; afterwards exactly
  the pages of this block are free besides those free before, the block has been merged with its
  buddy for as long as this was free and of the same order, the other blocks in use are untouched,
  and the frames and free lists are consistent again.\<close>

theorem page_free_correct:
  assumes "page_inv s L" and "block_head (frame s) i" and "fi_status (frame s i) \<noteq> 0"
    and "i < last_block" and "17 \<le> fuel"
  shows "\<exists>s' L'. page_free fuel i s = Inr s' \<and> page_inv s' L' \<and>
    free_pages (frame s') =
      free_pages (frame s) \<union> {i..<i + 2 ^ nat (fi_index (frame s i))} \<and>
    merged_at (frame s') i \<and> others_kept i (frame s) (frame s')"
  using assms by (rule page_free_run)

text \<open>A state with one block in use, for the witnesses.\<close>

lemma boot_allocate_15:
  obtains s' where "page_allocate 6 134217728 boot_state = Inr (196608, s')"
    and "page_inv s' (boot_lists(15 := []))"
    and "frame s' = take_frames PAGE_ALLOCATED 196608 15 boot_frames"
proof -
  have L: "boot_lists 15 = [196608]" by (simp add: boot_lists_def)
  have lv: "page_level 134217728 = Inr 15"
    by (simp add: page_level_def log2_def log2_loop.simps u64_def c_int_def PAGE_MAX_ORDER_def)
  obtain s' where s': "take_first 15 boot_state = Inr (196608, s')"
    "frame s' = take_frames PAGE_ALLOCATED 196608 15 (frame boot_state)" "page_inv s' (boot_lists(15 := []))"
    by (rule take_first_run [OF boot_inv L])
  moreover have "page_allocate 6 134217728 boot_state = Inr (196608, s')"
    using page_allocate_cases [OF boot_inv lv, of 6] s'(1) L by (simp add: PAGE_MAX_ORDER_def)
  ultimately show thesis using that by (simp add: boot_state_def)
qed

lemma boot_block_15:
  assumes "frame s' = take_frames PAGE_ALLOCATED 196608 15 boot_frames"
  shows "block_head (frame s') 196608" and "fi_status (frame s' 196608) \<noteq> 0"
    and "fi_index (frame s' 196608) = 15"
  unfolding assms
  by (simp_all add: take_frames_def mark_range_def block_head_def boot_frames_def boot_index_def
      PAGE_MAX_ENTRY_def)

theorem page_free_correct_witness:
  "\<exists>s s'. page_allocate 6 134217728 boot_state = Inr (196608, s) \<and>
     page_free 17 196608 s = Inr s' \<and>
     free_pages (frame s') = free_pages (frame s) \<union> {196608..<229376}"
proof -
  obtain s where s: "page_allocate 6 134217728 boot_state = Inr (196608, s)"
    "page_inv s (boot_lists(15 := []))" "frame s = take_frames PAGE_ALLOCATED 196608 15 boot_frames"
    by (rule boot_allocate_15)
  note b = boot_block_15 [OF s(3)]
  have lt: "(196608::int) < last_block" by (simp add: last_block_def)
  show ?thesis
    using page_free_correct [OF s(2) b(1,2) lt, of 17] s(1) b(3) by auto
qed

text \<open>allocating a block and releasing it again, for a request of 1 to 2^16 pages served by
  a block below page 229376, leaves exactly the pages free that were free before.\<close>

theorem page_allocate_free_round_trip:
  assumes "page_inv s L" and "1 \<le> sz" and "sz \<le> 4096 * 2 ^ 16"
    and "page_allocate fuel sz s = Inr (i, s1)" and "i \<noteq> -1" and "i < last_block"
  shows "\<exists>s2 L2. page_free 17 i s1 = Inr s2 \<and> page_inv s2 L2 \<and>
    free_pages (frame s2) = free_pages (frame s)"
proof -
  obtain l where l: "page_level sz = Inr l" "0 \<le> l" "l \<le> PAGE_MAX_ORDER"
    "int sz \<le> 4096 * 2 ^ nat l" "l = 0 \<or> 4096 * 2 ^ nat (l - 1) < int sz"
    using assms(2,3) by (rule page_level_small)
  obtain s0 L0 r where s0: "page_inv s0 L0" "L0 l = i # r" "take_first l s0 = Inr (i, s1)"
    "used_kept (frame s) (frame s0)" "free_pages (frame s0) = free_pages (frame s)"
    by (rule page_allocate_source [OF assms(1) l(1,3) assms(4) disjI1 [OF assms(5)]])
  obtain s2 where s2: "take_first l s0 = Inr (i, s2)" "frame s2 = take_frames PAGE_ALLOCATED i l (frame s0)"
    "page_inv s2 (L0(l := r))" by (rule take_first_run [OF s0(1,2)])
  have s12: "s1 = s2" using s0(3) s2(1) by simp
  note fh = page_inv_head(1) [OF s0(1,2)] and til = page_invD(1) [OF s0(1)]
  have f: "frame s1 i = \<lparr>fi_status = 1, fi_index = l\<rparr>"
    using fh by (auto simp: s12 s2(2) take_frames_def mark_range_def free_head_def
        intro: frame_info.equality)
  have used: "block_head (frame s1) i" "fi_status (frame s1 i) \<noteq> 0"
    using fh f by (auto simp: free_head_def block_head_def)
  have inv: "page_inv s1 (L0(l := r))" using s2(3) s12 by simp
  obtain s3 L3 where s3: "page_free 17 i s1 = Inr s3" "page_inv s3 L3"
    "free_pages (frame s3) = free_pages (frame s1) \<union> {i..<i + 2 ^ nat (fi_index (frame s1 i))}"
    using page_free_run [OF inv used assms(6), of 17] by auto
  have "free_pages (frame s1) = free_pages (frame s) - {i..<i + 2 ^ nat l}"
    unfolding s12 s2(2) take_free_pages [OF til fh page_marks(1)] s0(5) ..
  moreover have "{i..<i + 2 ^ nat l} \<subseteq> free_pages (frame s)"
    using fh by (auto simp: s0(5) [symmetric] intro: free_pagesI)
  ultimately have "free_pages (frame s3) = free_pages (frame s)" using s3(3) f by auto
  then show ?thesis using s3 by blast
qed

text \<open>releasing the last block, of order 14 at page 229376, reads and compares a frame outside
  the array: its buddy would start at page 245760, where the frames end.\<close>

theorem page_free_last_block:
  assumes "page_inv s L" and "block_head (frame s) last_block"
    and "fi_status (frame s last_block) \<noteq> 0" and "fi_index (frame s last_block) = 14" and "0 < fuel"
  shows "page_free fuel last_block s = Inl OutOfBounds"
proof -
  obtain s1 where s1: "page_free fuel last_block s = merge fuel last_block s1"
    "frame s1 = free_frames last_block 14 (frame s)"
    by (rule page_free_enlist [OF assms(1-4)])
  have "frame_get last_block s1 = Inr (frame s1 last_block)"
    by (simp add: frame_get_def last_block_def PAGE_MAX_ENTRY_def)
  moreover have "fi_index (frame s1 last_block) = 14"
    using assms(4) by (simp add: s1(2) free_frames_def mark_range_def)
  moreover obtain f where "fuel = Suc f" using assms(5) by (cases fuel) auto
  ultimately show ?thesis
    unfolding s1(1) by (simp add: frame_get_def last_block_def PAGE_MAX_ENTRY_def PAGE_MAX_ORDER_def)
qed

theorem page_allocate_free_round_trip_example:
  "\<exists>s1 s2. page_allocate 6 134217728 boot_state = Inr (196608, s1) \<and>
     page_free 17 196608 s1 = Inr s2 \<and> free_pages (frame s2) = free_pages (frame boot_state)"
proof -
  obtain s where s: "page_allocate 6 134217728 boot_state = Inr (196608, s)"
    by (rule boot_allocate_15)
  show ?thesis
    using page_allocate_free_round_trip [OF boot_inv _ _ s(1)] s(1)
    by (auto simp: last_block_def)
qed

end
