(* ===== verification/PageInit.thy ===== *)
theory PageInit
  imports PageProps
begin

text \<open>
  \<open>page_init\<close> and \<open>memory_reserve\<close> of \<open>lib/malloc.c\<close>: the frames are first cut into
  blocks that are as big as possible, then the ranges of memory already in use are reserved, and
  what is left is put on the free lists. The loops whose condition alone does not bound them take
  fuel.
\<close>

section \<open>The first loop of page_init\<close>

text \<open>\<open>for(i=lo; i<hi; i++) { (frame+i)->index = PAGE_FREE; (frame+i)->status = 0; }\<close>\<close>

function clear_loop :: "int \<Rightarrow> int \<Rightarrow> page_state \<Rightarrow> page_state res" where
  "clear_loop i hi s =
     (if i < hi then
        rbind (frame_set_index i PAGE_FREE s) (\<lambda>s.
        rbind (frame_set_status i 0 s) (clear_loop (i + 1) hi))
      else Inr s)"
  by pat_completeness auto
termination
  by (relation "measure (\<lambda>(i, hi, s). nat (hi - i))") auto

text \<open>The loop variables are \<open>head\<close> and \<open>non_init\<close>; every round advances \<open>head\<close>.\<close>

function init_loop :: "int \<Rightarrow> int \<Rightarrow> page_state \<Rightarrow> page_state res" where
  "init_loop head non_init s =
     (if head < PAGE_MAX_ENTRY then
        rbind (log2 non_init) (\<lambda>l.
        rbind (frame_set_index head l s) (\<lambda>s.
        rbind (frame_set_status head 0 s) (\<lambda>s.
        rbind (clear_loop (PAGE_MAX_ENTRY - non_init + 1) (head + power2 l) s) (\<lambda>s.
        init_loop (head + power2 l) (non_init - power2 l) s))))
      else Inr s)"
  by pat_completeness auto
termination
  by (relation "measure (\<lambda>(head, non_init, s). nat (PAGE_MAX_ENTRY - head))")
    (auto simp: PAGE_MAX_ENTRY_def)

declare clear_loop.simps [simp del] init_loop.simps [simp del]

section \<open>Reserving a range\<close>

text \<open>\<open>while ((frame+head)->index == -1) head--;\<close>\<close>

function seek_head :: "int \<Rightarrow> page_state \<Rightarrow> int res" where
  "seek_head head s =
     rbind (frame_get head s) (\<lambda>f. if fi_index f = -1 then seek_head (head - 1) s else Inr head)"
  by pat_completeness auto
termination
  by (relation "measure (\<lambda>(head, s). nat (head + 1))") (auto simp: frame_get_def split: if_splits)

declare seek_head.simps [simp del]

text \<open>The four assignments that split the block at \<open>head\<close> in two.\<close>

definition halve :: "int \<Rightarrow> page_state \<Rightarrow> page_state res" where
  "halve head s =
     rbind (frame_get head s) (\<lambda>f.
     rbind (frame_set_index head (fi_index f - 1) s) (\<lambda>s.
     rbind (frame_set_status head 0 s) (\<lambda>s.
     let b = head + power2 (fi_index f - 1) in
     rbind (frame_set_index b (fi_index f - 1) s) (frame_set_status b 0))))"

text \<open>The statements that mark the block at \<open>head\<close> as reserved.\<close>

definition reserve_block :: "int \<Rightarrow> page_state \<Rightarrow> page_state res" where
  "reserve_block head s =
     rbind (frame_set_status head 1 s) (\<lambda>s.
     rbind (frame_get head s) (\<lambda>f.
     mark_loop head 1 (power2 (fi_index f)) PAGE_RESERVED s))"

definition frame_size :: "int \<Rightarrow> page_state \<Rightarrow> int res" where
  "frame_size head s = rbind (frame_get head s) (\<lambda>f. Inr (power2 (fi_index f)))"

lemma frame_size_ge1: "frame_size head s = Inr sz \<Longrightarrow> 1 \<le> sz"
  by (auto simp: frame_size_def rbind_eq_Inr)

text \<open>
  The second loop splits blocks until one starts at \<open>start_index\<close>. It advances by the size of
  the block and, when this goes too far, goes back by the size read at the new place.
\<close>

fun split_to_start :: "nat \<Rightarrow> int \<Rightarrow> int \<Rightarrow> page_state \<Rightarrow> (int \<times> page_state) res" where
  "split_to_start 0 start_index head s = Inl OutOfFuel"
| "split_to_start (Suc fuel) start_index head s =
     (if head \<noteq> start_index then
        rbind (halve head s) (\<lambda>s.
        rbind (frame_size head s) (\<lambda>sz.
        let up = head + sz in
        if up > start_index then
          rbind (frame_size up s) (\<lambda>sz'. split_to_start fuel start_index (up - sz') s)
        else split_to_start fuel start_index up s))
      else Inr (head, s))"

text \<open>The third loop reserves whole blocks, the fourth splits the last one.\<close>

fun reserve_whole :: "nat \<Rightarrow> int \<Rightarrow> int \<Rightarrow> page_state \<Rightarrow> (int \<times> page_state) res" where
  "reserve_whole 0 end_index head s = Inl OutOfFuel"
| "reserve_whole (Suc fuel) end_index head s =
     rbind (frame_size head s) (\<lambda>sz.
     if head + sz < end_index then
       rbind (reserve_block head s) (\<lambda>s.
       rbind (frame_size head s) (\<lambda>sz. reserve_whole fuel end_index (head + sz) s))
     else Inr (head, s))"

fun reserve_last :: "nat \<Rightarrow> int \<Rightarrow> int \<Rightarrow> page_state \<Rightarrow> (int \<times> page_state) res" where
  "reserve_last 0 end_index head s = Inl OutOfFuel"
| "reserve_last (Suc fuel) end_index head s =
     rbind (frame_size head s) (\<lambda>sz.
     if head + sz - 1 \<noteq> end_index then
       rbind (halve head s) (\<lambda>s.
       rbind (frame_size head s) (\<lambda>sz.
       if end_index \<ge> head + sz then
         rbind (reserve_block head s) (\<lambda>s.
         rbind (frame_size head s) (\<lambda>sz. reserve_last fuel end_index (head + sz) s))
       else reserve_last fuel end_index head s))
     else Inr (head, s))"

definition memory_reserve :: "nat \<Rightarrow> nat \<Rightarrow> nat \<Rightarrow> page_state \<Rightarrow> page_state res" where
  "memory_reserve fuel start stop s =
     (let start_index = c_int (start div 0x1000);
          end_index = c_int (stop div 0x1000) in
      rbind (seek_head start_index s) (\<lambda>head.
      rbind (split_to_start fuel start_index head s) (\<lambda>(head, s).
      rbind (reserve_whole fuel end_index head s) (\<lambda>(head, s).
      rbind (reserve_last fuel end_index head s) (\<lambda>(head, s).
      reserve_block head s)))))"

section \<open>The last loop of page_init, and page_init\<close>

text \<open>
  The last loop enlists the free blocks. Its \<open>non_init\<close> only feeds the call of \<open>log2\<close> that
  updates it.
\<close>

function enlist_loop :: "int \<Rightarrow> int \<Rightarrow> page_state \<Rightarrow> page_state res" where
  "enlist_loop head non_init s =
     (if head < PAGE_MAX_ENTRY then
        rbind (frame_get head s) (\<lambda>f.
        rbind (if fi_status f = 0 then add_page_item head s else Inr s) (\<lambda>s.
        rbind (frame_size head s) (\<lambda>sz.
        rbind (log2 non_init) (\<lambda>l.
        enlist_loop (head + sz) (non_init - power2 l) s))))
      else Inr s)"
  by pat_completeness auto
termination
  by (relation "measure (\<lambda>(head, non_init, s). nat (PAGE_MAX_ENTRY - head))")
    (auto simp: PAGE_MAX_ENTRY_def dest: frame_size_ge1)

declare enlist_loop.simps [simp del]

text \<open>
  What \<open>page_init\<close> takes from outside: the linker's symbols, the places that
  \<open>fdt_traverse\<close> has found, and the array of frames from \<open>simple_malloc_\<close>.
\<close>

record boot_layout =
  heap_top :: nat
  kernel_start :: nat
  kernel_end :: nat
  cpio_place :: nat
  cpio_place_end :: nat
  dtb_start :: nat
  dtb_len :: nat

definition simple_malloc :: "nat \<Rightarrow> boot_layout \<Rightarrow> nat \<times> boot_layout" where
  "simple_malloc sz b =
     (let sz = 0x10 + sz - sz mod 0x10 in (heap_top b, b\<lparr>heap_top := heap_top b + sz\<rparr>))"

definition SIZEOF_frame_info :: nat where
  "SIZEOF_frame_info = 8"

definition USER_PROGRAM_SPACE :: nat where
  "USER_PROGRAM_SPACE = 0x900000"

definition USER_PROGRAM_MAX_SIZE :: nat where
  "USER_PROGRAM_MAX_SIZE = 0x500000"

definition page_init :: "nat \<Rightarrow> boot_layout \<Rightarrow> page_state \<Rightarrow> (boot_layout \<times> page_state) res" where
  "page_init fuel b s =
     (let len = nat PAGE_MAX_ENTRY * SIZEOF_frame_info;
          (addr, b) = simple_malloc len b in
      rbind (init_loop 0 PAGE_MAX_ENTRY s) (\<lambda>s.
      rbind (memory_reserve fuel addr (addr + len) s) (\<lambda>s.
      rbind (memory_reserve fuel 0x0000 0x1000 s) (\<lambda>s.
      rbind (memory_reserve fuel (kernel_start b) (kernel_end b) s) (\<lambda>s.
      rbind (memory_reserve fuel (u64 (int (kernel_start b) - 0x2000))
        (u64 (int (kernel_start b) - 0x1000)) s) (\<lambda>s.
      rbind (memory_reserve fuel (cpio_place b) (u64 (int (cpio_place_end b) + 0x1000)) s) (\<lambda>s.
      rbind (memory_reserve fuel (dtb_start b) (u64 (int (dtb_start b + dtb_len b))) s) (\<lambda>s.
      rbind (memory_reserve fuel USER_PROGRAM_SPACE (USER_PROGRAM_SPACE + USER_PROGRAM_MAX_SIZE) s) (\<lambda>s.
      rbind (enlist_loop 0 PAGE_MAX_ENTRY s) (\<lambda>s. Inr (b, s)))))))))))"

end
