(* ===== verification/PageReserve.thy ===== *)
theory PageReserve
  imports PageInit
begin

text \<open>
  \<open>memory_reserve\<close>: when all pages of the range are free and no block starts at its last page
  (nor will after the range's start has been cut off), exactly the pages of the range are reserved.
  When a block does start there, its frame is destroyed.
\<close>

section \<open>Frames of free blocks\<close>

text \<open>The pages inside a free block are marked \<open>PAGE_FREE\<close>, which is what \<open>memory_reserve\<close>
  looks for on its way down to the first page of a block.\<close>

definition interior_free :: "(int \<Rightarrow> frame_info) \<Rightarrow> bool" where
  "interior_free fr \<longleftrightarrow>
     (\<forall>l i j. free_head fr l i \<longrightarrow> i < j \<longrightarrow> j < i + 2 ^ nat l \<longrightarrow> fi_index (fr j) = PAGE_FREE)"

definition reservable :: "(int \<Rightarrow> frame_info) \<Rightarrow> bool" where
  "reservable fr \<longleftrightarrow> tiling fr \<and> interior_free fr"

lemma reservableD:
  assumes "reservable fr"
  shows "tiling fr" and "free_head fr l i \<Longrightarrow> i < j \<Longrightarrow> j < i + 2 ^ nat l \<Longrightarrow> fi_index (fr j) = PAGE_FREE"
  using assms unfolding reservable_def interior_free_def by blast+

lemma free_head_facts:
  assumes "free_head fr l i"
  shows "block_head fr i" and "fi_index (fr i) = l" and "fi_status (fr i) = 0"
    and "0 \<le> i" and "i < PAGE_MAX_ENTRY" and "0 \<le> l"
  using assms by (auto simp: free_head_def block_head_def)

text \<open>A free page next to the end of a free block starts a free block.\<close>

lemma free_next:
  assumes "tiling fr" and "free_head fr l i" and "i + 2 ^ nat l \<in> free_pages fr"
  obtains k where "free_head fr k (i + 2 ^ nat l)"
proof -
  obtain k j where kj: "free_head fr k j" "j \<le> i + 2 ^ nat l" "i + 2 ^ nat l < j + 2 ^ nat k"
    using assms(3) by (rule free_pagesE)
  have "j = i + 2 ^ nat l"
  proof (rule ccontr)
    assume "j \<noteq> i + 2 ^ nat l"
    then have lt: "j < i + 2 ^ nat l" using kj(2) by simp
    consider "j < i" | "j = i" | "i < j" by linarith
    then show False
    proof cases
      case 1
      then have "j + 2 ^ nat k \<le> i"
        using blocks_apart [OF assms(1), of j i] kj(1) assms(2) free_head_size [OF kj(1)]
        by (simp add: free_head_def)
      moreover have "0 < (2::int) ^ nat l" by simp
      ultimately show False using kj(3) by linarith
    next
      case 2
      then have "k = l" using kj(1) assms(2) by (simp add: free_head_def)
      then show False using kj(3) 2 by simp
    next
      case 3
      then show False
        using inside_not_head [OF assms(1), of i j] lt kj(1) assms(2) free_head_size [OF assms(2)]
        by (simp add: free_head_def)
    qed
  qed
  then show thesis using that kj(1) by simp
qed

lemma free_page_head:
  assumes "tiling fr" and "block_head fr p" and "p \<in> free_pages fr"
  obtains l where "free_head fr l p"
proof -
  obtain k j where kj: "free_head fr k j" "j \<le> p" "p < j + 2 ^ nat k" using assms(3) by (rule free_pagesE)
  have "p < p + block_size fr p" by simp
  then have "p = j"
    using block_unique [OF assms(1,2), of p j] kj free_head_size [OF kj(1)]
    by (simp add: free_head_def)
  then show thesis using that kj(1) by simp
qed

section \<open>The steps of memory_reserve\<close>

lemma frame_size_run:
  assumes "free_head (frame s) l i"
  shows "frame_size i s = Inr (2 ^ nat l)"
  using free_head_facts [OF assms] by (simp add: frame_size_def frame_get_def)

lemma halve_run:
  assumes "tiling (frame s)" and "free_head (frame s) l i" and "1 \<le> l"
  shows "halve i s = Inr (s\<lparr>frame := split_frames i (frame s)\<rparr>)"
proof -
  note h = free_head_facts [OF assms(2)]
  have pos: "1 \<le> fi_index (frame s i)" using h assms(3) by simp
  note u = upper_half [OF assms(1) h(1) pos, unfolded h(2)]
  have eq: "(frame s)(i := (frame s i)\<lparr>fi_index := l - 1, fi_status := 0\<rparr>,
      i + 2 ^ nat (l - 1) := (frame s (i + 2 ^ nat (l - 1)))\<lparr>fi_index := l - 1, fi_status := 0\<rparr>)
    = split_frames i (frame s)"
    by (rule ext, rule frame_info.equality) (use h u(6) in \<open>simp_all add: split_frames_def Let_def\<close>)
  have neq: "i + 2 ^ nat (l - 1) \<noteq> i" using u(2) by simp
  show ?thesis
    using h u(3,4) neq
    by (simp add: halve_def frame_get_def frame_set_index_def frame_set_status_def Let_def eq)
qed

lemma reserve_block_run:
  assumes "tiling (frame s)" and "free_head (frame s) l i"
  shows "reserve_block i s = Inr (s\<lparr>frame := take_frames PAGE_RESERVED i l (frame s)\<rparr>)"
proof -
  note h = free_head_facts [OF assms(2)] and b = free_head_bounds [OF assms]
  show ?thesis
    using mark_loop_eq [of i 1 "2 ^ nat l" PAGE_RESERVED
        "s\<lparr>frame := (frame s)(i := (frame s i)\<lparr>fi_status := 1\<rparr>)\<rparr>"] h b(4)
    by (simp add: reserve_block_def frame_get_def frame_set_status_def take_frames_def)
qed

lemma split_reservable:
  assumes "reservable fr" and "free_head fr l i" and "1 \<le> l"
  shows "reservable (split_frames i fr)"
proof -
  note til = reservableD(1) [OF assms(1)] and h = free_head_facts [OF assms(2)]
  have pos: "1 \<le> fi_index (fr i)" using h assms(3) by simp
  note u = upper_half [OF til h(1) pos, unfolded h(2)]
  define b where "b = i + 2 ^ nat (l - 1)"
  have sz: "(2::int) ^ nat l = 2 ^ nat (l - 1) + 2 ^ nat (l - 1)" by (rule two_power_split) (use assms(3) in simp)
  have "fi_index (split_frames i fr p) = PAGE_FREE"
    if kj: "free_head (split_frames i fr) k j" "j < p" "p < j + 2 ^ nat k" for k j p
  proof -
    have nh: "\<not> block_head (split_frames i fr) p"
      using inside_not_head [OF split_tiling [OF til h(1) pos] _ kj(2)] kj free_head_size [OF kj(1)]
      by (simp add: free_head_def)
    then have np: "p \<noteq> i" "p \<noteq> b" "\<not> block_head fr p"
      using split_block_head [OF til h(1) pos, of p] h(1,2) by (auto simp: b_def)
    have "fi_index (fr p) = PAGE_FREE"
    proof (cases "j = i \<or> j = b")
      case True
      then have "k = l - 1" using split_free_head [OF til assms(2,3)] kj(1) b_def by auto
      then have "i < p \<and> p < i + 2 ^ nat l" using True kj(2,3) sz u(2) by (auto simp: b_def)
      then show ?thesis using reservableD(2) [OF assms(1,2)] by blast
    next
      case False
      then have "free_head fr k j" using split_free_head [OF til assms(2,3)] kj(1) by (simp add: b_def)
      then show ?thesis using reservableD(2) [OF assms(1)] kj(2,3) by blast
    qed
    then show ?thesis
      using np(1,2) split_index [OF til h(1) pos, of p] h(2) by (simp add: b_def)
  qed
  then show ?thesis
    using split_tiling [OF til h(1) pos] unfolding reservable_def interior_free_def by blast
qed

lemma take_reservable:
  assumes "reservable fr" and "free_head fr l i" and "v < 0"
  shows "reservable (take_frames v i l fr)"
proof -
  note til = reservableD(1) [OF assms(1)]
  note t = take_tiling [OF til assms(2,3)]
  have "fi_index (take_frames v i l fr p) = PAGE_FREE"
    if kj: "free_head (take_frames v i l fr) k j" "j < p" "p < j + 2 ^ nat k" for k j p
  proof -
    have f: "free_head fr k j" "j \<noteq> i" using take_free_head [OF til assms(2,3)] kj(1) by auto
    have "\<not> (i \<le> p \<and> p < i + 2 ^ nat l)"
      using block_unique [OF til, of i p j] f kj(2,3) assms(2) free_head_size [OF f(1)]
        free_head_size [OF assms(2)] by (auto simp: free_head_def)
    then have "take_frames v i l fr p = fr p" by (auto simp: take_frames_def mark_range_def)
    then show ?thesis using reservableD(2) [OF assms(1) f(1) kj(2,3)] by simp
  qed
  then show ?thesis using t unfolding reservable_def interior_free_def by blast
qed

lemma take_block_head:
  assumes "tiling fr" and "free_head fr l i" and "v < 0"
  shows "block_head (take_frames v i l fr) j \<longleftrightarrow> block_head fr j"
  using take_frames_index [OF assms, of j] by (auto simp: block_head_def)

text \<open>A free block after \<open>halve\<close>, and with its lower half reserved as well.\<close>

lemma level_pos:
  fixes a i l :: int
  assumes "i \<le> a" and "a < i + 2 ^ nat l" and "a \<noteq> i + 2 ^ nat l - 1 \<or> i \<noteq> a"
  shows "1 \<le> l"
proof (rule ccontr)
  assume "\<not> 1 \<le> l"
  then have "nat l = 0" by simp
  then show False using assms by simp
qed

abbreviation lower_reserved :: "int \<Rightarrow> int \<Rightarrow> (int \<Rightarrow> frame_info) \<Rightarrow> int \<Rightarrow> frame_info" where
  "lower_reserved l h fr \<equiv> take_frames PAGE_RESERVED h (l - 1) (split_frames h fr)"

lemma halved:
  assumes r: "reservable fr" and fh: "free_head fr l h" and l: "1 \<le> l"
  shows "reservable (split_frames h fr)" and "free_head (split_frames h fr) (l - 1) h"
    and "free_head (split_frames h fr) (l - 1) (h + 2 ^ nat (l - 1))" and "free_pages (split_frames h fr) = free_pages fr"
    and "used_kept fr (split_frames h fr)" and "2 ^ nat (l - 1) dvd h"
    and "block_head (split_frames h fr) b \<longleftrightarrow> block_head fr b \<or> b = h + 2 ^ nat (l - 1)"
proof -
  note til = reservableD(1) [OF r] and H = free_head_facts [OF fh]
  have pos: "1 \<le> fi_index (fr h)" using H(2) l by simp
  show "reservable (split_frames h fr)" "free_head (split_frames h fr) (l - 1) h"
    "free_head (split_frames h fr) (l - 1) (h + 2 ^ nat (l - 1))" "free_pages (split_frames h fr) = free_pages fr"
    "used_kept fr (split_frames h fr)"
    using split_reservable [OF assms] split_free_head [OF til fh l] split_free_pages [OF til fh l] used_kept_split [OF til fh l]
    by simp_all
  show "2 ^ nat (l - 1) dvd h" using upper_half(7) [OF til H(1) pos] H(2) by simp
  show "block_head (split_frames h fr) b \<longleftrightarrow> block_head fr b \<or> b = h + 2 ^ nat (l - 1)"
    using split_block_head [OF til H(1) pos, of b] H(2) by simp
qed

lemma halved_reserved:
  assumes r: "reservable fr" and fh: "free_head fr l h" and l: "1 \<le> l"
  shows "reservable (lower_reserved l h fr)" and "free_head (lower_reserved l h fr) (l - 1) (h + 2 ^ nat (l - 1))"
    and "free_pages (lower_reserved l h fr) = free_pages fr - {h..<h + 2 ^ nat (l - 1)}" and "used_kept fr (lower_reserved l h fr)"
    and "block_head (lower_reserved l h fr) b \<longleftrightarrow> block_head fr b \<or> b = h + 2 ^ nat (l - 1)"
proof -
  note H = halved [OF assms]
  note til = reservableD(1) [OF H(1)]
  show "reservable (lower_reserved l h fr)" by (rule take_reservable [OF H(1,2) page_marks(2)])
  show "free_head (lower_reserved l h fr) (l - 1) (h + 2 ^ nat (l - 1))"
    using take_free_head [OF til H(2) page_marks(2)] H(3) by simp
  show "free_pages (lower_reserved l h fr) = free_pages fr - {h..<h + 2 ^ nat (l - 1)}"
    using take_free_pages [OF til H(2) page_marks(2)] H(4) by simp
  show "used_kept fr (lower_reserved l h fr)"
    using used_kept_trans [OF H(5) take_used_kept [OF til H(2) page_marks(2)]] .
  show "block_head (lower_reserved l h fr) b \<longleftrightarrow> block_head fr b \<or> b = h + 2 ^ nat (l - 1)"
    using take_block_head [OF til H(2) page_marks(2), of b] H(7) by simp
qed

section \<open>The loops of memory_reserve\<close>

lemma seek_head_run:
  assumes "reservable (frame s)" and "free_head (frame s) l i" and "i \<le> p" and "p < i + 2 ^ nat l"
  shows "seek_head p s = Inr i"
  using assms(3,4)
proof (induction "nat (p - i)" arbitrary: p)
  case 0
  then have "p = i" by simp
  then show ?case
    using free_head_facts [OF assms(2)] by (simp add: seek_head.simps [of i] frame_get_def)
next
  case (Suc n)
  then have lt: "i < p" by simp
  have "fi_index (frame s p) = -1"
    using reservableD(2) [OF assms(1,2) lt Suc.prems(2)] by (simp add: PAGE_FREE_def)
  moreover have "frame_get p s = Inr (frame s p)"
    using free_head_bounds [OF reservableD(1) [OF assms(1)] assms(2)] lt Suc.prems(2)
    by (simp add: frame_get_def)
  ultimately have "seek_head p s = seek_head (p - 1) s" by (simp add: seek_head.simps [of p])
  also have "\<dots> = Inr i" using Suc lt by (intro Suc.hyps(1)) simp_all
  finally show ?case .
qed

text \<open>The pages where a block starts once the blocks before page \<open>a\<close> have been cut off: \<open>a\<close>
  rounded up to a power of two that does not divide it.\<close>

definition cut_at :: "int \<Rightarrow> int \<Rightarrow> bool" where
  "cut_at a b \<longleftrightarrow> (\<exists>k \<in> {1..<17::nat}. a mod 2 ^ k \<noteq> 0 \<and> b = (a div 2 ^ k + 1) * 2 ^ k)"

lemma cut_atI:
  assumes "(2::int) ^ k dvd h" and "h < a" and "a < h + 2 ^ k" and "k < 17"
  shows "cut_at a (h + 2 ^ k)"
proof -
  obtain c where c: "h = 2 ^ k * c" using assms(1) by (rule dvdE)
  define r where "r = a - h"
  have r: "0 < r" "r < 2 ^ k" "a = r + 2 ^ k * c" using assms(2,3) c by (simp_all add: r_def)
  have md: "a mod 2 ^ k = r" unfolding r(3) using r(1,2) by simp
  have dv: "a div 2 ^ k = c" unfolding r(3) using r(1,2) by simp
  have "k \<noteq> 0" using r(1,2) by (cases k) auto
  moreover have "h + 2 ^ k = (a div 2 ^ k + 1) * 2 ^ k" by (simp add: dv c algebra_simps)
  ultimately show ?thesis using md r(1) assms(4) unfolding cut_at_def by force
qed

text \<open>Page \<open>p\<close> rounded down or up to a multiple of a power of two: where a new block can start when the frames are
  cut at \<open>p\<close>.\<close>

definition rounded :: "int \<Rightarrow> int \<Rightarrow> bool" where
  "rounded p b \<longleftrightarrow> (\<exists>k \<in> {0..<17::nat}. b = p div 2 ^ k * 2 ^ k \<or> b = (p div 2 ^ k + 1) * 2 ^ k)"

lemma roundedI:
  fixes u p :: int
  assumes "2 ^ k dvd u" and "k < 17"
  shows "u \<le> p \<Longrightarrow> p < u + 2 ^ k \<Longrightarrow> rounded p u" and "u \<le> p + 2 ^ k \<Longrightarrow> p < u \<Longrightarrow> rounded p u"
proof -
  obtain c where c: "u = 2 ^ k * c" using assms(1) by (rule dvdE)
  have q: "p div 2 ^ k = d" if "2 ^ k * d \<le> p" "p < 2 ^ k * d + 2 ^ k" for d
    using that by (intro int_div_pos_eq [of p "2 ^ k" d "p - 2 ^ k * d"]) simp_all
  show "rounded p u" if "u \<le> p" "p < u + 2 ^ k"
    using q [of c] that assms(2) c unfolding rounded_def by (auto intro!: bexI [of _ k])
  show "rounded p u" if "u \<le> p + 2 ^ k" "p < u"
    using q [of "c - 1"] that assms(2) c unfolding rounded_def by (auto simp: algebra_simps intro!: bexI [of _ k])
qed

lemma cut_at_rounded: "cut_at a b \<Longrightarrow> rounded a b"
  unfolding cut_at_def rounded_def by auto

lemma split_to_start_run:
  assumes "reservable (frame s)" and "free_head (frame s) l i" and "i \<le> a" and "a < i + 2 ^ nat l"
    and "nat l < fuel"
  shows "\<exists>fr l'. split_to_start fuel a i s = Inr (a, s\<lparr>frame := fr\<rparr>) \<and> reservable fr \<and>
    free_head fr l' a \<and> free_pages fr = free_pages (frame s) \<and> used_kept (frame s) fr \<and>
    (\<forall>b. block_head (frame s) b \<longrightarrow> block_head fr b) \<and>
    (\<forall>b. block_head fr b \<longrightarrow> b \<le> a \<and> rounded a b \<or> block_head (frame s) b \<or> cut_at a b)"
  using assms
proof (induction fuel arbitrary: l i s)
  case 0
  then show ?case by simp
next
  case (Suc fuel)
  note til = reservableD(1) [OF Suc.prems(1)]
  note h = free_head_facts [OF Suc.prems(2)] and fb = free_head_bounds [OF til Suc.prems(2)]
  show ?case
  proof (cases "i = a")
    case True
    then have "split_to_start (Suc fuel) a i s = Inr (a, s\<lparr>frame := frame s\<rparr>)" by simp
    then show ?thesis using Suc.prems(1,2) True used_kept_refl by blast
  next
    case False
    have l1: "1 \<le> l" using level_pos [OF Suc.prems(3,4)] False by blast
    have pos: "1 \<le> fi_index (frame s i)" using h l1 by simp
    define k where "k = nat (l - 1)"
    define fr where "fr = split_frames i (frame s)"
    define s1 where "s1 = s\<lparr>frame := fr\<rparr>"
    define up where "up = i + 2 ^ k"
    have sz: "(2::int) ^ nat l = 2 ^ k + 2 ^ k" using two_power_split [of l] l1 by (simp add: k_def)
    note H = halved [OF Suc.prems(1,2) l1, folded fr_def]
    have fi: "free_head (frame s1) (l - 1) i" "free_head (frame s1) (l - 1) up" and ru: "reservable (frame s1)"
      and fp: "free_pages (frame s1) = free_pages (frame s)" and uk: "used_kept (frame s) (frame s1)"
      using H by (simp_all add: s1_def up_def k_def)
    have bh: "block_head (frame s1) b \<longleftrightarrow> block_head (frame s) b \<or> b = up" for b
      using split_block_head [OF til h(1) pos, of b] h(2) by (simp add: s1_def fr_def up_def k_def)
    have run: "split_to_start (Suc fuel) a i s = split_to_start fuel a (if up > a then i else up) s1"
      using False halve_run [OF til Suc.prems(2) l1] frame_size_run [OF fi(1)] frame_size_run [OF fi(2)]
      by (simp add: s1_def [symmetric] fr_def [symmetric] Let_def up_def k_def)
    have fuel: "nat (l - 1) < fuel" using Suc.prems(5) l1 by simp
    define i' where "i' = (if up > a then i else up)"
    have fi': "free_head (frame s1) (l - 1) i'" using fi by (simp add: i'_def)
    have i': "i' \<le> a" "a < i' + 2 ^ nat (l - 1)"
      using Suc.prems(3,4) sz by (auto simp: i'_def up_def k_def [symmetric])
    obtain fr' l' where r: "split_to_start fuel a i' s1 = Inr (a, s1\<lparr>frame := fr'\<rparr>)" "reservable fr'"
      "free_head fr' l' a" "free_pages fr' = free_pages (frame s1)" "used_kept (frame s1) fr'"
      "\<forall>b. block_head (frame s1) b \<longrightarrow> block_head fr' b"
      "\<forall>b. block_head fr' b \<longrightarrow> b \<le> a \<and> rounded a b \<or> block_head (frame s1) b \<or> cut_at a b"
      using Suc.IH [OF ru fi' i' fuel] by blast
    have dv: "(2::int) ^ k dvd i" using H(6) by (simp add: k_def)
    have k17: "k < 17" using fb(2) by (simp add: k_def PAGE_MAX_ORDER_def)
    have "up \<le> a \<and> rounded a up \<or> cut_at a up"
    proof (cases "up \<le> a")
      case upa: False
      show ?thesis
        unfolding up_def using upa dv k17 Suc.prems(3) False by (intro disjI2 cut_atI) (simp_all add: up_def)
    next
      case upa: True
      have "(2::int) ^ k dvd up" using dv by (simp add: up_def)
      moreover have "a < up + 2 ^ k" using Suc.prems(4) sz by (simp add: up_def)
      ultimately show ?thesis using upa roundedI(1) [OF _ k17, of up a] by simp
    qed
    then have cut: "\<forall>b. block_head fr' b \<longrightarrow> b \<le> a \<and> rounded a b \<or> block_head (frame s) b \<or> cut_at a b"
      using r(7) bh by blast
    have "split_to_start (Suc fuel) a i s = Inr (a, s\<lparr>frame := fr'\<rparr>)"
      using run r(1) by (simp add: i'_def [symmetric] s1_def)
    then show ?thesis using r(2-6) fp used_kept_trans [OF uk r(5)] bh cut by metis
  qed
qed

lemma diff_ranges:
  fixes a b c :: int
  assumes "a \<le> b" and "b \<le> c"
  shows "A - {a..<b} - {b..<c} = A - {a..<c}"
proof -
  have "{a..<c} = {a..<b} \<union> {b..<c}" using assms by (simp add: ivl_disj_un_two(3))
  then show ?thesis by blast
qed

lemma reserve_whole_run:
  assumes "reservable (frame s)" and "free_head (frame s) l h" and "h \<le> e"
    and "{h..e} \<subseteq> free_pages (frame s)" and "e - h < int fuel"
  shows "\<exists>h' l' fr. reserve_whole fuel e h s = Inr (h', s\<lparr>frame := fr\<rparr>) \<and> reservable fr \<and>
    free_head fr l' h' \<and> h \<le> h' \<and> h' \<le> e \<and> e \<le> h' + 2 ^ nat l' \<and>
    free_pages fr = free_pages (frame s) - {h..<h'} \<and> used_kept (frame s) fr \<and>
    (\<forall>b. block_head fr b \<longleftrightarrow> block_head (frame s) b) \<and> (h < e \<longrightarrow> h' < e)"
  using assms
proof (induction fuel arbitrary: l h s)
  case 0
  then show ?case by simp
next
  case (Suc fuel)
  note til = reservableD(1) [OF Suc.prems(1)] and fh = Suc.prems(2)
  have pos: "0 < (2::int) ^ nat l" by simp
  show ?case
  proof (cases "h + 2 ^ nat l < e")
    case False
    then have "reserve_whole (Suc fuel) e h s = Inr (h, s\<lparr>frame := frame s\<rparr>)"
      using frame_size_run [OF fh] by simp
    moreover have "e \<le> h + 2 ^ nat l" using False by simp
    moreover have "free_pages (frame s) = free_pages (frame s) - {h..<h}" by simp
    ultimately show ?thesis using Suc.prems(1-3) used_kept_refl order.refl by metis
  next
    case True
    define fr where "fr = take_frames PAGE_RESERVED h l (frame s)"
    define s1 where "s1 = s\<lparr>frame := fr\<rparr>"
    define u where "u = h + 2 ^ nat l"
    have "u \<in> free_pages (frame s)" using Suc.prems(4) True pos by (auto simp: u_def)
    then obtain k where k: "free_head (frame s) k u"
      using free_next [OF til fh] unfolding u_def by blast
    have fu: "free_head (frame s1) k u"
      using take_free_head [OF til fh page_marks(2)] k pos by (simp add: s1_def fr_def u_def)
    have ru: "reservable (frame s1)"
      using take_reservable [OF Suc.prems(1) fh page_marks(2)] by (simp add: s1_def fr_def)
    have fp: "free_pages (frame s1) = free_pages (frame s) - {h..<u}"
      using take_free_pages [OF til fh page_marks(2)] by (simp add: s1_def fr_def u_def)
    have uk: "used_kept (frame s) (frame s1)"
      using take_used_kept [OF til fh page_marks(2)] by (simp add: s1_def fr_def)
    have bh: "block_head (frame s1) b \<longleftrightarrow> block_head (frame s) b" for b
      using take_block_head [OF til fh page_marks(2)] by (simp add: s1_def fr_def)
    have sz: "frame_size h s1 = Inr (2 ^ nat l)"
      using free_head_facts [OF fh] by (simp add: frame_size_def frame_get_def s1_def fr_def
          take_frames_def mark_range_def)
    have run: "reserve_whole (Suc fuel) e h s = reserve_whole fuel e u s1"
      using True frame_size_run [OF fh] reserve_block_run [OF til fh] sz
      by (simp add: s1_def [symmetric] fr_def [symmetric] u_def)
    have hu: "h < u" "u \<le> e" using True pos by (simp_all add: u_def)
    have lim: "u \<le> e" "{u..e} \<subseteq> free_pages (frame s1)" "e - u < int fuel"
      using hu Suc.prems(4,5) fp by auto
    obtain h' l' fr' where r: "reserve_whole fuel e u s1 = Inr (h', s1\<lparr>frame := fr'\<rparr>)"
      "reservable fr'" "free_head fr' l' h'" "u \<le> h'" "h' \<le> e" "e \<le> h' + 2 ^ nat l'"
      "free_pages fr' = free_pages (frame s1) - {u..<h'}" "used_kept (frame s1) fr'"
      "\<forall>b. block_head fr' b \<longleftrightarrow> block_head (frame s1) b" "u < e \<longrightarrow> h' < e"
      using Suc.IH [OF ru fu lim] by blast
    have "free_pages fr' = free_pages (frame s) - {h..<h'}"
      unfolding r(7) fp by (rule diff_ranges) (use hu r(4) in simp_all)
    moreover have "reserve_whole (Suc fuel) e h s = Inr (h', s\<lparr>frame := fr'\<rparr>)"
      using run r(1) by (simp add: s1_def)
    moreover have "h \<le> h'" using hu r(4) by simp
    moreover have "\<forall>b. block_head fr' b \<longleftrightarrow> block_head (frame s) b" using r(9) bh by simp
    moreover have "h < e \<longrightarrow> h' < e" using r(10) True by (simp add: u_def)
    moreover note used_kept_trans [OF uk r(8)]
    ultimately show ?thesis using r(2,3,5,6)
      by (intro exI [of _ h'] exI [of _ l'] exI [of _ fr'] conjI)
  qed
qed

text \<open>One round of \<open>reserve_last\<close> that halves the block: it goes on in the lower half, or reserves it.\<close>

lemma reserve_last_halves:
  assumes r: "reservable (frame s)" and fh: "free_head (frame s) l h" and l: "1 \<le> l" and ne: "h + 2 ^ nat l - 1 \<noteq> e"
  shows "reserve_last (Suc fuel) e h s =
    (if h + 2 ^ nat (l - 1) \<le> e
     then reserve_last fuel e (h + 2 ^ nat (l - 1)) (s\<lparr>frame := lower_reserved l h (frame s)\<rparr>)
     else reserve_last fuel e h (s\<lparr>frame := split_frames h (frame s)\<rparr>))"
proof -
  define k where "k = nat (l - 1)"
  define s1 where "s1 = s\<lparr>frame := split_frames h (frame s)\<rparr>"
  define s2 where "s2 = s1\<lparr>frame := take_frames PAGE_RESERVED h (l - 1) (frame s1)\<rparr>"
  note H = halved [OF r fh l, folded s1_def]
  have f1: "free_head (frame s1) (l - 1) h" and til1: "tiling (frame s1)" using H(1,2) reservableD(1) by (simp_all add: s1_def)
  have "frame_size h s2 = Inr (2 ^ k)"
    using free_head_facts [OF f1] by (simp add: frame_size_def frame_get_def s2_def take_frames_def mark_range_def k_def)
  then have "reserve_last (Suc fuel) e h s = (if h + 2 ^ k \<le> e then reserve_last fuel e (h + 2 ^ k) s2 else reserve_last fuel e h s1)"
    using ne frame_size_run [OF fh] halve_run [OF reservableD(1) [OF r] fh l] frame_size_run [OF f1] reserve_block_run [OF til1 f1]
    by (simp add: s1_def [symmetric] s2_def [symmetric] k_def)
  moreover have "s2 = s\<lparr>frame := lower_reserved l h (frame s)\<rparr>" by (simp add: s2_def s1_def)
  ultimately show ?thesis by (simp add: s1_def k_def)
qed

lemma reserve_last_run:
  assumes "reservable (frame s)" and "free_head (frame s) l h" and "h \<le> e"
    and "e < h + 2 ^ nat l" and "nat l < fuel"
  shows "\<exists>h' l' fr. reserve_last fuel e h s = Inr (h', s\<lparr>frame := fr\<rparr>) \<and> reservable fr \<and>
    free_head fr l' h' \<and> h \<le> h' \<and> h' \<le> e \<and> h' + 2 ^ nat l' = e + 1 \<and>
    free_pages fr = free_pages (frame s) - {h..<h'} \<and> used_kept (frame s) fr \<and>
    (\<forall>b. block_head fr b \<longrightarrow> block_head (frame s) b \<or> rounded (e + 1) b)"
  using assms
proof (induction fuel arbitrary: l h s)
  case 0
  then show ?case by simp
next
  case (Suc fuel)
  note fh = Suc.prems(2)
  show ?case
  proof (cases "h + 2 ^ nat l - 1 = e")
    case True
    then have "reserve_last (Suc fuel) e h s = Inr (h, s\<lparr>frame := frame s\<rparr>)"
      using frame_size_run [OF fh] by simp
    moreover have "h + 2 ^ nat l = e + 1" using True by simp
    moreover have "free_pages (frame s) = free_pages (frame s) - {h..<h}" by simp
    ultimately show ?thesis using Suc.prems(1-3) used_kept_refl order.refl by metis
  next
    case False
    then have l1: "1 \<le> l" using level_pos [OF Suc.prems(3,4)] by blast
    define u where "u = h + 2 ^ nat (l - 1)"
    note run = reserve_last_halves [OF Suc.prems(1) fh l1 False, of fuel, folded u_def]
    have fuel: "nat (l - 1) < fuel" using Suc.prems(5) l1 by simp
    have sz: "(2::int) ^ nat l = 2 ^ nat (l - 1) + 2 ^ nat (l - 1)" using two_power_split [of l] l1 by simp
    have "2 ^ nat (l - 1) dvd u" using halved(6) [OF Suc.prems(1) fh l1] by (simp add: u_def)
    moreover have "nat (l - 1) < 17" using free_head_bounds(2) [OF reservableD(1) [OF Suc.prems(1)] fh] by (simp add: PAGE_MAX_ORDER_def)
    ultimately have ru: "rounded (e + 1) u"
      using roundedI [of "nat (l - 1)" u "e + 1"] Suc.prems(3,4) False sz by (cases "u \<le> e + 1") (auto simp: u_def)
    show ?thesis
    proof (cases "u \<le> e")
      case lower: False
      let ?s1 = "s\<lparr>frame := split_frames h (frame s)\<rparr>"
      note H = halved [OF Suc.prems(1) fh l1]
      have "\<exists>h' l' fr. reserve_last fuel e h ?s1 = Inr (h', ?s1\<lparr>frame := fr\<rparr>) \<and> reservable fr \<and>
        free_head fr l' h' \<and> h \<le> h' \<and> h' \<le> e \<and> h' + 2 ^ nat l' = e + 1 \<and>
        free_pages fr = free_pages (frame ?s1) - {h..<h'} \<and> used_kept (frame ?s1) fr \<and>
        (\<forall>b. block_head fr b \<longrightarrow> block_head (frame ?s1) b \<or> rounded (e + 1) b)"
        by (rule Suc.IH [OF _ _ Suc.prems(3) _ fuel]) (use H(1,2) lower in \<open>simp_all add: u_def\<close>)
      then obtain h' l' fr where r: "reserve_last fuel e h ?s1 = Inr (h', s\<lparr>frame := fr\<rparr>)" "reservable fr" "free_head fr l' h'"
        "h \<le> h'" "h' \<le> e" "h' + 2 ^ nat l' = e + 1" "free_pages fr = free_pages (frame s) - {h..<h'}" "used_kept (split_frames h (frame s)) fr"
        "\<forall>b. block_head fr b \<longrightarrow> block_head (split_frames h (frame s)) b \<or> rounded (e + 1) b"
        using H(4) by auto
      have "reserve_last (Suc fuel) e h s = Inr (h', s\<lparr>frame := fr\<rparr>)" unfolding run using lower r(1) by (simp only: if_False)
      moreover have "\<forall>b. block_head fr b \<longrightarrow> block_head (frame s) b \<or> rounded (e + 1) b"
        using r(9) H(7) ru unfolding u_def by blast
      ultimately show ?thesis using r(2-7) used_kept_trans [OF H(5) r(8)]
        by (intro exI [of _ h'] exI [of _ l'] exI [of _ fr] conjI)
    next
      case upper: True
      let ?s2 = "s\<lparr>frame := lower_reserved l h (frame s)\<rparr>"
      note H = halved_reserved [OF Suc.prems(1) fh l1, folded u_def]
      have "e < u + 2 ^ nat (l - 1)" using Suc.prems(4) two_power_split [of l] l1 by (simp add: u_def)
      then obtain h' l' fr where r: "reserve_last fuel e u ?s2 = Inr (h', ?s2\<lparr>frame := fr\<rparr>)" "reservable fr" "free_head fr l' h'"
        "u \<le> h'" "h' \<le> e" "h' + 2 ^ nat l' = e + 1" "free_pages fr = free_pages (frame ?s2) - {u..<h'}" "used_kept (frame ?s2) fr"
        "\<forall>b. block_head fr b \<longrightarrow> block_head (frame ?s2) b \<or> rounded (e + 1) b"
        using Suc.IH [of ?s2 "l - 1" u] H(1,2) upper fuel by auto
      have hle: "h \<le> u" by (simp add: u_def)
      have "free_pages fr = free_pages (frame s) - {h..<u} - {u..<h'}" using r(7) H(3) by simp
      also have "\<dots> = free_pages (frame s) - {h..<h'}" by (rule diff_ranges) (use hle r(4) in simp_all)
      finally have "free_pages fr = free_pages (frame s) - {h..<h'}" .
      moreover have "reserve_last (Suc fuel) e h s = Inr (h', s\<lparr>frame := fr\<rparr>)" using run upper r(1) by simp
      moreover have "h \<le> h'" using hle r(4) by simp
      moreover have "used_kept (frame s) fr" using used_kept_trans [OF H(4)] r(8) by simp
      moreover have "\<forall>b. block_head fr b \<longrightarrow> block_head (frame s) b \<or> rounded (e + 1) b" using r(9) H(5) ru by auto
      ultimately show ?thesis using r(2,3,5,6) by (intro exI [of _ h'] exI [of _ l'] exI [of _ fr] conjI)
    qed
  qed
qed

section \<open>memory_reserve is correct\<close>

lemma free_pages_bounds:
  assumes "tiling fr" and "p \<in> free_pages fr"
  shows "0 \<le> p" and "p < PAGE_MAX_ENTRY"
proof -
  obtain l i where "free_head fr l i" "i \<le> p" "p < i + 2 ^ nat l" using assms(2) by (rule free_pagesE)
  then show "0 \<le> p" and "p < PAGE_MAX_ENTRY" using free_head_bounds [OF assms(1)] by force+
qed

lemma page_index_c_int:
  assumes "int (n div 4096) < PAGE_MAX_ENTRY"
  shows "c_int (n div 0x1000) = int (n div 4096)"
  using assms by (intro c_int_small) (simp add: PAGE_MAX_ENTRY_def)

lemma memory_reserve_run:
  assumes "reservable (frame s)" and "a = int (start div 4096)" and "b = int (stop div 4096)"
    and "a \<le> b" and "{a..b} \<subseteq> free_pages (frame s)"
    and "b = a \<or> \<not> block_head (frame s) b \<and> \<not> cut_at a b" and "b - a < int fuel" and "17 \<le> fuel"
  shows "\<exists>fr. memory_reserve fuel start stop s = Inr (s\<lparr>frame := fr\<rparr>) \<and> reservable fr \<and>
    free_pages fr = free_pages (frame s) - {a..b} \<and> used_kept (frame s) fr \<and>
    (\<forall>c. block_head fr c \<longrightarrow> block_head (frame s) c \<or> rounded a c \<or> rounded (b + 1) c)"
proof -
  note til = reservableD(1) [OF assms(1)]
  have ab: "a \<in> free_pages (frame s)" "b \<in> free_pages (frame s)" using assms(4,5) by auto
  have ci: "c_int (start div 0x1000) = a" "c_int (stop div 0x1000) = b"
    using page_index_c_int free_pages_bounds(2) [OF til ab(1)] free_pages_bounds(2) [OF til ab(2)]
    by (simp_all add: assms(2,3))
  obtain l i where li: "free_head (frame s) l i" "i \<le> a" "a < i + 2 ^ nat l"
    using ab(1) by (rule free_pagesE)
  have "l \<le> 16" using free_head_bounds(2) [OF til li(1)] by (simp add: PAGE_MAX_ORDER_def)
  then have fu: "nat l < fuel" using assms(8) by simp
  have sk: "seek_head a s = Inr i" by (rule seek_head_run [OF assms(1) li])
  obtain f1 l1 where r1: "split_to_start fuel a i s = Inr (a, s\<lparr>frame := f1\<rparr>)" "reservable f1"
    "free_head f1 l1 a" "free_pages f1 = free_pages (frame s)" "used_kept (frame s) f1"
    "\<forall>b. block_head f1 b \<longrightarrow> b \<le> a \<and> rounded a b \<or> block_head (frame s) b \<or> cut_at a b"
    using split_to_start_run [OF assms(1) li fu] by blast
  define s1 where "s1 = s\<lparr>frame := f1\<rparr>"
  have w: "reservable (frame s1)" "free_head (frame s1) l1 a" "{a..b} \<subseteq> free_pages (frame s1)"
    using r1(2-4) assms(5) by (simp_all add: s1_def)
  obtain h2 l2 f2 where r2: "reserve_whole fuel b a s1 = Inr (h2, s1\<lparr>frame := f2\<rparr>)" "reservable f2"
    "free_head f2 l2 h2" "a \<le> h2" "h2 \<le> b" "b \<le> h2 + 2 ^ nat l2"
    "free_pages f2 = free_pages (frame s1) - {a..<h2}" "used_kept (frame s1) f2"
    "\<forall>b. block_head f2 b \<longleftrightarrow> block_head (frame s1) b"
    using reserve_whole_run [OF w(1,2) assms(4) w(3) assms(7)] by blast
  have "b \<noteq> h2 + 2 ^ nat l2"
  proof
    assume eq: "b = h2 + 2 ^ nat l2"
    have gt: "h2 < b" unfolding eq by simp
    have "b \<in> free_pages f2" using ab(2) gt r1(4) r2(7) by (simp add: s1_def)
    then obtain k where "free_head f2 k b" using free_next [OF reservableD(1) [OF r2(2)] r2(3)] eq by blast
    then have "block_head f1 b" using r2(9) by (simp add: free_head_def s1_def)
    then show False using r1(6) assms(6) gt r2(4) by auto
  qed
  then have lt: "b < h2 + 2 ^ nat l2" using r2(6) by simp
  define s2 where "s2 = s1\<lparr>frame := f2\<rparr>"
  have w2: "reservable (frame s2)" "free_head (frame s2) l2 h2" using r2(2,3) by (simp_all add: s2_def)
  have "l2 \<le> 16" using free_head_bounds(2) [OF reservableD(1) [OF r2(2)] r2(3)] by (simp add: PAGE_MAX_ORDER_def)
  then have fu2: "nat l2 < fuel" using assms(8) by simp
  obtain h3 l3 f3 where r3: "reserve_last fuel b h2 s2 = Inr (h3, s2\<lparr>frame := f3\<rparr>)" "reservable f3"
    "free_head f3 l3 h3" "h2 \<le> h3" "h3 \<le> b" "h3 + 2 ^ nat l3 = b + 1"
    "free_pages f3 = free_pages (frame s2) - {h2..<h3}" "used_kept (frame s2) f3"
    "\<forall>c. block_head f3 c \<longrightarrow> block_head (frame s2) c \<or> rounded (b + 1) c"
    using reserve_last_run [OF w2 r2(5) lt fu2] by blast
  note til3 = reservableD(1) [OF r3(2)]
  define f4 where "f4 = take_frames PAGE_RESERVED h3 l3 f3"
  have "reserve_block h3 (s2\<lparr>frame := f3\<rparr>) = Inr (s2\<lparr>frame := f4\<rparr>)"
    using reserve_block_run [of "s2\<lparr>frame := f3\<rparr>" l3 h3] til3 r3(3) by (simp add: f4_def)
  then have run: "memory_reserve fuel start stop s = Inr (s\<lparr>frame := f4\<rparr>)"
    using r1(1) r2(1) r3(1) sk
    by (simp add: memory_reserve_def ci s1_def [symmetric] s2_def [symmetric])
      (simp add: s2_def s1_def)
  have "free_pages f4 = free_pages (frame s) - {a..<h2} - {h2..<h3} - {h3..<b + 1}"
    using take_free_pages [OF til3 r3(3) page_marks(2)] r3(6,7) r2(7) r1(4)
    by (simp add: f4_def s2_def s1_def)
  also have "\<dots> = free_pages (frame s) - {a..<b + 1}"
    using r2(4) r3(4,5) by (simp add: diff_ranges)
  also have "{a..<b + 1} = {a..b}" by auto
  finally have fp: "free_pages f4 = free_pages (frame s) - {a..b}" .
  have u: "used_kept f1 f2" "used_kept f2 f3" "used_kept f3 f4"
    using r2(8) r3(8) take_used_kept [OF til3 r3(3) page_marks(2)]
    by (simp_all add: s1_def s2_def f4_def)
  have "used_kept (frame s) f4"
    using used_kept_trans [OF used_kept_trans [OF used_kept_trans [OF r1(5) u(1)] u(2)] u(3)] .
  moreover have "\<forall>c. block_head f4 c \<longrightarrow> block_head (frame s) c \<or> rounded a c \<or> rounded (b + 1) c"
    using r3(9) r2(9) r1(6) cut_at_rounded take_block_head [OF til3 r3(3) page_marks(2)] by (auto simp: f4_def s1_def s2_def)
  ultimately show ?thesis using run fp take_reservable [OF r3(2,3) page_marks(2)] by (auto simp: f4_def)
qed

section \<open>A block that starts at the last page\<close>

lemma reserve_last_clobber:
  assumes "reservable (frame s)" and "free_head (frame s) l h" and "e = h + 2 ^ nat l"
    and "e < PAGE_MAX_ENTRY" and "nat l + 1 < fuel"
  shows "\<exists>s'. reserve_last fuel e h s = Inr (e, s') \<and> fi_index (frame s' e) = -1"
  using assms
proof (induction fuel arbitrary: l h s)
  case 0
  then show ?case by simp
next
  case (Suc fuel)
  note til = reservableD(1) [OF Suc.prems(1)] and fh = Suc.prems(2)
  note h = free_head_facts [OF fh]
  show ?case
  proof (cases "1 \<le> l")
    case True
    let ?u = "h + 2 ^ nat (l - 1)"
    note H = halved_reserved [OF Suc.prems(1) fh True]
    have e: "e = ?u + 2 ^ nat (l - 1)" using Suc.prems(3) two_power_split [of l] True by simp
    have ne: "h + 2 ^ nat l - 1 \<noteq> e" and ge: "?u \<le> e" using Suc.prems(3) e by simp_all
    have run: "reserve_last (Suc fuel) e h s = reserve_last fuel e ?u (s\<lparr>frame := lower_reserved l h (frame s)\<rparr>)"
      unfolding reserve_last_halves [OF Suc.prems(1) fh True ne] by (simp only: ge if_True)
    show ?thesis unfolding run
      by (rule Suc.IH [OF _ _ e Suc.prems(4)]) (use H(1,2) Suc.prems(5) True in simp_all)
  next
    case False
    then have l: "l = 0" using h(6) by simp
    obtain f where f: "fuel = Suc f" using Suc.prems(5) by (cases fuel) auto
    have e: "e = h + 1" using Suc.prems(3) l by simp
    define fr where "fr = (frame s)(h := (frame s h)\<lparr>fi_index := -1, fi_status := 1\<rparr>,
      h + 1 := (frame s (h + 1))\<lparr>fi_index := -1, fi_status := 0\<rparr>)"
    have "reserve_last (Suc fuel) e h s = Inr (e, s\<lparr>frame := fr\<rparr>)"
      using h l e f Suc.prems(4)
      by (simp add: frame_size_def halve_def frame_get_def frame_set_index_def frame_set_status_def
          reserve_block_def mark_loop.simps Let_def fr_def fun_upd_twist)
    then show ?thesis by (simp add: fr_def e)
  qed
qed

lemma memory_reserve_clobbers:
  assumes "reservable (frame s)" and "a = int (start div 4096)" and "b = int (stop div 4096)"
    and "a < b" and "{a..b} \<subseteq> free_pages (frame s)" and "block_head (frame s) b"
    and "b - a < int fuel" and "18 \<le> fuel"
  shows "\<exists>s'. memory_reserve fuel start stop s = Inr s' \<and>
    fi_index (frame s' b) = -1 \<and> fi_status (frame s' b) = 1"
proof -
  note til = reservableD(1) [OF assms(1)]
  have ab: "a \<in> free_pages (frame s)" "b \<in> free_pages (frame s)" using assms(4,5) by auto
  have bM: "0 \<le> b" "b < PAGE_MAX_ENTRY" using free_pages_bounds [OF til ab(2)] by simp_all
  have ci: "c_int (start div 0x1000) = a" "c_int (stop div 0x1000) = b"
    using page_index_c_int free_pages_bounds(2) [OF til ab(1)] free_pages_bounds(2) [OF til ab(2)]
    by (simp_all add: assms(2,3))
  obtain l i where li: "free_head (frame s) l i" "i \<le> a" "a < i + 2 ^ nat l"
    using ab(1) by (rule free_pagesE)
  have "l \<le> 16" using free_head_bounds(2) [OF til li(1)] by (simp add: PAGE_MAX_ORDER_def)
  then have fu: "nat l < fuel" using assms(8) by simp
  have sk: "seek_head a s = Inr i" by (rule seek_head_run [OF assms(1) li])
  obtain f1 l1 where r1: "split_to_start fuel a i s = Inr (a, s\<lparr>frame := f1\<rparr>)" "reservable f1"
    "free_head f1 l1 a" "free_pages f1 = free_pages (frame s)"
    "\<forall>b. block_head (frame s) b \<longrightarrow> block_head f1 b"
    using split_to_start_run [OF assms(1) li fu] by blast
  define s1 where "s1 = s\<lparr>frame := f1\<rparr>"
  have w: "reservable (frame s1)" "free_head (frame s1) l1 a" "{a..b} \<subseteq> free_pages (frame s1)"
    using r1(2-4) assms(5) by (simp_all add: s1_def)
  obtain h2 l2 f2 where r2: "reserve_whole fuel b a s1 = Inr (h2, s1\<lparr>frame := f2\<rparr>)" "reservable f2"
    "free_head f2 l2 h2" "b \<le> h2 + 2 ^ nat l2"
    "\<forall>b. block_head f2 b \<longleftrightarrow> block_head (frame s1) b" "a < b \<longrightarrow> h2 < b"
    using reserve_whole_run [OF w(1,2) _ w(3) assms(7)] assms(4) by auto
  note til2 = reservableD(1) [OF r2(2)]
  have "block_head f2 b" using r2(5) r1(5) assms(6) by (simp add: s1_def)
  then have "\<not> b < h2 + 2 ^ nat l2"
    using inside_not_head [OF til2, of h2 b] r2(3,6) assms(4) free_head_size [OF r2(3)]
    by (auto simp: free_head_def)
  then have e: "b = h2 + 2 ^ nat l2" using r2(4) by simp
  define s2 where "s2 = s1\<lparr>frame := f2\<rparr>"
  have w2: "reservable (frame s2)" "free_head (frame s2) l2 h2" using r2(2,3) by (simp_all add: s2_def)
  have "l2 \<le> 16" using free_head_bounds(2) [OF til2 r2(3)] by (simp add: PAGE_MAX_ORDER_def)
  then have fu2: "nat l2 + 1 < fuel" using assms(8) by simp
  obtain s3 where s3: "reserve_last fuel b h2 s2 = Inr (b, s3)" "fi_index (frame s3 b) = -1"
    using reserve_last_clobber [OF w2 e bM(2) fu2] by blast
  have "memory_reserve fuel start stop s = reserve_block b s3"
    using r1(1) r2(1) s3(1) sk
    by (simp add: memory_reserve_def ci s1_def [symmetric] s2_def [symmetric])
  also have "\<dots> = Inr (s3\<lparr>frame := (frame s3)(b := (frame s3 b)\<lparr>fi_status := 1\<rparr>)\<rparr>)"
    using bM s3(2) by (simp add: reserve_block_def frame_get_def frame_set_status_def mark_loop.simps)
  finally show ?thesis using s3(2) by simp
qed

end
