(* ===== verification/PageBoot.thy ===== *)
theory PageBoot
  imports PageReserve
begin

text \<open>
  The two other loops of \<open>page_init\<close>: the first cuts the frames into five free blocks, the last
  one establishes the allocator's invariant from any tiling of the frames.
\<close>

section \<open>The first loop\<close>

definition clear_range :: "int \<Rightarrow> int \<Rightarrow> (int \<Rightarrow> frame_info) \<Rightarrow> int \<Rightarrow> frame_info" where
  "clear_range lo hi fr =
     (\<lambda>j. if lo \<le> j \<and> j < hi then \<lparr>fi_status = 0, fi_index = PAGE_FREE\<rparr> else fr j)"

lemma clear_loop_eq:
  "0 \<le> lo \<Longrightarrow> hi \<le> PAGE_MAX_ENTRY \<Longrightarrow>
   clear_loop lo hi s = Inr (s\<lparr>frame := clear_range lo hi (frame s)\<rparr>)"
proof (induction lo hi s rule: clear_loop.induct)
  case (1 lo hi s)
  show ?case
  proof (cases "lo < hi")
    case False
    then have "clear_range lo hi (frame s) = frame s" by (auto simp: clear_range_def fun_eq_iff)
    then show ?thesis using False by (simp add: clear_loop.simps [of lo])
  next
    case True
    define s1 where "s1 = s\<lparr>frame := (frame s)(lo := (frame s lo)\<lparr>fi_index := PAGE_FREE\<rparr>)\<rparr>"
    define s2 where "s2 = s1\<lparr>frame := (frame s1)(lo := (frame s1 lo)\<lparr>fi_status := 0\<rparr>)\<rparr>"
    have st: "frame_set_index lo PAGE_FREE s = Inr s1" "frame_set_status lo 0 s1 = Inr s2"
      using True "1.prems" by (simp_all add: frame_set_index_def frame_set_status_def s1_def s2_def)
    have "clear_loop lo hi s = clear_loop (lo + 1) hi s2"
      using True st by (simp add: clear_loop.simps [of lo])
    also have "\<dots> = Inr (s2\<lparr>frame := clear_range (lo + 1) hi (frame s2)\<rparr>)"
      by (rule "1.IH" [OF True st]) (use "1.prems" in simp_all)
    also have "clear_range (lo + 1) hi (frame s2) = clear_range lo hi (frame s)"
      using True by (auto simp: clear_range_def s2_def s1_def fun_eq_iff)
    finally show ?thesis by (simp add: s2_def s1_def)
  qed
qed

definition make_block :: "int \<Rightarrow> int \<Rightarrow> (int \<Rightarrow> frame_info) \<Rightarrow> int \<Rightarrow> frame_info" where
  "make_block head l fr =
     clear_range (head + 1) (head + 2 ^ nat l) (fr(head := \<lparr>fi_status = 0, fi_index = l\<rparr>))"

lemma init_loop_step:
  assumes "log2 (PAGE_MAX_ENTRY - head) = Inr l" and "0 \<le> head" and "head + 2 ^ nat l \<le> PAGE_MAX_ENTRY"
  shows "init_loop head (PAGE_MAX_ENTRY - head) s =
    init_loop (head + 2 ^ nat l) (PAGE_MAX_ENTRY - (head + 2 ^ nat l))
      (s\<lparr>frame := make_block head l (frame s)\<rparr>)"
proof -
  have pos: "0 < (2::int) ^ nat l" by simp
  have lt: "head < PAGE_MAX_ENTRY" using assms(3) pos by linarith
  define s1 where "s1 = s\<lparr>frame := (frame s)(head := \<lparr>fi_status = 0, fi_index = l\<rparr>)\<rparr>"
  have st: "rbind (frame_set_index head l s) (frame_set_status head 0) = Inr s1"
    using assms(2) lt by (auto simp: frame_set_index_def frame_set_status_def s1_def
        intro!: page_state.equality)
  have cl: "clear_loop (head + 1) (head + 2 ^ nat l) s1 =
      Inr (s1\<lparr>frame := clear_range (head + 1) (head + 2 ^ nat l) (frame s1)\<rparr>)"
    using assms(2,3) by (intro clear_loop_eq) simp_all
  have "init_loop head (PAGE_MAX_ENTRY - head) s =
    rbind (rbind (frame_set_index head l s) (frame_set_status head 0)) (\<lambda>s.
    rbind (clear_loop (head + 1) (head + 2 ^ nat l) s) (\<lambda>s.
    init_loop (head + 2 ^ nat l) (PAGE_MAX_ENTRY - head - 2 ^ nat l) s))"
    using lt assms(1) by (simp add: init_loop.simps [of head] rbind_assoc)
  also have "\<dots> = init_loop (head + 2 ^ nat l) (PAGE_MAX_ENTRY - head - 2 ^ nat l)
      (s1\<lparr>frame := clear_range (head + 1) (head + 2 ^ nat l) (frame s1)\<rparr>)"
    by (simp add: st cl)
  finally show ?thesis by (simp add: s1_def make_block_def diff_diff_eq)
qed

lemma make_block_at:
  "make_block head l fr j =
     (if j = head then \<lparr>fi_status = 0, fi_index = l\<rparr>
      else if head < j \<and> j < head + 2 ^ nat l then \<lparr>fi_status = 0, fi_index = PAGE_FREE\<rparr>
      else fr j)"
  by (auto simp: make_block_def clear_range_def)

lemma init_loop_run:
  "init_loop 0 PAGE_MAX_ENTRY s =
     Inr (s\<lparr>frame := (\<lambda>j. if 0 \<le> j \<and> j < PAGE_MAX_ENTRY then boot_frames j else frame s j)\<rparr>)"
proof -
  have lg: "log2 245760 = Inr 16" "log2 180224 = Inr 16" "log2 114688 = Inr 16"
    "log2 49152 = Inr 15" "log2 16384 = Inr 14"
    by (simp_all add: log2_def log2_loop.simps PAGE_MAX_ORDER_def)
  have st: "init_loop head (PAGE_MAX_ENTRY - head) s =
      init_loop head' (PAGE_MAX_ENTRY - head') (s\<lparr>frame := make_block head l (frame s)\<rparr>)"
    if "log2 (PAGE_MAX_ENTRY - head) = Inr l" "0 \<le> head" "head' = head + 2 ^ nat l"
      "head' \<le> PAGE_MAX_ENTRY" for head head' l s
    using init_loop_step [OF that(1,2)] that(3,4) by simp
  define f1 where "f1 = make_block 0 16 (frame s)"
  define f2 where "f2 = make_block 65536 16 (f1)"
  define f3 where "f3 = make_block 131072 16 (f2)"
  define f4 where "f4 = make_block 196608 15 (f3)"
  define f5 where "f5 = make_block 229376 14 (f4)"
  have s1: "init_loop 0 (PAGE_MAX_ENTRY - 0) s =
      init_loop 65536 (PAGE_MAX_ENTRY - 65536) (s\<lparr>frame := f1\<rparr>)"
    using st [of 0 16 65536 "s"] lg by (simp add: f1_def PAGE_MAX_ENTRY_def)
  have s2: "init_loop 65536 (PAGE_MAX_ENTRY - 65536) (s\<lparr>frame := f1\<rparr>) =
      init_loop 131072 (PAGE_MAX_ENTRY - 131072) (s\<lparr>frame := f2\<rparr>)"
    using st [of 65536 16 131072 "(s\<lparr>frame := f1\<rparr>)"] lg by (simp add: f2_def PAGE_MAX_ENTRY_def)
  have s3: "init_loop 131072 (PAGE_MAX_ENTRY - 131072) (s\<lparr>frame := f2\<rparr>) =
      init_loop 196608 (PAGE_MAX_ENTRY - 196608) (s\<lparr>frame := f3\<rparr>)"
    using st [of 131072 16 196608 "(s\<lparr>frame := f2\<rparr>)"] lg by (simp add: f3_def PAGE_MAX_ENTRY_def)
  have s4: "init_loop 196608 (PAGE_MAX_ENTRY - 196608) (s\<lparr>frame := f3\<rparr>) =
      init_loop 229376 (PAGE_MAX_ENTRY - 229376) (s\<lparr>frame := f4\<rparr>)"
    using st [of 196608 15 229376 "(s\<lparr>frame := f3\<rparr>)"] lg by (simp add: f4_def PAGE_MAX_ENTRY_def)
  have s5: "init_loop 229376 (PAGE_MAX_ENTRY - 229376) (s\<lparr>frame := f4\<rparr>) =
      init_loop 245760 (PAGE_MAX_ENTRY - 245760) (s\<lparr>frame := f5\<rparr>)"
  proof -
    have l: "log2 (PAGE_MAX_ENTRY - 229376) = Inr 14" "(0::int) \<le> 229376"
      "(245760::int) = 229376 + 2 ^ nat 14" "245760 \<le> PAGE_MAX_ENTRY"
      using lg(5) by (simp_all add: PAGE_MAX_ENTRY_def)
    show ?thesis using st [OF l, of "s\<lparr>frame := f4\<rparr>"] by (simp only: f5_def) simp
  qed
  have "init_loop 0 (PAGE_MAX_ENTRY - 0) s = init_loop 245760 (PAGE_MAX_ENTRY - 245760)
      (s\<lparr>frame := f5\<rparr>)"
    by (simp only: s1 s2 s3 s4 s5)
  also have "\<dots> = Inr (s\<lparr>frame := f5\<rparr>)" by (simp add: init_loop.simps PAGE_MAX_ENTRY_def)
  also have "f5 = (\<lambda>j. if 0 \<le> j \<and> j < PAGE_MAX_ENTRY then boot_frames j else frame s j)"
  proof
    fix j :: int
    consider "j < 0" | "j = 0" | "0 < j" "j < 65536" | "j = 65536" | "65536 < j" "j < 131072"
      | "j = 131072" | "131072 < j" "j < 196608" | "j = 196608" | "196608 < j" "j < 229376"
      | "j = 229376" | "229376 < j" "j < 245760" | "245760 \<le> j" by linarith
    then show "f5 j = (if 0 \<le> j \<and> j < PAGE_MAX_ENTRY then boot_frames j else frame s j)"
      by cases (simp_all add: f1_def f2_def f3_def f4_def f5_def make_block_at boot_frames_def
          boot_index_def PAGE_MAX_ENTRY_def)
  qed
  finally show ?thesis by simp
qed

text \<open>Only the frames of the array matter.\<close>

lemma block_head_cong:
  "(\<And>j. 0 \<le> j \<Longrightarrow> j < PAGE_MAX_ENTRY \<Longrightarrow> fr' j = fr j) \<Longrightarrow> block_head fr' i \<longleftrightarrow> block_head fr i"
  by (auto simp: block_head_def)

lemma reservable_cong:
  assumes "reservable fr" and eq: "\<And>j. 0 \<le> j \<Longrightarrow> j < PAGE_MAX_ENTRY \<Longrightarrow> fr' j = fr j"
  shows "reservable fr'"
proof -
  note til = reservableD(1) [OF assms(1)]
  have bh: "block_head fr' i \<longleftrightarrow> block_head fr i" for i by (rule block_head_cong [OF eq])
  have sz: "block_size fr' i = block_size fr i" if "block_head fr i" for i
    using that eq by (simp add: block_size_def block_head_def)
  have fh: "free_head fr' l i \<longleftrightarrow> free_head fr l i" for l i
    using eq [of i] bh [of i] by (auto simp: free_head_def block_head_def)
  have "tiling fr'"
  proof (rule tilingI)
    fix i assume "block_head fr' i"
    then have hd: "block_head fr i" by (simp add: bh)
    note ok = block_okD [OF tilingD_ok [OF til hd]]
    have ix: "fi_index (fr' i) = fi_index (fr i)" using hd eq by (simp add: block_head_def)
    have "fi_index (fr' j) < 0" if "i < j" "j < i + block_size fr i" for j
      using ok(4) [OF that] eq [of j] that ok(3) hd by (auto simp: block_head_def)
    then show "block_ok fr' i" unfolding block_ok_def sz [OF hd] ix using ok(1-3) by simp
  next
    fix j assume j: "0 \<le> j" "j < PAGE_MAX_ENTRY"
    obtain i where "block_head fr i" "i \<le> j" "j < i + block_size fr i"
      by (rule tilingD_cover [OF til j])
    then show "\<exists>i. block_head fr' i \<and> i \<le> j \<and> j < i + block_size fr' i" using bh sz by metis
  next
    fix j assume j: "0 \<le> j" "j < PAGE_MAX_ENTRY" "fi_status (fr' j) \<noteq> 0"
    then show "0 \<le> fi_index (fr' j)" using eq [OF j(1,2)] tilingD_status [OF til j(1,2)] by fastforce
  qed
  moreover have "interior_free fr'"
    unfolding interior_free_def
  proof (intro allI impI)
    fix l i j assume f: "free_head fr' l i" "i < j" "j < i + 2 ^ nat l"
    then have f': "free_head fr l i" by (simp add: fh)
    note b = free_head_bounds [OF til f']
    have "fr' j = fr j" using f(2,3) b(3,4) by (intro eq) simp_all
    then show "fi_index (fr' j) = PAGE_FREE" using reservableD(2) [OF assms(1) f' f(2,3)] by simp
  qed
  ultimately show ?thesis by (simp add: reservable_def)
qed

lemma boot_reservable: "reservable boot_frames"
proof -
  have ix: "fi_index (boot_frames i) = boot_index i" and st: "fi_status (boot_frames i) = 0" for i
    by (simp_all add: boot_frames_def)
  have til: "tiling boot_frames" using ix st by (rule boot_tiling)
  have "interior_free boot_frames"
    unfolding interior_free_def
  proof (intro allI impI)
    fix l i j assume f: "free_head boot_frames l i" "i < j" "j < i + 2 ^ nat l"
    have "\<not> block_head boot_frames j"
      using inside_not_head [OF til _ f(2)] f(1,3) free_head_size [OF f(1)] by (simp add: free_head_def)
    moreover have "0 \<le> j \<and> j < PAGE_MAX_ENTRY" using free_head_bounds [OF til f(1)] f(2,3) by simp
    ultimately show "fi_index (boot_frames j) = PAGE_FREE"
      by (auto simp: block_head_def boot_frames_def boot_index_def split: if_splits)
  qed
  then show ?thesis using til by (simp add: reservable_def)
qed

section \<open>The last loop\<close>

lemma next_block:
  assumes "tiling fr" and "block_head fr h"
  shows "h + block_size fr h = PAGE_MAX_ENTRY \<or> block_head fr (h + block_size fr h)"
proof (rule disjCI)
  define u where "u = h + block_size fr h"
  have pos: "0 < block_size fr h" by simp
  assume "\<not> block_head fr (h + block_size fr h)"
  then have nh: "\<not> block_head fr u" by (simp add: u_def)
  have le: "u \<le> PAGE_MAX_ENTRY" using block_okD(3) [OF tilingD_ok [OF assms]] by (simp add: u_def)
  have "0 \<le> h" using assms(2) by (simp add: block_head_def)
  then have u0: "0 \<le> u" using pos unfolding u_def by linarith
  show "h + block_size fr h = PAGE_MAX_ENTRY"
  proof (rule ccontr)
    assume "h + block_size fr h \<noteq> PAGE_MAX_ENTRY"
    then have "u < PAGE_MAX_ENTRY" using le by (simp add: u_def)
    then obtain a where a: "block_head fr a" "a \<le> u" "u < a + block_size fr a"
      using tilingD_cover [OF assms(1) u0] by blast
    then have lt: "a < u" using nh by (cases "a = u") auto
    consider "a < h" | "a = h" | "h < a" by linarith
    then show False
    proof cases
      case 1
      then have "a + block_size fr a \<le> h" using blocks_apart [OF assms(1) a(1) assms(2)] by simp
      then show False using a(3) pos unfolding u_def by linarith
    next
      case 2
      then show False using a(3) by (simp add: u_def)
    next
      case 3
      then have "u \<le> a" using blocks_apart [OF assms a(1)] by (simp add: u_def)
      then show False using lt by simp
    qed
  qed
qed

lemma log2_returns:
  assumes "v < 2 ^ 30"
  obtains l where "log2 v = Inr l"
proof (cases "v < 1")
  case True
  then show thesis using log2_nonpos that by blast
next
  case False
  then obtain k where k: "2 ^ k \<le> v" "v < 2 ^ Suc k" using int_log_exists [of v] by auto
  have "k < 30"
  proof (rule ccontr)
    assume "\<not> k < 30"
    then have "(2::int) ^ 30 \<le> 2 ^ k" by (intro power_increasing) simp_all
    then show False using k(1) assms by linarith
  qed
  then show thesis using log2_eq [OF k] that by blast
qed

text \<open>The lists hold the free blocks before page \<open>h\<close>.\<close>

definition enlisted :: "int \<Rightarrow> page_state \<Rightarrow> free_lists \<Rightarrow> bool" where
  "enlisted h s L \<longleftrightarrow> lists_rep s L \<and> tails_ok s L \<and>
     (\<forall>l i. i \<in> set (L l) \<longleftrightarrow> free_head (frame s) l i \<and> i < h)"

lemma enlist_loop_run:
  assumes "tiling (frame s)" and "h = PAGE_MAX_ENTRY \<or> block_head (frame s) h"
    and "enlisted h s L" and "non_init < 2 ^ 30"
  shows "\<exists>s' L'. enlist_loop h non_init s = Inr s' \<and> frame s' = frame s \<and> page_inv s' L'"
  using assms
proof (induction "nat (PAGE_MAX_ENTRY - h)" arbitrary: h s L non_init rule: less_induct)
  case less
  show ?case
  proof (cases "h = PAGE_MAX_ENTRY")
    case True
    have "i < PAGE_MAX_ENTRY" if "free_head (frame s) l i" for l i
      using that by (simp add: free_head_def block_head_def)
    then have "page_inv s L" using less.prems(1,3) True by (auto simp: page_inv_def enlisted_def)
    then show ?thesis using True by (auto simp: enlist_loop.simps)
  next
    case False
    then have hd: "block_head (frame s) h" using less.prems(2) by simp
    then have h: "0 \<le> h" "h < PAGE_MAX_ENTRY" by (simp_all add: block_head_def)
    define l where "l = fi_index (frame s h)"
    define u where "u = h + block_size (frame s) h"
    have l: "0 \<le> l" "l \<le> PAGE_MAX_ORDER"
      using hd block_okD(1) [OF tilingD_ok [OF less.prems(1) hd]] by (simp_all add: block_head_def l_def)
    have hu: "h < u" by (simp add: u_def)
    have nu: "u = PAGE_MAX_ENTRY \<or> block_head (frame s) u"
      unfolding u_def by (rule next_block [OF less.prems(1) hd])
    have no: "\<not> free_head (frame s) k i" if "h < i" "i < u" for k i
      using inside_not_head [OF less.prems(1) hd] that by (simp add: u_def free_head_def)
    note en = less.prems(3) [unfolded enlisted_def]
    have "\<exists>s1 L1. (if fi_status (frame s h) = 0 then add_page_item h s else Inr s) = Inr s1 \<and>
      frame s1 = frame s \<and> enlisted u s1 L1"
    proof (cases "fi_status (frame s h) = 0")
      case True
      then have fh: "free_head (frame s) l h" using hd by (simp add: free_head_def l_def)
      have new: "h \<notin> set (L k)" for k using en by simp
      obtain s1 where s1: "add_page_item h s = Inr s1" "frame s1 = frame s"
        "lists_rep s1 (L(l := h # L l))" "tails_ok s1 (L(l := h # L l))"
        using add_page_item_rep [where s = s and L = L and i = h and l = l] en h l new
        by (metis l_def)
      have "i \<in> set ((L(l := h # L l)) k) \<longleftrightarrow> free_head (frame s1) k i \<and> i < u" for k i
      proof -
        have "i \<in> set (L k) \<longleftrightarrow> free_head (frame s) k i \<and> i < h" using en by blast
        moreover have "free_head (frame s) k h \<longleftrightarrow> k = l" using fh by (auto simp: free_head_def)
        moreover have "i < u \<longleftrightarrow> i < h \<or> i = h \<or> h < i \<and> i < u" using hu by auto
        ultimately show ?thesis using no [of i k] s1(2) by auto
      qed
      then have "enlisted u s1 (L(l := h # L l))" using s1(3,4) unfolding enlisted_def by blast
      then show ?thesis using True s1(1,2) by auto
    next
      case False
      then have "\<not> free_head (frame s) k h" for k by (simp add: free_head_def)
      then have "free_head (frame s) k i \<and> i < h \<longleftrightarrow> free_head (frame s) k i \<and> i < u" for k i
        using no [of i k] hu by (cases i h rule: linorder_cases) auto
      then have "enlisted u s L" using en unfolding enlisted_def by blast
      then show ?thesis using False by auto
    qed
    then obtain s1 L1 where s1: "(if fi_status (frame s h) = 0 then add_page_item h s else Inr s) = Inr s1"
      "frame s1 = frame s" "enlisted u s1 L1" by blast
    have sz: "frame_size h s1 = Inr (block_size (frame s) h)"
      using h s1(2) by (simp add: frame_size_def frame_get_def block_size_def)
    obtain m where m: "log2 non_init = Inr m" using less.prems(4) by (rule log2_returns)
    have run: "enlist_loop h non_init s = enlist_loop u (non_init - 2 ^ nat m) s1"
      using h s1(1) sz m by (simp add: enlist_loop.simps [of h] frame_get_def u_def)
    have "0 < (2::int) ^ nat m" by simp
    then have small: "non_init - 2 ^ nat m < 2 ^ 30" using less.prems(4) by linarith
    have "nat (PAGE_MAX_ENTRY - u) < nat (PAGE_MAX_ENTRY - h)" using hu h by simp
    then show ?thesis
      unfolding run using less.hyps [of u s1 L1 "non_init - 2 ^ nat m"] less.prems(1) nu s1(2,3) small
      by simp
  qed
qed

section \<open>The properties\<close>

lemma all_free_pages:
  assumes "tiling fr" and "\<And>j. 0 \<le> j \<Longrightarrow> j < PAGE_MAX_ENTRY \<Longrightarrow> fi_status (fr j) = 0"
  shows "free_pages fr = {0..<PAGE_MAX_ENTRY}"
proof (rule set_eqI, rule iffI)
  fix p assume "p \<in> free_pages fr"
  then show "p \<in> {0..<PAGE_MAX_ENTRY}" using free_pages_bounds [OF assms(1)] by simp
next
  fix p assume "p \<in> {0..<PAGE_MAX_ENTRY}"
  then have p: "0 \<le> p" "p < PAGE_MAX_ENTRY" by simp_all
  obtain i where i: "block_head fr i" "i \<le> p" "p < i + block_size fr i"
    by (rule tilingD_cover [OF assms(1) p])
  then have "free_head fr (fi_index (fr i)) i"
    using assms(2) [of i] by (simp add: free_head_def block_head_def)
  then show "p \<in> free_pages fr" using i(2,3) by (auto simp: block_size_def intro: free_pagesI)
qed

text \<open>the first loop of page_init, whatever the frames held before, cuts all pages into free
  blocks: the frames are consistent and every one of the 245760 pages is free.\<close>

theorem init_loop_correct:
  "\<exists>fr. init_loop 0 PAGE_MAX_ENTRY s = Inr (s\<lparr>frame := fr\<rparr>) \<and> reservable fr \<and>
     free_pages fr = {0..<PAGE_MAX_ENTRY}"
proof -
  define fr where "fr = (\<lambda>j. if 0 \<le> j \<and> j < PAGE_MAX_ENTRY then boot_frames j else frame s j)"
  have r: "reservable fr" by (rule reservable_cong [OF boot_reservable]) (simp add: fr_def)
  have "free_pages fr = {0..<PAGE_MAX_ENTRY}"
    by (rule all_free_pages [OF reservableD(1) [OF r]]) (simp add: fr_def boot_frames_def)
  then show ?thesis using init_loop_run [of s] r unfolding fr_def by blast
qed

text \<open>memory_reserve(start, stop) reserves exactly the pages from start / 4096 to
  stop / 4096 (included), leaves the blocks in use untouched and the frames consistent, when all
  these pages are free and no block starts at the last one, before or after the range's first page
  has been cut off.\<close>

theorem memory_reserve_correct:
  assumes "reservable (frame s)" and "a = int (start div 4096)" and "b = int (stop div 4096)"
    and "a \<le> b" and "{a..b} \<subseteq> free_pages (frame s)"
    and "b = a \<or> \<not> block_head (frame s) b \<and> \<not> cut_at a b" and "b - a < int fuel" and "17 \<le> fuel"
  shows "\<exists>fr. memory_reserve fuel start stop s = Inr (s\<lparr>frame := fr\<rparr>) \<and> reservable fr \<and>
    free_pages fr = free_pages (frame s) - {a..b} \<and> used_kept (frame s) fr"
  using memory_reserve_run [OF assms] by blast

lemma boot_state_reservable: "reservable (frame boot_state)"
  using boot_reservable by (simp add: boot_state_def)

lemma boot_state_free: "free_pages (frame boot_state) = {0..<PAGE_MAX_ENTRY}"
  by (rule all_free_pages [OF reservableD(1) [OF boot_state_reservable]])
    (simp add: boot_state_def boot_frames_def)

lemma boot_state_head: "block_head (frame boot_state) i \<longleftrightarrow> i \<in> {0, 65536, 131072, 196608, 229376}"
  by (rule boot_block_head) (simp add: boot_state_def boot_frames_def)

text \<open>The range of the user program, 0x900000 to 0xe00000, in the frames of \<open>page_init\<close>.\<close>

theorem memory_reserve_correct_example:
  "\<exists>fr. memory_reserve 2000 USER_PROGRAM_SPACE (USER_PROGRAM_SPACE + USER_PROGRAM_MAX_SIZE) boot_state =
       Inr (boot_state\<lparr>frame := fr\<rparr>) \<and>
     free_pages fr = {0..<PAGE_MAX_ENTRY} - {0x900..0xe00}"
proof -
  have cut: "\<not> cut_at 0x900 0xe00"
    by (simp add: cut_at_def atLeastLessThan_nat_numeral atLeastLessThanSuc)
  have head: "\<not> block_head (frame boot_state) 0xe00" by (simp add: boot_state_head)
  have range: "{0x900..0xe00} \<subseteq> free_pages (frame boot_state)"
    unfolding boot_state_free by (rule subsetI) (simp add: PAGE_MAX_ENTRY_def)
  have ix: "0x900 = int (USER_PROGRAM_SPACE div 4096)"
    "0xe00 = int ((USER_PROGRAM_SPACE + USER_PROGRAM_MAX_SIZE) div 4096)"
    by (simp_all add: USER_PROGRAM_SPACE_def USER_PROGRAM_MAX_SIZE_def)
  have "\<exists>fr. memory_reserve 2000 USER_PROGRAM_SPACE (USER_PROGRAM_SPACE + USER_PROGRAM_MAX_SIZE) boot_state =
      Inr (boot_state\<lparr>frame := fr\<rparr>) \<and> reservable fr \<and>
      free_pages fr = free_pages (frame boot_state) - {0x900..0xe00} \<and>
      used_kept (frame boot_state) fr"
    by (rule memory_reserve_correct [OF boot_state_reservable ix _ range]) (use cut head in simp_all)
  then show ?thesis unfolding boot_state_free by blast
qed

text \<open>when a block starts at the last page of the range, memory_reserve destroys it: its frame
  ends up marked in use and with the index -1, so that the frames describe no blocks any more.\<close>

theorem memory_reserve_destroys_next_block:
  assumes "reservable (frame s)" and "a = int (start div 4096)" and "b = int (stop div 4096)"
    and "a < b" and "{a..b} \<subseteq> free_pages (frame s)" and "block_head (frame s) b"
    and "b - a < int fuel" and "18 \<le> fuel"
  shows "\<exists>s'. memory_reserve fuel start stop s = Inr s' \<and>
    frame s' b = \<lparr>fi_status = 1, fi_index = -1\<rparr> \<and> \<not> tiling (frame s')"
proof -
  obtain s' where s': "memory_reserve fuel start stop s = Inr s'" "fi_index (frame s' b) = -1"
    "fi_status (frame s' b) = 1"
    using memory_reserve_clobbers [OF assms] by blast
  have "b \<in> free_pages (frame s)" using assms(4,5) by auto
  then have "0 \<le> b" "b < PAGE_MAX_ENTRY" using free_pages_bounds [OF reservableD(1) [OF assms(1)]] by simp_all
  then have "\<not> tiling (frame s')" using tilingD_status [of "frame s'" b] s'(2,3) by auto
  moreover have "frame s' b = \<lparr>fi_status = 1, fi_index = -1\<rparr>" using s'(2,3) by (intro frame_info.equality) simp_all
  ultimately show ?thesis using s'(1) by blast
qed

text \<open>Reserving from 0xfff0000 to 0x10000000, where the second block starts.\<close>

theorem memory_reserve_destroys_next_block_example:
  "\<exists>s'. memory_reserve 18 0xfff0000 0x10000000 boot_state = Inr s' \<and>
     frame s' 65536 = \<lparr>fi_status = 1, fi_index = -1\<rparr>"
proof -
  have range: "{65520..65536} \<subseteq> free_pages (frame boot_state)"
    unfolding boot_state_free by (rule subsetI) (simp add: PAGE_MAX_ENTRY_def)
  have head: "block_head (frame boot_state) 65536" by (simp add: boot_state_head)
  have "\<exists>s'. memory_reserve 18 0xfff0000 0x10000000 boot_state = Inr s' \<and>
      frame s' 65536 = \<lparr>fi_status = 1, fi_index = -1\<rparr> \<and> \<not> tiling (frame s')"
    by (rule memory_reserve_destroys_next_block [OF boot_state_reservable _ _ _ range head]) simp_all
  then show ?thesis by blast
qed

text \<open>the last loop of page_init puts the free blocks on the lists: from consistent frames and
  empty lists it establishes the allocator's invariant without changing the frames.\<close>

theorem enlist_loop_correct:
  assumes "tiling (frame s)" and "block_head (frame s) 0" and "\<And>l. page_list s l = None"
  shows "\<exists>s' L. enlist_loop 0 PAGE_MAX_ENTRY s = Inr s' \<and> frame s' = frame s \<and> page_inv s' L"
proof -
  have "lists_rep s (\<lambda>_. [])" by (rule lists_repI) (use assms(3) in simp_all)
  moreover have "tails_ok s (\<lambda>_. [])" by (rule tails_okI) simp
  ultimately have "enlisted 0 s (\<lambda>_. [])" by (auto simp: enlisted_def free_head_def block_head_def)
  then show ?thesis
    using enlist_loop_run [OF assms(1), of 0 "\<lambda>_. []" PAGE_MAX_ENTRY] assms(2)
    by (simp add: PAGE_MAX_ENTRY_def)
qed

end
