(* ===== verification/Pool.thy ===== *)
theory Pool
  imports PageBoot
begin

text \<open>
  \<open>malloc_\<close> and \<open>free\<close> of \<open>lib/malloc.c\<close> (here \<open>malloc\<close> and \<open>free\<close>): pages obtained from
  the page allocator are cut into slots of one size. A page starts with its \<open>pool_header\<close>, then a
  byte per slot (\<open>slot_used\<close>, the code's \<open>page_info\<close>), then the slots; all such pages are on
  the list \<open>pool\<close>. A request of more than 2048 bytes gets pages of its own, with no slots.

  \<open>fuel\<close> bounds the walk along the list (and the repeated search of a page whose \<open>used\<close> count is
  wrong); \<open>pfuel\<close> is passed to the page allocator.
\<close>

section \<open>State\<close>

record pool_header =
  ph_size :: nat
  ph_total :: nat
  ph_used :: nat
  ph_next :: "addr option"

record pool_state =
  pages :: page_state
  pool :: "addr option"
  header :: "addr \<Rightarrow> pool_header"
  slot_used :: "addr \<Rightarrow> nat \<Rightarrow> nat"

definition SIZEOF_pool_header :: nat where
  "SIZEOF_pool_header = 32"

definition set_header :: "addr \<Rightarrow> pool_header \<Rightarrow> pool_state \<Rightarrow> pool_state" where
  "set_header a h s = s\<lparr>header := (header s)(a := h)\<rparr>"

definition set_slot :: "addr \<Rightarrow> nat \<Rightarrow> nat \<Rightarrow> pool_state \<Rightarrow> pool_state" where
  "set_slot a i v s = s\<lparr>slot_used := (slot_used s)(a := (slot_used s a)(i := v))\<rparr>"

section \<open>Allocation\<close>

text \<open>The first unused slot from \<open>i\<close> on.\<close>

function find_slot :: "(nat \<Rightarrow> nat) \<Rightarrow> nat \<Rightarrow> nat \<Rightarrow> nat option" where
  "find_slot info i n_slots =
     (if i < n_slots then if info i = 0 then Some i else find_slot info (i + 1) n_slots else None)"
  by pat_completeness auto
termination
  by (relation "measure (\<lambda>(info, i, n_slots). n_slots - i)") auto

declare find_slot.simps [simp del]

text \<open>\<open>for(i=lo; i<n_slots; i++) *(page_info+i) = 0;\<close>\<close>

definition clear_slots :: "addr \<Rightarrow> nat \<Rightarrow> nat \<Rightarrow> pool_state \<Rightarrow> pool_state" where
  "clear_slots a lo n_slots s = fold (\<lambda>i. set_slot a i 0) [lo..<n_slots] s"

text \<open>\<open>page_allocate\<close> may return -1, which the code multiplies as an unsigned number.\<close>

definition open_page :: "nat \<Rightarrow> nat \<Rightarrow> pool_state \<Rightarrow> (addr \<times> pool_state) res" where
  "open_page pfuel sz s =
     rbind (page_allocate pfuel sz (pages s)) (\<lambda>(page_index, ps).
     let page = int (u64 (0x1000 * page_index));
         n_slots = (0x1000 - aling8 SIZEOF_pool_header - 16) div (sz + 1);
         s = s\<lparr>pages := ps\<rparr>;
         s = set_header page \<lparr>ph_size = sz, ph_total = n_slots, ph_used = 1, ph_next = pool s\<rparr> s;
         s = s\<lparr>pool := Some page\<rparr>;
         s = set_slot page 0 1 s;
         s = clear_slots page 1 n_slots s in
     Inr (page + int (aling8 SIZEOF_pool_header) + int (aling8 n_slots), s))"

text \<open>The \<open>while\<close> loop: \<open>None\<close> when no page of the list has a slot.\<close>

fun search_pool :: "nat \<Rightarrow> nat \<Rightarrow> addr option \<Rightarrow> pool_state \<Rightarrow> (addr option \<times> pool_state) res" where
  "search_pool 0 sz cur s = Inl OutOfFuel"
| "search_pool (Suc fuel) sz cur s =
     (case cur of
        None \<Rightarrow> Inr (None, s)
      | Some c \<Rightarrow>
          let h = header s c in
          if ph_size h < sz \<or> ph_size h \<ge> 2 * sz \<or> ph_used h \<ge> ph_total h then
            search_pool fuel sz (ph_next h) s
          else
            let s = set_header c (h\<lparr>ph_used := ph_used h + 1\<rparr>) s in
            (case find_slot (slot_used s c) 0 (ph_total h) of
               Some i \<Rightarrow>
                 Inr (Some (c + int (aling8 SIZEOF_pool_header) + int (aling8 (ph_total h))
                        + int (ph_size h * i)), set_slot c i 1 s)
             | None \<Rightarrow> search_pool fuel sz cur s))"

text \<open>The size that \<open>malloc_\<close> looks for: rounded up to a power of two, doubled above 2048.\<close>

definition slot_size :: "nat \<Rightarrow> nat res" where
  "slot_size request =
     (let request = (if request < 8 then 8 else request) in
      rbind (log2 (c_int (request - 1))) (\<lambda>l.
      let sz = u64 (power2 (l + 1)) in
      Inr (if sz > 0x800 then u64 (int (sz * 2)) else sz)))"

definition malloc :: "nat \<Rightarrow> nat \<Rightarrow> nat \<Rightarrow> pool_state \<Rightarrow> (addr \<times> pool_state) res" where
  "malloc pfuel fuel request s =
     rbind (slot_size request) (\<lambda>sz.
     rbind (search_pool fuel sz (pool s) s) (\<lambda>(r, s).
     case r of Some a \<Rightarrow> Inr (a, s) | None \<Rightarrow> open_page pfuel sz s))"

section \<open>Release\<close>

text \<open>The walk of \<open>remove_page\<close> to the page's predecessor.\<close>

fun find_pred :: "nat \<Rightarrow> addr \<Rightarrow> addr option \<Rightarrow> addr option \<Rightarrow> pool_state \<Rightarrow> addr option res" where
  "find_pred 0 page pre cur s = Inl OutOfFuel"
| "find_pred (Suc fuel) page pre cur s =
     (if cur = Some page then Inr pre
      else case cur of
        None \<Rightarrow> Inl NullDeref
      | Some c \<Rightarrow> find_pred fuel page cur (ph_next (header s c)) s)"

definition remove_page :: "nat \<Rightarrow> nat \<Rightarrow> addr \<Rightarrow> pool_state \<Rightarrow> pool_state res" where
  "remove_page pfuel fuel page s =
     (let index = c_int (nat page div 0x1000) in
      rbind (find_pred fuel page None (pool s) s) (\<lambda>pre.
      let next = ph_next (header s page);
          s = (case pre of
                 None \<Rightarrow> s\<lparr>pool := next\<rparr>
               | Some p \<Rightarrow> set_header p ((header s p)\<lparr>ph_next := next\<rparr>) s) in
      rbind (page_free pfuel index (pages s)) (\<lambda>ps. Inr (s\<lparr>pages := ps\<rparr>))))"

definition free :: "nat \<Rightarrow> nat \<Rightarrow> addr \<Rightarrow> pool_state \<Rightarrow> pool_state res" where
  "free pfuel fuel a s =
     (let page = a - a mod 0x1000;
          h = header s page;
          index = u64 (a mod 0x1000 - int (aling8 (ph_total h)) - int (aling8 SIZEOF_pool_header))
            div ph_size h in
      if ph_used h \<noteq> 1 then
        Inr (set_slot page index 0 (set_header page (h\<lparr>ph_used := u64 (int (ph_used h) - 1)\<rparr>) s))
      else remove_page pfuel fuel page s)"

end
