(* ===== verification/PoolProps.thy ===== *)
theory PoolProps
  imports Pool
begin

text \<open>
  The memory pools: \<open>pool_inv s ps\<close> says that the pages \<open>ps\<close> are on the list, that each
  belongs to the pool in the page allocator's books, and that its header counts its used slots.
  \<open>live s ps\<close> are the blocks handed out and not yet freed, as pairs of an address and a length.
\<close>

section \<open>The invariant\<close>

definition page_good :: "pool_header \<Rightarrow> frame_info \<Rightarrow> (nat \<Rightarrow> nat) \<Rightarrow> addr \<Rightarrow> bool" where
  "page_good h fi used p \<longleftrightarrow>
     0 \<le> p \<and> p mod 4096 = 0 \<and> p div 4096 < PAGE_MAX_ENTRY \<and> 0 \<le> fi_index fi \<and> fi_status fi \<noteq> 0 \<and>
     int (ph_size h) \<le> 4096 * 2 ^ nat (fi_index fi) \<and>
     8 \<le> ph_size h \<and> ph_total h = 4048 div (ph_size h + 1) \<and> 1 \<le> ph_used h \<and>
     ph_used h = (if ph_total h = 0 then 1 else card {i. i < ph_total h \<and> used i \<noteq> 0})"

definition page_ok :: "pool_state \<Rightarrow> addr \<Rightarrow> bool" where
  "page_ok s p = page_good (header s p) (frame (pages s) (p div 4096)) (slot_used s p) p"

definition pool_inv :: "pool_state \<Rightarrow> addr list \<Rightarrow> bool" where
  "pool_inv s ps \<longleftrightarrow>
     chain (\<lambda>a. ph_next (header s a)) (pool s) ps \<and> (\<exists>L. page_inv (pages s) L) \<and>
     (\<forall>p \<in> set ps. page_ok s p)"

definition slot_addr :: "pool_header \<Rightarrow> addr \<Rightarrow> nat \<Rightarrow> addr" where
  "slot_addr h p i = p + 32 + int (aling8 (ph_total h)) + int (ph_size h * i)"

definition slot_len :: "pool_header \<Rightarrow> nat" where
  "slot_len h = (if ph_total h = 0 then ph_size h - 32 else ph_size h)"

definition slot_taken :: "pool_state \<Rightarrow> addr \<Rightarrow> nat \<Rightarrow> bool" where
  "slot_taken s p i \<longleftrightarrow>
     (if ph_total (header s p) = 0 then i = 0
      else i < ph_total (header s p) \<and> slot_used s p i \<noteq> 0)"

definition live :: "pool_state \<Rightarrow> addr list \<Rightarrow> (addr \<times> nat) set" where
  "live s ps = {(slot_addr (header s p) p i, slot_len (header s p)) | p i. p \<in> set ps \<and> slot_taken s p i}"

lemma page_okD:
  assumes "page_ok s p"
  shows "0 \<le> p" and "p mod 4096 = 0" and "block_head (frame (pages s)) (p div 4096)"
    and "fi_status (frame (pages s) (p div 4096)) \<noteq> 0"
    and "int (ph_size (header s p)) \<le> 4096 * block_size (frame (pages s)) (p div 4096)"
    and "8 \<le> ph_size (header s p)" and "ph_total (header s p) = 4048 div (ph_size (header s p) + 1)"
    and "1 \<le> ph_used (header s p)"
    and "0 < ph_total (header s p) \<Longrightarrow>
      ph_used (header s p) = card {i. i < ph_total (header s p) \<and> slot_used s p i \<noteq> 0}"
    and "ph_total (header s p) = 0 \<Longrightarrow> ph_used (header s p) = 1"
proof -
  note g = assms [unfolded page_ok_def page_good_def]
  show "0 \<le> p" and "p mod 4096 = 0" and "8 \<le> ph_size (header s p)"
    and "fi_status (frame (pages s) (p div 4096)) \<noteq> 0" and "1 \<le> ph_used (header s p)"
    and "ph_total (header s p) = 4048 div (ph_size (header s p) + 1)"
    using g by blast+
  have "0 \<le> p" using g by blast
  then have "0 \<le> p div 4096" by (simp add: pos_imp_zdiv_nonneg_iff)
  then show "block_head (frame (pages s)) (p div 4096)" using g unfolding block_head_def by blast
  show "int (ph_size (header s p)) \<le> 4096 * block_size (frame (pages s)) (p div 4096)"
    using g unfolding block_size_def by blast
  show "0 < ph_total (header s p) \<Longrightarrow>
      ph_used (header s p) = card {i. i < ph_total (header s p) \<and> slot_used s p i \<noteq> 0}"
    and "ph_total (header s p) = 0 \<Longrightarrow> ph_used (header s p) = 1"
    using g by (metis not_less_zero, metis)
qed

lemma pool_invD:
  assumes "pool_inv s ps"
  shows "chain (\<lambda>a. ph_next (header s a)) (pool s) ps" and "\<exists>L. page_inv (pages s) L"
    and "p \<in> set ps \<Longrightarrow> page_ok s p"
  using assms by (simp_all add: pool_inv_def)

lemma aling8_le: "aling8 n \<le> n + 7"
  by (simp add: aling8_def) presburger

lemma aling8_ge: "n \<le> aling8 n"
  by (simp add: aling8_def) presburger

lemma aling8_dvd: "8 dvd aling8 n"
  by (simp add: aling8_def) presburger

lemma aling8_header [simp]: "aling8 SIZEOF_pool_header = 32"
  by (simp add: aling8_def SIZEOF_pool_header_def)

text \<open>A slot lies in its page, after the slot table.\<close>

lemma slot_bounds:
  assumes "n = 4048 div (sz + 1)" and "i < n"
  shows "32 + int (aling8 n) + int (sz * i) + int sz \<le> 4096"
proof -
  have "n * (sz + 1) \<le> 4048" unfolding assms(1) by (rule div_times_less_eq_dividend)
  then have "n * sz + n \<le> 4048" by simp
  moreover have "sz * i + sz \<le> n * sz"
    using mult_le_mono1 [of "Suc i" n sz] assms(2) by (simp add: algebra_simps)
  moreover have "aling8 n \<le> n + 7" by (rule aling8_le)
  ultimately have "32 + aling8 n + sz * i + sz \<le> 4096" by simp
  then have "int (32 + aling8 n + sz * i + sz) \<le> int 4096" by (simp only: of_nat_le_iff)
  then show ?thesis by simp
qed

lemma slot_in_page:
  assumes "page_ok s p" and "slot_taken s p i"
  defines "h \<equiv> header s p"
  shows "p + 32 \<le> slot_addr h p i"
    and "slot_addr h p i + int (slot_len h) \<le> p + 4096 * block_size (frame (pages s)) (p div 4096)"
    and "slot_addr h p i < p + 4096"
proof -
  note ok = page_okD [OF assms(1), folded h_def]
  have one: "(1::int) \<le> block_size (frame (pages s)) (p div 4096)" by simp
  show "p + 32 \<le> slot_addr h p i" by (simp add: slot_addr_def)
  show "slot_addr h p i + int (slot_len h) \<le> p + 4096 * block_size (frame (pages s)) (p div 4096)"
  proof (cases "ph_total h = 0")
    case True
    then have i: "i = 0" using assms(2) by (simp add: slot_taken_def h_def)
    have "4048 < ph_size h + 1" using True ok(7) by (simp add: div_eq_0_iff)
    then show ?thesis using True i ok(5) by (simp add: slot_addr_def slot_len_def aling8_def)
  next
    case False
    then have "i < ph_total h" using assms(2) by (simp add: slot_taken_def h_def)
    then have "32 + int (aling8 (ph_total h)) + int (ph_size h * i) + int (ph_size h) \<le> 4096"
      by (rule slot_bounds [OF ok(7)])
    then have "slot_addr h p i + int (slot_len h) \<le> p + 4096"
      using False by (simp add: slot_addr_def slot_len_def)
    then show ?thesis using one by linarith
  qed
  show "slot_addr h p i < p + 4096"
  proof (cases "ph_total h = 0")
    case True
    then show ?thesis using assms(2) by (simp add: slot_taken_def h_def slot_addr_def aling8_def)
  next
    case False
    then have "i < ph_total h" using assms(2) by (simp add: slot_taken_def h_def)
    then have "32 + int (aling8 (ph_total h)) + int (ph_size h * i) + int (ph_size h) \<le> 4096"
      by (rule slot_bounds [OF ok(7)])
    then show ?thesis using ok(6) by (simp add: slot_addr_def)
  qed
qed

text \<open>The computation of \<open>free\<close> finds the page and the slot.\<close>

lemma slot_page:
  assumes "page_ok s p" and "slot_taken s p i"
  shows "slot_addr (header s p) p i - slot_addr (header s p) p i mod 4096 = p"
    and "u64 (slot_addr (header s p) p i mod 4096 - int (aling8 (ph_total (header s p))) - 32)
      div ph_size (header s p) = i"
proof -
  note b = slot_in_page [OF assms] and ok = page_okD [OF assms(1)]
  define a where "a = slot_addr (header s p) p i"
  obtain k where k: "p = 4096 * k" using ok(2) by auto
  have "a = 4096 * k + (a - p)" using k by simp
  moreover have r: "0 \<le> a - p" "a - p < 4096" using b(1,3) by (simp_all add: a_def)
  ultimately have m: "a mod 4096 = a - p" by (metis mod_mult_self4 mod_pos_pos_trivial mult.commute)
  then show "slot_addr (header s p) p i - slot_addr (header s p) p i mod 4096 = p"
    by (simp add: a_def)
  have "a mod 4096 - int (aling8 (ph_total (header s p))) - 32 = int (ph_size (header s p) * i)"
    unfolding m by (simp add: a_def slot_addr_def)
  moreover have "ph_size (header s p) * i < 2 ^ 64"
  proof -
    have "int (ph_size (header s p) * i) \<le> a - p" by (simp add: a_def slot_addr_def)
    then have "int (ph_size (header s p) * i) < int 4096" using r(2) by linarith
    then have "ph_size (header s p) * i < 4096" by (simp only: of_nat_less_iff)
    then show ?thesis by (rule less_trans) simp
  qed
  ultimately have "u64 (a mod 4096 - int (aling8 (ph_total (header s p))) - 32) = ph_size (header s p) * i"
    by (simp add: u64_small del: of_nat_mult)
  then show "u64 (slot_addr (header s p) p i mod 4096 - int (aling8 (ph_total (header s p))) - 32)
      div ph_size (header s p) = i"
    using ok(6) by (simp add: a_def)
qed

section \<open>Live blocks do not overlap\<close>

lemma live_apart:
  assumes "pool_inv s ps" and "(a, n) \<in> live s ps" and "(b, m) \<in> live s ps" and "(a, n) \<noteq> (b, m)"
  shows "{a..<a + int n} \<inter> {b..<b + int m} = {}"
proof -
  obtain p i where p: "a = slot_addr (header s p) p i" "n = slot_len (header s p)" "p \<in> set ps"
    "slot_taken s p i" using assms(2) by (auto simp: live_def)
  obtain q j where q: "b = slot_addr (header s q) q j" "m = slot_len (header s q)" "q \<in> set ps"
    "slot_taken s q j" using assms(3) by (auto simp: live_def)
  note okp = pool_invD(3) [OF assms(1) p(3)] and okq = pool_invD(3) [OF assms(1) q(3)]
  note bp = slot_in_page [OF okp p(4)] and bq = slot_in_page [OF okq q(4)]
  obtain L where "page_inv (pages s) L" using pool_invD(2) [OF assms(1)] by blast
  then have til: "tiling (frame (pages s))" by (rule page_invD(1))
  have apart: "p' + 4096 * block_size (frame (pages s)) (p' div 4096) \<le> q'"
    if ok: "page_ok s p'" "page_ok s q'" and lt: "p' < q'" for p' q'
  proof -
    obtain k where k: "p' = 4096 * k" using page_okD(2) [OF ok(1)] by auto
    obtain k' where k': "q' = 4096 * k'" using page_okD(2) [OF ok(2)] by auto
    have "k + block_size (frame (pages s)) k \<le> k'"
      using blocks_apart [OF til, of k k'] page_okD(3) [OF ok(1)] page_okD(3) [OF ok(2)] lt k k' by simp
    then show ?thesis by (simp add: k k')
  qed
  consider "p < q" | "q < p" | "p = q" by linarith
  then show ?thesis
  proof cases
    case 1
    then show ?thesis using apart [OF okp okq] bp(2) bq(1) p(1,2) q(1) by auto
  next
    case 2
    then show ?thesis using apart [OF okq okp] bq(2) bp(1) p(1) q(1,2) by auto
  next
    case 3
    have ij: "i \<noteq> j" using assms(4) p(1,2) q(1,2) 3 by auto
    have t: "ph_total (header s p) \<noteq> 0"
      using ij p(4) q(4) 3 by (auto simp: slot_taken_def split: if_splits)
    have len: "n = ph_size (header s p)" "m = ph_size (header s p)"
      using p(2) q(2) 3 t by (simp_all add: slot_len_def)
    have step: "int (ph_size (header s p) * x) + int (ph_size (header s p)) \<le> int (ph_size (header s p) * y)"
      if "x < y" for x y
    proof -
      have "ph_size (header s p) * Suc x \<le> ph_size (header s p) * y" using that by (intro mult_le_mono2) simp
      then have "int (ph_size (header s p) * Suc x) \<le> int (ph_size (header s p) * y)"
        by (simp only: of_nat_le_iff)
      then show ?thesis by (simp add: algebra_simps)
    qed
    show ?thesis
    proof (cases "i < j")
      case True
      then show ?thesis using step [OF True] p(1) q(1) 3 len by (auto simp: slot_addr_def)
    next
      case False
      then have "j < i" using ij by simp
      then show ?thesis using step [OF \<open>j < i\<close>] p(1) q(1) 3 len by (auto simp: slot_addr_def)
    qed
  qed
qed

section \<open>Searching\<close>

lemma find_slot_Some: "find_slot info i n = Some j \<Longrightarrow> i \<le> j \<and> j < n \<and> info j = 0"
proof (induction info i n rule: find_slot.induct)
  case (1 info i n)
  then show ?case by (cases "i < n"; cases "info i = 0") (auto simp: find_slot.simps [of info i n])
qed

lemma find_slot_None: "find_slot info i n = None \<Longrightarrow> i \<le> j \<Longrightarrow> j < n \<Longrightarrow> info j \<noteq> 0"
proof (induction info i n rule: find_slot.induct)
  case (1 info i n)
  then have "i < n" by simp
  moreover have "info i \<noteq> 0" using 1(2) \<open>i < n\<close> by (auto simp: find_slot.simps [of info i n] split: if_splits)
  ultimately have "find_slot info (i + 1) n = None" using 1(2) by (simp add: find_slot.simps [of info i n])
  then show ?case using 1 \<open>i < n\<close> \<open>info i \<noteq> 0\<close> by (cases "i = j") auto
qed

lemma free_slot_exists:
  assumes "page_ok s p" and "ph_used (header s p) < ph_total (header s p)"
  shows "\<exists>i. find_slot (slot_used s p) 0 (ph_total (header s p)) = Some i"
proof (rule ccontr)
  let ?n = "ph_total (header s p)"
  assume "\<not> ?thesis"
  then have "find_slot (slot_used s p) 0 ?n = None" by simp
  then have "{i. i < ?n \<and> slot_used s p i \<noteq> 0} = {..<?n}"
    using find_slot_None by fastforce
  then have "ph_used (header s p) = ?n" using page_okD(9) [OF assms(1)] assms(2) by simp
  then show False using assms(2) by simp
qed

text \<open>The state after slot \<open>i\<close> of page \<open>c\<close> has been handed out.\<close>

definition take_slot :: "addr \<Rightarrow> nat \<Rightarrow> pool_state \<Rightarrow> pool_state" where
  "take_slot c i s =
     set_slot c i 1 (set_header c ((header s c)\<lparr>ph_used := ph_used (header s c) + 1\<rparr>) s)"

lemma search_pool_run:
  assumes "chain (\<lambda>a. ph_next (header s a)) cur qs" and "\<And>p. p \<in> set qs \<Longrightarrow> page_ok s p"
    and "length qs < fuel"
  shows "search_pool fuel sz cur s = Inr (None, s) \<or>
    (\<exists>c i. c \<in> set qs \<and> sz \<le> ph_size (header s c) \<and> i < ph_total (header s c) \<and> slot_used s c i = 0 \<and>
       search_pool fuel sz cur s = Inr (Some (slot_addr (header s c) c i), take_slot c i s))"
  using assms
proof (induction qs arbitrary: cur fuel)
  case Nil
  then obtain f where "fuel = Suc f" by (cases fuel) auto
  then show ?case using Nil by simp
next
  case (Cons c qs)
  obtain f where f: "fuel = Suc f" using Cons.prems(3) by (cases fuel) auto
  have cur: "cur = Some c" "chain (\<lambda>a. ph_next (header s a)) (ph_next (header s c)) qs"
    using Cons.prems(1) by simp_all
  let ?h = "header s c"
  show ?case
  proof (cases "ph_size ?h < sz \<or> ph_size ?h \<ge> 2 * sz \<or> ph_used ?h \<ge> ph_total ?h")
    case True
    then have "search_pool fuel sz cur s = search_pool f sz (ph_next ?h) s" using cur f by simp
    then show ?thesis using Cons.IH [OF cur(2), of f] Cons.prems(2,3) f by auto
  next
    case False
    have okc: "page_ok s c" using Cons.prems(2) by simp
    obtain i where i: "find_slot (slot_used s c) 0 (ph_total ?h) = Some i"
      using free_slot_exists [OF okc] False by auto
    have "search_pool fuel sz cur s = Inr (Some (slot_addr ?h c i), take_slot c i s)"
      using False cur f i by (simp add: take_slot_def slot_addr_def set_header_def Let_def)
    moreover have "i < ph_total ?h" "slot_used s c i = 0" using find_slot_Some [OF i] by simp_all
    ultimately show ?thesis using False by (intro disjI2 exI [of _ c] exI [of _ i]) simp
  qed
qed

lemma take_slot_page_ok:
  assumes "page_ok s c" and "i < ph_total (header s c)" and "slot_used s c i = 0" and "page_ok s p"
  shows "page_ok (take_slot c i s) p"
proof (cases "p = c")
  case False
  then have "header (take_slot c i s) p = header s p" "slot_used (take_slot c i s) p = slot_used s p"
    "pages (take_slot c i s) = pages s"
    by (simp_all add: take_slot_def set_slot_def set_header_def)
  then show ?thesis using assms(4) by (simp add: page_ok_def)
next
  case True
  let ?s = "take_slot c i s" and ?U = "{j. j < ph_total (header s c) \<and> slot_used s c j \<noteq> 0}"
  have h: "header ?s c = (header s c)\<lparr>ph_used := ph_used (header s c) + 1\<rparr>" "pages ?s = pages s"
    "slot_used ?s c = (slot_used s c)(i := 1)"
    by (simp_all add: take_slot_def set_slot_def set_header_def)
  have "{j. j < ph_total (header s c) \<and> slot_used ?s c j \<noteq> 0} = insert i ?U"
    using assms(2) by (auto simp: h)
  moreover have "card (insert i ?U) = card ?U + 1" using assms(3) by simp
  moreover have "ph_used (header s c) = card ?U" using page_okD(9) [OF assms(1)] assms(2) by simp
  ultimately show ?thesis
    using assms(1,2) unfolding True page_ok_def page_good_def h by simp
qed

section \<open>The size of the slot\<close>

lemma slot_size_log:
  assumes "2 ^ k < (if request < 8 then 8 else request)" and "(if request < 8 then 8 else request) \<le> 2 ^ Suc k"
    and "k < 30"
  shows "slot_size request = Inr (let m = 2 ^ nat (min 16 (int k) + 1) in if 2048 < m then 2 * m else m)"
proof -
  define r where "r = (if request < 8 then 8 else request)"
  have r8: "8 \<le> r" by (simp add: r_def)
  have k: "2 ^ k \<le> r - 1" "r - 1 < 2 ^ Suc k" using assms(1,2) r8 unfolding r_def [symmetric] by linarith+
  have "(2::nat) ^ Suc k \<le> 2 ^ 30" using assms(3) by (intro power_increasing) simp_all
  then have lt31: "r - 1 < 2 ^ 31" using k(2) by simp
  have ki: "2 ^ k \<le> int (r - 1)" "int (r - 1) < 2 ^ Suc k"
    using k of_nat_le_iff [of "2 ^ k" "r - 1", where ?'a = int]
      of_nat_less_iff [of "r - 1" "2 ^ Suc k", where ?'a = int] by simp_all
  have lg: "log2 (c_int (r - 1)) = Inr (min 16 (int k))"
    using log2_eq [OF ki assms(3)] c_int_small [OF lt31] by (simp add: PAGE_MAX_ORDER_def)
  define m :: nat where "m = 2 ^ nat (min 16 (int k) + 1)"
  have m17: "m \<le> 2 ^ 17" unfolding m_def by (intro power_increasing) simp_all
  have "power2 (min 16 (int k) + 1) = int m" by (simp add: m_def)
  moreover have "u64 (int m) = m"
    using u64_small [of "int m"] m17 of_nat_less_iff [of m "2 ^ 64", where ?'a = int] by simp
  ultimately have p: "u64 (power2 (min 16 (int k) + 1)) = m" by (simp only:)
  have "u64 (int (m * 2)) = m * 2" using m17 by (simp add: u64_small)
  then show ?thesis
    unfolding slot_size_def Let_def r_def [symmetric] lg rbind_Inr p m_def [symmetric] by simp
qed

lemma nat_log_exists:
  fixes r :: nat
  assumes "8 \<le> r"
  obtains k where "2 ^ k < r" and "r \<le> 2 ^ Suc k" and "2 \<le> k"
proof -
  have r1: "1 \<le> r - 1" using assms by simp
  obtain k where k: "2 ^ k \<le> r - 1" "r - 1 < 2 ^ (k + 1)"
    using ex_power_ivl1 [OF order.refl r1] by blast
  have "2 \<le> k"
  proof (rule ccontr)
    assume "\<not> 2 \<le> k"
    then have "(2::nat) ^ Suc k \<le> 2 ^ 2" by (intro power_increasing) simp_all
    then show False using k(2) assms by simp
  qed
  then show thesis using that [of k] k assms by simp
qed

lemma slot_size_fits:
  assumes "request \<le> 2 ^ 17"
  obtains sz where "slot_size request = Inr sz" and "8 \<le> sz" and "sz \<le> 2 ^ 18"
    and "request \<le> sz \<and> sz \<le> 2048 \<or> 8192 \<le> sz \<and> 2 * request \<le> sz"
proof -
  define r where "r = (if request < 8 then 8 else request)"
  have r: "8 \<le> r" "request \<le> r" "r \<le> 2 ^ 17" using assms by (simp_all add: r_def)
  obtain k where k: "2 ^ k < r" "r \<le> 2 ^ Suc k" "2 \<le> k" using r(1) by (rule nat_log_exists)
  have k16: "k \<le> 16"
  proof (rule ccontr)
    assume "\<not> k \<le> 16"
    then have "(2::nat) ^ 17 \<le> 2 ^ k" by (intro power_increasing) simp_all
    then show False using k(1) r(3) by simp
  qed
  define m :: nat where "m = 2 ^ Suc k"
  have "nat (min 16 (int k) + 1) = Suc k" using k16 by (simp add: nat_add_distrib)
  then have eq: "slot_size request = Inr (if 2048 < m then 2 * m else m)"
    using slot_size_log [of k request, folded r_def, OF k(1,2)] k16 by (simp add: m_def Let_def)
  have m: "8 \<le> m" "m \<le> 2 ^ 17" "request \<le> m"
    using k k16 r(2) power_increasing [of 3 "Suc k" "2::nat"] power_increasing [of "Suc k" 17 "2::nat"]
    by (simp_all add: m_def)
  have "m \<le> 2048 \<or> 4096 \<le> m"
  proof (cases "Suc k \<le> 11")
    case True
    then show ?thesis using power_increasing [of "Suc k" 11 "2::nat"] by (simp add: m_def)
  next
    case False
    then show ?thesis using power_increasing [of 12 "Suc k" "2::nat"] by (simp add: m_def)
  qed
  then show thesis using that [OF eq] m by (auto split: if_splits)
qed

text \<open>The rounding is capped: every bigger request is served with 2^18 bytes.\<close>

lemma slot_size_capped:
  assumes "2 ^ 17 < request" and "request \<le> 2 ^ 30"
  shows "slot_size request = Inr (2 ^ 18)"
proof -
  obtain k where k: "2 ^ k < request" "request \<le> 2 ^ Suc k" "2 \<le> k"
    using nat_log_exists [of request] assms(1) by auto
  have "17 \<le> k"
  proof (rule ccontr)
    assume "\<not> 17 \<le> k"
    then have "(2::nat) ^ Suc k \<le> 2 ^ 17" by (intro power_increasing) simp_all
    then show False using k(2) assms(1) by simp
  qed
  moreover have "k < 30"
  proof (rule ccontr)
    assume "\<not> k < 30"
    then have "(2::nat) ^ 30 \<le> 2 ^ k" by (intro power_increasing) simp_all
    then show False using k(1) assms(2) by simp
  qed
  moreover have "\<not> request < 8" using assms(1) by simp
  ultimately show ?thesis using slot_size_log [of k request] k(1,2) by (simp add: min_def Let_def)
qed

section \<open>Allocation from the pools\<close>

lemma page_ok_cong:
  assumes "header s' p = header s p" and "slot_used s' p = slot_used s p"
    and "frame (pages s') (p div 4096) = frame (pages s) (p div 4096)"
  shows "page_ok s' p \<longleftrightarrow> page_ok s p"
  using assms by (simp add: page_ok_def)

lemma clear_slots_eq:
  "clear_slots a lo n s =
     s\<lparr>slot_used := (slot_used s)(a := (\<lambda>i. if lo \<le> i \<and> i < n then 0 else slot_used s a i))\<rparr>"
proof (induction n)
  case 0
  then show ?case by (simp add: clear_slots_def)
next
  case (Suc n)
  show ?case
  proof (cases "lo \<le> n")
    case True
    then have "clear_slots a lo (Suc n) s = set_slot a n 0 (clear_slots a lo n s)"
      by (simp add: clear_slots_def)
    then show ?thesis using Suc True
      by (auto simp: set_slot_def fun_eq_iff less_Suc_eq intro!: pool_state.equality)
  next
    case False
    then show ?thesis by (auto simp: clear_slots_def fun_eq_iff intro!: pool_state.equality)
  qed
qed

text \<open>The live blocks of a list of pages are those of each page.\<close>

definition page_live :: "pool_state \<Rightarrow> addr \<Rightarrow> (addr \<times> nat) set" where
  "page_live s p = {(slot_addr (header s p) p i, slot_len (header s p)) | i. slot_taken s p i}"

lemma live_pages: "live s ps = (\<Union>p \<in> set ps. page_live s p)"
  by (auto simp: live_def page_live_def)

lemma page_live_cong:
  assumes "header s' p = header s p" and "slot_used s' p = slot_used s p"
  shows "page_live s' p = page_live s p"
  using assms by (simp add: page_live_def slot_taken_def)

lemma live_same:
  assumes "\<And>p. p \<in> set ps \<Longrightarrow> page_live s' p = page_live s p"
  shows "live s' ps = live s ps"
  using assms by (simp add: live_pages)

lemma live_insert:
  assumes "c \<in> set ps" and "page_live s' c = insert x (page_live s c)"
    and "\<And>q. q \<noteq> c \<Longrightarrow> page_live s' q = page_live s q"
  shows "live s' ps = insert x (live s ps)"
proof -
  have "y \<in> page_live s' q \<longleftrightarrow> y \<in> page_live s q \<or> q = c \<and> y = x" for y q
    using assms(2,3) by (cases "q = c") auto
  then show ?thesis using assms(1) by (auto simp: live_pages)
qed

lemma mod_page:
  fixes a p :: int
  assumes "p mod 4096 = 0" and "0 \<le> a - p" and "a - p < 4096"
  shows "a mod 4096 = a - p"
proof -
  obtain k where "p = 4096 * k" using assms(1) by auto
  then have "a = (a - p) + 4096 * k" by simp
  then have "a mod 4096 = (a - p) mod 4096" by (metis mod_mult_self2)
  then show ?thesis using assms(2,3) by simp
qed

lemma open_page_run:
  assumes inv: "pool_inv s ps" and "8 \<le> sz" and "sz \<le> 2 ^ 18"
    and run: "open_page pfuel sz s = Inr (a, s')"
  obtains p where "pool_inv s' (p # ps)" and "p \<notin> set ps"
    and "live s' (p # ps) = insert (a, if sz < 4048 then sz else sz - 32) (live s ps)"
    and "a = p + 32 + int (aling8 (4048 div (sz + 1)))"
proof -
  obtain i ps' where al: "page_allocate pfuel sz (pages s) = Inr (i, ps')"
    using run by (cases "page_allocate pfuel sz (pages s)") (auto simp: open_page_def)
  obtain L where L: "page_inv (pages s) L" using pool_invD(2) [OF inv] by blast
  have szr: "1 \<le> sz" "sz \<le> 4096 * 2 ^ 16" "i \<noteq> -1 \<or> sz \<le> 4096 * 2 ^ 15" using assms(2,3) by simp_all
  obtain l L' where l: "page_level sz = Inr l" "int sz \<le> 4096 * 2 ^ nat l"
    "{i..<i + 2 ^ nat l} \<subseteq> free_pages (frame (pages s))"
    "frame ps' i = \<lparr>fi_status = 1, fi_index = l\<rparr>"
    "used_kept (frame (pages s)) (frame ps')" "page_inv ps' L'"
    using page_allocate_run [OF L szr(1,2) al szr(3)] by blast
  have "i \<in> free_pages (frame (pages s))" using l(3) by auto
  then have i: "0 \<le> i" "i < PAGE_MAX_ENTRY" using free_pages_bounds [OF page_invD(1) [OF L]] by blast+
  define p where "p = 4096 * i"
  define n where "n = 4048 div (sz + 1)"
  have pd: "p div 4096 = i" "p mod 4096 = 0" by (simp_all add: p_def)
  have u: "int (u64 (4096 * i)) = p" using i by (simp add: p_def u64_small PAGE_MAX_ENTRY_def)
  define h where "h = \<lparr>ph_size = sz, ph_total = n, ph_used = 1, ph_next = pool s\<rparr>"
  have s': "s' = s\<lparr>pages := ps', header := (header s)(p := h), pool := Some p,
      slot_used := (slot_used s)(p := (\<lambda>j. if 1 \<le> j \<and> j < n then 0 else ((slot_used s p)(0 := 1)) j))\<rparr>"
    and a: "a = p + 32 + int (aling8 n)"
    using run al u
    by (auto simp add: open_page_def Let_def clear_slots_eq set_header_def set_slot_def h_def n_def
        cong: if_cong)
  have notin: "p \<notin> set ps"
  proof
    assume "p \<in> set ps"
    then have ok: "page_ok s p" by (rule pool_invD(3) [OF inv])
    have "i \<in> free_pages (frame (pages s))" by fact
    then obtain k where "free_head (frame (pages s)) k i"
      using free_page_head [OF page_invD(1) [OF L], of i] page_okD(3) [OF ok] pd by auto
    then show False using page_okD(4) [OF ok] pd by (simp add: free_head_def)
  qed
  have old: "page_ok s' q" "page_live s' q = page_live s q" if q: "q \<in> set ps" for q
  proof -
    have qp: "q \<noteq> p" using q notin by blast
    have ok: "page_ok s q" by (rule pool_invD(3) [OF inv q])
    have "frame ps' (q div 4096) = frame (pages s) (q div 4096)"
      using l(5) page_okD(3,4) [OF ok] unfolding used_kept_def by blast
    then show "page_ok s' q" using page_ok_cong [of s' q s] ok qp by (simp add: s')
    show "page_live s' q = page_live s q" by (rule page_live_cong) (use qp in \<open>simp_all add: s'\<close>)
  qed
  have t0: "slot_taken s' p j \<longleftrightarrow> j = 0" for j
    using assms(2) by (auto simp: slot_taken_def s' h_def)
  have one: "{j. j < n \<and> slot_used s' p j \<noteq> 0} = {0}" if "0 < n" using that by (auto simp: s')
  have okp: "page_ok s' p"
    using i l(1,2,4) one assms(2) page_level_range(1) [OF l(1)]
    by (simp add: page_ok_def page_good_def pd s' h_def p_def n_def split del: if_split)
      (simp add: if_split)
  have len: "slot_len h = (if sz < 4048 then sz else sz - 32)"
    by (simp add: slot_len_def h_def n_def div_eq_0_iff) 
  have plive: "page_live s' p = {(a, if sz < 4048 then sz else sz - 32)}"
    using t0 len by (simp add: page_live_def slot_addr_def s' h_def a)
  have "chain (\<lambda>a. ph_next (header s' a)) (pool s') (p # ps)"
  proof -
    have "chain (\<lambda>a. ph_next (header s a)) (pool s) ps" by (rule pool_invD(1) [OF inv])
    moreover have "(\<lambda>a. ph_next (header s' a)) = (\<lambda>a. ph_next (header s a))(p := pool s)"
      by (auto simp: s' h_def)
    ultimately show ?thesis using notin by (simp add: s')
  qed
  then have inv': "pool_inv s' (p # ps)"
    using l(6) okp old(1) by (auto simp: pool_inv_def s')
  have "live s' (p # ps) = insert (a, if sz < 4048 then sz else sz - 32) (live s ps)"
    using live_same [OF old(2)] plive by (simp add: live_pages)
  then show thesis using that inv' notin a by (simp add: n_def)
qed

lemma take_slot_inv:
  assumes inv: "pool_inv s ps" and c: "c \<in> set ps" and i: "i < ph_total (header s c)"
    and u: "slot_used s c i = 0"
  shows "pool_inv (take_slot c i s) ps"
    and "live (take_slot c i s) ps = insert (slot_addr (header s c) c i, ph_size (header s c)) (live s ps)"
proof -
  let ?s = "take_slot c i s"
  note okc = pool_invD(3) [OF inv c]
  have f: "pages ?s = pages s" "pool ?s = pool s" "ph_next (header ?s a) = ph_next (header s a)" for a
    by (simp_all add: take_slot_def set_slot_def set_header_def)
  show "pool_inv ?s ps"
    using inv take_slot_page_ok [OF okc i u] by (simp add: pool_inv_def f)
  have o: "page_live ?s q = page_live s q" if "q \<noteq> c" for q
    by (rule page_live_cong) (use that in \<open>simp_all add: take_slot_def set_slot_def set_header_def\<close>)
  have h: "header ?s c = (header s c)\<lparr>ph_used := ph_used (header s c) + 1\<rparr>"
    "slot_used ?s c = (slot_used s c)(i := 1)"
    by (simp_all add: take_slot_def set_slot_def set_header_def)
  have "slot_taken ?s c j \<longleftrightarrow> j = i \<or> slot_taken s c j" for j
    using i by (auto simp: slot_taken_def h)
  moreover have "slot_addr (header ?s c) c j = slot_addr (header s c) c j" for j
    by (simp add: slot_addr_def h)
  moreover have "slot_len (header ?s c) = ph_size (header s c)" "slot_len (header s c) = ph_size (header s c)"
    using i by (simp_all add: slot_len_def h)
  ultimately have "page_live ?s c = insert (slot_addr (header s c) c i, ph_size (header s c)) (page_live s c)"
    by (auto simp: page_live_def)
  then show "live ?s ps = insert (slot_addr (header s c) c i, ph_size (header s c)) (live s ps)"
    using c o by (intro live_insert)
qed

lemma slot_addr_inj:
  assumes "page_ok s c" and "slot_addr (header s c) c i = slot_addr (header s c) c j"
  shows "i = j"
  using assms(2) page_okD(6) [OF assms(1)] by (simp add: slot_addr_def)

lemma fresh_slot:
  assumes inv: "pool_inv s ps" and c: "c \<in> set ps" and i: "i < ph_total (header s c)"
    and u: "slot_used s c i = 0" and x: "(slot_addr (header s c) c i, n) \<in> live s ps"
  shows False
proof -
  have inv': "pool_inv (take_slot c i s) ps" by (rule take_slot_inv(1) [OF inv c i u])
  obtain q j where q: "q \<in> set ps" "slot_taken s q j"
    "slot_addr (header s c) c i = slot_addr (header s q) q j" using x by (auto simp: live_def)
  note okc = pool_invD(3) [OF inv c] and okq = pool_invD(3) [OF inv q(1)]
  have t: "slot_taken (take_slot c i s) c i"
    using i by (simp add: slot_taken_def take_slot_def set_slot_def set_header_def)
  have "slot_addr (header (take_slot c i s) c) c i = slot_addr (header s c) c i"
    by (simp add: slot_addr_def take_slot_def set_slot_def set_header_def)
  then have "c = q"
    using slot_page(1) [OF pool_invD(3) [OF inv' c] t] slot_page(1) [OF okq q(2)] q(3) by simp
  then have "i = j" using slot_addr_inj [OF okc] q(3) by simp
  then show False using q(2) \<open>c = q\<close> u i by (auto simp: slot_taken_def split: if_splits)
qed

lemma malloc_run:
  assumes inv: "pool_inv s ps" and "request \<le> 2 ^ 17" and "length ps < fuel"
    and run: "malloc pfuel fuel request s = Inr (a, s')"
  shows "\<exists>n ps'. request \<le> n \<and> pool_inv s' ps' \<and> live s' ps' = insert (a, n) (live s ps) \<and>
    (\<forall>m. (a, m) \<notin> live s ps)"
proof -
  obtain sz where sz: "slot_size request = Inr sz" "8 \<le> sz" "sz \<le> 2 ^ 18"
    "request \<le> sz \<and> sz \<le> 2048 \<or> 8192 \<le> sz \<and> 2 * request \<le> sz"
    using slot_size_fits [OF assms(2)] .
  have rs: "request \<le> sz" using sz(4) by linarith
  note sp = search_pool_run [OF pool_invD(1) [OF inv] pool_invD(3) [OF inv] assms(3), of sz]
  from sp show ?thesis
  proof
    assume none: "search_pool fuel sz (pool s) s = Inr (None, s)"
    then have "open_page pfuel sz s = Inr (a, s')" using run sz(1) by (simp add: malloc_def)
    then obtain p where p: "pool_inv s' (p # ps)" "p \<notin> set ps"
      "live s' (p # ps) = insert (a, if sz < 4048 then sz else sz - 32) (live s ps)"
      "a = p + 32 + int (aling8 (4048 div (sz + 1)))"
      by (rule open_page_run [OF inv sz(2,3)])
    define n where "n = (if sz < 4048 then sz else sz - 32)"
    have new: "(a, m) \<notin> live s ps" for m
    proof
      assume x: "(a, m) \<in> live s ps"
      then obtain q j where q: "q \<in> set ps" "slot_taken s q j" "a = slot_addr (header s q) q j"
        by (auto simp: live_def)
      have okp: "page_ok s' p" using pool_invD(3) [OF p(1)] by simp
      have a1: "a - a mod 4096 = q" using slot_page(1) [OF pool_invD(3) [OF inv q(1)] q(2)] q(3) by simp
      have "0 \<le> a - p" "a - p < 4096"
      proof -
        have "4048 div (sz + 1) \<le> 4048 div 9" using sz(2) by (intro div_le_mono2) simp_all
        then have "aling8 (4048 div (sz + 1)) \<le> 456" using aling8_le [of "4048 div (sz + 1)"] by simp
        then have "int (aling8 (4048 div (sz + 1))) \<le> 456" by simp
        then show "0 \<le> a - p" "a - p < 4096" using p(4) by simp_all
      qed
      then have "a mod 4096 = a - p" by (intro mod_page [OF page_okD(2) [OF okp]])
      then show False using a1 p(2) q(1) by simp
    qed
    have "request \<le> n" using sz(4) by (auto simp: n_def)
    then show ?thesis using p(1,3) new unfolding n_def by blast
  next
    assume "\<exists>c i. c \<in> set ps \<and> sz \<le> ph_size (header s c) \<and> i < ph_total (header s c) \<and>
      slot_used s c i = 0 \<and>
      search_pool fuel sz (pool s) s = Inr (Some (slot_addr (header s c) c i), take_slot c i s)"
    then obtain c i where c: "c \<in> set ps" "sz \<le> ph_size (header s c)" "i < ph_total (header s c)"
      "slot_used s c i = 0"
      "search_pool fuel sz (pool s) s = Inr (Some (slot_addr (header s c) c i), take_slot c i s)"
      by blast
    have r: "a = slot_addr (header s c) c i" "s' = take_slot c i s"
      using run sz(1) c(5) by (simp_all add: malloc_def)
    have "request \<le> ph_size (header s c)" using rs c(2) by simp
    then show ?thesis
      using take_slot_inv [OF inv c(1,3,4)] fresh_slot [OF inv c(1,3,4)] unfolding r by blast
  qed
qed

section \<open>Release to the pools\<close>

text \<open>A slot is given back to a page with other slots in use.\<close>

definition drop_slot :: "addr \<Rightarrow> nat \<Rightarrow> pool_state \<Rightarrow> pool_state" where
  "drop_slot p i s =
     set_slot p i 0 (set_header p ((header s p)\<lparr>ph_used := ph_used (header s p) - 1\<rparr>) s)"

lemma ph_used_le:
  assumes "page_ok s p"
  shows "ph_used (header s p) \<le> 4048"
proof (cases "ph_total (header s p) = 0")
  case True
  then show ?thesis using page_okD(10) [OF assms] by simp
next
  case False
  have "{i. i < ph_total (header s p) \<and> slot_used s p i \<noteq> 0} \<subseteq> {..<ph_total (header s p)}" by auto
  then have "card {i. i < ph_total (header s p) \<and> slot_used s p i \<noteq> 0} \<le> ph_total (header s p)"
    using card_mono [of "{..<ph_total (header s p)}"] by simp
  moreover have "ph_total (header s p) \<le> 4048" by (simp add: page_okD(7) [OF assms])
  ultimately show ?thesis using page_okD(9) [OF assms] False by simp
qed

lemma drop_slot_inv:
  assumes inv: "pool_inv s ps" and p: "p \<in> set ps" and t: "slot_taken s p i"
    and n1: "ph_used (header s p) \<noteq> 1"
  shows "pool_inv (drop_slot p i s) ps"
    and "live (drop_slot p i s) ps =
      live s ps - {(slot_addr (header s p) p i, slot_len (header s p))}"
proof -
  let ?s = "drop_slot p i s"
  note okp = pool_invD(3) [OF inv p]
  have tot: "ph_total (header s p) \<noteq> 0" using n1 page_okD(10) [OF okp] by blast
  have i: "i < ph_total (header s p)" "slot_used s p i \<noteq> 0" using t tot by (simp_all add: slot_taken_def)
  have f: "pages ?s = pages s" "pool ?s = pool s" "ph_next (header ?s a) = ph_next (header s a)" for a
    by (simp_all add: drop_slot_def set_slot_def set_header_def)
  have h: "header ?s p = (header s p)\<lparr>ph_used := ph_used (header s p) - 1\<rparr>"
    "slot_used ?s p = (slot_used s p)(i := 0)"
    by (simp_all add: drop_slot_def set_slot_def set_header_def)
  let ?U = "{j. j < ph_total (header s p) \<and> slot_used s p j \<noteq> 0}"
  have "{j. j < ph_total (header s p) \<and> slot_used ?s p j \<noteq> 0} = ?U - {i}"
    by (auto simp: h)
  moreover have "card (?U - {i}) = card ?U - 1" using i by simp
  moreover have uc: "ph_used (header s p) = card ?U" using page_okD(9) [OF okp] tot by simp
  moreover have "1 \<le> card ?U - 1" using page_okD(8) [OF okp] n1 uc by linarith
  ultimately have "page_ok ?s p"
    using okp tot n1 f(1) unfolding page_ok_def page_good_def h by simp
  moreover have "page_ok ?s q" if "q \<in> set ps" "q \<noteq> p" for q
    using page_ok_cong [of ?s q s] pool_invD(3) [OF inv that(1)] that(2)
    by (simp add: drop_slot_def set_slot_def set_header_def)
  ultimately show "pool_inv ?s ps" using inv by (auto simp: pool_inv_def f)
  have o: "page_live ?s q = page_live s q" if "q \<noteq> p" for q
    by (rule page_live_cong) (use that in \<open>simp_all add: drop_slot_def set_slot_def set_header_def\<close>)
  let ?x = "(slot_addr (header s p) p i, slot_len (header s p))"
  have st: "slot_taken ?s p j \<longleftrightarrow> j \<noteq> i \<and> slot_taken s p j" for j
    using tot by (auto simp: slot_taken_def h)
  have sa: "slot_addr (header ?s p) p j = slot_addr (header s p) p j"
    "slot_len (header ?s p) = slot_len (header s p)" for j
    by (simp_all add: slot_addr_def slot_len_def h)
  have lp: "page_live ?s p = page_live s p - {?x}"
    unfolding page_live_def st sa using slot_addr_inj [OF okp] by blast
  have other: "?x \<notin> page_live s q" if "q \<in> set ps" "q \<noteq> p" for q
  proof
    assume "?x \<in> page_live s q"
    then obtain j where j: "slot_taken s q j" "slot_addr (header s p) p i = slot_addr (header s q) q j"
      by (auto simp: page_live_def)
    then show False
      using slot_page(1) [OF okp t] slot_page(1) [OF pool_invD(3) [OF inv that(1)] j(1)] that(2) by simp
  qed
  have "y \<in> page_live ?s q \<longleftrightarrow> y \<in> page_live s q \<and> y \<noteq> ?x" if "q \<in> set ps" for y q
    using lp o [of q] other [OF that] by (cases "q = p") auto
  then show "live ?s ps = live s ps - {?x}" by (auto simp: live_pages)
qed

text \<open>The page's last slot is given back: the page leaves the list and returns to the allocator.\<close>

lemma find_pred_run:
  assumes "path (\<lambda>a. ph_next (header s a)) cur (qs @ [p]) r" and "p \<notin> set qs" and "length qs < fuel"
  shows "find_pred fuel p pre cur s = Inr (if qs = [] then pre else Some (last qs))"
  using assms
proof (induction qs arbitrary: cur pre fuel)
  case Nil
  then obtain f where "fuel = Suc f" by (cases fuel) auto
  then show ?case using Nil by simp
next
  case (Cons q qs)
  obtain f where f: "fuel = Suc f" using Cons.prems(3) by (cases fuel) auto
  have c: "cur = Some q" "path (\<lambda>a. ph_next (header s a)) (ph_next (header s q)) (qs @ [p]) r"
    using Cons.prems(1) by simp_all
  have "find_pred fuel p pre cur s = find_pred f p (Some q) (ph_next (header s q)) s"
    using c(1) f Cons.prems(2) by simp
  also have "\<dots> = Inr (if qs = [] then Some q else Some (last qs))"
    by (rule Cons.IH [OF c(2)]) (use Cons.prems f in simp_all)
  finally show ?case by simp
qed

text \<open>The block of pages that begins with page \<open>i\<close> has returned to the free blocks, merged with its buddies.\<close>

definition block_returned :: "int \<Rightarrow> page_state \<Rightarrow> page_state \<Rightarrow> bool" where
  "block_returned i s s' \<longleftrightarrow>
     free_pages (frame s') = free_pages (frame s) \<union> {i..<i + 2 ^ nat (fi_index (frame s i))} \<and>
     merged_at (frame s') i \<and> others_kept i (frame s) (frame s')"

lemma remove_page_run:
  assumes inv: "pool_inv s ps" and p: "p \<in> set ps" and "length ps < fuel" and "17 \<le> pfuel"
    and lb: "p div 4096 < last_block"
  shows "\<exists>s'. remove_page pfuel fuel p s = Inr s' \<and> pool_inv s' (remove1 p ps) \<and>
    (\<forall>q \<in> set (remove1 p ps). page_live s' q = page_live s q) \<and>
    block_returned (p div 4096) (pages s) (pages s')"
proof -
  let ?nx = "\<lambda>a. ph_next (header s a)"
  note okp = pool_invD(3) [OF inv p]
  obtain L where L: "page_inv (pages s) L" using pool_invD(2) [OF inv] by blast
  obtain xs ys where ps: "ps = xs @ p # ys" and px: "p \<notin> set xs" using p by (meson split_list_first)
  have ch: "chain ?nx (pool s) (xs @ p # ys)" using pool_invD(1) [OF inv] ps by simp
  then have d: "distinct (xs @ p # ys)" by (rule chain_distinct)
  have rm: "remove1 p ps = xs @ ys" using ps px by (simp add: remove1_append)
  obtain r where "path ?nx (pool s) (xs @ [p]) r" using ch by (auto simp: chain_append path_append)
  then have fp: "find_pred fuel p None (pool s) s = Inr (if xs = [] then None else Some (last xs))"
    using find_pred_run [OF _ px] assms(3) ps by simp
  have pM: "p div 4096 < PAGE_MAX_ENTRY" "0 \<le> p"
    using page_okD(1,3) [OF okp] by (simp_all add: block_head_def)
  have "nat p div 4096 = nat (p div 4096)" using pM(2) by (simp add: nat_div_distrib)
  moreover have "c_int (nat (p div 4096)) = p div 4096"
    using pM by (subst c_int_small) (simp_all add: PAGE_MAX_ENTRY_def pos_imp_zdiv_nonneg_iff nat_less_iff)
  ultimately have ci: "c_int (nat p div 0x1000) = p div 4096" by simp
  obtain s2 L2 where s2: "page_free pfuel (p div 4096) (pages s) = Inr s2" "page_inv s2 L2"
    "others_kept (p div 4096) (frame (pages s)) (frame s2)" "block_returned (p div 4096) (pages s) s2"
    using page_free_run [OF L page_okD(3,4) [OF okp] lb assms(4)] unfolding block_returned_def by blast
  define s1 where "s1 = (if xs = [] then s\<lparr>pool := ph_next (header s p)\<rparr>
      else set_header (last xs) ((header s (last xs))\<lparr>ph_next := ph_next (header s p)\<rparr>) s)"
  define s' where "s' = s1\<lparr>pages := s2\<rparr>"
  have run: "remove_page pfuel fuel p s = Inr s'"
    using fp s2(1) by (simp add: remove_page_def ci s'_def s1_def Let_def set_header_def)
  have nx: "chain (\<lambda>a. ph_next (header s' a)) (pool s') (xs @ ys)"
  proof (cases "xs = []")
    case True
    then show ?thesis using ch by (simp add: s'_def s1_def)
  next
    case False
    have "chain (?nx(last xs := ?nx p)) (pool s) (xs @ ys)" by (rule chain_delete [OF ch False])
    moreover have "(\<lambda>a. ph_next (header s' a)) = ?nx(last xs := ?nx p)"
      using False by (auto simp: s'_def s1_def set_header_def)
    ultimately show ?thesis using False by (simp add: s'_def s1_def set_header_def)
  qed
  have h: "ph_size (header s' q) = ph_size (header s q)" "ph_total (header s' q) = ph_total (header s q)"
    "ph_used (header s' q) = ph_used (header s q)" "slot_used s' q = slot_used s q" for q
    by (simp_all add: s'_def s1_def set_header_def)
  have "page_ok s' q" if q: "q \<in> set (xs @ ys)" for q
  proof -
    have okq: "page_ok s q" by (rule pool_invD(3) [OF inv]) (use q ps in auto)
    have "q \<noteq> p" using q d by auto
    moreover obtain k where "p = 4096 * k" using page_okD(2) [OF okp] by auto
    moreover obtain k' where "q = 4096 * k'" using page_okD(2) [OF okq] by auto
    ultimately have "q div 4096 \<noteq> p div 4096" by simp
    then have "frame s2 (q div 4096) = frame (pages s) (q div 4096)"
      using s2(3) page_okD(3,4) [OF okq] unfolding others_kept_def by blast
    then have f: "frame (pages s') (q div 4096) = frame (pages s) (q div 4096)" by (simp add: s'_def)
    show ?thesis using okq unfolding page_ok_def page_good_def h f .
  qed
  moreover have "\<exists>L. page_inv (pages s') L" using s2(2) by (auto simp: s'_def)
  ultimately have "pool_inv s' (xs @ ys)" using nx by (simp add: pool_inv_def)
  moreover have "page_live s' q = page_live s q" for q
    by (simp add: page_live_def slot_addr_def slot_len_def slot_taken_def h)
  moreover have "block_returned (p div 4096) (pages s) (pages s')" using s2(4) by (simp add: s'_def)
  ultimately show ?thesis using run rm by auto
qed

lemma union_minus:
  assumes "f p = {x}" and "p \<in> A" and "\<And>q. q \<in> A \<Longrightarrow> q \<noteq> p \<Longrightarrow> x \<notin> f q"
  shows "(\<Union>q \<in> A - {p}. f q) = (\<Union>q \<in> A. f q) - {x}"
  using assms by blast

text \<open>A page holds one block exactly when its header counts one.\<close>

lemma only_block:
  assumes inv: "pool_inv s ps" and p: "p \<in> set ps" and t: "slot_taken s p i"
    and a: "a = slot_addr (header s p) p i" and n: "n = slot_len (header s p)"
  shows "ph_used (header s p) = 1 \<longleftrightarrow> page_live s p = {(a, n)}"
proof -
  note okp = pool_invD(3) [OF inv p]
  have mem: "x \<in> page_live s p \<longleftrightarrow> (\<exists>j. slot_taken s p j \<and> x = (slot_addr (header s p) p j, n))" for x
    by (auto simp: page_live_def n)
  have inj: "slot_addr (header s p) p j = a \<longleftrightarrow> j = i" for j using slot_addr_inj [OF okp] unfolding a by blast
  have "page_live s p = {(a, n)} \<longleftrightarrow> (\<forall>j. slot_taken s p j \<longrightarrow> j = i)"
  proof
    assume "page_live s p = {(a, n)}"
    then show "\<forall>j. slot_taken s p j \<longrightarrow> j = i" using mem inj by (metis prod.inject singletonD)
  next
    assume "\<forall>j. slot_taken s p j \<longrightarrow> j = i"
    then have "x \<in> page_live s p \<longleftrightarrow> x = (a, n)" for x using mem [of x] t a by metis
    then show "page_live s p = {(a, n)}" by blast
  qed
  also have "\<dots> \<longleftrightarrow> ph_used (header s p) = 1"
  proof (cases "ph_total (header s p) = 0")
    case True
    then show ?thesis using page_okD(10) [OF okp] t by (auto simp: slot_taken_def)
  next
    case False
    define U where "U = {j. j < ph_total (header s p) \<and> slot_used s p j \<noteq> 0}"
    have taken: "slot_taken s p j \<longleftrightarrow> j \<in> U" for j using False by (simp add: slot_taken_def U_def)
    have used: "ph_used (header s p) = card U" using page_okD(9) [OF okp] False by (simp add: U_def)
    have i: "i \<in> U" using t taken by blast
    have "card U = 1 \<longleftrightarrow> U = {i}"
    proof
      assume "card U = 1"
      then obtain x where "U = {x}" by (rule card_1_singletonE)
      then show "U = {i}" using i by simp
    qed simp
    moreover have "(\<forall>j. slot_taken s p j \<longrightarrow> j = i) \<longleftrightarrow> U = {i}" unfolding taken using i by blast
    ultimately show ?thesis using used by simp
  qed
  finally show ?thesis by simp
qed

text \<open>\<open>lone_block s ps a\<close>: no other block in use lies in the page of \<open>a\<close>.\<close>

definition lone_block :: "pool_state \<Rightarrow> addr list \<Rightarrow> addr \<Rightarrow> bool" where
  "lone_block s ps a \<longleftrightarrow> (\<forall>(b, m) \<in> live s ps. b div 4096 = a div 4096 \<longrightarrow> b = a)"

lemma slot_in_same_page:
  assumes "pool_inv s ps" and "p \<in> set ps" and "slot_taken s p i"
  shows "p = 4096 * (slot_addr (header s p) p i div 4096)"
  using slot_page(1) [OF pool_invD(3) [OF assms(1,2)] assms(3)] by (simp add: minus_mod_eq_mult_div)

lemma lone_block_page:
  assumes inv: "pool_inv s ps" and p: "p \<in> set ps" and t: "slot_taken s p i"
    and a: "a = slot_addr (header s p) p i" and n: "n = slot_len (header s p)"
  shows "lone_block s ps a \<longleftrightarrow> ph_used (header s p) = 1"
proof -
  have pa: "p = 4096 * (a div 4096)" using slot_in_same_page [OF inv p t] a by simp
  have here: "(a, n) \<in> page_live s p" using t by (auto simp: page_live_def a n)
  have "(b, m) \<in> live s ps \<and> b div 4096 = a div 4096 \<longleftrightarrow> (b, m) \<in> page_live s p" for b m
  proof
    assume l: "(b, m) \<in> live s ps \<and> b div 4096 = a div 4096"
    then obtain q j where q: "q \<in> set ps" "slot_taken s q j" "b = slot_addr (header s q) q j" "(b, m) \<in> page_live s q"
      by (auto simp: live_pages page_live_def)
    then have "q = p" using slot_in_same_page [OF inv q(1,2)] l pa by simp
    then show "(b, m) \<in> page_live s p" using q(4) by simp
  next
    assume l: "(b, m) \<in> page_live s p"
    then obtain j where j: "slot_taken s p j" "b = slot_addr (header s p) p j" by (auto simp: page_live_def)
    then have "4096 * (b div 4096) = 4096 * (a div 4096)" using slot_in_same_page [OF inv p j(1)] pa by simp
    then show "(b, m) \<in> live s ps \<and> b div 4096 = a div 4096" using l p by (auto simp: live_pages)
  qed
  then have "lone_block s ps a \<longleftrightarrow> (\<forall>(b, m) \<in> page_live s p. b = a)" unfolding lone_block_def by blast
  also have "\<dots> \<longleftrightarrow> page_live s p = {(a, n)}" using here by (auto simp: page_live_def n)
  finally show ?thesis using only_block [OF inv p t a n] by simp
qed

lemma free_run_pages:
  assumes inv: "pool_inv s ps" and l: "(a, n) \<in> live s ps" and "length ps < fuel" and "17 \<le> pfuel"
    and lb: "a div 4096 < last_block"
  shows "\<exists>s' ps'. free pfuel fuel a s = Inr s' \<and> pool_inv s' ps' \<and> live s' ps' = live s ps - {(a, n)} \<and>
    (if lone_block s ps a then ps' = remove1 (a - a mod 4096) ps \<and> block_returned (a div 4096) (pages s) (pages s')
     else ps' = ps \<and> pages s' = pages s)"
proof -
  obtain p i where p: "p \<in> set ps" "slot_taken s p i" "a = slot_addr (header s p) p i"
    "n = slot_len (header s p)" using l by (auto simp: live_def)
  note okp = pool_invD(3) [OF inv p(1)] and lone = lone_block_page [OF inv p]
  note sp = slot_page [OF okp p(2), folded p(3)]
  have pd: "p div 4096 = a div 4096" using slot_in_same_page [OF inv p(1,2)] p(3) by simp
  show ?thesis
  proof (cases "ph_used (header s p) = 1")
    case False
    have "1 \<le> ph_used (header s p)" "ph_used (header s p) \<le> 4048"
      using page_okD(8) [OF okp] ph_used_le [OF okp] by simp_all
    then have "u64 (int (ph_used (header s p)) - 1) = ph_used (header s p) - 1"
      by (simp add: u64_small nat_diff_distrib')
    then have "free pfuel fuel a s = Inr (drop_slot p i s)"
      using sp False by (simp add: free_def Let_def drop_slot_def)
    moreover have "pages (drop_slot p i s) = pages s" by (simp add: drop_slot_def set_slot_def set_header_def)
    ultimately show ?thesis using drop_slot_inv [OF inv p(1,2) False] p(3,4) lone False
      by (intro exI [of _ "drop_slot p i s"] exI [of _ ps]) simp
  next
    case True
    then have "free pfuel fuel a s = remove_page pfuel fuel p s" using sp(1) by (simp add: free_def Let_def)
    moreover obtain s' where s': "remove_page pfuel fuel p s = Inr s'" "pool_inv s' (remove1 p ps)"
      "\<forall>q \<in> set (remove1 p ps). page_live s' q = page_live s q" "block_returned (a div 4096) (pages s) (pages s')"
      using remove_page_run [OF inv p(1) assms(3,4)] lb pd by auto
    moreover have "live s' (remove1 p ps) = live s ps - {(a, n)}"
    proof -
      have only: "page_live s p = {(a, n)}" using only_block [OF inv p] True by simp
      have dp: "distinct ps" using chain_distinct [OF pool_invD(1) [OF inv]] .
      have none: "(a, n) \<notin> page_live s q" if "q \<in> set ps" "q \<noteq> p" for q
      proof
        assume "(a, n) \<in> page_live s q"
        then obtain j where "slot_taken s q j" "a = slot_addr (header s q) q j" by (auto simp: page_live_def)
        then show False using slot_page(1) [OF pool_invD(3) [OF inv that(1)]] sp(1) that(2) by metis
      qed
      have "live s' (remove1 p ps) = (\<Union>q \<in> set ps - {p}. page_live s q)"
        using s'(3) dp by (simp add: live_pages set_remove1_eq)
      also have "\<dots> = live s ps - {(a, n)}"
        unfolding live_pages by (rule union_minus [of "page_live s", OF only p(1) none])
      finally show ?thesis .
    qed
    ultimately show ?thesis using lone True sp(1) by (intro exI [of _ s'] exI [of _ "remove1 p ps"] conjI) simp_all
  qed
qed

lemma free_run:
  assumes "pool_inv s ps" and "(a, n) \<in> live s ps" and "length ps < fuel" and "17 \<le> pfuel" and "a div 4096 < last_block"
  shows "\<exists>s' ps'. free pfuel fuel a s = Inr s' \<and> pool_inv s' ps' \<and> live s' ps' = live s ps - {(a, n)}"
  using free_run_pages [OF assms] by blast

end
