(* ===== verification/PoolClaims.thy ===== *)
theory PoolClaims
  imports PoolProps
begin

text \<open>
  The properties of the memory pools, with a concrete state: the boot frames with block 0 split
  down to order 1 and its first block reserved, so that there is a free block of every order from
  1 to 16, and no pool page yet.
\<close>

section \<open>A concrete state\<close>

definition small_frames :: "int \<Rightarrow> frame_info" where
  "small_frames = take_frames PAGE_RESERVED 0 1 ((split_frames 0 ^^ 15) boot_frames)"

definition small_start :: page_state where
  "small_start = boot_state\<lparr>page_list := \<lambda>_. None, frame := small_frames\<rparr>"

definition small_state :: page_state where
  "small_state = (case enlist_loop 0 PAGE_MAX_ENTRY small_start of Inr s \<Rightarrow> s | Inl _ \<Rightarrow> small_start)"

definition empty_pool :: pool_state where
  "empty_pool = \<lparr>pages = small_state, pool = None,
     header = \<lambda>_. \<lparr>ph_size = 0, ph_total = 0, ph_used = 0, ph_next = None\<rparr>, slot_used = \<lambda>_ _. 0\<rparr>"

lemma boot_free_head:
  "free_head boot_frames k j \<longleftrightarrow> j \<in> {0, 65536, 131072, 196608, 229376} \<and> k = boot_index j"
  unfolding free_head_def by (subst boot_block_head) (auto simp: boot_frames_def)

lemma split_boot:
  assumes "n \<le> 16"
  shows "reservable ((split_frames 0 ^^ n) boot_frames) \<and>
    (\<forall>k j. free_head ((split_frames 0 ^^ n) boot_frames) k j \<longleftrightarrow>
       j = 0 \<and> k = 16 - int n \<or> (\<exists>m. 16 - n \<le> m \<and> m < 16 \<and> j = 2 ^ m \<and> k = int m) \<or>
       j \<in> {65536, 131072, 196608, 229376} \<and> k = boot_index j)"
  using assms
proof (induction n)
  case 0
  then show ?case using boot_reservable boot_free_head by (auto simp: boot_index_def)
next
  case (Suc n)
  let ?f = "(split_frames 0 ^^ n) boot_frames"
  define l where "l = 16 - int n"
  have l1: "1 \<le> l" using Suc.prems by (simp add: l_def)
  have r: "reservable ?f" and fh: "free_head ?f k j \<longleftrightarrow>
       j = 0 \<and> k = l \<or> (\<exists>m. 16 - n \<le> m \<and> m < 16 \<and> j = 2 ^ m \<and> k = int m) \<or>
       j \<in> {65536, 131072, 196608, 229376} \<and> k = boot_index j" for k j
    using Suc unfolding l_def by auto
  have f0: "free_head ?f l 0" using fh by simp
  have h: "nat (l - 1) = 15 - n" using Suc.prems by (simp add: l_def)
  have sp: "free_head (split_frames 0 ?f) k j \<longleftrightarrow>
      (if j = 0 \<or> j = 2 ^ (15 - n) then k = l - 1 else free_head ?f k j)" for k j
    using split_free_head [OF reservableD(1) [OF r] f0 l1, of k j] h by simp
  have big: "(2::int) ^ (15 - n) < 65536"
    using power_strict_increasing [of "15 - n" 16 "2::int"] by simp
  have "free_head (split_frames 0 ?f) k j \<longleftrightarrow>
       j = 0 \<and> k = l - 1 \<or> (\<exists>m. 15 - n \<le> m \<and> m < 16 \<and> j = 2 ^ m \<and> k = int m) \<or>
       j \<in> {65536, 131072, 196608, 229376} \<and> k = boot_index j" for k j
  proof -
    have ex: "(\<exists>m. 15 - n \<le> m \<and> m < 16 \<and> j = 2 ^ m \<and> k = int m) \<longleftrightarrow>
        j = 2 ^ (15 - n) \<and> k = l - 1 \<or> (\<exists>m. 16 - n \<le> m \<and> m < 16 \<and> j = 2 ^ m \<and> k = int m)"
    proof -
      have "15 - n \<le> m \<and> m < 16 \<longleftrightarrow> m = 15 - n \<or> 16 - n \<le> m \<and> m < 16" for m
        using Suc.prems by auto
      moreover have "int (15 - n) = l - 1" using Suc.prems by (simp add: l_def)
      ultimately show ?thesis by metis
    qed
    have no: "j = 2 ^ (15 - n) \<Longrightarrow> \<not> (\<exists>m. 16 - n \<le> m \<and> m < 16 \<and> j = 2 ^ m \<and> k = int m)"
    proof
      assume j: "j = 2 ^ (15 - n)" and "\<exists>m. 16 - n \<le> m \<and> m < 16 \<and> j = 2 ^ m \<and> k = int m"
      then obtain m where m: "16 - n \<le> m" "j = 2 ^ m" by blast
      have "15 - n < m" using m(1) Suc.prems by simp
      then have "(2::int) ^ (15 - n) < 2 ^ m" by simp
      then show False using j m(2) by simp
    qed
    show ?thesis
      unfolding sp ex fh using no big by auto
  qed
  moreover have "reservable (split_frames 0 ?f)" by (rule split_reservable [OF r f0 l1])
  moreover have "16 - int (Suc n) = l - 1" "16 - Suc n = 15 - n" by (simp_all add: l_def)
  ultimately show ?case by (simp only: funpow.simps o_apply) simp
qed

lemma small_frames_facts:
  shows "reservable small_frames" and "block_head small_frames 0"
    and "free_head small_frames k j \<longleftrightarrow>
       (\<exists>m. 1 \<le> m \<and> m < 16 \<and> j = 2 ^ m \<and> k = int m) \<or>
       j \<in> {65536, 131072, 196608, 229376} \<and> k = boot_index j"
proof -
  let ?f = "(split_frames 0 ^^ 15) boot_frames"
  note sb = split_boot [of 15, simplified]
  have r: "reservable ?f" and f0: "free_head ?f 1 0" using sb by simp_all
  note til = reservableD(1) [OF r]
  show "reservable small_frames"
    unfolding small_frames_def by (rule take_reservable [OF r f0 page_marks(2)])
  show "block_head small_frames 0"
    using take_block_head [OF til f0 page_marks(2), of 0] f0 by (simp add: small_frames_def free_head_def)
  show "free_head small_frames k j \<longleftrightarrow>
       (\<exists>m. 1 \<le> m \<and> m < 16 \<and> j = 2 ^ m \<and> k = int m) \<or>
       j \<in> {65536, 131072, 196608, 229376} \<and> k = boot_index j"
    unfolding small_frames_def take_free_head [OF til f0 page_marks(2)] using sb by auto
qed

lemma small_state_inv:
  obtains L where "page_inv small_state L" and "L 0 = []" and "L 1 = [2]" and "L 6 = [64]"
proof -
  note sf = small_frames_facts
  have t: "tiling (frame small_start)" "block_head (frame small_start) 0"
    using reservableD(1) [OF sf(1)] sf(2) by (simp_all add: small_start_def)
  have "lists_rep small_start (\<lambda>_. [])" by (rule lists_repI) (simp_all add: small_start_def)
  moreover have "tails_ok small_start (\<lambda>_. [])" by (rule tails_okI) simp
  ultimately have "enlisted 0 small_start (\<lambda>_. [])" by (auto simp: enlisted_def free_head_def block_head_def)
  then obtain s' L where s': "enlist_loop 0 PAGE_MAX_ENTRY small_start = Inr s'"
    "frame s' = frame small_start" "page_inv s' L"
    using enlist_loop_run [OF t(1), of 0 "\<lambda>_. []" PAGE_MAX_ENTRY] t(2)
    by (auto simp: PAGE_MAX_ENTRY_def)
  have st: "small_state = s'" using s'(1) by (simp add: small_state_def)
  have mem: "j \<in> set (L k) \<longleftrightarrow> free_head small_frames k j" for j k
    using page_invD(3) [OF s'(3)] s'(2) by (simp add: small_start_def)
  have one: "L k = [j]" if "set (L k) = {j}" for k j
    using that lists_rep_distinct [OF page_invD(2) [OF s'(3)], of k]
    by (cases "L k") (auto simp: subset_singleton_iff)
  have bi: "boot_index j \<in> {14, 15, 16}" if "j \<in> {65536, 131072, 196608, 229376}" for j
    using that by (auto simp: boot_index_def)
  have "set (L k) = (if 1 \<le> k \<and> k \<le> 6 then {2 ^ nat k} else {})" if "k \<le> 6" for k
  proof -
    have "free_head small_frames k j \<longleftrightarrow> 1 \<le> k \<and> j = 2 ^ nat k" for j
      unfolding sf(3) using that bi [of j] by (auto intro!: exI [of _ "nat k"])
    then show ?thesis using that by (intro set_eqI) (simp add: mem)
  qed
  then have "set (L 0) = {}" "set (L 1) = {2}" "set (L 6) = {64}" by simp_all
  then show thesis using that [of L] s'(3) st one by simp
qed

lemma empty_pool_inv: "pool_inv empty_pool []"
  using small_state_inv by (auto simp: pool_inv_def empty_pool_def)

lemma empty_pool_live: "live empty_pool [] = {}"
  by (simp add: live_def)

text \<open>The first page that the small state hands out is page 3, the upper half of block 2.\<close>

lemma small_allocate:
  assumes "page_level sz = Inr 0"
  obtains ps where "page_allocate 6 sz small_state = Inr (3, ps)"
proof -
  obtain L where L: "page_inv small_state L" "L 0 = []" "L 1 = [2]"
    using small_state_inv by blast
  have ad: "adivide 6 1 L = Some (asplit 1 2 [] L)" using L(3) by (simp add: numeral_eq_Suc)
  obtain s1 where s1: "page_divide 6 1 small_state = Inr s1" "page_inv s1 (asplit 1 2 [] L)"
    using page_divide_refines [OF L(1), of 1 6] ad by (auto simp: PAGE_MAX_ORDER_def)
  have "asplit 1 2 [] L 0 = 3 # [2]" using L(2) by (simp add: asplit_def)
  then obtain s2 where "take_first 0 s1 = Inr (3, s2)" by (rule take_first_run [OF s1(2)])
  then show thesis
    using that page_allocate_cases [OF L(1) assms, of 6] L(2) s1(1) by (simp add: PAGE_MAX_ORDER_def)
qed

text \<open>The pools after one block of 100 bytes has been requested, then a second one.\<close>

definition one_page :: "nat \<Rightarrow> pool_header" where
  "one_page used = \<lparr>ph_size = 128, ph_total = 31, ph_used = used, ph_next = None\<rparr>"

definition one_page_pool :: "page_state \<Rightarrow> pool_state" where
  "one_page_pool ps = \<lparr>pages = ps, pool = Some 12288, header = (header empty_pool)(12288 := one_page 1),
     slot_used = (\<lambda>_ _. 0)(12288 := (\<lambda>_. 0)(0 := 1))\<rparr>"

lemma slot_size_100: "slot_size 100 = Inr 128"
  by (simp add: slot_size_def log2_def log2_loop.simps u64_def c_int_def PAGE_MAX_ORDER_def)

lemma small_malloc:
  obtains ps where "malloc 6 1 100 empty_pool = Inr (12352, one_page_pool ps)"
proof -
  have lv: "page_level 128 = Inr 0"
    by (simp add: page_level_def log2_def log2_loop.simps u64_def c_int_def PAGE_MAX_ORDER_def)
  obtain ps where ps: "page_allocate 6 128 (pages empty_pool) = Inr (3, ps)"
    using small_allocate [OF lv] by (auto simp: empty_pool_def)
  have f: "pool empty_pool = None" "slot_used empty_pool = (\<lambda>_ _. 0)" by (simp_all add: empty_pool_def)
  have "open_page 6 128 empty_pool = Inr (12352, one_page_pool ps)"
    using ps by (auto simp: open_page_def clear_slots_eq set_header_def set_slot_def u64_def aling8_def
        SIZEOF_pool_header_def one_page_pool_def one_page_def f Let_def fun_eq_iff
        intro!: pool_state.equality cong: if_cong)
  then show thesis using that slot_size_100 by (simp add: malloc_def f)
qed

lemma small_malloc_again:
  obtains s' where "malloc 6 2 100 (one_page_pool ps) = Inr (12480, s')"
proof -
  have "find_slot ((\<lambda>_. 0)(0 := 1)) 0 31 = Some 1" by (simp add: find_slot.simps)
  then have "search_pool 2 128 (Some 12288) (one_page_pool ps) =
      Inr (Some 12480, take_slot 12288 1 (one_page_pool ps))"
    by (simp add: numeral_2_eq_2 one_page_pool_def one_page_def take_slot_def set_slot_def set_header_def
        aling8_def SIZEOF_pool_header_def Let_def)
  then show thesis using that slot_size_100 by (simp add: malloc_def one_page_pool_def)
qed

section \<open>The properties\<close>

text \<open>C3: malloc_ of up to 2^17 bytes, when it returns, returns a new block that is at least as
  long as requested, whether it reuses a page of the list or opens one; the blocks handed out
  before stay handed out and the headers, the list and the page allocator stay consistent.\<close>

theorem malloc_correct:
  assumes "pool_inv s ps" and "request \<le> 2 ^ 17" and "length ps < fuel"
    and "malloc pfuel fuel request s = Inr (a, s')"
  shows "\<exists>n ps'. request \<le> n \<and> pool_inv s' ps' \<and> live s' ps' = insert (a, n) (live s ps) \<and>
    (\<forall>m. (a, m) \<notin> live s ps)"
  using assms by (rule malloc_run)

theorem malloc_correct_witness:
  "\<exists>s' n ps'. malloc 6 1 100 empty_pool = Inr (12352, s') \<and> 100 \<le> n \<and> pool_inv s' ps' \<and>
     live s' ps' = {(12352, n)}"
proof -
  obtain s' where s': "malloc 6 1 100 empty_pool = Inr (12352, s')" using small_malloc by blast
  show ?thesis using malloc_correct [OF empty_pool_inv _ _ s'] s' by (auto simp: empty_pool_live)
qed

text \<open>Two requests of 100 bytes.\<close>

lemma two_blocks:
  obtains s1 s2 ps1 ps2 n1 n2 where "malloc 6 1 100 empty_pool = Inr (12352, s1)"
    and "malloc 6 2 100 s1 = Inr (12480, s2)" and "pool_inv s1 ps1" and "live s1 ps1 = {(12352, n1)}"
    and "pool_inv s2 ps2" and "live s2 ps2 = {(12480, n2), (12352, n1)}"
    and "100 \<le> n1" and "100 \<le> n2" and "length ps1 < 2"
proof -
  obtain ps where m1: "malloc 6 1 100 empty_pool = Inr (12352, one_page_pool ps)" by (rule small_malloc)
  obtain s2 where m2: "malloc 6 2 100 (one_page_pool ps) = Inr (12480, s2)" by (rule small_malloc_again)
  obtain n1 ps1 where r1: "100 \<le> n1" "pool_inv (one_page_pool ps) ps1"
    "live (one_page_pool ps) ps1 = {(12352, n1)}"
    using malloc_run [OF empty_pool_inv _ _ m1] by (auto simp: empty_pool_live)
  have "chain (\<lambda>a. ph_next (header (one_page_pool ps) a)) (Some 12288) ps1"
    using pool_invD(1) [OF r1(2)] by (simp add: one_page_pool_def)
  then have "ps1 = [12288]" by (auto simp: chain_Some one_page_pool_def one_page_def)
  then have len: "length ps1 < 2" by simp
  obtain n2 ps2 where r2: "100 \<le> n2" "pool_inv s2 ps2" "live s2 ps2 = insert (12480, n2) {(12352, n1)}"
    using malloc_run [OF r1(2) _ len m2] r1(3) by auto
  show thesis by (rule that [OF m1 m2 r1(2,3) r2(2,3) r1(1) r2(1) len])
qed

text \<open>C4: free of a block handed out by malloc_, in a page below page 229376, returns and takes
  back exactly this block. When another block in use lies in the same page, the pages stay as they are; when it was
  the last one there, its page leaves the list and the block of pages that begins with it returns to the page
  allocator: exactly its pages become free, merged with their free buddies, and the other pages in use are untouched.\<close>

theorem free_correct:
  assumes "pool_inv s ps" and "(a, n) \<in> live s ps" and "length ps < fuel" and "17 \<le> pfuel"
    and "a div 4096 < last_block"
  shows "\<exists>s' ps'. free pfuel fuel a s = Inr s' \<and> pool_inv s' ps' \<and>
    live s' ps' = live s ps - {(a, n)} \<and>
    (if \<exists>(b, m) \<in> live s ps. b div 4096 = a div 4096 \<and> b \<noteq> a then ps' = ps \<and> pages s' = pages s
     else ps' = remove1 (a - a mod 4096) ps \<and>
       free_pages (frame (pages s')) = free_pages (frame (pages s)) \<union>
         {a div 4096..<a div 4096 + 2 ^ nat (fi_index (frame (pages s) (a div 4096)))} \<and>
       merged_at (frame (pages s')) (a div 4096) \<and>
       others_kept (a div 4096) (frame (pages s)) (frame (pages s')))"
proof -
  have "(\<exists>(b, m) \<in> live s ps. b div 4096 = a div 4096 \<and> b \<noteq> a) \<longleftrightarrow> \<not> lone_block s ps a"
    by (auto simp: lone_block_def)
  then show ?thesis using free_run_pages [OF assms] unfolding block_returned_def by (cases "lone_block s ps a") auto
qed

text \<open>A page's only block is freed.\<close>

theorem free_correct_witness:
  "\<exists>s1 s2 ps2. malloc 6 1 100 empty_pool = Inr (12352, s1) \<and> free 17 2 12352 s1 = Inr s2 \<and>
     pool_inv s2 ps2 \<and> live s2 ps2 = {} \<and> 3 \<in> free_pages (frame (pages s2))"
proof -
  obtain s1 s2 ps1 ps2 n1 n2 where b: "malloc 6 1 100 empty_pool = Inr (12352, s1)"
    "malloc 6 2 100 s1 = Inr (12480, s2)" "pool_inv s1 ps1" "live s1 ps1 = {(12352, n1)}"
    "pool_inv s2 ps2" "live s2 ps2 = {(12480, n2), (12352, n1)}" "100 \<le> n1" "100 \<le> n2"
    "length ps1 < 2"
    by (rule two_blocks)
  show ?thesis
    using free_correct [OF b(3), of 12352 n1 2 17] b(1,4,9) by (auto simp: last_block_def)
qed

text \<open>malloc_ of more than 2^18 (and up to 2^30) bytes hands out a block that is shorter than
  the request: log2 never answers more than 16, the cap meant for page orders, so that every such
  request is served with 2^18 bytes.\<close>

theorem malloc_too_short:
  assumes "pool_inv s ps" and "2 ^ 18 < request" and "request \<le> 2 ^ 30" and "length ps < fuel"
    and "malloc pfuel fuel request s = Inr (a, s')"
  shows "\<exists>n ps'. n < request \<and> pool_inv s' ps' \<and> live s' ps' = insert (a, n) (live s ps)"
proof -
  have sz: "slot_size request = Inr (2 ^ 18)" using assms(2,3) by (intro slot_size_capped) simp_all
  have "search_pool fuel (2 ^ 18) (pool s) s = Inr (None, s)"
  proof (rule ccontr)
    assume "search_pool fuel (2 ^ 18) (pool s) s \<noteq> Inr (None, s)"
    then obtain c i where c: "c \<in> set ps" "2 ^ 18 \<le> ph_size (header s c)" "i < ph_total (header s c)"
      using search_pool_run [OF pool_invD(1) [OF assms(1)] pool_invD(3) [OF assms(1)] assms(4), of "2 ^ 18"]
      by blast
    then show False using page_okD(7) [OF pool_invD(3) [OF assms(1) c(1)]] by simp
  qed
  then have "open_page pfuel (2 ^ 18) s = Inr (a, s')" using assms(5) sz by (simp add: malloc_def)
  then obtain p where "pool_inv s' (p # ps)" "live s' (p # ps) = insert (a, 262112) (live s ps)"
    by (rule open_page_run [OF assms(1), rotated 2]) simp_all
  then show ?thesis using assms(2) by (intro exI [of _ "262112"] exI [of _ "p # ps"]) simp
qed

theorem malloc_too_short_example:
  "\<exists>s' n ps'. malloc 6 1 300000 empty_pool = Inr (262176, s') \<and> n < 300000 \<and> pool_inv s' ps' \<and>
     live s' ps' = {(262176, n)}"
proof -
  have lv: "page_level (2 ^ 18) = Inr 6"
    by (simp add: page_level_def log2_def log2_loop.simps u64_def c_int_def PAGE_MAX_ORDER_def)
  obtain L where L: "page_inv small_state L" "L 6 = [64]" using small_state_inv by blast
  obtain s2 where "take_first 6 small_state = Inr (64, s2)" by (rule take_first_run [OF L(1), of 6 64 "[]"]) (use L(2) in simp)
  then have al: "page_allocate 6 (2 ^ 18) small_state = Inr (64, s2)"
    using page_allocate_cases [OF L(1) lv, of 6] L(2) by (simp add: PAGE_MAX_ORDER_def)
  have "slot_size 300000 = Inr (2 ^ 18)" by (rule slot_size_capped) simp_all
  then have "\<exists>s'. malloc 6 1 300000 empty_pool = Inr (262176, s')"
    using al by (simp add: malloc_def empty_pool_def open_page_def u64_def aling8_def
        SIZEOF_pool_header_def Let_def)
  then obtain s' where s': "malloc 6 1 300000 empty_pool = Inr (262176, s')" ..
  show ?thesis using malloc_too_short [OF empty_pool_inv _ _ _ s'] s' by (auto simp: empty_pool_live)
qed

end
