(* ===== verification/Kmalloc.thy ===== *)
theory Kmalloc
  imports PoolClaims
begin

text \<open>
  The allocator as the rest of the kernel sees it: \<open>malloc_\<close> and \<open>free\<close> with fuel that is always
  enough (the list of pool pages is never longer than the number of page frames, and 17 levels of
  merging reach the biggest block), and the contract \<open>allocator\<close> that its clients rely on: a new
  block is long enough and overlaps no block that is in use.
\<close>

definition kmalloc :: "nat \<Rightarrow> pool_state \<Rightarrow> (addr \<times> pool_state) res" where
  "kmalloc n s = malloc 17 (Suc (nat PAGE_MAX_ENTRY)) n s"

definition kfree :: "addr \<Rightarrow> pool_state \<Rightarrow> pool_state res" where
  "kfree a s = free 17 (Suc (nat PAGE_MAX_ENTRY)) a s"

definition block_range :: "addr \<times> nat \<Rightarrow> addr set" where
  "block_range b = {fst b..<fst b + int (snd b)}"

locale allocator =
  fixes alloc :: "nat \<Rightarrow> 'h \<Rightarrow> (addr \<times> 'h) res"
    and release :: "addr \<Rightarrow> 'h \<Rightarrow> 'h res"
    and ok :: "'h \<Rightarrow> bool"
    and blks :: "'h \<Rightarrow> (addr \<times> nat) set"
    and low :: "addr \<Rightarrow> bool"
  assumes alloc_block: "ok h \<Longrightarrow> n \<le> 2 ^ 17 \<Longrightarrow> alloc n h = Inr (a, h') \<Longrightarrow>
      ok h' \<and> (\<exists>k. n \<le> k \<and> 8 \<le> k \<and> blks h' = insert (a, k) (blks h) \<and> (\<forall>m. (a, m) \<notin> blks h))"
    and blocks_apart: "ok h \<Longrightarrow> b \<in> blks h \<Longrightarrow> c \<in> blks h \<Longrightarrow> b \<noteq> c \<Longrightarrow> block_range b \<inter> block_range c = {}"
    and release_block: "ok h \<Longrightarrow> (a, n) \<in> blks h \<Longrightarrow> low a \<Longrightarrow>
      \<exists>h'. release a h = Inr h' \<and> ok h' \<and> blks h' = blks h - {(a, n)}"
begin

lemma alloc_ok: "ok h \<Longrightarrow> n \<le> 2 ^ 17 \<Longrightarrow> alloc n h = Inr (a, h') \<Longrightarrow> ok h'"
  using alloc_block by blast

lemma alloc_keeps: "ok h \<Longrightarrow> n \<le> 2 ^ 17 \<Longrightarrow> alloc n h = Inr (a, h') \<Longrightarrow> blks h \<subseteq> blks h'"
  using alloc_block by blast

text \<open>The new block's range is new, so its address is that of no block in use.\<close>

lemma alloc_fresh:
  assumes "ok h" and "n \<le> 2 ^ 17" and "alloc n h = Inr (a, h')"
  obtains k where "n \<le> k" and "(a, k) \<in> blks h'" and "blks h' = insert (a, k) (blks h)"
    and "\<forall>b \<in> blks h. block_range (a, k) \<inter> block_range b = {}" and "a \<notin> fst ` blks h"
proof -
  obtain k where k: "n \<le> k" "8 \<le> k" "blks h' = insert (a, k) (blks h)" "\<forall>m. (a, m) \<notin> blks h" "ok h'"
    using alloc_block [OF assms] by blast
  have "\<forall>b \<in> blks h. block_range (a, k) \<inter> block_range b = {}"
  proof
    fix b assume b: "b \<in> blks h"
    then have "b \<noteq> (a, k)" using k(4) by blast
    then show "block_range (a, k) \<inter> block_range b = {}"
      using blocks_apart [OF k(5), of "(a, k)" b] b k(3) by auto
  qed
  moreover have "a \<notin> fst ` blks h" using k(4) by auto
  ultimately show thesis using that k(1,3) by auto
qed

end

section \<open>The kernel's allocator keeps the contract\<close>

definition alloc_ok :: "pool_state \<Rightarrow> bool" where
  "alloc_ok s \<longleftrightarrow> (\<exists>ps. pool_inv s ps)"

definition blocks :: "pool_state \<Rightarrow> (addr \<times> nat) set" where
  "blocks s = {b. \<exists>ps. pool_inv s ps \<and> b \<in> live s ps}"

definition low_addr :: "addr \<Rightarrow> bool" where
  "low_addr a \<longleftrightarrow> a div 4096 < last_block"

lemma pool_inv_unique: "pool_inv s ps \<Longrightarrow> pool_inv s qs \<Longrightarrow> ps = qs"
  by (rule chain_unique [OF pool_invD(1) pool_invD(1)])

lemma blocks_live: "pool_inv s ps \<Longrightarrow> blocks s = live s ps"
  by (auto simp: blocks_def dest: pool_inv_unique)

lemma pool_pages_bound:
  assumes "pool_inv s ps"
  shows "length ps < Suc (nat PAGE_MAX_ENTRY)"
proof -
  have "distinct ps" using chain_distinct pool_invD(1) [OF assms] by blast
  moreover have "inj_on (\<lambda>p. p div 4096) (set ps)"
  proof (rule inj_onI)
    fix p q assume "p \<in> set ps" "q \<in> set ps" and e: "p div 4096 = q div 4096"
    then have "p mod 4096 = 0" "q mod 4096 = 0"
      using page_okD(2) pool_invD(3) [OF assms] by blast+
    with e show "p = q" by (metis mult_div_mod_eq)
  qed
  ultimately have "length ps = card ((\<lambda>p. p div 4096) ` set ps)"
    by (simp add: card_image distinct_card)
  also have "\<dots> \<le> card {0..<PAGE_MAX_ENTRY}"
  proof (rule card_mono)
    show "(\<lambda>p. p div 4096) ` set ps \<subseteq> {0..<PAGE_MAX_ENTRY}"
      using pool_invD(3) [OF assms] by (auto simp: page_ok_def page_good_def pos_imp_zdiv_nonneg_iff)
  qed simp
  finally show ?thesis by simp
qed

lemma live_length: "pool_inv s ps \<Longrightarrow> (a, n) \<in> live s ps \<Longrightarrow> 8 \<le> n"
proof -
  assume "pool_inv s ps" and "(a, n) \<in> live s ps"
  then obtain p where p: "n = slot_len (header s p)" "page_ok s p"
    using pool_invD(3) by (auto simp: live_def)
  have "4048 < ph_size (header s p) + 1" if "ph_total (header s p) = 0"
    using that page_okD(7) [OF p(2)] by (simp add: div_eq_0_iff)
  then show "8 \<le> n" using page_okD(6) [OF p(2)] p(1) by (auto simp: slot_len_def)
qed

interpretation kernel_heap: allocator kmalloc kfree alloc_ok blocks low_addr
proof
  fix s n a s'
  assume "alloc_ok s" and n: "n \<le> 2 ^ 17" and run: "kmalloc n s = Inr (a, s')"
  then obtain ps where ps: "pool_inv s ps" by (auto simp: alloc_ok_def)
  obtain k ps' where k: "n \<le> k" "pool_inv s' ps'" "live s' ps' = insert (a, k) (live s ps)"
    "\<forall>m. (a, m) \<notin> live s ps"
    using malloc_run [OF ps n pool_pages_bound [OF ps]] run unfolding kmalloc_def by blast
  have "8 \<le> k" using live_length [OF k(2)] k(3) by blast
  then show "alloc_ok s' \<and> (\<exists>k. n \<le> k \<and> 8 \<le> k \<and> blocks s' = insert (a, k) (blocks s) \<and> (\<forall>m. (a, m) \<notin> blocks s))"
    using k blocks_live [OF ps] blocks_live [OF k(2)] by (auto simp: alloc_ok_def)
next
  fix s b c
  assume "alloc_ok s" and "b \<in> blocks s" and "c \<in> blocks s" and "b \<noteq> c"
  then obtain ps where "pool_inv s ps" "b \<in> live s ps" "c \<in> live s ps"
    using blocks_live by (auto simp: alloc_ok_def)
  then show "block_range b \<inter> block_range c = {}"
    using live_apart [of s ps "fst b" "snd b" "fst c" "snd c"] \<open>b \<noteq> c\<close> by (simp add: block_range_def)
next
  fix s a n
  assume "alloc_ok s" and "(a, n) \<in> blocks s" and low: "low_addr a"
  then obtain ps where ps: "pool_inv s ps" "(a, n) \<in> live s ps"
    using blocks_live by (auto simp: alloc_ok_def)
  then obtain s' ps' where "kfree a s = Inr s'" "pool_inv s' ps'" "live s' ps' = live s ps - {(a, n)}"
    using free_run [OF ps pool_pages_bound [OF ps(1)], of 17] low by (auto simp: kfree_def low_addr_def)
  then show "\<exists>s'. kfree a s = Inr s' \<and> alloc_ok s' \<and> blocks s' = blocks s - {(a, n)}"
    using blocks_live [OF ps(1)] blocks_live by (auto simp: alloc_ok_def)
qed

section \<open>When an allocation succeeds\<close>

text \<open>The single pages that \<open>page_allocate\<close> can still cut from the free blocks up to order 5.\<close>

definition stock :: "free_lists \<Rightarrow> nat" where
  "stock L = length (L 0) + 2 * length (L 1) + 4 * length (L 2) + 8 * length (L 3) +
     16 * length (L 4) + 32 * length (L 5)"

lemma upto_5_cases:
  assumes "1 \<le> (l::int)" and "l \<le> 5"
  obtains "l = 1" | "l = 2" | "l = 3" | "l = 4" | "l = 5"
  using assms by linarith

lemma stock_asplit:
  assumes "L l = i # r" and "1 \<le> l" and "l \<le> 5"
  shows "stock (asplit l i r L) = stock L"
  using assms(2,3) by (cases rule: upto_5_cases) (use assms(1) in \<open>simp_all add: asplit_def stock_def\<close>)

lemma adivide_stock:
  "1 \<le> l \<Longrightarrow> l \<le> 5 \<Longrightarrow> adivide fuel l L = Some L' \<Longrightarrow> stock L' = stock L"
proof (induction fuel arbitrary: l L L')
  case 0
  then show ?case by simp
next
  case (Suc fuel)
  show ?case
  proof (cases "L l")
    case (Cons i r)
    then show ?thesis using Suc.prems stock_asplit [of L l i r] by simp
  next
    case Nil
    show ?thesis
    proof (cases "l < 5")
      case True
      then obtain L1 where "adivide fuel (l + 1) L = Some L1" "adivide fuel l L1 = Some L'"
        using Suc.prems(3) Nil by (auto split: option.splits)
      moreover have "1 \<le> l + 1" "l + 1 \<le> 5" using Suc.prems(1) True by simp_all
      ultimately show ?thesis using Suc.IH [of "l + 1" L L1] Suc.IH [of l L1 L'] Suc.prems(1,2) by simp
    next
      case False
      then show ?thesis using Suc.prems Nil by simp
    qed
  qed
qed

lemma stock_order:
  assumes "0 < stock L"
  obtains k where "0 \<le> k" and "k \<le> 5" and "L k \<noteq> []"
  using assms that [of 0] that [of 1] that [of 2] that [of 3] that [of 4] that [of 5]
  by (auto simp: stock_def)

lemma take_first_stock:
  assumes "page_inv s L" and "L 0 \<noteq> []"
  shows "\<exists>i s' L'. take_first 0 s = Inr (i, s') \<and> page_inv s' L' \<and> stock L = Suc (stock L')"
proof -
  obtain i r where L: "L 0 = i # r" using assms(2) by (cases "L 0") auto
  then obtain s' where "take_first 0 s = Inr (i, s')" "page_inv s' (L(0 := r))"
    by (rule take_first_run [OF assms(1)])
  moreover have "stock L = Suc (stock (L(0 := r)))" using L by (simp add: stock_def)
  ultimately show ?thesis by blast
qed

lemma page_allocate_stock:
  assumes inv: "page_inv s L" and "page_level sz = Inr 0" and pos: "0 < stock L"
  shows "\<exists>i s' L'. page_allocate 17 sz s = Inr (i, s') \<and> page_inv s' L' \<and> stock L = Suc (stock L')"
proof (cases "L 0 = []")
  case False
  then show ?thesis
    using page_allocate_cases [OF inv assms(2), of 17] take_first_stock [OF inv] by (simp add: PAGE_MAX_ORDER_def)
next
  case True
  obtain k where k: "0 \<le> k" "k \<le> 5" "L k \<noteq> []" using stock_order [OF pos] .
  with True have "1 \<le> k" by (metis int_one_le_iff_zero_less order_le_less)
  moreover have "nat (k - 1) < 17" using k(2) by simp
  ultimately obtain L1 where L1: "adivide 17 1 L = Some L1" "L1 0 \<noteq> []"
    using adivide_some [where L = L and k = k and l = 1 and fuel = 17] k by auto
  obtain s1 where s1: "page_divide 17 1 s = Inr s1" "page_inv s1 L1"
    using page_divide_refines [OF inv, of 1 17] L1(1) by (auto simp: PAGE_MAX_ORDER_def)
  have "stock L1 = stock L" by (rule adivide_stock [OF _ _ L1(1)]) simp_all
  then show ?thesis
    using page_allocate_cases [OF inv assms(2), of 17] True s1(1) take_first_stock [OF s1(2) L1(2)]
    by (simp add: PAGE_MAX_ORDER_def)
qed

definition kstock :: "pool_state \<Rightarrow> nat \<Rightarrow> bool" where
  "kstock s n \<longleftrightarrow> (\<exists>ps L. pool_inv s ps \<and> page_inv (pages s) L \<and> n \<le> stock L)"

lemma kstock_ok: "kstock s n \<Longrightarrow> alloc_ok s"
  by (auto simp: kstock_def alloc_ok_def)

lemma page_level_single:
  assumes "1 \<le> sz" and "sz \<le> 4096"
  shows "page_level sz = Inr 0"
proof -
  have "sz \<le> 4096 * 2 ^ 16" using assms(2) by simp
  then obtain l where l: "page_level sz = Inr l" "0 \<le> l" "l = 0 \<or> 4096 * 2 ^ nat (l - 1) < int sz"
    by (rule page_level_small [OF assms(1)])
  have "(4096::int) * 1 \<le> 4096 * 2 ^ nat (l - 1)" by (intro mult_left_mono) simp_all
  then have "l = 0" using l(3) assms(2) by linarith
  then show ?thesis using l(1) by simp
qed

lemma slot_size_2048:
  assumes "request \<le> 2048"
  shows "\<exists>sz. slot_size request = Inr sz \<and> 8 \<le> sz \<and> sz \<le> 2048"
proof -
  define r where "r = (if request < 8 then 8 else request)"
  have r: "8 \<le> r" "r \<le> 2048" using assms by (simp_all add: r_def)
  obtain k where k: "2 ^ k < r" "r \<le> 2 ^ Suc k" "2 \<le> k" using r(1) by (rule nat_log_exists)
  have k10: "k \<le> 10"
  proof (rule ccontr)
    assume "\<not> k \<le> 10"
    then have "(2::nat) ^ 11 \<le> 2 ^ k" by (intro power_increasing) simp_all
    then show False using k(1) r(2) by simp
  qed
  have m: "8 \<le> (2::nat) ^ Suc k" "(2::nat) ^ Suc k \<le> 2048"
    using power_increasing [of 3 "Suc k" "2::nat"] power_increasing [of "Suc k" 11 "2::nat"] k(3) k10
    by simp_all
  have "nat (min 16 (int k) + 1) = Suc k" using k10 by (simp add: nat_add_distrib)
  then have "slot_size request = Inr (2 ^ Suc k)"
    using slot_size_log [of k request, folded r_def, OF k(1,2)] k10 m(2) by (simp add: Let_def)
  then show ?thesis using m by blast
qed

text \<open>A request of up to 2048 bytes takes at most one page.\<close>

lemma kmalloc_stock:
  assumes st: "kstock s (Suc n)" and m: "m \<le> 2048"
  shows "\<exists>a s'. kmalloc m s = Inr (a, s') \<and> kstock s' n"
proof -
  obtain ps L where inv: "pool_inv s ps" "page_inv (pages s) L" and n: "Suc n \<le> stock L"
    using st by (auto simp: kstock_def)
  have m': "m \<le> 2 ^ 17" using m by simp
  obtain sz where sz: "slot_size m = Inr sz" "8 \<le> sz" "sz \<le> 2048"
    using slot_size_2048 [OF m] by blast
  let ?f = "Suc (nat PAGE_MAX_ENTRY)"
  have fin: "kstock s' n" if "kmalloc m s = Inr (a, s')" "page_inv (pages s') L'" "n \<le> stock L'" for a s' L'
    using malloc_run [OF inv(1) m' pool_pages_bound [OF inv(1)]] that
    unfolding kmalloc_def kstock_def by blast
  from search_pool_run [OF pool_invD(1) [OF inv(1)] pool_invD(3) [OF inv(1)] pool_pages_bound [OF inv(1)], of sz]
  show ?thesis
  proof
    assume none: "search_pool ?f sz (pool s) s = Inr (None, s)"
    obtain i s1 L1 where s1: "page_allocate 17 sz (pages s) = Inr (i, s1)" "page_inv s1 L1"
      "stock L = Suc (stock L1)"
      using page_allocate_stock [OF inv(2) page_level_single [of sz]] sz(2,3) n by fastforce
    obtain a s' where s': "open_page 17 sz s = Inr (a, s')" "pages s' = s1"
      using s1(1) by (auto simp: open_page_def Let_def clear_slots_eq set_header_def set_slot_def)
    then have "kmalloc m s = Inr (a, s')" using none sz(1) by (simp add: kmalloc_def malloc_def)
    then show ?thesis using fin [of a s' L1] s1(2,3) s'(2) n by auto
  next
    assume "\<exists>c i. c \<in> set ps \<and> sz \<le> ph_size (header s c) \<and> i < ph_total (header s c) \<and>
      slot_used s c i = 0 \<and>
      search_pool ?f sz (pool s) s = Inr (Some (slot_addr (header s c) c i), take_slot c i s)"
    then obtain c i where
      c: "search_pool ?f sz (pool s) s = Inr (Some (slot_addr (header s c) c i), take_slot c i s)"
      by blast
    then have "kmalloc m s = Inr (slot_addr (header s c) c i, take_slot c i s)"
      using sz(1) by (simp add: kmalloc_def malloc_def)
    moreover have "pages (take_slot c i s) = pages s"
      by (simp add: take_slot_def set_slot_def set_header_def Let_def)
    ultimately show ?thesis using fin [of _ "take_slot c i s" L] inv(2) n by auto
  qed
qed

text \<open>The small state of the pools has free blocks of orders 1 to 5: 62 pages.\<close>

lemma small_state_lists:
  obtains L where "page_inv small_state L" and "stock L = 62"
proof -
  note sf = small_frames_facts
  have t: "tiling (frame small_start)" "block_head (frame small_start) 0"
    using reservableD(1) [OF sf(1)] sf(2) by (simp_all add: small_start_def)
  have "lists_rep small_start (\<lambda>_. [])" by (rule lists_repI) (simp_all add: small_start_def)
  moreover have "tails_ok small_start (\<lambda>_. [])" by (rule tails_okI) simp
  ultimately have "enlisted 0 small_start (\<lambda>_. [])" by (auto simp: enlisted_def free_head_def block_head_def)
  then obtain s' L where s': "enlist_loop 0 PAGE_MAX_ENTRY small_start = Inr s'"
    "frame s' = frame small_start" "page_inv s' L"
    using enlist_loop_run [OF t(1), of 0 "\<lambda>_. []" PAGE_MAX_ENTRY] t(2)
    by (auto simp: PAGE_MAX_ENTRY_def)
  have st: "small_state = s'" using s'(1) by (simp add: small_state_def)
  have mem: "j \<in> set (L k) \<longleftrightarrow> free_head small_frames k j" for j k
    using page_invD(3) [OF s'(3)] s'(2) by (simp add: small_start_def)
  have bi: "boot_index j \<in> {14, 15, 16}" if "j \<in> {65536, 131072, 196608, 229376}" for j
    using that by (auto simp: boot_index_def)
  have sets: "set (L k) = (if 1 \<le> k then {2 ^ nat k} else {})" if "k \<le> 5" for k
  proof -
    have "free_head small_frames k j \<longleftrightarrow> 1 \<le> k \<and> j = 2 ^ nat k" for j
      unfolding sf(3) using that bi [of j] by (auto intro!: exI [of _ "nat k"])
    then show ?thesis using that by (intro set_eqI) (simp add: mem)
  qed
  have "length (L k) = card (set (L k))" for k
    using lists_rep_distinct [OF page_invD(2) [OF s'(3)], of k] by (simp add: distinct_card)
  then have "stock L = 62" using sets by (simp add: stock_def)
  then show thesis using that [of L] s'(3) st by simp
qed

lemma empty_pool_stock: "kstock empty_pool 62"
proof -
  obtain L where "page_inv small_state L" "stock L = 62" by (rule small_state_lists)
  then show ?thesis using empty_pool_inv by (auto simp: kstock_def empty_pool_def)
qed

lemma kstock_mono: "kstock s n \<Longrightarrow> m \<le> n \<Longrightarrow> kstock s m"
  by (auto simp: kstock_def)

end
