(* ===== verification/HeapClaims.thy ===== *)
theory HeapClaims
  imports Kmalloc
begin

text \<open>
  The allocator seen from its clients over a whole run: every sequence of requests and releases, with the memory that
  the clients hold as a list of addresses and requested lengths.
\<close>

section \<open>Runs of requests\<close>

inductive served :: "pool_state \<Rightarrow> (addr \<times> nat) list \<Rightarrow> pool_state \<Rightarrow> bool" for s0 where
  start: "served s0 [] s0"
| request: "served s0 os s \<Longrightarrow> n \<le> 2 ^ 17 \<Longrightarrow> kmalloc n s = Inr (a, s') \<Longrightarrow> served s0 ((a, n) # os) s'"
| giveback: "served s0 (os @ (a, n) # us) s \<Longrightarrow> low_addr a \<Longrightarrow> kfree a s = Inr s' \<Longrightarrow> served s0 (os @ us) s'"

text \<open>Each piece that a client holds is the beginning of a block in use.\<close>

definition held :: "pool_state \<Rightarrow> (addr \<times> nat) list \<Rightarrow> bool" where
  "held s os \<longleftrightarrow> alloc_ok s \<and> distinct (map fst os) \<and> (\<forall>(a, n) \<in> set os. \<exists>k. n \<le> k \<and> (a, k) \<in> blocks s)"

lemma heldD: "held s os \<Longrightarrow> (a, n) \<in> set os \<Longrightarrow> \<exists>k. n \<le> k \<and> (a, k) \<in> blocks s"
  unfolding held_def by blast

lemma held_request:
  assumes "held s os" and "n \<le> 2 ^ 17" and "kmalloc n s = Inr (a, s')"
  shows "held s' ((a, n) # os)"
proof -
  have ok: "alloc_ok s" using assms(1) by (simp add: held_def)
  obtain k where k: "n \<le> k" "blocks s' = insert (a, k) (blocks s)" "a \<notin> fst ` blocks s"
    by (rule kernel_heap.alloc_fresh [OF ok assms(2,3)])
  have "a \<notin> fst ` set os" using assms(1) k(3) by (force simp: held_def)
  moreover have "alloc_ok s'" by (rule kernel_heap.alloc_ok [OF ok assms(2,3)])
  ultimately show ?thesis using assms(1) k(1,2) by (fastforce simp: held_def)
qed

lemma held_giveback:
  assumes "held s (os @ (a, n) # us)" and "low_addr a" and "kfree a s = Inr s'"
  shows "held s' (os @ us)"
proof -
  have ok: "alloc_ok s" using assms(1) by (simp add: held_def)
  obtain k where k: "(a, k) \<in> blocks s" using assms(1) by (auto simp: held_def)
  have s': "alloc_ok s'" "blocks s' = blocks s - {(a, k)}"
    using kernel_heap.release_block [OF ok k assms(2)] assms(3) by auto
  have d: "distinct (map fst (os @ (a, n) # us))" using assms(1) by (simp add: held_def)
  have "\<exists>k. m \<le> k \<and> (b, k) \<in> blocks s'" if b: "(b, m) \<in> set (os @ us)" for b m
  proof -
    have "b \<in> fst ` set (os @ us)" using b by force
    then have "b \<noteq> a" using d by auto
    moreover obtain k' where "m \<le> k'" "(b, k') \<in> blocks s" using heldD [OF assms(1), of b m] b by auto
    ultimately show ?thesis using s'(2) by auto
  qed
  moreover have "distinct (map fst (os @ us))" using d by auto
  ultimately show ?thesis using s'(1) unfolding held_def by blast
qed

lemma served_held: "served s0 os s \<Longrightarrow> alloc_ok s0 \<Longrightarrow> held s os"
  by (induction rule: served.induct) (simp_all add: held_def [of s0] held_request held_giveback)

section \<open>Where blocks lie\<close>

lemma in_use_page:
  assumes til: "tiling fr" and i: "block_head fr i" "fi_status (fr i) \<noteq> 0" and q: "i \<le> q" "q < i + block_size fr i"
  shows "q \<notin> free_pages fr"
proof
  assume "q \<in> free_pages fr"
  then obtain l j where "free_head fr l j" "j \<le> q" "q < j + 2 ^ nat l" by (rule free_pagesE)
  then have j: "block_head fr j" "fi_status (fr j) = 0" "j \<le> q" "q < j + block_size fr j"
    by (auto simp: free_head_def block_size_def)
  then have "i \<noteq> j" using i(2) by blast
  then show False using blocks_apart [OF til i(1) j(1)] blocks_apart [OF til j(1) i(1)] q j(3,4) by linarith
qed

text \<open>The bytes of a pool page that the allocator keeps for itself: the header and the table of slots.\<close>

definition bookkeeping :: "pool_state \<Rightarrow> addr \<Rightarrow> addr set" where
  "bookkeeping s p = {p..<p + 32 + int (ph_total (header s p))}"

text \<open>A block lies in its page's block of pages, behind the bookkeeping.\<close>

lemma live_in_page:
  assumes inv: "pool_inv s ps" and l: "(a, k) \<in> live s ps"
  obtains p where "p \<in> set ps" and "p + 32 + int (ph_total (header s p)) \<le> a"
    and "a + int k \<le> p + 4096 * block_size (frame (pages s)) (p div 4096)"
proof -
  obtain p i where p: "p \<in> set ps" "slot_taken s p i" "a = slot_addr (header s p) p i" "k = slot_len (header s p)"
    using l by (auto simp: live_def)
  have "int (ph_total (header s p)) \<le> int (aling8 (ph_total (header s p)))" using aling8_ge by (simp only: of_nat_le_iff)
  also have "\<dots> \<le> int (aling8 (ph_total (header s p))) + int (ph_size (header s p) * i)" by simp
  finally have "p + 32 + int (ph_total (header s p)) \<le> a" unfolding p(3) slot_addr_def by linarith
  then show thesis using that [OF p(1)] slot_in_page(2) [OF pool_invD(3) [OF inv p(1)] p(2)] p(3,4) by simp
qed

lemma page_tiling: "pool_inv s ps \<Longrightarrow> tiling (frame (pages s))"
  using pool_invD(2) page_invD(1) by blast

lemma pages_apart:
  assumes inv: "pool_inv s ps" and "p \<in> set ps" and "q \<in> set ps" and "p < q"
  shows "p + 4096 * block_size (frame (pages s)) (p div 4096) \<le> q"
proof -
  note okp = pool_invD(3) [OF inv assms(2)] and okq = pool_invD(3) [OF inv assms(3)]
  obtain k where k: "p = 4096 * k" using page_okD(2) [OF okp] by auto
  obtain k' where k': "q = 4096 * k'" using page_okD(2) [OF okq] by auto
  have "k + block_size (frame (pages s)) k \<le> k'"
    using blocks_apart [OF page_tiling [OF inv], of k k'] page_okD(3) [OF okp] page_okD(3) [OF okq] assms(4) k k' by simp
  then show ?thesis by (simp add: k k')
qed

lemma live_off_bookkeeping:
  assumes inv: "pool_inv s ps" and l: "(a, k) \<in> live s ps" and q: "q \<in> set ps"
  shows "block_range (a, k) \<inter> bookkeeping s q = {}"
proof -
  obtain p where p: "p \<in> set ps" "p + 32 + int (ph_total (header s p)) \<le> a"
    "a + int k \<le> p + 4096 * block_size (frame (pages s)) (p div 4096)"
    by (rule live_in_page [OF inv l])
  have t: "ph_total (header s q) \<le> 4048" using page_okD(7) [OF pool_invD(3) [OF inv q]] by (simp add: div_le_dividend)
  have one: "(1::int) \<le> block_size (frame (pages s)) (q div 4096)" by simp
  consider "p < q" | "p = q" | "q < p" by linarith
  then show ?thesis
  proof cases
    case 1
    then show ?thesis using pages_apart [OF inv p(1) q] p(3) by (auto simp: block_range_def bookkeeping_def)
  next
    case 2
    then show ?thesis using p(2) by (auto simp: block_range_def bookkeeping_def)
  next
    case 3
    then have "q + 4096 \<le> p" using pages_apart [OF inv q p(1)] one by linarith
    then show ?thesis using p(2) t by (auto simp: block_range_def bookkeeping_def)
  qed
qed

lemma live_pages_in_use:
  assumes inv: "pool_inv s ps" and l: "(a, k) \<in> live s ps" and x: "x \<in> block_range (a, k)"
  shows "x div 4096 \<notin> free_pages (frame (pages s))"
proof -
  obtain p where p: "p \<in> set ps" "p + 32 + int (ph_total (header s p)) \<le> a"
    "a + int k \<le> p + 4096 * block_size (frame (pages s)) (p div 4096)"
    by (rule live_in_page [OF inv l])
  note ok = pool_invD(3) [OF inv p(1)]
  let ?S = "block_size (frame (pages s)) (p div 4096)"
  obtain c where c: "p = 4096 * c" using page_okD(2) [OF ok] by auto
  have "4096 * c \<le> x" "x < 4096 * (c + block_size (frame (pages s)) c)"
    using x p(2,3) unfolding c by (auto simp: block_range_def algebra_simps)
  then have "c \<le> x div 4096" "x div 4096 < c + block_size (frame (pages s)) c" by auto
  then show ?thesis using in_use_page [OF page_tiling [OF inv] page_okD(3,4) [OF ok]] unfolding c by simp
qed

lemma served_run:
  assumes "served s0 os s" and "alloc_ok s0"
  obtains ps where "pool_inv s ps" and "distinct (map fst os)" and "sorted_wrt (\<lambda>b c. block_range b \<inter> block_range c = {}) os"
    and "\<And>b x. b \<in> set os \<Longrightarrow> x \<in> block_range b \<Longrightarrow> x div 4096 \<notin> free_pages (frame (pages s))"
    and "\<And>b p. b \<in> set os \<Longrightarrow> p \<in> set ps \<Longrightarrow> block_range b \<inter> bookkeeping s p = {}"
proof -
  have h: "held s os" by (rule served_held [OF assms])
  then obtain ps where inv: "pool_inv s ps" by (auto simp: held_def alloc_ok_def)
  have d: "distinct (map fst os)" using h by (simp add: held_def)
  have within: "\<exists>k. (fst b, k) \<in> live s ps \<and> block_range b \<subseteq> block_range (fst b, k)" if b: "b \<in> set os" for b
  proof -
    obtain k where "snd b \<le> k" "(fst b, k) \<in> blocks s" using heldD [OF h, of "fst b" "snd b"] b by auto
    then show ?thesis using blocks_live [OF inv] by (intro exI [of _ k]) (auto simp: block_range_def)
  qed
  have apart: "block_range b \<inter> block_range c = {}" if bc: "b \<in> set os" "c \<in> set os" "fst b \<noteq> fst c" for b c
  proof -
    obtain k where k: "(fst b, k) \<in> live s ps" "block_range b \<subseteq> block_range (fst b, k)" using within [OF bc(1)] by blast
    obtain m where m: "(fst c, m) \<in> live s ps" "block_range c \<subseteq> block_range (fst c, m)" using within [OF bc(2)] by blast
    have "block_range (fst b, k) \<inter> block_range (fst c, m) = {}"
      using live_apart [OF inv k(1) m(1)] bc(3) by (simp add: block_range_def)
    then show ?thesis using k(2) m(2) by blast
  qed
  have s: "sorted_wrt (\<lambda>b c. block_range b \<inter> block_range c = {}) os"
    unfolding sorted_wrt_iff_nth_less
  proof (intro allI impI)
    fix i j assume ij: "i < j" "j < length os"
    then have "fst (os ! i) \<noteq> fst (os ! j)" using nth_eq_iff_index_eq [OF d, of i j] by simp
    then show "block_range (os ! i) \<inter> block_range (os ! j) = {}" by (intro apart) (use ij in simp_all)
  qed
  show thesis
  proof (rule that [OF inv d s])
    fix b x assume "b \<in> set os" and "x \<in> block_range b"
    then show "x div 4096 \<notin> free_pages (frame (pages s))" using within [of b] live_pages_in_use [OF inv] by blast
  next
    fix b p assume "b \<in> set os" and "p \<in> set ps"
    then show "block_range b \<inter> bookkeeping s p = {}" using within [of b] live_off_bookkeeping [OF inv] by blast
  qed
qed

section \<open>The property\<close>

text \<open>C5: Memory safety of the allocator. Whatever sequence of requests (of up to 2^17 bytes) and releases (of memory that
  the client holds, in pages below page 229376) malloc_ and free have served from a consistent state, all the pieces of memory
  that the clients hold, each of its requested length, lie apart from one another, outside the headers and slot
  tables of the pool pages, and outside the pages that the page allocator has free.\<close>

theorem served_memory_apart:
  assumes "served s0 os s" and "alloc_ok s0"
  shows "distinct (map fst os) \<and> sorted_wrt (\<lambda>(a, n) (b, m). {a..<a + int n} \<inter> {b..<b + int m} = {}) os \<and>
    (\<forall>(a, n) \<in> set os. \<forall>x \<in> {a..<a + int n}. x div 4096 \<notin> free_pages (frame (pages s))) \<and>
    (\<exists>ps. chain (\<lambda>p. ph_next (header s p)) (pool s) ps \<and>
      (\<forall>(a, n) \<in> set os. \<forall>p \<in> set ps. {a..<a + int n} \<inter> {p..<p + 32 + int (ph_total (header s p))} = {}))"
proof -
  obtain ps where ps: "pool_inv s ps" "distinct (map fst os)" "sorted_wrt (\<lambda>b c. block_range b \<inter> block_range c = {}) os"
    "\<And>b x. b \<in> set os \<Longrightarrow> x \<in> block_range b \<Longrightarrow> x div 4096 \<notin> free_pages (frame (pages s))"
    "\<And>b p. b \<in> set os \<Longrightarrow> p \<in> set ps \<Longrightarrow> block_range b \<inter> bookkeeping s p = {}"
    by (rule served_run [OF assms]) (rule that)
  have "\<exists>ps. chain (\<lambda>p. ph_next (header s p)) (pool s) ps \<and>
      (\<forall>(a, n) \<in> set os. \<forall>p \<in> set ps. {a..<a + int n} \<inter> {p..<p + 32 + int (ph_total (header s p))} = {})"
    using pool_invD(1) [OF ps(1)] ps(5) unfolding block_range_def bookkeeping_def
    by (intro exI [of _ ps] conjI ballI) (simp_all add: case_prod_unfold)
  then show ?thesis using ps(2,3,4) by (auto simp: block_range_def case_prod_unfold)
qed

text \<open>Two requests of 100 bytes.\<close>

theorem served_memory_apart_witness:
  "\<exists>a b s. served empty_pool [(b, 100), (a, 100)] s \<and> a \<noteq> b \<and> {b..<b + 100} \<inter> {a..<a + 100} = {}"
proof -
  have ok: "alloc_ok empty_pool" by (rule kstock_ok [OF empty_pool_stock])
  have "kstock empty_pool (Suc (Suc 60))" using empty_pool_stock by simp
  then obtain a s1 where 1: "kmalloc 100 empty_pool = Inr (a, s1)" "kstock s1 (Suc 60)"
    using kmalloc_stock [of empty_pool "Suc 60" 100] by auto
  obtain b s2 where 2: "kmalloc 100 s1 = Inr (b, s2)" using kmalloc_stock [OF 1(2), of 100] by auto
  have "served empty_pool [(b, 100), (a, 100)] s2"
    by (intro served.request [OF _ _ 2] served.request [OF _ _ 1(1)] served.start) simp_all
  then show ?thesis using served_memory_apart [OF _ ok, of "[(b, 100), (a, 100)]" s2] by auto
qed

end
