(* ===== verification/CString.thy ===== *)
theory CString
  imports KBase
begin

text \<open>
  \<open>lib/string.c\<close> on a flat memory of bytes. A loop that stops at a terminator is a
  \<open>partial_function\<close>: it has no result (\<open>None\<close>) when memory holds no terminator. \<open>char\<close> is
  unsigned on this target (AArch64). Lengths are \<open>nat\<close>; the code's \<open>int\<close> counters hold them for
  strings shorter than 2^31 bytes.
\<close>

type_synonym byte = "8 word"
type_synonym mem = "addr \<Rightarrow> byte"

section \<open>Length and copies\<close>

text \<open>\<open>while(s[i] != 0) i++;\<close>\<close>

partial_function (option) strlen_loop :: "mem \<Rightarrow> addr \<Rightarrow> nat \<Rightarrow> nat option" where
  "strlen_loop m s i = (if m (s + int i) \<noteq> 0 then strlen_loop m s (i + 1) else Some i)"

definition strlen :: "mem \<Rightarrow> addr \<Rightarrow> nat option" where
  "strlen m s = strlen_loop m s 0"

partial_function (option) strcpy_loop :: "addr \<Rightarrow> addr \<Rightarrow> mem \<Rightarrow> mem option" where
  "strcpy_loop dest src m =
     (if m src \<noteq> 0 then strcpy_loop (dest + 1) (src + 1) (m(dest := m src))
      else Some (m(dest := 0)))"

definition strcpy :: "addr \<Rightarrow> addr \<Rightarrow> mem \<Rightarrow> (addr \<times> mem) option" where
  "strcpy dest src m = map_option (Pair dest) (strcpy_loop dest src m)"

text \<open>\<open>while(*dest++); dest--;\<close> and \<open>while((*dest++ = *src++));\<close>\<close>

partial_function (option) seek_end :: "mem \<Rightarrow> addr \<Rightarrow> addr option" where
  "seek_end m dest = (if m dest \<noteq> 0 then seek_end m (dest + 1) else Some dest)"

partial_function (option) strcat_loop :: "addr \<Rightarrow> addr \<Rightarrow> mem \<Rightarrow> mem option" where
  "strcat_loop dest src m =
     (let m' = m(dest := m src) in
      if m' dest \<noteq> 0 then strcat_loop (dest + 1) (src + 1) m' else Some m')"

definition strcat :: "addr \<Rightarrow> addr \<Rightarrow> mem \<Rightarrow> (addr \<times> mem) option" where
  "strcat dest src m =
     Option.bind (seek_end m dest) (\<lambda>d. map_option (Pair dest) (strcat_loop d src m))"

primrec memset_loop :: "nat \<Rightarrow> addr \<Rightarrow> byte \<Rightarrow> mem \<Rightarrow> mem" where
  "memset_loop 0 ptr c m = m"
| "memset_loop (Suc n) ptr c m = memset_loop n (ptr + 1) c (m(ptr := c))"

definition memset :: "addr \<Rightarrow> int \<Rightarrow> nat \<Rightarrow> mem \<Rightarrow> addr \<times> mem" where
  "memset str c len m = (str, memset_loop len str (word_of_int c) m)"

primrec memcpy :: "nat \<Rightarrow> addr \<Rightarrow> addr \<Rightarrow> mem \<Rightarrow> mem" where
  "memcpy 0 dest src m = m"
| "memcpy (Suc n) dest src m = memcpy n (dest + 1) (src + 1) (m(dest := m src))"

definition append_str :: "addr \<Rightarrow> byte \<Rightarrow> mem \<Rightarrow> mem option" where
  "append_str s ch m = map_option (\<lambda>i. m(s + int i := ch, s + int i + 1 := 0)) (strlen m s)"

definition pop_str :: "addr \<Rightarrow> mem \<Rightarrow> mem option" where
  "pop_str s m = map_option (\<lambda>i. m(s + int i - 1 := 0)) (strlen m s)"

section \<open>Comparison\<close>

partial_function (option) strcmp :: "mem \<Rightarrow> addr \<Rightarrow> addr \<Rightarrow> int option" where
  "strcmp m x y =
     (if m x \<noteq> 0 \<and> m x = m y then strcmp m (x + 1) (y + 1)
      else Some (uint (m x) - uint (m y)))"

text \<open>A string literal as bytes, and the test \<open>strcmp(p, literal) == 0\<close>, which never reads past the
  first byte that differs.\<close>

definition cstr :: "string \<Rightarrow> byte list" where
  "cstr s = map of_char s"

primrec str_eq :: "mem \<Rightarrow> addr \<Rightarrow> byte list \<Rightarrow> bool" where
  "str_eq m p [] \<longleftrightarrow> m p = 0"
| "str_eq m p (c # cs) \<longleftrightarrow> m p = c \<and> str_eq m (p + 1) cs"

section \<open>Numbers\<close>

text \<open>An \<open>int\<close> expression whose value does not fit is the fault \<open>IntOverflow\<close>.\<close>

definition int_check :: "int \<Rightarrow> int res" where
  "int_check v = (if - (2 ^ 31) \<le> v \<and> v < 2 ^ 31 then Inr v else Inl IntOverflow)"

definition push_digit :: "int \<Rightarrow> int \<Rightarrow> byte \<Rightarrow> int \<Rightarrow> int res" where
  "push_digit base res c zero =
     rbind (int_check (res * base)) (\<lambda>a.
     rbind (int_check (a + uint c)) (\<lambda>b. int_check (b - zero)))"

partial_function (option) atoi_loop :: "mem \<Rightarrow> addr \<Rightarrow> int \<Rightarrow> int res option" where
  "atoi_loop m s res =
     (if m s \<noteq> 0 then
        (case push_digit 10 res (m s) 48 of
           Inl e \<Rightarrow> Some (Inl e)
         | Inr r \<Rightarrow> atoi_loop m (s + 1) r)
      else Some (Inr res))"

definition atoi :: "mem \<Rightarrow> addr \<Rightarrow> int res option" where
  "atoi m s = atoi_loop m s 0"

definition hex_zero :: "byte \<Rightarrow> int" where
  "hex_zero c =
     (if 0x60 < uint c \<and> uint c < 0x67 then 0x57
      else if 0x40 < uint c \<and> uint c < 0x47 then 0x37 else 48)"

partial_function (option) hex_loop :: "mem \<Rightarrow> addr \<Rightarrow> int \<Rightarrow> int res option" where
  "hex_loop m s res =
     (if m s \<noteq> 0 then
        (case push_digit 16 res (m s) (hex_zero (m s)) of
           Inl e \<Rightarrow> Some (Inl e)
         | Inr r \<Rightarrow> hex_loop m (s + 1) r)
      else Some (Inr res))"

definition myHex2Int :: "mem \<Rightarrow> addr \<Rightarrow> int res option" where
  "myHex2Int m s = hex_loop m s 0"

section \<open>Tokens\<close>

text \<open>The static variables of \<open>strtok\<close>.\<close>

record tok_state =
  temp_ptr :: "addr option"
  tok_flag :: int

definition tok_reset :: tok_state where
  "tok_reset = \<lparr>temp_ptr = None, tok_flag = 0\<rparr>"

text \<open>
  The inner loop over the delimiters, at character \<open>i\<close> of the string: \<open>None\<close> when it runs to its
  end, otherwise whether it met the terminator (\<open>True\<close>) or a delimiter (\<open>False\<close>).
\<close>

function tok_match :: "mem \<Rightarrow> byte \<Rightarrow> addr \<Rightarrow> nat \<Rightarrow> nat \<Rightarrow> bool option" where
  "tok_match m c delim j dl =
     (if j < dl then
        if c = 0 then Some True
        else if c = m (delim + int j) then Some False
        else tok_match m c delim (j + 1) dl
      else None)"
  by pat_completeness auto
termination
  by (relation "measure (\<lambda>(m, c, delim, j, dl). dl - j)") auto

text \<open>
  The outer loop; \<open>n\<close> is the length of the string, which does not change while it runs. The result
  is the index at which the loop returned, with what it met.
\<close>

function tok_scan :: "mem \<Rightarrow> addr \<Rightarrow> addr \<Rightarrow> nat \<Rightarrow> nat \<Rightarrow> nat \<Rightarrow> (nat \<times> bool) option" where
  "tok_scan m p delim dl i n =
     (if i \<le> n then
        (case tok_match m (m (p + int i)) delim 0 dl of
           Some e \<Rightarrow> Some (i, e)
         | None \<Rightarrow> tok_scan m p delim dl (i + 1) n)
      else None)"
  by pat_completeness auto
termination
  by (relation "measure (\<lambda>(m, p, delim, dl, i, n). Suc n - i)") auto

declare tok_match.simps [simp del] tok_scan.simps [simp del]

text \<open>
  \<open>strtok\<close>: the token's address or \<open>NULL\<close>, with the static variables and memory afterwards. Reading
  the string when both \<open>str\<close> and \<open>temp_ptr\<close> are \<open>NULL\<close> is a null dereference.
\<close>

definition strtok :: "addr option \<Rightarrow> addr option \<Rightarrow> tok_state \<Rightarrow> mem \<Rightarrow>
    (addr option \<times> tok_state \<times> mem) res option" where
  "strtok str delimiter t m =
     (case delimiter of
        None \<Rightarrow> Some (Inr (None, tok_reset, m))
      | Some delim \<Rightarrow>
          if tok_flag t = 1 then Some (Inr (None, tok_reset, m))
          else
            let t = (if str \<noteq> None then t\<lparr>temp_ptr := str\<rparr> else t) in
            (case temp_ptr t of
               None \<Rightarrow> Some (Inl NullDeref)
             | Some p \<Rightarrow>
                 Option.bind (strlen m p) (\<lambda>n.
                 Option.bind (strlen m delim) (\<lambda>dl.
                 Some (Inr (case tok_scan m p delim dl 0 n of
                     Some (i, True) \<Rightarrow> (Some p, t\<lparr>tok_flag := 1\<rparr>, m)
                   | Some (i, False) \<Rightarrow>
                       (Some p, t\<lparr>temp_ptr := Some (p + int i + 1)\<rparr>, m(p + int i := 0))
                   | None \<Rightarrow> (None, tok_reset, m)))))))"

text \<open>
  \<open>spilt_strings\<close>: the pointers stored in \<open>str_arr\<close>, up to the \<open>NULL\<close> that ends them (the code
  does not check the array's length).
\<close>

partial_function (option) split_loop ::
    "addr option \<Rightarrow> addr option \<Rightarrow> tok_state \<Rightarrow> mem \<Rightarrow> (addr list \<times> tok_state \<times> mem) res option" where
  "split_loop str delim t m =
     Option.bind (strtok str delim t m) (\<lambda>r.
     case r of
       Inl e \<Rightarrow> Some (Inl e)
     | Inr (tok, t, m) \<Rightarrow>
         (case tok of
            None \<Rightarrow> Some (Inr ([], t, m))
          | Some p \<Rightarrow>
              Option.bind (split_loop None delim t m)
                (\<lambda>r. Some (rbind r (\<lambda>(ps, t, m). Inr (p # ps, t, m))))))"

definition spilt_strings :: "addr \<Rightarrow> addr \<Rightarrow> tok_state \<Rightarrow> mem \<Rightarrow>
    (nat \<times> addr list \<times> tok_state \<times> mem) res option" where
  "spilt_strings str deli t m =
     map_option (\<lambda>r. rbind r (\<lambda>(ps, t, m). Inr (length ps, ps, t, m)))
       (split_loop (Some str) (Some deli) t m)"

end
