(* ===== verification/StringProps.thy ===== *)
theory StringProps
  imports CString
begin

text \<open>
  The string functions against lists of bytes: \<open>str_at m p cs\<close> says that memory holds the string
  \<open>cs\<close> at \<open>p\<close>. Each function is related to the operation on lists that it implements.
\<close>

section \<open>Strings in memory\<close>

definition str_at :: "mem \<Rightarrow> addr \<Rightarrow> byte list \<Rightarrow> bool" where
  "str_at m p cs \<longleftrightarrow>
     (\<forall>i < length cs. m (p + int i) = cs ! i \<and> cs ! i \<noteq> 0) \<and> m (p + int (length cs)) = 0"

lemma str_at_Nil [simp]: "str_at m p [] \<longleftrightarrow> m p = 0"
  by (simp add: str_at_def)

lemma str_at_Cons [simp]: "str_at m p (c # cs) \<longleftrightarrow> m p = c \<and> c \<noteq> 0 \<and> str_at m (p + 1) cs"
proof -
  have "(\<forall>i < Suc (length cs). m (p + int i) = (c # cs) ! i \<and> (c # cs) ! i \<noteq> 0) \<longleftrightarrow>
      m p = c \<and> c \<noteq> 0 \<and> (\<forall>i < length cs. m (p + 1 + int i) = cs ! i \<and> cs ! i \<noteq> 0)"
    by (simp add: All_less_Suc2 add.assoc)
  then show ?thesis by (auto simp: str_at_def add.assoc)
qed

lemma str_at_append:
  "str_at m p (xs @ ys) \<longleftrightarrow>
     (\<forall>i < length xs. m (p + int i) = xs ! i \<and> xs ! i \<noteq> 0) \<and> str_at m (p + int (length xs)) ys"
proof (induction xs arbitrary: p)
  case Nil
  then show ?case by simp
next
  case (Cons x xs)
  have "(\<forall>i < Suc (length xs). m (p + int i) = (x # xs) ! i \<and> (x # xs) ! i \<noteq> 0) \<longleftrightarrow>
      m p = x \<and> x \<noteq> 0 \<and> (\<forall>i < length xs. m (p + 1 + int i) = xs ! i \<and> xs ! i \<noteq> 0)"
    by (simp add: All_less_Suc2 add.assoc)
  then show ?case using Cons by (auto simp: add.assoc)
qed

text \<open>A string does not depend on the bytes outside it.\<close>

lemma str_at_cong:
  "(\<And>a. p \<le> a \<Longrightarrow> a \<le> p + int (length cs) \<Longrightarrow> m' a = m a) \<Longrightarrow> str_at m' p cs \<longleftrightarrow> str_at m p cs"
  by (auto simp: str_at_def)

lemma str_at_unique: "str_at m p cs \<Longrightarrow> str_at m p ds \<Longrightarrow> cs = ds"
  by (induction cs arbitrary: p ds) (case_tac ds; simp)+

lemma str_at_nonzero: "str_at m p cs \<Longrightarrow> c \<in> set cs \<Longrightarrow> c \<noteq> 0"
  by (induction cs arbitrary: p) auto

section \<open>Length, copy, concatenation\<close>

lemma strlen_loop_str: "str_at m (s + int i) cs \<Longrightarrow> strlen_loop m s i = Some (i + length cs)"
proof (induction cs arbitrary: i)
  case Nil
  then show ?case by (simp add: strlen_loop.simps)
next
  case (Cons c cs)
  have "s + int i + 1 = s + int (Suc i)" by simp
  then have "str_at m (s + int (Suc i)) cs" using Cons.prems by (metis str_at_Cons)
  then have "strlen_loop m s (Suc i) = Some (Suc i + length cs)" by (rule Cons.IH)
  then show ?case using Cons.prems by (subst strlen_loop.simps) simp
qed

lemma strlen_str: "str_at m s cs \<Longrightarrow> strlen m s = Some (length cs)"
  using strlen_loop_str [of m s 0 cs] by (simp add: strlen_def)

text \<open>Two ranges that share no byte.\<close>

definition apart :: "addr \<Rightarrow> nat \<Rightarrow> addr \<Rightarrow> nat \<Rightarrow> bool" where
  "apart p n q k \<longleftrightarrow> p + int n \<le> q \<or> q + int k \<le> p"

lemma strcpy_loop_str:
  assumes "str_at m src cs" and "apart dest (length cs + 1) src (length cs + 1)"
  shows "\<exists>m'. strcpy_loop dest src m = Some m' \<and> str_at m' dest cs \<and>
    (\<forall>a. a < dest \<or> dest + int (length cs) < a \<longrightarrow> m' a = m a)"
  using assms
proof (induction cs arbitrary: dest src m)
  case Nil
  then show ?case by (simp add: strcpy_loop.simps)
next
  case (Cons c cs)
  let ?m = "m(dest := c)"
  have ap: "apart (dest + 1) (length cs + 1) (src + 1) (length cs + 1)"
    using Cons.prems(2) by (auto simp: apart_def)
  have st: "str_at ?m (src + 1) cs"
    using str_at_cong [of "src + 1" cs ?m m] Cons.prems by (auto simp: apart_def)
  have run: "strcpy_loop dest src m = strcpy_loop (dest + 1) (src + 1) ?m"
    using Cons.prems(1) by (subst strcpy_loop.simps) simp
  obtain m' where m': "strcpy_loop (dest + 1) (src + 1) ?m = Some m'" "str_at m' (dest + 1) cs"
    "\<forall>a. a < dest + 1 \<or> dest + 1 + int (length cs) < a \<longrightarrow> m' a = ?m a"
    using Cons.IH [OF st ap] by blast
  have "m' dest = c" using m'(3) by simp
  then have "str_at m' dest (c # cs)" using m'(2) Cons.prems(1) by simp
  moreover have "\<forall>a. a < dest \<or> dest + int (length (c # cs)) < a \<longrightarrow> m' a = m a"
    using m'(3) by auto
  ultimately show ?case using run m'(1) by auto
qed

lemma seek_end_str: "str_at m p cs \<Longrightarrow> seek_end m p = Some (p + int (length cs))"
proof (induction cs arbitrary: p)
  case Nil
  then show ?case by (simp add: seek_end.simps)
next
  case (Cons c cs)
  then show ?case by (subst seek_end.simps) (simp add: add.assoc)
qed

text \<open>Copying with the terminator is \<open>strcpy_loop\<close>.\<close>

lemma strcat_loop_str:
  assumes "str_at m src cs" and "apart dest (length cs + 1) src (length cs + 1)"
  shows "\<exists>m'. strcat_loop dest src m = Some m' \<and> str_at m' dest cs \<and>
    (\<forall>a. a < dest \<or> dest + int (length cs) < a \<longrightarrow> m' a = m a)"
  using assms
proof (induction cs arbitrary: dest src m)
  case Nil
  then show ?case by (simp add: strcat_loop.simps Let_def)
next
  case (Cons c cs)
  let ?m = "m(dest := c)"
  have ap: "apart (dest + 1) (length cs + 1) (src + 1) (length cs + 1)"
    using Cons.prems(2) by (auto simp: apart_def)
  have st: "str_at ?m (src + 1) cs"
    using str_at_cong [of "src + 1" cs ?m m] Cons.prems by (auto simp: apart_def)
  have run: "strcat_loop dest src m = strcat_loop (dest + 1) (src + 1) ?m"
    using Cons.prems(1) by (subst strcat_loop.simps) (simp add: Let_def)
  obtain m' where m': "strcat_loop (dest + 1) (src + 1) ?m = Some m'" "str_at m' (dest + 1) cs"
    "\<forall>a. a < dest + 1 \<or> dest + 1 + int (length cs) < a \<longrightarrow> m' a = ?m a"
    using Cons.IH [OF st ap] by blast
  have "m' dest = c" using m'(3) by simp
  then have "str_at m' dest (c # cs)" using m'(2) Cons.prems(1) by simp
  moreover have "\<forall>a. a < dest \<or> dest + int (length (c # cs)) < a \<longrightarrow> m' a = m a"
    using m'(3) by auto
  ultimately show ?case using run m'(1) by auto
qed

section \<open>Comparison\<close>

lemma strcmp_str:
  "str_at m x cs \<Longrightarrow> str_at m y ds \<Longrightarrow> \<exists>r. strcmp m x y = Some r \<and> (r = 0 \<longleftrightarrow> cs = ds)"
proof (induction cs arbitrary: x y ds)
  case Nil
  then show ?case by (cases ds) (auto simp: strcmp.simps [of m x] uint_0_iff)
next
  case (Cons c cs)
  show ?case
  proof (cases ds)
    case Nil
    then show ?thesis using Cons.prems by (auto simp: strcmp.simps [of m x] uint_0_iff)
  next
    case (Cons d ds')
    show ?thesis
    proof (cases "c = d")
      case True
      then have "strcmp m x y = strcmp m (x + 1) (y + 1)"
        using Cons.prems Cons by (simp add: strcmp.simps [of m x])
      then show ?thesis using Cons.IH [of "x + 1" "y + 1" ds'] Cons.prems Cons True by simp
    next
      case False
      then have "uint c \<noteq> uint d" by (metis word_uint_eq_iff)
      then show ?thesis using False Cons.prems Cons by (simp add: strcmp.simps [of m x])
    qed
  qed
qed

text \<open>\<open>str_eq\<close> is what \<open>strcmp\<close> with a string literal finds out.\<close>

lemma strcmp_literal:
  "str_at m y ds \<Longrightarrow> \<exists>r. strcmp m x y = Some r \<and> (r = 0 \<longleftrightarrow> str_eq m x ds)"
proof (induction ds arbitrary: x y)
  case Nil
  then show ?case by (auto simp: strcmp.simps [of m x] uint_0_iff)
next
  case (Cons d ds)
  show ?case
  proof (cases "m x = d")
    case True
    then show ?thesis using Cons.IH [of "y + 1" "x + 1"] Cons.prems by (simp add: strcmp.simps [of m x])
  next
    case False
    then have "uint (m x) \<noteq> uint d" by (metis word_uint_eq_iff)
    then show ?thesis using False Cons.prems by (simp add: strcmp.simps [of m x])
  qed
qed

lemma str_eq_at: "0 \<notin> set cs \<Longrightarrow> str_eq m p cs \<longleftrightarrow> str_at m p cs"
  by (induction cs arbitrary: p) auto

section \<open>Blocks of memory\<close>

lemma memset_loop_at:
  "memset_loop n p c m = (\<lambda>a. if p \<le> a \<and> a < p + int n then c else m a)"
proof (induction n arbitrary: p m)
  case 0
  then show ?case by (auto simp: fun_eq_iff)
next
  case (Suc n)
  then show ?case by (auto simp: fun_eq_iff)
qed

text \<open>A forward copy is right when the destination does not lie inside the source, after its
  start.\<close>

lemma memcpy_at:
  assumes "dest \<le> src \<or> src + int n \<le> dest"
  shows "memcpy n dest src m = (\<lambda>a. if dest \<le> a \<and> a < dest + int n then m (src + (a - dest)) else m a)"
  using assms
proof (induction n arbitrary: dest src m)
  case 0
  then show ?case by (auto simp: fun_eq_iff)
next
  case (Suc n)
  have "memcpy n (dest + 1) (src + 1) (m(dest := m src)) =
    (\<lambda>a. if dest + 1 \<le> a \<and> a < dest + 1 + int n then (m(dest := m src)) (src + 1 + (a - (dest + 1)))
      else (m(dest := m src)) a)"
    by (rule Suc.IH) (use Suc.prems in auto)
  then show ?case using Suc.prems by (auto simp: fun_eq_iff)
qed

section \<open>Splitting\<close>

text \<open>The fields of a string between the occurrences of \<open>d\<close>.\<close>

function fields :: "'a \<Rightarrow> 'a list \<Rightarrow> 'a list list" where
  "fields d cs =
     (case dropWhile (\<lambda>c. c \<noteq> d) cs of
        [] \<Rightarrow> [cs]
      | _ # rest \<Rightarrow> takeWhile (\<lambda>c. c \<noteq> d) cs # fields d rest)"
  by pat_completeness auto
termination
proof (relation "measure (\<lambda>(d, cs). length cs)", simp)
  fix d :: 'a and cs x rest
  assume "dropWhile (\<lambda>c. c \<noteq> d) cs = x # rest"
  then have "length (x # rest) \<le> length cs" using length_dropWhile_le [of "\<lambda>c. c \<noteq> d" cs] by simp
  then show "((d, rest), (d, cs)) \<in> measure (\<lambda>(d, cs). length cs)" by simp
qed

declare fields.simps [simp del]

lemma fields_none: "d \<notin> set cs \<Longrightarrow> fields d cs = [cs]"
proof -
  assume "d \<notin> set cs"
  then have "dropWhile (\<lambda>c. c \<noteq> d) cs = []" by (auto simp: dropWhile_eq_Nil_conv)
  then show ?thesis by (simp only: fields.simps [of d cs] list.case)
qed

lemma fields_some: "d \<notin> set xs \<Longrightarrow> fields d (xs @ d # rest) = xs # fields d rest"
proof -
  assume "d \<notin> set xs"
  then have "dropWhile (\<lambda>c. c \<noteq> d) (xs @ d # rest) = d # rest"
    and "takeWhile (\<lambda>c. c \<noteq> d) (xs @ d # rest) = xs"
    by (induction xs) auto
  then show ?thesis by (simp add: fields.simps [of d "xs @ d # rest"])
qed

lemma split_first:
  assumes "d \<in> set cs"
  obtains xs rest where "cs = xs @ d # rest" and "d \<notin> set xs"
  using assms by (meson split_list_first)

lemma tok_match_one:
  "tok_match m c delim 0 (Suc 0) =
     (if c = 0 then Some True else if c = m delim then Some False else None)"
  by (simp add: tok_match.simps)

lemma tok_scan_skip:
  assumes "\<And>j. i \<le> j \<Longrightarrow> j < k \<Longrightarrow> m (p + int j) \<noteq> 0 \<and> m (p + int j) \<noteq> m delim"
    and "i \<le> k" and "k \<le> n"
  shows "tok_scan m p delim (Suc 0) i n = tok_scan m p delim (Suc 0) k n"
  using assms(1,2)
proof (induction "k - i" arbitrary: i)
  case 0
  then show ?case by simp
next
  case (Suc x)
  then have ik: "i < k" by simp
  then have "m (p + int i) \<noteq> 0 \<and> m (p + int i) \<noteq> m delim" using Suc.prems(1) by simp
  then have "tok_scan m p delim (Suc 0) i n = tok_scan m p delim (Suc 0) (i + 1) n"
    using ik assms(3) tok_match_one [of m "m (p + int i)" delim]
    by (simp add: tok_scan.simps [of m p delim "Suc 0" i])
  also have "\<dots> = tok_scan m p delim (Suc 0) k n"
    by (rule Suc.hyps(1)) (use Suc ik in auto)
  finally show ?case .
qed

lemma str_at_bytes:
  "str_at m p cs \<Longrightarrow> i < length cs \<Longrightarrow> m (p + int i) = cs ! i \<and> cs ! i \<noteq> 0"
  by (simp add: str_at_def)

lemma tok_scan_end:
  assumes "str_at m p cs" and "m delim \<noteq> 0" and "m delim \<notin> set cs"
  shows "tok_scan m p delim (Suc 0) 0 (length cs) = Some (length cs, True)"
proof -
  have "tok_scan m p delim (Suc 0) 0 (length cs) = tok_scan m p delim (Suc 0) (length cs) (length cs)"
  proof (rule tok_scan_skip)
    fix j assume "j < length cs"
    then show "m (p + int j) \<noteq> 0 \<and> m (p + int j) \<noteq> m delim"
      using str_at_bytes [OF assms(1), of j] assms(3) nth_mem [of j cs] by metis
  qed simp_all
  also have "\<dots> = Some (length cs, True)"
    using assms(1) tok_match_one [of m "m (p + int (length cs))" delim]
    by (simp add: tok_scan.simps str_at_def)
  finally show ?thesis .
qed

lemma tok_scan_found:
  assumes "str_at m p (xs @ m delim # rest)" and "m delim \<noteq> 0" and "m delim \<notin> set xs"
  shows "tok_scan m p delim (Suc 0) 0 (length (xs @ m delim # rest)) = Some (length xs, False)"
proof -
  let ?cs = "xs @ m delim # rest"
  have "tok_scan m p delim (Suc 0) 0 (length ?cs) = tok_scan m p delim (Suc 0) (length xs) (length ?cs)"
  proof (rule tok_scan_skip)
    fix j assume j: "j < length xs"
    then have "?cs ! j \<in> set xs" by (simp add: nth_append)
    then show "m (p + int j) \<noteq> 0 \<and> m (p + int j) \<noteq> m delim"
      using str_at_bytes [OF assms(1), of j] j assms(3) by auto
  qed simp_all
  also have "\<dots> = Some (length xs, False)"
    using str_at_bytes [OF assms(1), of "length xs"] assms(2)
      tok_match_one [of m "m (p + int (length xs))" delim]
    by (simp add: tok_scan.simps [of m p delim "Suc 0" "length xs"])
  finally show ?thesis .
qed

lemma strtok_last:
  assumes "str_at m p cs" and "str_at m delim [d]" and "d \<notin> set cs" and "tok_flag t \<noteq> 1"
    and "temp_ptr (if str = None then t else t\<lparr>temp_ptr := str\<rparr>) = Some p"
  shows "strtok str (Some delim) t m =
    Some (Inr (Some p, (if str = None then t else t\<lparr>temp_ptr := str\<rparr>)\<lparr>tok_flag := 1\<rparr>, m))"
proof -
  have d: "m delim = d" "d \<noteq> 0" using assms(2) by simp_all
  have "strlen m p = Some (length cs)" "strlen m delim = Some (Suc 0)"
    using strlen_str [OF assms(1)] strlen_str [OF assms(2)] by simp_all
  moreover have "tok_scan m p delim (Suc 0) 0 (length cs) = Some (length cs, True)"
    by (rule tok_scan_end [OF assms(1)]) (use assms(3) d in simp_all)
  ultimately show ?thesis using assms(4,5) by (auto simp: strtok_def Let_def split: if_splits)
qed

lemma strtok_first:
  assumes "str_at m p (xs @ d # rest)" and "str_at m delim [d]" and "d \<notin> set xs" and "tok_flag t \<noteq> 1"
    and "temp_ptr (if str = None then t else t\<lparr>temp_ptr := str\<rparr>) = Some p"
  shows "strtok str (Some delim) t m =
    Some (Inr (Some p, (if str = None then t else t\<lparr>temp_ptr := str\<rparr>)\<lparr>temp_ptr := Some (p + int (length xs) + 1)\<rparr>,
      m(p + int (length xs) := 0)))"
proof -
  have d: "m delim = d" "d \<noteq> 0" using assms(2) by simp_all
  have "strlen m p = Some (length (xs @ d # rest))" "strlen m delim = Some (Suc 0)"
    using strlen_str [OF assms(1)] strlen_str [OF assms(2)] by simp_all
  moreover have "tok_scan m p delim (Suc 0) 0 (length (xs @ d # rest)) = Some (length xs, False)"
    using tok_scan_found [of m p xs delim rest] assms(1,3) d by simp
  ultimately show ?thesis using assms(4,5) by (auto simp: strtok_def Let_def split: if_splits)
qed

lemma strtok_after_end: "tok_flag t = 1 \<Longrightarrow> strtok None (Some delim) t m = Some (Inr (None, tok_reset, m))"
  by (simp add: strtok_def)

text \<open>\<open>outside p n a\<close>: address \<open>a\<close> is not one of the \<open>n\<close> bytes from \<open>p\<close>.\<close>

definition outside :: "addr \<Rightarrow> nat \<Rightarrow> addr \<Rightarrow> bool" where
  "outside p n a \<longleftrightarrow> a < p \<or> p + int n \<le> a"

lemma split_loop_str:
  assumes "str_at m p cs" and "str_at m delim [d]" and "outside p (length cs) delim"
    and "outside p (length cs) (delim + 1)" and "tok_flag t = 0"
    and "temp_ptr (if str = None then t else t\<lparr>temp_ptr := str\<rparr>) = Some p"
  shows "\<exists>ps m'. split_loop str (Some delim) t m = Some (Inr (ps, tok_reset, m')) \<and>
    list_all2 (str_at m') ps (fields d cs) \<and> (\<forall>a. outside p (length cs) a \<longrightarrow> m' a = m a)"
  using assms
proof (induction "length cs" arbitrary: cs p str t m rule: less_induct)
  case less
  let ?t = "if str = None then t else t\<lparr>temp_ptr := str\<rparr>"
  have fl: "tok_flag t \<noteq> 1" using less.prems(5) by simp
  show ?case
  proof (cases "d \<in> set cs")
    case False
    have "split_loop None (Some delim) (?t\<lparr>tok_flag := 1\<rparr>) m = Some (Inr ([], tok_reset, m))"
      by (subst split_loop.simps) (simp add: strtok_after_end)
    then have "split_loop str (Some delim) t m = Some (Inr ([p], tok_reset, m))"
      using strtok_last [OF less.prems(1,2) False fl less.prems(6)]
      by (simp add: split_loop.simps [of str])
    then show ?thesis using fields_none [OF False] less.prems(1) by auto
  next
    case True
    then obtain xs rest where cs: "cs = xs @ d # rest" and xs: "d \<notin> set xs" by (rule split_first)
    define q where "q = p + int (length xs)"
    define m1 where "m1 = m(q := 0)"
    define t1 where "t1 = ?t\<lparr>temp_ptr := Some (q + 1)\<rparr>"
    have "str_at m p (xs @ d # rest)" using less.prems(1) cs by simp
    note tk = strtok_first [OF this less.prems(2) xs fl less.prems(6)]
    have out: "outside (q + 1) (length rest) a" if "outside p (length cs) a" for a
      using that by (auto simp: outside_def cs q_def)
    have qd: "q \<noteq> delim" "q \<noteq> delim + 1"
      using less.prems(3,4) by (auto simp: outside_def cs q_def)
    have "str_at m (p + int (length xs)) (d # rest)" and px: "\<forall>i < length xs. m (p + int i) = xs ! i \<and> xs ! i \<noteq> 0"
      using less.prems(1) unfolding cs str_at_append by blast+
    then have "str_at m (q + 1) rest" by (simp add: q_def)
    then have r: "str_at m1 (q + 1) rest" using str_at_cong [of "q + 1" rest m1 m] by (simp add: m1_def)
    have dl: "str_at m1 delim [d]" using less.prems(2) qd by (simp add: m1_def)
    have lt: "length rest < length cs" by (simp add: cs)
    have fl1: "tok_flag t1 = 0" "temp_ptr (if None = None then t1 else t1\<lparr>temp_ptr := None\<rparr>) = Some (q + 1)"
      using less.prems(5) by (simp_all add: t1_def)
    obtain ps m' where ih: "split_loop None (Some delim) t1 m1 = Some (Inr (ps, tok_reset, m'))"
      "list_all2 (str_at m') ps (fields d rest)" "\<forall>a. outside (q + 1) (length rest) a \<longrightarrow> m' a = m1 a"
      using less.hyps [OF lt r dl out [OF less.prems(3)] out [OF less.prems(4)] fl1] by blast
    have "split_loop str (Some delim) t m = Some (Inr (p # ps, tok_reset, m'))"
      using tk ih(1) by (simp add: split_loop.simps [of str] q_def m1_def t1_def)
    moreover have "str_at m' p xs"
    proof -
      have "m' a = m1 a" if "a \<le> q" for a using ih(3) that by (simp add: outside_def)
      then have "\<forall>i < length xs. m' (p + int i) = xs ! i \<and> xs ! i \<noteq> 0" "m' q = 0"
        using px by (simp_all add: m1_def q_def)
      then show ?thesis by (simp add: str_at_def q_def)
    qed
    moreover have "\<forall>a. outside p (length cs) a \<longrightarrow> m' a = m a"
    proof (intro allI impI)
      fix a assume a: "outside p (length cs) a"
      have "a \<noteq> q" using a by (auto simp: outside_def q_def cs)
      then show "m' a = m a" using ih(3) out [OF a] by (simp add: m1_def)
    qed
    ultimately show ?thesis using ih(2) fields_some [OF xs, of rest] cs by auto
  qed
qed

section \<open>Decimal numbers\<close>

definition dec_value :: "byte list \<Rightarrow> int" where
  "dec_value cs = foldl (\<lambda>r c. r * 10 + (uint c - 48)) 0 cs"

definition is_digit :: "byte \<Rightarrow> bool" where
  "is_digit c \<longleftrightarrow> 48 \<le> uint c \<and> uint c \<le> 57"

lemma foldl_dec_ge:
  assumes "\<forall>c \<in> set cs. is_digit c" and "0 \<le> r"
  shows "r \<le> foldl (\<lambda>r c. r * 10 + (uint c - 48)) r cs"
  using assms
proof (induction cs arbitrary: r)
  case Nil
  then show ?case by simp
next
  case (Cons c cs)
  let ?r = "r * 10 + (uint c - 48)"
  have "0 \<le> ?r" "r \<le> ?r" using Cons.prems by (auto simp: is_digit_def)
  then show ?case using Cons.IH [of ?r] Cons.prems by fastforce
qed

text \<open>The sum \<open>res * 10 + c\<close> is formed before 48 is taken off, so it must fit too.\<close>

lemma atoi_loop_str:
  assumes "str_at m p cs" and "\<forall>c \<in> set cs. is_digit c" and "0 \<le> r"
    and "foldl (\<lambda>r c. r * 10 + (uint c - 48)) r cs < 2 ^ 31 - 48"
  shows "atoi_loop m p r = Some (Inr (foldl (\<lambda>r c. r * 10 + (uint c - 48)) r cs))"
  using assms
proof (induction cs arbitrary: p r)
  case Nil
  then show ?case by (simp add: atoi_loop.simps)
next
  case (Cons c cs)
  let ?r = "r * 10 + (uint c - 48)"
  have dg: "48 \<le> uint c" "uint c \<le> 57" using Cons.prems(2) by (simp_all add: is_digit_def)
  have r0: "0 \<le> ?r" using dg Cons.prems(3) by simp
  have "?r \<le> foldl (\<lambda>r c. r * 10 + (uint c - 48)) ?r cs"
    using foldl_dec_ge [of cs ?r] Cons.prems(2) r0 by simp
  then have lt: "?r < 2 ^ 31 - 48" using Cons.prems(4) by simp
  have "push_digit 10 r c 48 = Inr ?r"
    using lt r0 dg Cons.prems(3) by (simp add: push_digit_def int_check_def)
  then have "atoi_loop m p r = atoi_loop m (p + 1) ?r"
    using Cons.prems(1) by (simp add: atoi_loop.simps [of m p])
  then show ?case using Cons.IH [of "p + 1" ?r] Cons.prems r0 by simp
qed

end
