(* ===== verification/StringClaims.thy ===== *)
theory StringClaims
  imports StringProps
begin

text \<open>
  The properties of \<open>lib/string.c\<close>: each function against the list operation it implements, with
  what it leaves unchanged, and the bound at which the decimal parser overflows.
\<close>

section \<open>Overflow of the decimal parser\<close>

lemma atoi_loop_overflow:
  assumes "str_at m p cs" and "\<forall>c \<in> set cs. is_digit c" and "0 \<le> r" and "r < 2 ^ 31 - 48"
    and "2 ^ 31 - 48 \<le> foldl (\<lambda>r c. r * 10 + (uint c - 48)) r cs"
  shows "atoi_loop m p r = Some (Inl IntOverflow)"
  using assms
proof (induction cs arbitrary: p r)
  case Nil
  then show ?case by simp
next
  case (Cons c cs)
  let ?r = "r * 10 + (uint c - 48)"
  have dg: "48 \<le> uint c" "uint c \<le> 57" using Cons.prems(2) by (simp_all add: is_digit_def)
  have c: "m p = c" "c \<noteq> 0" using Cons.prems(1) by simp_all
  show ?case
  proof (cases "?r < 2 ^ 31 - 48")
    case True
    then have "push_digit 10 r c 48 = Inr ?r"
      using dg Cons.prems(3) by (simp add: push_digit_def int_check_def)
    then have "atoi_loop m p r = atoi_loop m (p + 1) ?r"
      using c by (simp add: atoi_loop.simps [of m p])
    then show ?thesis using Cons.IH [of "p + 1" ?r] Cons.prems True dg by simp
  next
    case False
    then have "push_digit 10 r c 48 = Inl IntOverflow"
      using dg Cons.prems(3) by (simp add: push_digit_def int_check_def)
    then show ?thesis using c by (simp add: atoi_loop.simps [of m p])
  qed
qed

section \<open>Joining the fields again\<close>

definition join :: "'a \<Rightarrow> 'a list list \<Rightarrow> 'a list" where
  "join d xss = concat (hd xss # map (\<lambda>xs. d # xs) (tl xss))"

lemma fields_nonempty: "fields d cs \<noteq> []"
  by (cases "d \<in> set cs") (auto simp: fields_none fields_some dest!: split_list_first)

lemma join_fields: "join d (fields d cs) = cs"
proof (induction "length cs" arbitrary: cs rule: less_induct)
  case less
  show ?case
  proof (cases "d \<in> set cs")
    case False
    then show ?thesis by (simp add: fields_none join_def)
  next
    case True
    then obtain xs rest where cs: "cs = xs @ d # rest" and xs: "d \<notin> set xs" by (rule split_first)
    then have "join d (fields d rest) = rest" using less by simp
    then show ?thesis
      using fields_nonempty [of d rest] by (cases "fields d rest") (auto simp: cs fields_some [OF xs] join_def)
  qed
qed

lemma fields_no_delim: "xs \<in> set (fields d cs) \<Longrightarrow> d \<notin> set xs"
proof (induction "length cs" arbitrary: cs rule: less_induct)
  case less
  show ?case
  proof (cases "d \<in> set cs")
    case False
    then show ?thesis using less.prems by (simp add: fields_none)
  next
    case True
    then obtain ys rest where cs: "cs = ys @ d # rest" and ys: "d \<notin> set ys" by (rule split_first)
    then show ?thesis using less.prems less.hyps [of rest] by (auto simp: cs fields_some [OF ys])
  qed
qed

section \<open>Concatenation and the last character\<close>

lemma str_at_not_nul: "str_at m p cs \<Longrightarrow> 0 \<notin> set cs"
  using str_at_nonzero by blast

lemma strcat_run:
  assumes "str_at m dest xs" and "str_at m src ys"
    and "apart dest (length xs + length ys + 1) src (length ys + 1)"
  shows "\<exists>m'. strcat dest src m = Some (dest, m') \<and> str_at m' dest (xs @ ys) \<and>
    (\<forall>a. outside dest (length xs + length ys + 1) a \<longrightarrow> m' a = m a)"
proof -
  let ?d = "dest + int (length xs)"
  have "apart ?d (length ys + 1) src (length ys + 1)" using assms(3) by (auto simp: apart_def)
  then obtain m' where m': "strcat_loop ?d src m = Some m'" "str_at m' ?d ys"
    "\<forall>a. a < ?d \<or> ?d + int (length ys) < a \<longrightarrow> m' a = m a"
    using strcat_loop_str [OF assms(2)] by blast
  have "strcat dest src m = Some (dest, m')"
    using m'(1) seek_end_str [OF assms(1)] by (simp add: strcat_def)
  moreover have "\<forall>i < length xs. m' (dest + int i) = xs ! i \<and> xs ! i \<noteq> 0"
    using assms(1) m'(3) by (simp add: str_at_def)
  then have "str_at m' dest (xs @ ys)" using m'(2) by (simp add: str_at_append)
  moreover have "\<forall>a. outside dest (length xs + length ys + 1) a \<longrightarrow> m' a = m a"
    using m'(3) by (auto simp: outside_def)
  ultimately show ?thesis by blast
qed

lemma append_str_run:
  assumes "str_at m s cs" and "ch \<noteq> 0"
  shows "\<exists>m'. append_str s ch m = Some m' \<and> str_at m' s (cs @ [ch]) \<and>
    (\<forall>a. outside s (length cs + 2) a \<longrightarrow> m' a = m a)"
proof -
  let ?m = "m(s + int (length cs) := ch, s + int (length cs) + 1 := 0)"
  have "append_str s ch m = Some ?m" using strlen_str [OF assms(1)] by (simp add: append_str_def)
  moreover have "str_at ?m s (cs @ [ch])"
    using assms by (auto simp: str_at_def nth_append less_Suc_eq)
  moreover have "\<forall>a. outside s (length cs + 2) a \<longrightarrow> ?m a = m a" by (auto simp: outside_def)
  ultimately show ?thesis by blast
qed

lemma pop_str_run:
  assumes "str_at m s (cs @ [ch])"
  shows "\<exists>m'. pop_str s m = Some m' \<and> str_at m' s cs \<and>
    (\<forall>a. a \<noteq> s + int (length cs) \<longrightarrow> m' a = m a)"
proof -
  let ?m = "m(s + int (length cs) := 0)"
  have "pop_str s m = Some ?m" using strlen_str [OF assms] by (simp add: pop_str_def)
  moreover have "str_at ?m s cs" using assms by (auto simp: str_at_def nth_append less_Suc_eq all_conj_distrib)
  ultimately show ?thesis by auto
qed

section \<open>Properties\<close>

text \<open>C36: \<open>spilt_strings\<close> returns the number of fields of the string between its delimiters (empty
  fields included) and stores pointers to them in order: afterwards each pointer holds one field as
  a terminated string, no field contains the delimiter, joined by the delimiter they give the
  original string, the static state of \<open>strtok\<close> is back at its initial value, and no byte outside
  the string has changed.\<close>

theorem spilt_strings_correct:
  assumes "str_at m p cs" and "str_at m delim [d]" and "outside p (length cs) delim"
    and "outside p (length cs) (delim + 1)" and "tok_flag t = 0"
  shows "\<exists>ps fs m'. spilt_strings p delim t m = Some (Inr (length fs, ps, tok_reset, m')) \<and>
    list_all2 (str_at m') ps fs \<and> join d fs = cs \<and> (\<forall>f \<in> set fs. d \<notin> set f) \<and>
    (\<forall>a. outside p (length cs) a \<longrightarrow> m' a = m a)"
proof -
  have "temp_ptr (if Some p = None then t else t\<lparr>temp_ptr := Some p\<rparr>) = Some p" by simp
  then obtain ps m' where run: "split_loop (Some p) (Some delim) t m = Some (Inr (ps, tok_reset, m'))"
    "list_all2 (str_at m') ps (fields d cs)" "\<forall>a. outside p (length cs) a \<longrightarrow> m' a = m a"
    using split_loop_str [OF assms(1-5), of "Some p"] by blast
  have "spilt_strings p delim t m = Some (Inr (length (fields d cs), ps, tok_reset, m'))"
    using run(1) list_all2_lengthD [OF run(2)] by (simp add: spilt_strings_def)
  moreover have "\<forall>f \<in> set (fields d cs). d \<notin> set f" by (intro ballI) (rule fields_no_delim)
  ultimately show ?thesis using run(2,3) join_fields [of d cs]
    by (intro exI [of _ ps] exI [of _ "fields d cs"] exI [of _ m'] conjI)
qed

text \<open>The string "/ab" at 16 and the delimiter "/" at 8.\<close>

definition demo_mem :: mem where
  "demo_mem = (\<lambda>_. 0)(16 := 47, 17 := 97, 18 := 98, 8 := 47)"

theorem spilt_strings_correct_witness:
  "\<exists>ps fs m'. spilt_strings 16 8 tok_reset demo_mem = Some (Inr (length fs, ps, tok_reset, m')) \<and>
    list_all2 (str_at m') ps fs \<and> join 47 fs = [47, 97, 98] \<and> (\<forall>f \<in> set fs. 47 \<notin> set f) \<and>
    (\<forall>a. outside 16 (length [47, 97, 98 :: byte]) a \<longrightarrow> m' a = demo_mem a)"
  by (rule spilt_strings_correct) (simp_all add: demo_mem_def outside_def tok_reset_def)

text \<open>\<open>strcat_\<close> returns its destination, which then holds the two strings one after the other;
  nothing else changes (the source must not overlap the destination's final extent).\<close>

theorem strcat_correct:
  assumes "str_at m dest xs" and "str_at m src ys"
    and "apart dest (length xs + length ys + 1) src (length ys + 1)"
  shows "\<exists>m'. strcat dest src m = Some (dest, m') \<and> str_at m' dest (xs @ ys) \<and>
    (\<forall>a. outside dest (length xs + length ys + 1) a \<longrightarrow> m' a = m a)"
  using assms by (rule strcat_run)

text \<open>\<open>strcmp\<close> on two terminated strings ends, and returns 0 exactly when they are equal.\<close>

theorem strcmp_correct:
  assumes "str_at m x cs" and "str_at m y ds"
  shows "\<exists>r. strcmp m x y = Some r \<and> (r = 0 \<longleftrightarrow> cs = ds)"
  using assms by (rule strcmp_str)

text \<open>\<open>append_str\<close> puts a character at the end of a string and \<open>pop_str\<close> takes it off again.\<close>

theorem append_pop_round_trip:
  assumes "str_at m s cs" and "ch \<noteq> 0"
  shows "\<exists>m1 m2. append_str s ch m = Some m1 \<and> str_at m1 s (cs @ [ch]) \<and>
    pop_str s m1 = Some m2 \<and> str_at m2 s cs \<and> (\<forall>a. outside s (length cs + 2) a \<longrightarrow> m2 a = m a)"
proof -
  obtain m1 where 1: "append_str s ch m = Some m1" "str_at m1 s (cs @ [ch])"
    "\<forall>a. outside s (length cs + 2) a \<longrightarrow> m1 a = m a"
    using append_str_run [OF assms] by blast
  obtain m2 where 2: "pop_str s m1 = Some m2" "str_at m2 s cs"
    "\<forall>a. a \<noteq> s + int (length cs) \<longrightarrow> m2 a = m1 a"
    using pop_str_run [OF 1(2)] by blast
  have "\<forall>a. outside s (length cs + 2) a \<longrightarrow> m2 a = m a"
    using 1(3) 2(3) by (auto simp: outside_def)
  then show ?thesis using 1(1,2) 2(1,2) by blast
qed

text \<open>C37: On a string of digits \<open>atoi\<close> returns its decimal value when that is below 2^31 - 48, and
  overflows a signed integer, which C leaves undefined, for every value from there on: the digit's
  character code is added before 48 is taken off, so the last 48 values of \<open>int\<close> are lost.\<close>

theorem atoi_correct:
  assumes "str_at m p cs" and "\<forall>c \<in> set cs. is_digit c"
  shows "atoi m p = Some (if dec_value cs < 2 ^ 31 - 48 then Inr (dec_value cs) else Inl IntOverflow)"
  using atoi_loop_str [OF assms, of 0] atoi_loop_overflow [OF assms, of 0]
  by (simp add: atoi_def dec_value_def)

theorem atoi_correct_witness:
  "atoi ((\<lambda>_. 0)(16 := 52, 17 := 50)) 16 = Some (if dec_value [52, 50] < 2 ^ 31 - 48 then Inr 42 else Inl IntOverflow)"
proof -
  have "str_at ((\<lambda>_. 0)(16 := 52, 17 := 50)) 16 [52, 50]" and "\<forall>c \<in> set [52, 50 :: byte]. is_digit c"
    by (simp_all add: is_digit_def)
  then have "atoi ((\<lambda>_. 0)(16 := 52, 17 := 50)) 16 =
      Some (if dec_value [52, 50] < 2 ^ 31 - 48 then Inr (dec_value [52, 50]) else Inl IntOverflow)"
    by (rule atoi_correct)
  then show ?thesis by (simp add: dec_value_def)
qed

end
