(* ===== verification/Fifo.thy ===== *)
theory Fifo
  imports Chain
begin

text \<open>
  The contract of a first-in first-out queue, as the run queue and the receive buffer of the UART
  promise it: \<open>items s xs\<close> says that state \<open>s\<close> holds the elements \<open>xs\<close>, oldest first, and
  \<open>room xs x\<close> that \<open>x\<close> may be added to them.
\<close>

primrec enq_many :: "('a \<Rightarrow> 's \<Rightarrow> 's res) \<Rightarrow> 'a list \<Rightarrow> 's \<Rightarrow> 's res" where
  "enq_many enq [] s = Inr s"
| "enq_many enq (x # xs) s = rbind (enq x s) (enq_many enq xs)"

primrec deq_many :: "('s \<Rightarrow> ('a option \<times> 's) res) \<Rightarrow> nat \<Rightarrow> 's \<Rightarrow> ('a list \<times> 's) res" where
  "deq_many deq 0 s = Inr ([], s)"
| "deq_many deq (Suc n) s =
     rbind (deq s) (\<lambda>(x, s).
     case x of
       None \<Rightarrow> Inr ([], s)
     | Some x \<Rightarrow> rbind (deq_many deq n s) (\<lambda>(xs, s). Inr (x # xs, s)))"

text \<open>There is room for all of \<open>ys\<close>, one after the other.\<close>

primrec room_many :: "('a list \<Rightarrow> 'a \<Rightarrow> bool) \<Rightarrow> 'a list \<Rightarrow> 'a list \<Rightarrow> bool" where
  "room_many room xs [] \<longleftrightarrow> True"
| "room_many room xs (y # ys) \<longleftrightarrow> room xs y \<and> room_many room (xs @ [y]) ys"

locale fifo =
  fixes enq :: "'a \<Rightarrow> 's \<Rightarrow> 's res"
    and deq :: "'s \<Rightarrow> ('a option \<times> 's) res"
    and items :: "'s \<Rightarrow> 'a list \<Rightarrow> bool"
    and room :: "'a list \<Rightarrow> 'a \<Rightarrow> bool"
  assumes enq_items: "items s xs \<Longrightarrow> room xs x \<Longrightarrow> \<exists>s'. enq x s = Inr s' \<and> items s' (xs @ [x])"
    and deq_empty: "items s [] \<Longrightarrow> \<exists>s'. deq s = Inr (None, s') \<and> items s' []"
    and deq_items: "items s (x # xs) \<Longrightarrow> \<exists>s'. deq s = Inr (Some x, s') \<and> items s' xs"
begin

lemma enq_all:
  "items s xs \<Longrightarrow> room_many room xs ys \<Longrightarrow> \<exists>s'. enq_many enq ys s = Inr s' \<and> items s' (xs @ ys)"
proof (induction ys arbitrary: s xs)
  case Nil
  then show ?case by simp
next
  case (Cons y ys)
  obtain s1 where 1: "enq y s = Inr s1" "items s1 (xs @ [y])"
    using enq_items [OF Cons.prems(1)] Cons.prems(2) by auto
  then show ?case using Cons.IH [OF 1(2)] Cons.prems(2) by auto
qed

lemma deq_all:
  "items s (xs @ ys) \<Longrightarrow> \<exists>s'. deq_many deq (length xs) s = Inr (xs, s') \<and> items s' ys"
proof (induction xs arbitrary: s)
  case Nil
  then show ?case by simp
next
  case (Cons x xs)
  obtain s1 where 1: "deq s = Inr (Some x, s1)" "items s1 (xs @ ys)"
    using deq_items [of s x "xs @ ys"] Cons.prems by auto
  then show ?case using Cons.IH [OF 1(2)] by auto
qed

text \<open>What goes in comes out, in the same order, after what was there.\<close>

lemma in_order:
  assumes "items s xs" and "room_many room xs ys"
  shows "\<exists>s1 s2. enq_many enq ys s = Inr s1 \<and>
    deq_many deq (length xs + length ys) s1 = Inr (xs @ ys, s2) \<and> items s2 []"
proof -
  obtain s1 where 1: "enq_many enq ys s = Inr s1" "items s1 (xs @ ys)"
    using enq_all [OF assms] by blast
  then show ?thesis using deq_all [of s1 "xs @ ys" "[]"] by auto
qed

end

end
