(* ===== verification/Sched.thy ===== *)
theory Sched
  imports Fifo CString
begin

text \<open>
  The task queues of \<open>lib/scheduler.c\<close>: the task structure, the run queue, the queue of zombies
  and the slot for a task that a signal has set aside, linked through the tasks' \<open>next\<close> fields.
  A loop over a queue is a \<open>partial_function\<close>, so a walk along a cyclic queue has no result.
\<close>

section \<open>State\<close>

datatype tstate = WAITTING | RUNNING | EXIT

datatype tmode = KERNEL | USER

text \<open>Addresses of code: the kernel's own entry points, or any other place.\<close>

datatype code = Idle_thread | Switch_to_user_space | Child_return_from_fork | Signal_handler_wrapper
  | Code_at addr

record task =
  x19 :: nat
  x20 :: nat
  x21 :: nat
  x22 :: nat
  x23 :: nat
  x24 :: nat
  x25 :: nat
  x26 :: nat
  x27 :: nat
  x28 :: nat
  fp :: nat
  lr :: "code option"
  sp :: nat
  target_func :: "code option"
  user_sp :: addr
  sp_addr :: addr
  t_pid :: nat
  mode :: tmode
  handler :: "code option"
  t_state :: tstate
  fd_table :: "addr option list"
  cwd :: "byte list"
  t_next :: "addr option"

text \<open>\<open>current\<close> is the register that \<open>get_current\<close> reads (\<open>write_current\<close> and \<open>switch_to\<close> set it).\<close>

record sched =
  tasks :: "addr \<Rightarrow> task"
  run_queue :: "addr option"
  zombies_queue :: "addr option"
  temp_queue :: "addr option"
  pid :: nat
  current :: "addr option"

definition set_next :: "addr \<Rightarrow> addr option \<Rightarrow> (addr \<Rightarrow> task) \<Rightarrow> addr \<Rightarrow> task" where
  "set_next a q ts = ts(a := (ts a)\<lparr>t_next := q\<rparr>)"

section \<open>Queues\<close>

text \<open>\<open>while (cur) { prev = cur; cur = cur->next; }\<close>\<close>

partial_function (option) seek_tail :: "(addr \<Rightarrow> task) \<Rightarrow> addr \<Rightarrow> addr option \<Rightarrow> addr option" where
  "seek_tail ts prev cur =
     (case cur of None \<Rightarrow> Some prev | Some c \<Rightarrow> seek_tail ts c (t_next (ts c)))"

text \<open>\<open>enqueue\<close> and \<open>dequeue\<close> on the queue whose head is \<open>q\<close>.\<close>

definition enqueue :: "addr option \<Rightarrow> addr \<Rightarrow> (addr \<Rightarrow> task) \<Rightarrow> (addr option \<times> (addr \<Rightarrow> task)) res" where
  "enqueue q new_task ts =
     (let ts = set_next new_task None ts in
      case q of
        None \<Rightarrow> Inr (Some new_task, ts)
      | Some h \<Rightarrow>
          rbind (returns (seek_tail ts h q)) (\<lambda>prev.
          Inr (q, set_next prev (Some new_task) ts)))"

definition dequeue :: "addr option \<Rightarrow> (addr \<Rightarrow> task) \<Rightarrow> addr option \<times> addr option" where
  "dequeue q ts = (case q of None \<Rightarrow> (None, None) | Some t \<Rightarrow> (Some t, t_next (ts t)))"

definition enqueue_run :: "addr \<Rightarrow> sched \<Rightarrow> sched res" where
  "enqueue_run t s =
     rbind (enqueue (run_queue s) t (tasks s)) (\<lambda>(q, ts). Inr (s\<lparr>run_queue := q, tasks := ts\<rparr>))"

definition enqueue_zombie :: "addr \<Rightarrow> sched \<Rightarrow> sched res" where
  "enqueue_zombie t s =
     rbind (enqueue (zombies_queue s) t (tasks s)) (\<lambda>(q, ts). Inr (s\<lparr>zombies_queue := q, tasks := ts\<rparr>))"

definition dequeue_run :: "sched \<Rightarrow> (addr option \<times> sched) res" where
  "dequeue_run s = (let (t, q) = dequeue (run_queue s) (tasks s) in Inr (t, s\<lparr>run_queue := q\<rparr>))"

definition dequeue_zombie :: "sched \<Rightarrow> (addr option \<times> sched) res" where
  "dequeue_zombie s =
     (let (t, q) = dequeue (zombies_queue s) (tasks s) in Inr (t, s\<lparr>zombies_queue := q\<rparr>))"

section \<open>Scheduling\<close>

text \<open>How \<open>schedule\<close> ends: in the next task, or in the shell, which does not return.\<close>

datatype outcome = Switched | Shell

definition schedule :: "sched \<Rightarrow> (outcome \<times> sched) res" where
  "schedule s =
     rbind (dequeue_run s) (\<lambda>(next, s').
     rbind (deref (current s)) (\<lambda>cur.
     let s = s'\<lparr>tasks := set_next cur None (tasks s')\<rparr> in
     if t_pid (tasks s cur) = 1 \<and> next = None then
       rbind (enqueue_run cur (s\<lparr>pid := 2\<rparr>)) (\<lambda>s. Inr (Shell, s))
     else
       rbind (if t_state (tasks s cur) \<noteq> EXIT then enqueue_run cur s else enqueue_zombie cur s) (\<lambda>s.
       rbind (deref next) (\<lambda>n. Inr (Switched, s\<lparr>current := Some n\<rparr>)))))"

section \<open>Searching the run queue\<close>

text \<open>The walk to the task with a given pid, with the task before it.\<close>

partial_function (option) find_loop ::
    "(addr \<Rightarrow> task) \<Rightarrow> nat \<Rightarrow> addr option \<Rightarrow> addr option \<Rightarrow> (addr option \<times> addr option) option" where
  "find_loop ts p pre cur =
     (case cur of
        None \<Rightarrow> Some (pre, None)
      | Some c \<Rightarrow>
          if t_pid (ts c) = p then Some (pre, Some c) else find_loop ts p cur (t_next (ts c)))"

definition find_task :: "nat \<Rightarrow> sched \<Rightarrow> addr option res" where
  "find_task p s = rbind (returns (find_loop (tasks s) p None (run_queue s))) (\<lambda>(pre, cur). Inr cur)"

text \<open>\<open>kill_thread\<close> compares an \<open>int\<close> with the unsigned \<open>pid\<close> field: modulo 2^32.\<close>

definition kill_thread :: "int \<Rightarrow> sched \<Rightarrow> sched res" where
  "kill_thread p s =
     rbind (returns (find_loop (tasks s) (u32 p) None (run_queue s))) (\<lambda>(pre, found).
     case found of
       None \<Rightarrow> Inr s
     | Some cur \<Rightarrow>
         let next = t_next (tasks s cur);
             s = (case pre of
                    Some p \<Rightarrow> s\<lparr>tasks := set_next p next (tasks s)\<rparr>
                  | None \<Rightarrow> s\<lparr>run_queue := next\<rparr>) in
         enqueue_zombie cur s)"

definition remove_task :: "nat \<Rightarrow> sched \<Rightarrow> sched res" where
  "remove_task p s =
     rbind (returns (find_loop (tasks s) p None (run_queue s))) (\<lambda>(pre, found).
     case found of
       None \<Rightarrow> Inr s
     | Some cur \<Rightarrow>
         rbind (deref pre) (\<lambda>pr.
         let s = s\<lparr>tasks := set_next pr (t_next (tasks s cur)) (tasks s)\<rparr> in
         Inr (s\<lparr>temp_queue := Some cur, tasks := set_next cur None (tasks s)\<rparr>)))"

text \<open>\<open>while (cur->next) cur = cur->next;\<close>\<close>

partial_function (option) last_task :: "(addr \<Rightarrow> task) \<Rightarrow> addr \<Rightarrow> addr option" where
  "last_task ts cur = (case t_next (ts cur) of None \<Rightarrow> Some cur | Some n \<Rightarrow> last_task ts n)"

definition add_to_queue :: "sched \<Rightarrow> sched res" where
  "add_to_queue s =
     (case temp_queue s of
        None \<Rightarrow> Inr s
      | Some t \<Rightarrow>
          rbind (deref (run_queue s)) (\<lambda>h.
          rbind (returns (last_task (tasks s) h)) (\<lambda>cur.
          Inr (s\<lparr>tasks := set_next cur (Some t) (tasks s), temp_queue := None\<rparr>))))"

text \<open>The first descriptor that is not in use, or -1.\<close>

definition VFS_PROCESS_MAX_OPEN_FILE :: nat where
  "VFS_PROCESS_MAX_OPEN_FILE = 16"

function idle_fd :: "addr option list \<Rightarrow> nat \<Rightarrow> int" where
  "idle_fd fds i =
     (if i < VFS_PROCESS_MAX_OPEN_FILE then if fds ! i = None then int i else idle_fd fds (i + 1) else -1)"
  by pat_completeness auto
termination
  by (relation "measure (\<lambda>(fds, i). VFS_PROCESS_MAX_OPEN_FILE - i)") auto

declare idle_fd.simps [simp del]

definition get_task_idle_fd :: "addr \<Rightarrow> sched \<Rightarrow> int" where
  "get_task_idle_fd thread s = idle_fd (fd_table (tasks s thread)) 0"

end
