(* ===== verification/SchedProps.thy ===== *)
theory SchedProps
  imports Sched
begin

text \<open>
  The queues as lists of tasks: \<open>sched_ok s c rq zq tq\<close> says that task \<open>c\<close> is current, the run
  queue holds \<open>rq\<close>, the zombie queue \<open>zq\<close>, that \<open>tq\<close> (at most one task) is set aside, and that
  no task occurs twice. Each operation is related to its effect on these lists.
\<close>

abbreviation nexts :: "(addr \<Rightarrow> task) \<Rightarrow> addr \<Rightarrow> addr option" where
  "nexts ts a \<equiv> t_next (ts a)"

text \<open>Only links of tasks in \<open>A\<close> may differ.\<close>

definition only_next :: "addr set \<Rightarrow> (addr \<Rightarrow> task) \<Rightarrow> (addr \<Rightarrow> task) \<Rightarrow> bool" where
  "only_next A ts ts' \<longleftrightarrow>
     (\<forall>a. a \<notin> A \<longrightarrow> ts' a = ts a) \<and> (\<forall>a. ts' a = (ts a)\<lparr>t_next := t_next (ts' a)\<rparr>)"

lemma only_next_set_next: "a \<in> A \<Longrightarrow> only_next A ts (set_next a q ts)"
  by (simp add: only_next_def set_next_def)

lemma only_next_trans:
  assumes "only_next A ts ts'" and "only_next A ts' ts''"
  shows "only_next A ts ts''"
proof -
  have "ts'' a = (ts a)\<lparr>t_next := t_next (ts'' a)\<rparr>" for a
  proof -
    have "ts' a = (ts a)\<lparr>t_next := t_next (ts' a)\<rparr>" and 2: "ts'' a = (ts' a)\<lparr>t_next := t_next (ts'' a)\<rparr>"
      using assms unfolding only_next_def by blast+
    then have "(ts' a)\<lparr>t_next := t_next (ts'' a)\<rparr> = (ts a)\<lparr>t_next := t_next (ts'' a)\<rparr>"
      by (metis task.update_convs(23) task.surjective)
    with 2 show ?thesis by simp
  qed
  then show ?thesis using assms unfolding only_next_def by simp
qed

lemma only_next_mono: "only_next A ts ts' \<Longrightarrow> A \<subseteq> B \<Longrightarrow> only_next B ts ts'"
  unfolding only_next_def by blast

lemma only_next_fields:
  assumes "only_next A ts ts'"
  shows "t_pid (ts' a) = t_pid (ts a)" and "t_state (ts' a) = t_state (ts a)"
    and "mode (ts' a) = mode (ts a)" and "sp_addr (ts' a) = sp_addr (ts a)"
    and "user_sp (ts' a) = user_sp (ts a)"
proof -
  have e: "ts' a = (ts a)\<lparr>t_next := t_next (ts' a)\<rparr>" using assms unfolding only_next_def by blast
  show "t_pid (ts' a) = t_pid (ts a)" by (subst e) simp
  show "t_state (ts' a) = t_state (ts a)" by (subst e) simp
  show "mode (ts' a) = mode (ts a)" by (subst e) simp
  show "sp_addr (ts' a) = sp_addr (ts a)" by (subst e) simp
  show "user_sp (ts' a) = user_sp (ts a)" by (subst e) simp
qed

lemma nexts_set_next: "nexts (set_next a q ts) = (nexts ts)(a := q)"
  by (auto simp: set_next_def fun_eq_iff)

lemma t_next_set_next: "t_next (set_next a q ts b) = (if b = a then q else t_next (ts b))"
  by (simp add: set_next_def)

lemma chain_only_next:
  "only_next A ts ts' \<Longrightarrow> A \<inter> set as = {} \<Longrightarrow> chain (nexts ts') q as \<longleftrightarrow> chain (nexts ts) q as"
  by (rule chain_cong) (metis disjoint_iff only_next_def)

section \<open>The queue operations\<close>

lemma seek_tail_chain:
  "chain (nexts ts) q as \<Longrightarrow> seek_tail ts prev q = Some (if as = [] then prev else last as)"
proof (induction as arbitrary: q prev)
  case Nil
  then show ?case by (simp add: seek_tail.simps)
next
  case (Cons a as)
  then show ?case by (simp add: seek_tail.simps [of ts prev "Some a"])
qed

lemma enqueue_chain:
  assumes "chain (nexts ts) q as" and "t \<notin> set as"
  shows "\<exists>q' ts'. enqueue q t ts = Inr (q', ts') \<and> chain (nexts ts') q' (as @ [t]) \<and>
    only_next (insert t (set as)) ts ts'"
proof (cases as rule: rev_cases)
  case Nil
  then have "enqueue q t ts = Inr (Some t, set_next t None ts)"
    using assms(1) by (simp add: enqueue_def)
  moreover have "chain (nexts (set_next t None ts)) (Some t) [t]" by (simp add: nexts_set_next)
  ultimately show ?thesis using Nil only_next_set_next [of t "{t}"] by simp
next
  case (snoc bs z)
  let ?ts = "set_next t None ts"
  obtain h where h: "q = Some h" using assms(1) snoc by (cases q) auto
  have c: "chain (nexts ?ts) q as" using assms by (simp add: nexts_set_next)
  have "seek_tail ?ts h q = Some z" using seek_tail_chain [OF c] snoc by simp
  then have "enqueue q t ts = Inr (q, set_next z (Some t) ?ts)" using h by (simp add: enqueue_def)
  moreover have "chain (nexts (set_next z (Some t) ?ts)) q (as @ [t])"
  proof -
    have "z \<noteq> t" using assms(2) snoc by auto
    then have "nexts (set_next z (Some t) ?ts) = (nexts ts)(z := Some t, t := None)"
      by (auto simp: nexts_set_next fun_eq_iff)
    moreover have "chain ((nexts ts)(z := Some t, t := None)) q (bs @ [z, t])"
      by (rule chain_snoc) (use assms snoc in auto)
    ultimately show ?thesis using snoc by simp
  qed
  moreover have "only_next (insert t (set as)) ts (set_next z (Some t) ?ts)"
    using snoc by (intro only_next_trans [OF only_next_set_next only_next_set_next]) auto
  ultimately show ?thesis by blast
qed

lemma enqueue_run_chain:
  assumes "chain (nexts (tasks s)) (run_queue s) as" and "t \<notin> set as"
  shows "\<exists>s'. enqueue_run t s = Inr s' \<and> chain (nexts (tasks s')) (run_queue s') (as @ [t]) \<and>
    only_next (insert t (set as)) (tasks s) (tasks s') \<and>
    s' = s\<lparr>run_queue := run_queue s', tasks := tasks s'\<rparr>"
proof -
  obtain q ts where q: "enqueue (run_queue s) t (tasks s) = Inr (q, ts)"
    and c: "chain (nexts ts) q (as @ [t])" and o: "only_next (insert t (set as)) (tasks s) ts"
    using enqueue_chain [OF assms] by blast
  show ?thesis
    by (rule exI [of _ "s\<lparr>run_queue := q, tasks := ts\<rparr>"]) (simp add: enqueue_run_def q c o)
qed

lemma enqueue_zombie_chain:
  assumes "chain (nexts (tasks s)) (zombies_queue s) as" and "t \<notin> set as"
  shows "\<exists>s'. enqueue_zombie t s = Inr s' \<and> chain (nexts (tasks s')) (zombies_queue s') (as @ [t]) \<and>
    only_next (insert t (set as)) (tasks s) (tasks s') \<and>
    s' = s\<lparr>zombies_queue := zombies_queue s', tasks := tasks s'\<rparr>"
proof -
  obtain q ts where q: "enqueue (zombies_queue s) t (tasks s) = Inr (q, ts)"
    and c: "chain (nexts ts) q (as @ [t])" and o: "only_next (insert t (set as)) (tasks s) ts"
    using enqueue_chain [OF assms] by blast
  show ?thesis
    by (rule exI [of _ "s\<lparr>zombies_queue := q, tasks := ts\<rparr>"]) (simp add: enqueue_zombie_def q c o)
qed

text \<open>Both queues keep the contract of a first-in first-out queue.\<close>

interpretation run_fifo: fifo enqueue_run dequeue_run
  "\<lambda>s. chain (nexts (tasks s)) (run_queue s)" "\<lambda>xs x. x \<notin> set xs"
proof
  fix s :: sched and xs :: "addr list" and x
  assume "chain (nexts (tasks s)) (run_queue s) xs" and "x \<notin> set xs"
  then show "\<exists>s'. enqueue_run x s = Inr s' \<and> chain (nexts (tasks s')) (run_queue s') (xs @ [x])"
    using enqueue_run_chain by blast
next
  fix s :: sched assume "chain (nexts (tasks s)) (run_queue s) []"
  then show "\<exists>s'. dequeue_run s = Inr (None, s') \<and> chain (nexts (tasks s')) (run_queue s') []"
    by (simp add: dequeue_run_def dequeue_def)
next
  fix s :: sched and x xs assume "chain (nexts (tasks s)) (run_queue s) (x # xs)"
  then show "\<exists>s'. dequeue_run s = Inr (Some x, s') \<and> chain (nexts (tasks s')) (run_queue s') xs"
    by (simp add: dequeue_run_def dequeue_def)
qed

interpretation zombie_fifo: fifo enqueue_zombie dequeue_zombie
  "\<lambda>s. chain (nexts (tasks s)) (zombies_queue s)" "\<lambda>xs x. x \<notin> set xs"
proof
  fix s :: sched and xs :: "addr list" and x
  assume "chain (nexts (tasks s)) (zombies_queue s) xs" and "x \<notin> set xs"
  then show "\<exists>s'. enqueue_zombie x s = Inr s' \<and> chain (nexts (tasks s')) (zombies_queue s') (xs @ [x])"
    using enqueue_zombie_chain by blast
next
  fix s :: sched assume "chain (nexts (tasks s)) (zombies_queue s) []"
  then show "\<exists>s'. dequeue_zombie s = Inr (None, s') \<and> chain (nexts (tasks s')) (zombies_queue s') []"
    by (simp add: dequeue_zombie_def dequeue_def)
next
  fix s :: sched and x xs assume "chain (nexts (tasks s)) (zombies_queue s) (x # xs)"
  then show "\<exists>s'. dequeue_zombie s = Inr (Some x, s') \<and> chain (nexts (tasks s')) (zombies_queue s') xs"
    by (simp add: dequeue_zombie_def dequeue_def)
qed

section \<open>The scheduler's invariant\<close>

definition sched_ok :: "sched \<Rightarrow> addr \<Rightarrow> addr list \<Rightarrow> addr list \<Rightarrow> addr list \<Rightarrow> bool" where
  "sched_ok s c rq zq tq \<longleftrightarrow>
     current s = Some c \<and> chain (nexts (tasks s)) (run_queue s) rq \<and>
     chain (nexts (tasks s)) (zombies_queue s) zq \<and> chain (nexts (tasks s)) (temp_queue s) tq \<and>
     length tq \<le> 1 \<and> distinct (c # rq @ zq @ tq)"

lemma sched_okD:
  assumes "sched_ok s c rq zq tq"
  shows "current s = Some c" and "chain (nexts (tasks s)) (run_queue s) rq"
    and "chain (nexts (tasks s)) (zombies_queue s) zq" and "chain (nexts (tasks s)) (temp_queue s) tq"
    and "length tq \<le> 1" and "distinct (c # rq @ zq @ tq)"
  using assms unfolding sched_ok_def by blast+

lemma schedule_next:
  assumes "sched_ok s c (n # rq) zq tq" and "t_state (tasks s c) \<noteq> EXIT"
  shows "\<exists>s'. schedule s = Inr (Switched, s') \<and> sched_ok s' n (rq @ [c]) zq tq \<and>
    only_next (insert c (set rq)) (tasks s) (tasks s') \<and> pid s' = pid s"
proof -
  note ok = sched_okD [OF assms(1)]
  let ?s = "s\<lparr>run_queue := t_next (tasks s n), tasks := set_next c None (tasks s)\<rparr>"
  have dq: "dequeue_run s = Inr (Some n, s\<lparr>run_queue := t_next (tasks s n)\<rparr>)"
    using ok(2) by (simp add: dequeue_run_def dequeue_def)
  have "chain (nexts (tasks ?s)) (run_queue ?s) rq" and c: "c \<notin> set rq"
    using ok(2,6) by (auto simp: nexts_set_next)
  then obtain s' where s': "enqueue_run c ?s = Inr s'"
    "chain (nexts (tasks s')) (run_queue s') (rq @ [c])"
    "only_next (insert c (set rq)) (tasks ?s) (tasks s')"
    "s' = ?s\<lparr>run_queue := run_queue s', tasks := tasks s'\<rparr>"
    using enqueue_run_chain by blast
  have st: "t_state (tasks ?s c) \<noteq> EXIT" using assms(2) by (simp add: set_next_def)
  have run: "schedule s = Inr (Switched, s'\<lparr>current := Some n\<rparr>)"
    using dq s'(1) st ok(1) by (simp add: schedule_def)
  have on: "only_next (insert c (set rq)) (tasks s) (tasks s')"
    by (rule only_next_trans [OF _ s'(3)]) (simp add: only_next_set_next)
  have q: "zombies_queue s' = zombies_queue s" "temp_queue s' = temp_queue s" "pid s' = pid s"
    by (subst s'(4), simp)+
  have "sched_ok (s'\<lparr>current := Some n\<rparr>) n (rq @ [c]) zq tq"
    using ok s'(2) q chain_only_next [OF on, of zq] chain_only_next [OF on, of tq]
    unfolding sched_ok_def by auto
  then show ?thesis using run on q by auto
qed

lemma schedule_exit:
  assumes "sched_ok s c (n # rq) zq tq" and "t_state (tasks s c) = EXIT"
  shows "\<exists>s'. schedule s = Inr (Switched, s') \<and> sched_ok s' n rq (zq @ [c]) tq \<and>
    only_next (insert c (set zq)) (tasks s) (tasks s')"
proof -
  note ok = sched_okD [OF assms(1)]
  let ?s = "s\<lparr>run_queue := t_next (tasks s n), tasks := set_next c None (tasks s)\<rparr>"
  have dq: "dequeue_run s = Inr (Some n, s\<lparr>run_queue := t_next (tasks s n)\<rparr>)"
    using ok(2) by (simp add: dequeue_run_def dequeue_def)
  have "chain (nexts (tasks ?s)) (zombies_queue ?s) zq" and c: "c \<notin> set zq"
    using ok(3,6) by (auto simp: nexts_set_next)
  then obtain s' where s': "enqueue_zombie c ?s = Inr s'"
    "chain (nexts (tasks s')) (zombies_queue s') (zq @ [c])"
    "only_next (insert c (set zq)) (tasks ?s) (tasks s')"
    "s' = ?s\<lparr>zombies_queue := zombies_queue s', tasks := tasks s'\<rparr>"
    using enqueue_zombie_chain by blast
  have st: "t_state (tasks ?s c) = EXIT" using assms(2) by (simp add: set_next_def)
  have run: "schedule s = Inr (Switched, s'\<lparr>current := Some n\<rparr>)"
    using dq s'(1) st ok(1) by (simp add: schedule_def)
  have on: "only_next (insert c (set zq)) (tasks s) (tasks s')"
    by (rule only_next_trans [OF _ s'(3)]) (simp add: only_next_set_next)
  have q: "run_queue s' = t_next (tasks s n)" "temp_queue s' = temp_queue s"
    by (subst s'(4), simp)+
  have "sched_ok (s'\<lparr>current := Some n\<rparr>) n rq (zq @ [c]) tq"
    using ok s'(2) q chain_only_next [OF on, of rq] chain_only_next [OF on, of tq]
    unfolding sched_ok_def by auto
  then show ?thesis using run on by auto
qed

end
