(* ===== verification/SchedClaims.thy ===== *)
theory SchedClaims
  imports SchedProps
begin

text \<open>
  The properties of the scheduler: the tasks of the run queue take turns, every operation keeps the
  queues well formed, and the operations that a signal uses fail on the first task of the queue.
\<close>

section \<open>Searching\<close>

lemma find_loop_found:
  assumes "chain (nexts ts) q (as @ t # bs)" and "t_pid (ts t) = p" and "\<forall>a \<in> set as. t_pid (ts a) \<noteq> p"
  shows "find_loop ts p pre q = Some (if as = [] then pre else Some (last as), Some t)"
  using assms
proof (induction as arbitrary: pre q)
  case Nil
  then show ?case by (simp add: find_loop.simps)
next
  case (Cons a as)
  then show ?case by (simp add: find_loop.simps [of ts p pre "Some a"])
qed

lemma find_loop_none:
  assumes "chain (nexts ts) q as" and "\<forall>a \<in> set as. t_pid (ts a) \<noteq> p"
  shows "\<exists>pre'. find_loop ts p pre q = Some (pre', None)"
  using assms
proof (induction as arbitrary: pre q)
  case Nil
  then show ?case by (simp add: find_loop.simps)
next
  case (Cons a as)
  then show ?case by (simp add: find_loop.simps [of ts p pre "Some a"])
qed

text \<open>Either no task of the list has the pid, or there is a first one.\<close>

lemma first_with_pid:
  obtains (none) "\<forall>a \<in> set as. t_pid (ts a) \<noteq> p"
  | (found) xs t ys where "as = xs @ t # ys" and "t_pid (ts t) = p" and "\<forall>a \<in> set xs. t_pid (ts a) \<noteq> p"
  using that split_list_first_prop [of as "\<lambda>a. t_pid (ts a) = p"] by blast

section \<open>Killing and setting aside\<close>

text \<open>Unlinking a task from the run queue, as \<open>kill_thread\<close> does.\<close>

definition unlink :: "addr option \<Rightarrow> addr \<Rightarrow> sched \<Rightarrow> sched" where
  "unlink pre cur s =
     (case pre of
        Some p \<Rightarrow> s\<lparr>tasks := set_next p (t_next (tasks s cur)) (tasks s)\<rparr>
      | None \<Rightarrow> s\<lparr>run_queue := t_next (tasks s cur)\<rparr>)"

lemma unlink_other [simp]:
  "zombies_queue (unlink pre t s) = zombies_queue s" "temp_queue (unlink pre t s) = temp_queue s"
  "current (unlink pre t s) = current s" "pid (unlink pre t s) = pid s"
  by (simp_all add: unlink_def split: option.split)

lemma unlink_chain:
  assumes "chain (nexts (tasks s)) (run_queue s) (as @ t # bs)"
  shows "chain (nexts (tasks (unlink (if as = [] then None else Some (last as)) t s)))
      (run_queue (unlink (if as = [] then None else Some (last as)) t s)) (as @ bs) \<and>
    only_next (set as) (tasks s) (tasks (unlink (if as = [] then None else Some (last as)) t s))"
proof (cases "as = []")
  case True
  then show ?thesis using assms by (simp add: unlink_def only_next_def)
next
  case False
  then have "chain ((nexts (tasks s))(last as := nexts (tasks s) t)) (run_queue s) (as @ bs)"
    using chain_delete [OF assms] by simp
  then show ?thesis using False
    by (simp add: unlink_def nexts_set_next only_next_set_next)
qed

lemma kill_thread_found:
  assumes ok: "sched_ok s c (as @ t # bs) zq tq" and "t_pid (tasks s t) = u32 p"
    and "\<forall>a \<in> set as. t_pid (tasks s a) \<noteq> u32 p"
  shows "\<exists>s'. kill_thread p s = Inr s' \<and> sched_ok s' c (as @ bs) (zq @ [t]) tq"
proof -
  note D = sched_okD [OF ok]
  let ?pre = "if as = [] then None else Some (last as)"
  let ?s = "unlink ?pre t s"
  have u: "chain (nexts (tasks ?s)) (run_queue ?s) (as @ bs)" "only_next (set as) (tasks s) (tasks ?s)"
    using unlink_chain [OF D(2)] by blast+
  have dj: "set as \<inter> set zq = {}" "set as \<inter> set tq = {}" "insert t (set zq) \<inter> set (as @ bs) = {}"
      "insert t (set zq) \<inter> set tq = {}"
    using D(6) by auto
  have "chain (nexts (tasks ?s)) (zombies_queue ?s) zq"
    using D(3) chain_only_next [OF u(2) dj(1)] unfolding unlink_other by blast
  moreover have "t \<notin> set zq" using D(6) by auto
  ultimately obtain s' where s': "enqueue_zombie t ?s = Inr s'"
    "chain (nexts (tasks s')) (zombies_queue s') (zq @ [t])"
    "only_next (insert t (set zq)) (tasks ?s) (tasks s')"
    "s' = ?s\<lparr>zombies_queue := zombies_queue s', tasks := tasks s'\<rparr>"
    using enqueue_zombie_chain by blast
  have "kill_thread p s = Inr s'"
    using find_loop_found [OF D(2) assms(2,3), of None] s'(1)
    by (simp add: kill_thread_def unlink_def Let_def split: option.splits)
  moreover have q: "run_queue s' = run_queue ?s" "temp_queue s' = temp_queue s" "current s' = current s"
    by (subst s'(4), simp)+
  have "chain (nexts (tasks s')) (run_queue s') (as @ bs)"
    using u(1) q(1) chain_only_next [OF s'(3) dj(3)] by (simp only:)
  moreover have "chain (nexts (tasks s')) (temp_queue s') tq"
    using D(4) q(2) chain_only_next [OF s'(3) dj(4)] chain_only_next [OF u(2) dj(2)] by (simp only:)
  ultimately show ?thesis using D(1,5,6) s'(2) q(3) by (auto simp: sched_ok_def)
qed

lemma kill_thread_absent:
  assumes "sched_ok s c rq zq tq" and "\<forall>a \<in> set rq. t_pid (tasks s a) \<noteq> u32 p"
  shows "kill_thread p s = Inr s"
  using find_loop_none [OF sched_okD(2) [OF assms(1)] assms(2), of None] by (auto simp: kill_thread_def)

lemma remove_task_found:
  assumes ok: "sched_ok s c (as @ t # bs) zq tq" and "as \<noteq> []" and "t_pid (tasks s t) = p"
    and "\<forall>a \<in> set as. t_pid (tasks s a) \<noteq> p"
  shows "\<exists>s'. remove_task p s = Inr s' \<and> sched_ok s' c (as @ bs) zq [t]"
proof -
  note D = sched_okD [OF ok]
  let ?s = "unlink (Some (last as)) t s"
  let ?ts = "set_next t None (tasks ?s)"
  let ?s' = "?s\<lparr>temp_queue := Some t, tasks := ?ts\<rparr>"
  have u: "chain (nexts (tasks ?s)) (run_queue ?s) (as @ bs)" "only_next (set as) (tasks s) (tasks ?s)"
    using unlink_chain [OF D(2)] assms(2) by simp_all
  have "remove_task p s = Inr ?s'"
    using find_loop_found [OF D(2) assms(3,4), of None] assms(2)
    by (simp add: remove_task_def unlink_def Let_def)
  moreover have "chain (nexts ?ts) (run_queue ?s) (as @ bs)"
    using u(1) D(6) by (auto simp: nexts_set_next)
  moreover have "set as \<inter> set zq = {}" using D(6) by auto
  then have "chain (nexts ?ts) (zombies_queue s) zq"
    using D(3,6) chain_only_next [OF u(2), of zq] by (simp add: nexts_set_next)
  ultimately show ?thesis using D(1,6) by (auto simp: sched_ok_def t_next_set_next)
qed

lemma remove_task_absent:
  assumes "sched_ok s c rq zq tq" and "\<forall>a \<in> set rq. t_pid (tasks s a) \<noteq> p"
  shows "remove_task p s = Inr s"
  using find_loop_none [OF sched_okD(2) [OF assms(1)] assms(2), of None] by (auto simp: remove_task_def)

lemma remove_task_first:
  assumes "sched_ok s c (t # rq) zq tq" and "t_pid (tasks s t) = p"
  shows "remove_task p s = Inl NullDeref"
  using find_loop_found [of "tasks s" "run_queue s" "[]" t rq p None] sched_okD(2) [OF assms(1)] assms(2)
  by (simp add: remove_task_def)

lemma last_task_chain:
  "chain (nexts ts) (Some h) as \<Longrightarrow> last_task ts h = Some (last as)"
proof (induction as arbitrary: h)
  case Nil
  then show ?case by simp
next
  case (Cons a as)
  then show ?case by (cases as) (simp_all add: last_task.simps [of ts a])
qed

lemma add_to_queue_back:
  assumes ok: "sched_ok s c rq zq [t]" and "rq \<noteq> []"
  shows "\<exists>s'. add_to_queue s = Inr s' \<and> sched_ok s' c (rq @ [t]) zq []"
proof -
  note D = sched_okD [OF ok]
  obtain h as z where rq: "rq = as @ [z]" and h: "run_queue s = Some h"
    using assms(2) D(2) by (cases rq rule: rev_cases; cases "run_queue s") auto
  let ?ts = "set_next z (Some t) (tasks s)"
  have t: "temp_queue s = Some t" "t_next (tasks s t) = None" using D(4) by simp_all
  have "last_task (tasks s) h = Some z" using last_task_chain [of "tasks s" h rq] D(2) h rq by simp
  then have "add_to_queue s = Inr (s\<lparr>tasks := ?ts, temp_queue := None\<rparr>)"
    using t h by (simp add: add_to_queue_def)
  moreover have "(nexts (tasks s))(z := Some t, t := None) = nexts ?ts"
    using t D(6) rq by (auto simp: nexts_set_next fun_eq_iff)
  then have "chain (nexts ?ts) (run_queue s) (rq @ [t])"
    using chain_snoc [of "nexts (tasks s)" "run_queue s" as z t] D(2,6) rq by auto
  moreover have "chain (nexts ?ts) (zombies_queue s) zq"
    using D(3,6) rq by (auto simp: nexts_set_next)
  ultimately show ?thesis using D(1,6) by (auto simp: sched_ok_def)
qed

section \<open>Runs of the scheduler\<close>

primrec run_schedule :: "nat \<Rightarrow> sched \<Rightarrow> sched res" where
  "run_schedule 0 s = Inr s"
| "run_schedule (Suc n) s =
     rbind (schedule s) (\<lambda>(r, s'). if r = Shell then Inr s' else run_schedule n s')"

lemma run_schedule_rotates:
  assumes "sched_ok s c rq zq tq" and "rq \<noteq> []" and "\<forall>t \<in> set (c # rq). t_state (tasks s t) \<noteq> EXIT"
  shows "\<exists>s'. run_schedule k s = Inr s' \<and>
    sched_ok s' (hd (rotate k (c # rq))) (tl (rotate k (c # rq))) zq tq"
  using assms
proof (induction k arbitrary: s c rq)
  case 0
  then show ?case by simp
next
  case (Suc k)
  obtain n rs where rq: "rq = n # rs" using Suc.prems(2) by (cases rq) auto
  have ok: "sched_ok s c (n # rs) zq tq" and ne: "t_state (tasks s c) \<noteq> EXIT" using Suc.prems rq by simp_all
  obtain s1 where s1: "schedule s = Inr (Switched, s1)" "sched_ok s1 n (rs @ [c]) zq tq"
    "only_next (insert c (set rs)) (tasks s) (tasks s1)"
    using schedule_next [OF ok ne] by blast
  have "\<forall>t \<in> set (n # rs @ [c]). t_state (tasks s1 t) \<noteq> EXIT"
    using Suc.prems(3) rq only_next_fields(2) [OF s1(3)] by auto
  then obtain s' where "run_schedule k s1 = Inr s'"
    "sched_ok s' (hd (rotate k (n # rs @ [c]))) (tl (rotate k (n # rs @ [c]))) zq tq"
    using Suc.IH [OF s1(2)] by auto
  then show ?case using s1(1) rq by (simp add: rotate1_rotate_swap)
qed

section \<open>Reachable states\<close>

definition on_queue :: "(addr \<Rightarrow> task) \<Rightarrow> addr option \<Rightarrow> addr \<Rightarrow> bool" where
  "on_queue ts q a \<longleftrightarrow> (\<exists>as. chain (nexts ts) q as \<and> a \<in> set as)"

text \<open>A task structure that the scheduler does not know of.\<close>

definition unused :: "addr \<Rightarrow> sched \<Rightarrow> bool" where
  "unused t s \<longleftrightarrow> current s \<noteq> Some t \<and> \<not> on_queue (tasks s) (run_queue s) t \<and>
     \<not> on_queue (tasks s) (zombies_queue s) t \<and> \<not> on_queue (tasks s) (temp_queue s) t"

text \<open>
  What can happen to the queues: a switch, the exit of the current task (which only marks it), a new
  task, a kill, the removal of a zombie, and the two halves of a signal.
\<close>

inductive sched_step :: "sched \<Rightarrow> sched \<Rightarrow> bool" where
  switched: "schedule s = Inr (Switched, s') \<Longrightarrow> sched_step s s'"
| exited: "current s = Some c \<Longrightarrow>
    sched_step s (s\<lparr>tasks := (tasks s)(c := (tasks s c)\<lparr>t_state := EXIT\<rparr>)\<rparr>)"
| created: "unused t s \<Longrightarrow> enqueue_run t (s\<lparr>tasks := (tasks s)(t := new), pid := p\<rparr>) = Inr s' \<Longrightarrow> sched_step s s'"
| killed: "kill_thread p s = Inr s' \<Longrightarrow> sched_step s s'"
| reaped: "dequeue_zombie s = Inr (Some t, s') \<Longrightarrow> sched_step s s'"
| set_aside: "remove_task i s = Inr s' \<Longrightarrow> sched_step s s'"
| put_back: "add_to_queue s = Inr s' \<Longrightarrow> sched_step s s'"

definition sched_wf :: "sched \<Rightarrow> bool" where
  "sched_wf s \<longleftrightarrow> (\<exists>c rq zq tq. sched_ok s c rq zq tq)"

lemma sched_wfI: "sched_ok s c rq zq tq \<Longrightarrow> sched_wf s"
  unfolding sched_wf_def by blast

lemma nexts_upd_state: "nexts (ts(c := (ts c)\<lparr>t_state := e\<rparr>)) = nexts ts"
  by (auto simp: fun_eq_iff)

lemma create_wf:
  assumes ok: "sched_ok s c rq zq tq" and u: "unused t s"
    and run: "enqueue_run t (s\<lparr>tasks := (tasks s)(t := new), pid := p\<rparr>) = Inr s'"
  shows "sched_ok s' c (rq @ [t]) zq tq"
proof -
  note D = sched_okD [OF ok]
  have t: "t \<notin> set rq" "t \<notin> set zq" "t \<notin> set tq" "t \<noteq> c"
    using u D(1-4) by (auto simp: unused_def on_queue_def)
  let ?s = "s\<lparr>tasks := (tasks s)(t := new), pid := p\<rparr>"
  have ch: "chain (nexts (tasks ?s)) q as \<longleftrightarrow> chain (nexts (tasks s)) q as" if "t \<notin> set as" for q as
    using that by (intro chain_cong) auto
  have "chain (nexts (tasks ?s)) (run_queue ?s) rq" using D(2) ch [OF t(1)] by simp
  then obtain s1 where s1: "enqueue_run t ?s = Inr s1"
    "chain (nexts (tasks s1)) (run_queue s1) (rq @ [t])"
    "only_next (insert t (set rq)) (tasks ?s) (tasks s1)"
    "s1 = ?s\<lparr>run_queue := run_queue s1, tasks := tasks s1\<rparr>"
    using enqueue_run_chain [OF _ t(1)] by blast
  have e: "s' = s1" using run s1(1) by simp
  have q: "zombies_queue s1 = zombies_queue s" "temp_queue s1 = temp_queue s" "current s1 = current s"
    by (subst s1(4), simp)+
  have dj: "insert t (set rq) \<inter> set zq = {}" "insert t (set rq) \<inter> set tq = {}" using D(6) t by auto
  have "chain (nexts (tasks s1)) (zombies_queue s) zq" "chain (nexts (tasks s1)) (temp_queue s) tq"
    using D(3,4) ch [OF t(2)] ch [OF t(3)] chain_only_next [OF s1(3) dj(1)] chain_only_next [OF s1(3) dj(2)]
    by simp_all
  then show ?thesis using D(1,5,6) t s1(2) q unfolding e sched_ok_def by auto
qed

lemma switch_wf:
  assumes ok: "sched_ok s c rq zq tq" and run: "schedule s = Inr (Switched, s')"
  shows "sched_wf s'"
proof (cases rq)
  case Nil
  then obtain s1 where "dequeue_run s = Inr (None, s1)"
    using run_fifo.deq_empty [of s] sched_okD(2) [OF ok] by auto
  then show ?thesis using run sched_okD(1) [OF ok]
    by (auto simp: schedule_def Let_def rbind_eq_Inr split: if_splits)
next
  case (Cons n rs)
  with ok have ok: "sched_ok s c (n # rs) zq tq" by simp
  show ?thesis
  proof (cases "t_state (tasks s c) = EXIT")
    case True
    then show ?thesis using schedule_exit [OF ok] run by (auto intro: sched_wfI)
  next
    case False
    then show ?thesis using schedule_next [OF ok] run by (auto intro: sched_wfI)
  qed
qed

lemma kill_wf:
  assumes ok: "sched_ok s c rq zq tq" and run: "kill_thread p s = Inr s'"
  shows "sched_wf s'"
proof (cases rule: first_with_pid [where as = rq and ts = "tasks s" and p = "u32 p"])
  case none
  then show ?thesis using kill_thread_absent [OF ok] run ok by (auto intro: sched_wfI)
next
  case (found xs t ys)
  then show ?thesis using kill_thread_found [of s c xs t ys zq tq p] ok run by (auto intro: sched_wfI)
qed

lemma aside_wf:
  assumes ok: "sched_ok s c rq zq tq" and run: "remove_task i s = Inr s'"
  shows "sched_wf s'"
proof (cases rule: first_with_pid [where as = rq and ts = "tasks s" and p = i])
  case none
  then show ?thesis using remove_task_absent [OF ok] run ok by (auto intro: sched_wfI)
next
  case (found xs t ys)
  show ?thesis
  proof (cases "xs = []")
    case True
    then show ?thesis using remove_task_first [of s c t ys zq tq i] ok run found by simp
  next
    case False
    then show ?thesis using remove_task_found [of s c xs t ys zq tq i] ok run found by (auto intro: sched_wfI)
  qed
qed

lemma back_wf:
  assumes ok: "sched_ok s c rq zq tq" and run: "add_to_queue s = Inr s'"
  shows "sched_wf s'"
proof (cases tq)
  case Nil
  then have "temp_queue s = None" using sched_okD(4) [OF ok] by simp
  then show ?thesis using run ok by (auto simp: add_to_queue_def intro: sched_wfI)
next
  case (Cons t ts)
  then have tq: "tq = [t]" "temp_queue s = Some t" using sched_okD(4,5) [OF ok] by simp_all
  have "rq \<noteq> []"
    using run sched_okD(2) [OF ok] tq(2) by (auto simp: add_to_queue_def)
  then show ?thesis using add_to_queue_back [of s c rq zq t] ok run tq by (auto intro: sched_wfI)
qed

lemma reap_wf:
  assumes ok: "sched_ok s c rq zq tq" and run: "dequeue_zombie s = Inr (Some t, s')"
  shows "sched_wf s'"
proof -
  note D = sched_okD [OF ok]
  have s': "zombies_queue s = Some t" "s' = s\<lparr>zombies_queue := t_next (tasks s t)\<rparr>"
    using run by (auto simp: dequeue_zombie_def dequeue_def split: option.splits)
  then obtain zs where zs: "zq = t # zs" "chain (nexts (tasks s)) (t_next (tasks s t)) zs"
    using D(3) by (auto simp: chain_Some)
  then have "sched_ok s' c rq zs tq" using D s'(2) by (auto simp: sched_ok_def)
  then show ?thesis by (rule sched_wfI)
qed

lemma sched_step_wf: "sched_step s s' \<Longrightarrow> sched_wf s \<Longrightarrow> sched_wf s'"
proof (induction rule: sched_step.induct)
  case (exited s c)
  then obtain c' rq zq tq where ok: "sched_ok s c' rq zq tq" by (auto simp: sched_wf_def)
  then have "sched_ok (s\<lparr>tasks := (tasks s)(c := (tasks s c)\<lparr>t_state := EXIT\<rparr>)\<rparr>) c' rq zq tq"
    by (simp add: sched_ok_def nexts_upd_state del: fun_upd_apply)
  then show ?case by (rule sched_wfI)
next
  case (created t s new p s')
  then obtain c rq zq tq where "sched_ok s c rq zq tq" by (auto simp: sched_wf_def)
  from create_wf [OF this created.hyps] show ?case by (rule sched_wfI)
next
  case (reaped s t s')
  then show ?case using reap_wf by (auto simp: sched_wf_def [of s])
next
  case (switched s s')
  then show ?case using switch_wf by (auto simp: sched_wf_def [of s])
next
  case (killed p s s')
  then show ?case using kill_wf by (auto simp: sched_wf_def [of s])
next
  case (set_aside i s s')
  then show ?case using aside_wf by (auto simp: sched_wf_def [of s])
next
  case (put_back s s')
  then show ?case using back_wf by (auto simp: sched_wf_def [of s])
qed

inductive sched_reachable :: "sched \<Rightarrow> sched \<Rightarrow> bool" for s0 where
  start: "sched_reachable s0 s0"
| next_step: "sched_reachable s0 s \<Longrightarrow> sched_step s s' \<Longrightarrow> sched_reachable s0 s'"

lemma sched_reachable_wf: "sched_reachable s0 s \<Longrightarrow> sched_wf s0 \<Longrightarrow> sched_wf s"
  by (induction rule: sched_reachable.induct) (auto intro: sched_step_wf)

section \<open>Examples\<close>

definition demo_task :: "nat \<Rightarrow> addr option \<Rightarrow> task" where
  "demo_task p q = \<lparr>x19 = 0, x20 = 0, x21 = 0, x22 = 0, x23 = 0, x24 = 0, x25 = 0, x26 = 0, x27 = 0,
     x28 = 0, fp = 0, lr = None, sp = 0, target_func = None, user_sp = 0, sp_addr = 0, t_pid = p,
     mode = KERNEL, handler = None, t_state = RUNNING, fd_table = replicate 16 None, cwd = [47],
     t_next = q\<rparr>"

text \<open>Tasks 2 and 3 wait while task 1 runs.\<close>

definition demo_sched :: sched where
  "demo_sched = \<lparr>tasks = (\<lambda>_. demo_task 0 None)(100 := demo_task 1 None, 200 := demo_task 2 (Some 300),
       300 := demo_task 3 None),
     run_queue = Some 200, zombies_queue = None, temp_queue = None, pid = 4, current = Some 100\<rparr>"

lemma demo_sched_ok: "sched_ok demo_sched 100 [200, 300] [] []"
  by (simp add: sched_ok_def demo_sched_def demo_task_def)

section \<open>The start of the shell\<close>

text \<open>When the first task (pid 1) calls \<open>schedule\<close> and no other is ready, the shell is started with this task as the current one and,
  at the same time, as the only one of the run queue; the next pid is 2.\<close>

lemma schedule_starts_shell:
  assumes ok: "sched_ok s c [] zq tq" and one: "t_pid (tasks s c) = 1"
  shows "\<exists>s'. schedule s = Inr (Shell, s') \<and> current s' = Some c \<and> chain (nexts (tasks s')) (run_queue s') [c] \<and>
    zombies_queue s' = zombies_queue s \<and> temp_queue s' = temp_queue s \<and> pid s' = 2 \<and> \<not> sched_wf s'"
proof -
  note D = sched_okD [OF ok]
  have rq: "run_queue s = None" using D(2) by simp
  let ?s = "s\<lparr>run_queue := None, tasks := set_next c None (tasks s), pid := 2\<rparr>"
  have "chain (nexts (tasks ?s)) (run_queue ?s) []" using rq by simp
  then obtain s' where s': "enqueue_run c ?s = Inr s'" "chain (nexts (tasks s')) (run_queue s') [c]"
    "s' = ?s\<lparr>run_queue := run_queue s', tasks := tasks s'\<rparr>"
    using enqueue_run_chain [of ?s "[]" c] by auto
  have f: "current s' = Some c" "zombies_queue s' = zombies_queue s" "temp_queue s' = temp_queue s" "pid s' = 2"
    using D(1) by (subst s'(3), simp)+
  have "schedule s = Inr (Shell, s')"
    using s'(1) D(1) one rq by (simp add: schedule_def dequeue_run_def dequeue_def Let_def set_next_def)
  moreover have "\<not> sched_wf s'"
  proof
    assume "sched_wf s'"
    then obtain c' rq' zq' tq' where "sched_ok s' c' rq' zq' tq'" by (auto simp: sched_wf_def)
    note D' = sched_okD [OF this]
    have "rq' = [c]" by (rule chain_unique [OF D'(2) s'(2)])
    then show False using D'(1,6) f(1) by auto
  qed
  ultimately show ?thesis using s'(2) f by blast
qed

section \<open>Properties\<close>

text \<open>Tasks that do not exit take turns: after any number of calls of schedule the current task
  and the run queue are the rotation of what they were, so that each task of the queue runs after at
  most as many switches as the queue is long, and again after every full round.\<close>

theorem schedule_round_robin:
  assumes "sched_ok s c rq zq tq" and "rq \<noteq> []" and "\<forall>t \<in> set (c # rq). t_state (tasks s t) \<noteq> EXIT"
  shows "(\<exists>s'. run_schedule k s = Inr s' \<and>
      sched_ok s' (hd (rotate k (c # rq))) (tl (rotate k (c # rq))) zq tq) \<and>
    (\<forall>i < length rq. \<exists>s'. run_schedule (Suc i) s = Inr s' \<and> current s' = Some (rq ! i))"
proof (intro conjI allI impI)
  fix i assume i: "i < length rq"
  have "hd (rotate (Suc i) (c # rq)) = (c # rq) ! (Suc i mod length (c # rq))"
    by (rule hd_rotate_conv_nth) simp
  then have "hd (rotate (Suc i) (c # rq)) = rq ! i" using i by simp
  then show "\<exists>s'. run_schedule (Suc i) s = Inr s' \<and> current s' = Some (rq ! i)"
    using run_schedule_rotates [OF assms, of "Suc i"] by (metis sched_okD(1))
qed (rule run_schedule_rotates [OF assms])

theorem schedule_round_robin_example:
  "\<exists>s'. run_schedule 2 demo_sched = Inr s' \<and> current s' = Some 300"
proof -
  have "\<forall>t \<in> set (100 # [200, 300]). t_state (tasks demo_sched t) \<noteq> EXIT"
    by (simp add: demo_sched_def demo_task_def)
  from schedule_round_robin [OF demo_sched_ok _ this, of 2]
  have "\<forall>i < 2. \<exists>s'. run_schedule (Suc i) demo_sched = Inr s' \<and> current s' = Some ([200, 300] ! i)"
    by simp
  from spec [OF this, of 1] show ?thesis by (simp add: numeral_2_eq_2)
qed

text \<open>C11: Whatever sequence of switches, exits, new tasks, kills, removals of zombies and signals
  happens to well-formed queues, the queues stay well formed: both are NULL-terminated lists, no
  task is on two of them or twice on one, and the current task is on none. (A switch is a schedule that ends in a
  task. The start of the shell, when the first task is alone, is not among the steps: it leaves the current task on
  the run queue, see schedule_starts_shell.)\<close>

theorem queues_stay_well_formed:
  assumes "sched_reachable s0 s" and "sched_wf s0"
  shows "sched_wf s"
  using assms by (rule sched_reachable_wf)

theorem queues_stay_well_formed_witness:
  "\<exists>s. kill_thread 3 demo_sched = Inr s \<and> sched_reachable demo_sched s \<and> sched_wf s"
proof -
  have "sched_ok demo_sched 100 ([200] @ 300 # []) [] []" using demo_sched_ok by simp
  then obtain s where s: "kill_thread 3 demo_sched = Inr s"
    using kill_thread_found [of demo_sched 100 "[200]" 300 "[]" "[]" "[]" 3]
    by (auto simp: demo_sched_def demo_task_def u32_def)
  have "sched_step demo_sched s" by (rule sched_step.killed [OF s])
  then have r: "sched_reachable demo_sched s" by (rule sched_reachable.next_step [OF sched_reachable.start])
  moreover have "sched_wf demo_sched" by (rule sched_wfI [OF demo_sched_ok])
  ultimately show ?thesis using queues_stay_well_formed s by blast
qed

text \<open>Tasks put on the run queue come off it in the order in which they were put on it, after
  those that were there.\<close>

theorem run_queue_in_order:
  assumes "chain (nexts (tasks s)) (run_queue s) xs" and "distinct (xs @ ys)"
  shows "\<exists>s1 s2. enq_many enqueue_run ys s = Inr s1 \<and>
    deq_many dequeue_run (length xs + length ys) s1 = Inr (xs @ ys, s2) \<and> run_queue s2 = None"
proof -
  have "room_many (\<lambda>xs x. x \<notin> set xs) xs ys" using assms(2)
    by (induction ys arbitrary: xs) auto
  from run_fifo.in_order [OF assms(1) this] show ?thesis by auto
qed

theorem run_queue_in_order_example:
  "\<exists>s1 s2. enq_many enqueue_run [100] demo_sched = Inr s1 \<and>
    deq_many dequeue_run (length [200, 300 :: addr] + length [100 :: addr]) s1 = Inr ([200, 300] @ [100], s2) \<and>
    run_queue s2 = None"
  by (rule run_queue_in_order) (simp_all add: demo_sched_def demo_task_def)

text \<open>kill_thread of a pid on the run queue moves the first task with this pid to the end of the
  zombie queue and leaves the order of all others as it was; a pid that no queued task has changes
  nothing.\<close>

theorem kill_thread_correct:
  assumes "sched_ok s c rq zq tq"
  shows "\<exists>s' rq' zq'. kill_thread p s = Inr s' \<and> sched_ok s' c rq' zq' tq \<and>
    (if \<exists>t \<in> set rq. t_pid (tasks s t) = u32 p
     then \<exists>as t bs. rq = as @ t # bs \<and> t_pid (tasks s t) = u32 p \<and>
       (\<forall>a \<in> set as. t_pid (tasks s a) \<noteq> u32 p) \<and> rq' = as @ bs \<and> zq' = zq @ [t]
     else s' = s \<and> rq' = rq \<and> zq' = zq)"
proof (cases rule: first_with_pid [where as = rq and ts = "tasks s" and p = "u32 p"])
  case none
  then show ?thesis using kill_thread_absent [OF assms] assms by auto
next
  case (found xs t ys)
  then obtain s' where s': "kill_thread p s = Inr s'" "sched_ok s' c (xs @ ys) (zq @ [t]) tq"
    using kill_thread_found [of s c xs t ys zq tq p] assms by auto
  moreover have "\<exists>t \<in> set rq. t_pid (tasks s t) = u32 p" using found by auto
  ultimately have "\<exists>as t' bs. rq = as @ t' # bs \<and> t_pid (tasks s t') = u32 p \<and>
      (\<forall>a \<in> set as. t_pid (tasks s a) \<noteq> u32 p) \<and> xs @ ys = as @ bs \<and> zq @ [t] = zq @ [t']"
    "\<exists>t \<in> set rq. t_pid (tasks s t) = u32 p"
    using found by blast+
  then show ?thesis using s' by (intro exI [of _ s'] exI [of _ "xs @ ys"] exI [of _ "zq @ [t]"]) simp
qed

theorem kill_thread_correct_example:
  "\<exists>s'. kill_thread 3 demo_sched = Inr s' \<and> sched_ok s' 100 [200] [300] []"
proof -
  let ?P = "\<lambda>as t bs. [200, 300] = as @ t # bs \<and> t_pid (tasks demo_sched t) = u32 3"
  have only: "as = [200] \<and> t = 300 \<and> bs = []" if "?P as t bs" for as t bs
    using that by (auto simp: demo_sched_def demo_task_def u32_def Cons_eq_append_conv)
  have "\<exists>t \<in> set [200, 300]. t_pid (tasks demo_sched t) = u32 3"
    by (simp add: demo_sched_def demo_task_def u32_def)
  then show ?thesis
    using kill_thread_correct [OF demo_sched_ok, of 3] only by fastforce
qed

end
