(* ===== verification/Timer.thy ===== *)
theory Timer
  imports Kmalloc StringProps
begin

text \<open>
  The timer queue of \<open>lib/timer.c\<close>: a linked list of timers with their absolute expiry times, and
  the core timer, of which the model keeps whether its interrupt is unmasked and the last value
  written to \<open>cntp_tval_el0\<close>. The tick counter is read through a parameter \<open>now\<close>.
\<close>

section \<open>State\<close>

record 'cb timer_list =
  expired_time :: nat
  call_back :: 'cb
  t_msg :: "byte list"
  tm_next :: "addr option"

record 'cb timers =
  t_heap :: pool_state
  timer :: "addr \<Rightarrow> 'cb timer_list"
  timer_queue :: "addr option"
  irq_enabled :: bool
  tval :: nat

definition SIZEOF_timer_list :: nat where
  "SIZEOF_timer_list = 128"

definition core_timer_interrupt_enable :: "'cb timers \<Rightarrow> 'cb timers" where
  "core_timer_interrupt_enable s = s\<lparr>irq_enabled := True\<rparr>"

definition core_timer_interrupt_disable :: "'cb timers \<Rightarrow> 'cb timers" where
  "core_timer_interrupt_disable s = s\<lparr>irq_enabled := False\<rparr>"

definition set_core_timer_interrupt :: "nat \<Rightarrow> 'cb timers \<Rightarrow> 'cb timers" where
  "set_core_timer_interrupt t s = s\<lparr>tval := t\<rparr>"

definition link_timer :: "addr \<Rightarrow> addr option \<Rightarrow> 'cb timers \<Rightarrow> 'cb timers" where
  "link_timer a q s = s\<lparr>timer := (timer s)(a := (timer s a)\<lparr>tm_next := q\<rparr>)\<rparr>"

section \<open>Adding a timer\<close>

text \<open>\<open>while (next && pre->expired_time < timer->expired_time) { pre = next; next = next->next; }\<close>\<close>

partial_function (option) seek_place ::
    "(addr \<Rightarrow> 'cb timer_list) \<Rightarrow> nat \<Rightarrow> addr \<Rightarrow> addr option \<Rightarrow> (addr \<times> addr option) option" where
  "seek_place tm t pre next =
     (case next of
        None \<Rightarrow> Some (pre, None)
      | Some n \<Rightarrow>
          if expired_time (tm pre) < t then seek_place tm t n (tm_next (tm n)) else Some (pre, Some n))"

definition insert_timer :: "addr \<Rightarrow> int \<Rightarrow> 'cb timers \<Rightarrow> 'cb timers res" where
  "insert_timer a time s =
     (case timer_queue s of
        None \<Rightarrow>
          Inr (core_timer_interrupt_enable (set_core_timer_interrupt (u64 time) (s\<lparr>timer_queue := Some a\<rparr>)))
      | Some h \<Rightarrow>
          if expired_time (timer s h) > expired_time (timer s a) then
            let s = link_timer a (Some h) s in
            Inr (core_timer_interrupt_enable (set_core_timer_interrupt (u64 time) (s\<lparr>timer_queue := Some a\<rparr>)))
          else
            rbind (returns (seek_place (timer s) (expired_time (timer s a)) h (tm_next (timer s h))))
              (\<lambda>(pre, next). Inr (link_timer a next (link_timer pre (Some a) s))))"

text \<open>\<open>msg\<close> is the argument's text; the field has room for 100 bytes with the terminator.\<close>

definition add_timer :: "nat \<Rightarrow> 'cb \<Rightarrow> byte list \<Rightarrow> int \<Rightarrow> 'cb timers \<Rightarrow> 'cb timers res" where
  "add_timer now callback msg time s =
     rbind (kmalloc SIZEOF_timer_list (t_heap s)) (\<lambda>(a, h).
     if 100 \<le> length msg then Inl OutOfBounds
     else
       let s = s\<lparr>t_heap := h\<rparr>;
           new = \<lparr>expired_time = u64 (time + int now), call_back = callback, t_msg = msg, tm_next = None\<rparr>;
           s = s\<lparr>timer := (timer s)(a := new)\<rparr> in
       insert_timer a time s)"

section \<open>Expiry\<close>

text \<open>
  \<open>run\<close> says what the call through \<open>call_back\<close> does to the timers (a callback may add timers);
  \<open>now\<close> is the tick counter when it is read after that.
\<close>

definition pop_timer :: "('cb \<Rightarrow> byte list \<Rightarrow> 'cb timers \<Rightarrow> 'cb timers res) \<Rightarrow> nat \<Rightarrow>
    'cb timers \<Rightarrow> 'cb timers res" where
  "pop_timer run now s =
     rbind (deref (timer_queue s)) (\<lambda>a.
     let s = s\<lparr>timer_queue := tm_next (timer s a)\<rparr> in
     rbind (run (call_back (timer s a)) (t_msg (timer s a)) s) (\<lambda>s.
     let s = (case timer_queue s of
                None \<Rightarrow> core_timer_interrupt_disable s
              | Some n \<Rightarrow> core_timer_interrupt_enable
                  (set_core_timer_interrupt (u64 (int (expired_time (timer s n)) - int now)) s)) in
     rbind (kfree a (t_heap s)) (\<lambda>h. Inr (s\<lparr>t_heap := h\<rparr>))))"

definition clock_time_s :: "nat \<Rightarrow> nat \<Rightarrow> nat" where
  "clock_time_s tick freq = tick div freq"

end
