(* ===== verification/TimerClaims.thy ===== *)
theory TimerClaims
  imports Timer "HOL-Library.Multiset"
begin

text \<open>
  The timer queue as a list of timers: where \<open>add_timer\<close> puts a new one, compared with the place
  that a queue ordered by expiry needs.
\<close>

abbreviation tnexts :: "'cb timers \<Rightarrow> addr \<Rightarrow> addr option" where
  "tnexts s a \<equiv> tm_next (timer s a)"

definition timers_ok :: "'cb timers \<Rightarrow> addr list \<Rightarrow> bool" where
  "timers_ok s q \<longleftrightarrow> chain (tnexts s) (timer_queue s) q \<and> alloc_ok (t_heap s) \<and>
     set q \<subseteq> fst ` blocks (t_heap s)"

abbreviation expiries :: "'cb timers \<Rightarrow> addr list \<Rightarrow> nat list" where
  "expiries s q \<equiv> map (\<lambda>a. expired_time (timer s a)) q"

text \<open>The place the code chooses: before the head, or right after the first timer that does not
  expire earlier (at the end, when there is none).\<close>

fun after_first :: "(addr \<Rightarrow> nat) \<Rightarrow> nat \<Rightarrow> addr \<Rightarrow> addr list \<Rightarrow> addr list" where
  "after_first e t a [] = [a]"
| "after_first e t a (x # xs) = (if e x < t then x # after_first e t a xs else x # a # xs)"

definition placed :: "(addr \<Rightarrow> nat) \<Rightarrow> nat \<Rightarrow> addr \<Rightarrow> addr list \<Rightarrow> addr list" where
  "placed e t a q = (case q of [] \<Rightarrow> [a] | x # xs \<Rightarrow> if t < e x then a # q else after_first e t a q)"

lemma mset_after_first: "mset (after_first e t a q) = add_mset a (mset q)"
  by (induction q) auto

lemma mset_placed: "mset (placed e t a q) = add_mset a (mset q)"
  by (auto simp: placed_def mset_after_first split: list.split)

lemma set_after_first: "set (after_first e t a q) = insert a (set q)"
  by (induction q) auto

lemma after_first_cong: "(\<And>b. b \<in> set q \<Longrightarrow> e b = e' b) \<Longrightarrow> after_first e t a q = after_first e' t a q"
  by (induction q) auto

lemma placed_cong: "(\<And>b. b \<in> set q \<Longrightarrow> e b = e' b) \<Longrightarrow> placed e t a q = placed e' t a q"
  using after_first_cong [of q e e' t a] by (cases q) (auto simp: placed_def)

text \<open>The new timer becomes the first of the queue.\<close>

abbreviation goes_first :: "(addr \<Rightarrow> nat) \<Rightarrow> nat \<Rightarrow> addr list \<Rightarrow> bool" where
  "goes_first e t q \<equiv> q = [] \<or> t < e (hd q)"

lemma after_first_at:
  "after_first e t a q =
     takeWhile (\<lambda>b. e b < t) q @ take 1 (dropWhile (\<lambda>b. e b < t) q) @ a # drop 1 (dropWhile (\<lambda>b. e b < t) q)"
  by (induction q) auto

lemma placed_at:
  "placed e t a q =
     (if goes_first e t q then a # q
      else takeWhile (\<lambda>b. e b < t) q @ take 1 (dropWhile (\<lambda>b. e b < t) q) @ a # drop 1 (dropWhile (\<lambda>b. e b < t) q))"
  using after_first_at [of e t a q] by (cases q) (simp_all add: placed_def)

text \<open>Where it ends: at a decomposition of the queue.\<close>

lemma after_first_split:
  assumes "q = xs @ y # ys" and "\<forall>x \<in> set xs. e x < t" and "ys \<noteq> [] \<longrightarrow> t \<le> e y"
    and "ys = [] \<or> t \<le> e y \<or> e y < t"
  shows "after_first e t a q = xs @ y # a # ys"
  using assms by (induction xs arbitrary: q) (auto split: if_splits)

lemma seek_place_chain:
  assumes "chain nx (Some pre) (pre # ys)" and "nx = (\<lambda>a. tm_next (tm a))"
  shows "\<exists>xs p zs. pre # ys = xs @ p # zs \<and> seek_place tm t pre (nx pre) = Some (p, nx p) \<and>
    chain nx (nx p) zs \<and> (\<forall>x \<in> set xs. expired_time (tm x) < t) \<and> (zs \<noteq> [] \<longrightarrow> t \<le> expired_time (tm p))"
  using assms
proof (induction ys arbitrary: pre)
  case Nil
  then show ?case by (auto simp: seek_place.simps intro!: exI [of _ "[]"])
next
  case (Cons n ys)
  have n: "nx pre = Some n" "chain nx (Some n) (n # ys)" using Cons.prems(1) by simp_all
  show ?case
  proof (cases "expired_time (tm pre) < t")
    case False
    then have "seek_place tm t pre (nx pre) = Some (pre, nx pre)"
      using n(1) by (simp add: seek_place.simps [of tm t pre])
    then show ?thesis using False n Cons.prems(1) by (intro exI [of _ "[]"] exI [of _ pre] exI [of _ "n # ys"]) simp
  next
    case True
    then have "seek_place tm t pre (nx pre) = seek_place tm t n (nx n)"
      using n(1) Cons.prems(2) by (simp add: seek_place.simps [of tm t pre])
    moreover obtain xs p zs where "n # ys = xs @ p # zs" "seek_place tm t n (nx n) = Some (p, nx p)"
      "chain nx (nx p) zs" "\<forall>x \<in> set xs. expired_time (tm x) < t" "zs \<noteq> [] \<longrightarrow> t \<le> expired_time (tm p)"
      using Cons.IH [OF n(2) Cons.prems(2)] by blast
    ultimately show ?thesis using True by (intro exI [of _ "pre # xs"] exI [of _ p] exI [of _ zs]) simp
  qed
qed

lemma chain_insert:
  assumes "chain nx q (xs @ p # zs)" and "a \<notin> set (xs @ p # zs)"
  shows "chain (nx(p := Some a, a := nx p)) q (xs @ p # a # zs)"
proof -
  have "distinct (xs @ p # zs)" using assms(1) by (rule chain_distinct)
  then show ?thesis using assms by (auto simp: chain_append)
qed

lemma insert_timer_run:
  assumes c: "chain (tnexts s) (timer_queue s) q" and a: "a \<notin> set q" "tnexts s a = None"
  shows "\<exists>s'. insert_timer a time s = Inr s' \<and>
    chain (tnexts s') (timer_queue s') (placed (\<lambda>b. expired_time (timer s b)) (expired_time (timer s a)) a q) \<and>
    (\<forall>b. expired_time (timer s' b) = expired_time (timer s b) \<and> call_back (timer s' b) = call_back (timer s b) \<and>
       t_msg (timer s' b) = t_msg (timer s b)) \<and> t_heap s' = t_heap s \<and>
    (irq_enabled s', tval s') = (if goes_first (\<lambda>b. expired_time (timer s b)) (expired_time (timer s a)) q then (True, u64 time)
      else (irq_enabled s, tval s))"
proof (cases q)
  case Nil
  then have "timer_queue s = None" using c by simp
  then show ?thesis using Nil a(2)
    by (simp add: insert_timer_def placed_def core_timer_interrupt_enable_def set_core_timer_interrupt_def)
next
  case (Cons h q')
  then have h: "timer_queue s = Some h" "chain (tnexts s) (Some h) (h # q')" using c by simp_all
  let ?e = "\<lambda>b. expired_time (timer s b)" and ?t = "expired_time (timer s a)"
  show ?thesis
  proof (cases "?t < ?e h")
    case True
    let ?s = "link_timer a (Some h) s"
    have nx: "tnexts ?s = (tnexts s)(a := Some h)" by (auto simp: link_timer_def fun_eq_iff)
    have "chain (tnexts ?s) (Some a) (a # q)" unfolding nx using h(2) a(1) Cons by auto
    moreover have "placed ?e ?t a q = a # q" using True Cons by (simp add: placed_def)
    moreover have "insert_timer a time s = Inr (core_timer_interrupt_enable (set_core_timer_interrupt
        (u64 time) (?s\<lparr>timer_queue := Some a\<rparr>)))"
      using True h(1) by (simp add: insert_timer_def Let_def)
    moreover have "goes_first ?e ?t q" using True Cons by simp
    ultimately show ?thesis
      by (auto simp: core_timer_interrupt_enable_def set_core_timer_interrupt_def link_timer_def)
  next
    case False
    obtain xs p zs where d: "h # q' = xs @ p # zs" "seek_place (timer s) ?t h (tnexts s h) = Some (p, tnexts s p)"
      "\<forall>x \<in> set xs. ?e x < ?t" "zs \<noteq> [] \<longrightarrow> ?t \<le> ?e p"
      using seek_place_chain [OF h(2) refl, of ?t] by blast
    let ?s = "link_timer a (tnexts s p) (link_timer p (Some a) s)"
    have run: "insert_timer a time s = Inr ?s" using False h(1) d(2) by (simp add: insert_timer_def)
    have ap: "a \<noteq> p" using a(1) Cons d(1) by auto
    have nx: "tnexts ?s = (tnexts s)(p := Some a, a := tnexts s p)"
      using ap by (auto simp: link_timer_def fun_eq_iff)
    have "after_first ?e ?t a q = xs @ p # a # zs"
      by (rule after_first_split) (use d(1,3,4) Cons in auto)
    then have "placed ?e ?t a q = xs @ p # a # zs" using False Cons by (simp add: placed_def)
    moreover have "chain (tnexts ?s) (timer_queue s) (xs @ p # a # zs)"
      unfolding nx by (rule chain_insert) (use c Cons d(1) a(1) in simp_all)
    moreover have "timer_queue ?s = timer_queue s" by (simp add: link_timer_def)
    moreover have "\<not> goes_first ?e ?t q" using False Cons by simp
    ultimately show ?thesis using run by (auto simp: link_timer_def)
  qed
qed

section \<open>Order\<close>

lemma sorted_after_first:
  assumes "sorted (map e q)" and "e a = t"
  shows "sorted (map e (after_first e t a q)) \<longleftrightarrow> t \<in> e ` set q \<or> (\<forall>x \<in> set q. e x \<le> t)"
  using assms
proof (induction q)
  case Nil
  then show ?case by simp
next
  case (Cons x q)
  show ?case
  proof (cases "e x < t")
    case True
    then show ?thesis using Cons by (auto simp: set_after_first)
  next
    case False
    then show ?thesis using Cons.prems by fastforce
  qed
qed

lemma sorted_placed:
  assumes "sorted (map e q)" and "e a = t"
  shows "sorted (map e (placed e t a q)) \<longleftrightarrow>
    (\<forall>x \<in> set q. t < e x) \<or> t \<in> e ` set q \<or> (\<forall>x \<in> set q. e x \<le> t)"
proof (cases q)
  case Nil
  then show ?thesis by (simp add: placed_def)
next
  case (Cons x q')
  then have le: "\<forall>y \<in> set q. e x \<le> e y" using assms(1) by simp
  show ?thesis
  proof (cases "t < e x")
    case True
    then show ?thesis using assms Cons by (auto simp: placed_def)
  next
    case False
    then show ?thesis using sorted_after_first [OF assms] Cons by (simp add: placed_def)
  qed
qed

section \<open>Adding\<close>

lemma add_timer_run:
  fixes time :: int and now :: nat
  assumes ok: "timers_ok s q" and len: "length msg < 100" and run: "kmalloc SIZEOF_timer_list (t_heap s) = Inr (a, h)"
  defines "t \<equiv> u64 (time + int now)"
  shows "\<exists>s'. add_timer now cb msg time s = Inr s' \<and>
    timers_ok s' (placed (\<lambda>b. expired_time (timer s b)) t a q) \<and> a \<notin> set q \<and>
    expired_time (timer s' a) = t \<and> call_back (timer s' a) = cb \<and> t_msg (timer s' a) = msg \<and>
    (\<forall>b \<in> set q. expired_time (timer s' b) = expired_time (timer s b) \<and>
       call_back (timer s' b) = call_back (timer s b) \<and> t_msg (timer s' b) = t_msg (timer s b)) \<and>
    (irq_enabled s', tval s') = (if goes_first (\<lambda>b. expired_time (timer s b)) t q then (True, u64 time)
      else (irq_enabled s, tval s))"
proof -
  have D: "chain (tnexts s) (timer_queue s) q" "alloc_ok (t_heap s)" "set q \<subseteq> fst ` blocks (t_heap s)"
    using ok by (simp_all add: timers_ok_def)
  obtain k where k: "blocks h = insert (a, k) (blocks (t_heap s))" "a \<notin> fst ` blocks (t_heap s)"
    by (rule kernel_heap.alloc_fresh [OF D(2) _ run]) (simp add: SIZEOF_timer_list_def)
  have h: "alloc_ok h" by (rule kernel_heap.alloc_ok [OF D(2) _ run]) (simp add: SIZEOF_timer_list_def)
  have a: "a \<notin> set q" using k(2) D(3) by blast
  let ?new = "\<lparr>expired_time = t, call_back = cb, t_msg = msg, tm_next = None\<rparr>"
  let ?s = "s\<lparr>t_heap := h, timer := (timer s)(a := ?new)\<rparr>"
  have c: "chain (tnexts ?s) (timer_queue ?s) q"
  proof -
    have nx: "tnexts ?s = (tnexts s)(a := None)" by (auto simp: fun_eq_iff)
    show ?thesis unfolding nx using D(1) a by simp
  qed
  have n: "tnexts ?s a = None" by simp
  obtain s' where s': "insert_timer a time ?s = Inr s'"
    "chain (tnexts s') (timer_queue s') (placed (\<lambda>b. expired_time (timer ?s b)) (expired_time (timer ?s a)) a q)"
    "\<forall>b. expired_time (timer s' b) = expired_time (timer ?s b) \<and> call_back (timer s' b) = call_back (timer ?s b) \<and>
       t_msg (timer s' b) = t_msg (timer ?s b)" "t_heap s' = t_heap ?s"
    "(irq_enabled s', tval s') = (if goes_first (\<lambda>b. expired_time (timer ?s b)) (expired_time (timer ?s a)) q then (True, u64 time)
      else (irq_enabled ?s, tval ?s))"
    using insert_timer_run [OF c a n, of time] by blast
  have pl: "placed (\<lambda>b. expired_time (timer ?s b)) (expired_time (timer ?s a)) a q =
      placed (\<lambda>b. expired_time (timer s b)) t a q" (is "?L = ?R")
    using a by simp (rule placed_cong, auto)
  have "add_timer now cb msg time s = Inr s'"
    using run len s'(1) by (simp add: add_timer_def Let_def t_def)
  moreover have "timers_ok s' ?R"
  proof -
    have "set ?R = insert a (set q)"
      by (auto simp: placed_def set_after_first split: list.split)
    then show ?thesis using s'(2,4) pl h k(1) D(3) by (auto simp: timers_ok_def)
  qed
  moreover have "\<forall>b \<in> set q. timer ?s b = timer s b" using a by auto
  moreover have "(irq_enabled s', tval s') = (if goes_first (\<lambda>b. expired_time (timer s b)) t q then (True, u64 time)
      else (irq_enabled s, tval s))"
    using s'(5) a by (cases q) auto
  ultimately show ?thesis using s'(3) a by (intro exI [of _ s']) simp
qed

section \<open>Examples\<close>

definition no_timers :: "nat timers" where
  "no_timers = \<lparr>t_heap = empty_pool, timer = (\<lambda>_. \<lparr>expired_time = 0, call_back = 0, t_msg = [], tm_next = None\<rparr>),
     timer_queue = None, irq_enabled = False, tval = 0\<rparr>"

lemma no_timers_ok: "timers_ok no_timers []"
  using kstock_ok [OF empty_pool_stock] by (simp add: timers_ok_def no_timers_def)

lemma no_timers_alloc: "\<exists>a h. kmalloc SIZEOF_timer_list (t_heap no_timers) = Inr (a, h)"
proof -
  have "kstock (t_heap no_timers) (Suc 61)" using empty_pool_stock by (simp add: no_timers_def)
  then show ?thesis using kmalloc_stock [of "t_heap no_timers" 61 SIZEOF_timer_list]
    by (auto simp: SIZEOF_timer_list_def)
qed

section \<open>Properties\<close>



text \<open>When the first timer expires and its callback leaves a well-formed queue that does not
  contain it, pop_timer takes it off, gives its memory back, and leaves the interrupt unmasked exactly
  when timers are left, with the countdown set to the time until the first of them.\<close>

theorem pop_timer_correct:
  assumes "timers_ok s (a # q)" and "low_addr a"
    and "run (call_back (timer s a)) (t_msg (timer s a)) (s\<lparr>timer_queue := tm_next (timer s a)\<rparr>) = Inr s1"
    and "timers_ok s1 q1" and "a \<notin> set q1" and "(a, k) \<in> blocks (t_heap s1)"
  shows "\<exists>s'. pop_timer run now s = Inr s' \<and> timers_ok s' q1 \<and>
    blocks (t_heap s') = blocks (t_heap s1) - {(a, k)} \<and> (irq_enabled s' \<longleftrightarrow> q1 \<noteq> []) \<and>
    (q1 \<noteq> [] \<longrightarrow> tval s' = u64 (int (expired_time (timer s1 (hd q1))) - int now))"
proof -
  have ok1: "alloc_ok (t_heap s1)" "chain (tnexts s1) (timer_queue s1) q1" "set q1 \<subseteq> fst ` blocks (t_heap s1)"
    using assms(4) by (simp_all add: timers_ok_def)
  obtain h where h: "kfree a (t_heap s1) = Inr h" "alloc_ok h" "blocks h = blocks (t_heap s1) - {(a, k)}"
    using kernel_heap.release_block [OF ok1(1) assms(6,2)] by blast
  have "timer_queue s = Some a" using assms(1) by (simp add: timers_ok_def)
  moreover have "set q1 \<subseteq> fst ` blocks h" using ok1(3) assms(5) unfolding h(3) by force
  ultimately show ?thesis using assms(3) h ok1(2)
    by (cases q1) (simp_all add: pop_timer_def Let_def timers_ok_def core_timer_interrupt_disable_def
        core_timer_interrupt_enable_def set_core_timer_interrupt_def)
qed

text \<open>A single timer whose callback does nothing.\<close>

theorem pop_timer_correct_example:
  "\<exists>(s :: nat timers) s'. timers_ok s [12352] \<and> pop_timer (\<lambda>_ _ s. Inr s) 20 s = Inr s' \<and> timers_ok s' [] \<and> \<not> irq_enabled s'"
proof -
  obtain s1 s2 ps1 ps2 n1 n2 where b: "malloc 6 1 100 empty_pool = Inr (12352, s1)"
    "malloc 6 2 100 s1 = Inr (12480, s2)" "pool_inv s1 ps1" "live s1 ps1 = {(12352, n1)}"
    "pool_inv s2 ps2" "live s2 ps2 = {(12480, n2), (12352, n1)}" "100 \<le> n1" "100 \<le> n2"
    "length ps1 < 2"
    by (rule two_blocks)
  have bl: "blocks s1 = {(12352, n1)}" "alloc_ok s1"
    using b(3,4) blocks_live by (auto simp: alloc_ok_def)
  define s :: "nat timers" where "s = no_timers\<lparr>t_heap := s1, timer_queue := Some 12352\<rparr>"
  define s0 where "s0 = s\<lparr>timer_queue := None\<rparr>"
  have s: "timers_ok s [12352]" using bl by (simp add: s_def timers_ok_def no_timers_def)
  have r: "(\<lambda>_ _ s. Inr s) (call_back (timer s 12352)) (t_msg (timer s 12352))
      (s\<lparr>timer_queue := tm_next (timer s 12352)\<rparr>) = Inr s0"
    by (simp add: s_def s0_def no_timers_def)
  have s0: "timers_ok s0 []" "(12352, n1) \<in> blocks (t_heap s0)"
    using bl by (simp_all add: s0_def s_def timers_ok_def no_timers_def)
  have low: "low_addr 12352" by (simp add: low_addr_def last_block_def)
  have "\<exists>s'. pop_timer (\<lambda>_ _ s. Inr s) 20 s = Inr s' \<and> timers_ok s' [] \<and> (irq_enabled s' \<longleftrightarrow> ([] :: addr list) \<noteq> [])"
    using pop_timer_correct [where now = 20 and run = "\<lambda>_ _ s. Inr s" and q = "[]" and a = 12352 and s = s, OF s low r s0(1) _ s0(2)] by auto
  then obtain s' where "pop_timer (\<lambda>_ _ s. Inr s) 20 s = Inr s'" "timers_ok s' []" "\<not> irq_enabled s'" by auto
  then show ?thesis using s by blast
qed

end
