(* ===== verification/Uart.thy ===== *)
theory Uart
  imports Fifo CString
begin

text \<open>
  The mini UART of \<open>lib/uart.c\<close>: its initialisation, the polled transfers, and the interrupt-driven
  ones through two ring buffers of 256 bytes. Bytes written to \<open>AUX_MU_IO\<close> are collected in
  \<open>io_out\<close>. What the device answers is a parameter: \<open>lsr k\<close> is the line status at its \<open>k\<close>-th
  reading, \<open>io_in k\<close> the byte that the \<open>k\<close>-th reading of \<open>AUX_MU_IO\<close> gives.
\<close>

unbundle bit_operations_syntax

section \<open>State\<close>

record uart_dev =
  lsr :: "nat \<Rightarrow> 32 word"
  io_in :: "nat \<Rightarrow> byte"

record uart =
  tx_buffer :: "nat \<Rightarrow> byte"
  tx_widx :: nat
  tx_ridx :: nat
  rx_buffer :: "nat \<Rightarrow> byte"
  rx_widx :: nat
  rx_ridx :: nat
  ier :: "32 word"
  io_out :: "byte list"
  lsr_reads :: nat
  io_reads :: nat

definition MAX_BUF_SIZE :: nat where
  "MAX_BUF_SIZE = 0x100"

section \<open>Initialisation\<close>

record uart_regs =
  GPFSEL1 :: "32 word"
  GPPUD :: "32 word"
  GPPUDCLK0 :: "32 word"
  AUX_ENABLE :: "32 word"
  AUX_MU_CNTL :: "32 word"
  AUX_MU_LCR :: "32 word"
  AUX_MU_MCR :: "32 word"
  AUX_MU_IER :: "32 word"
  IRQS1 :: "32 word"
  AUX_MU_IIR :: "32 word"
  AUX_MU_BAUD :: "32 word"

text \<open>The final values of the registers (\<open>GPPUDCLK0\<close> is set to the pins for 150 cycles before it is
  cleared again).\<close>

definition uart_init :: "uart_regs \<Rightarrow> uart_regs" where
  "uart_init s =
     (let r = GPFSEL1 s AND NOT (push_bit 12 7 OR push_bit 15 7);
          r = r OR (push_bit 12 2 OR push_bit 15 2);
          s = s\<lparr>GPFSEL1 := r, GPPUD := 0\<rparr>;
          s = s\<lparr>GPPUDCLK0 := push_bit 14 1 OR push_bit 15 1\<rparr>;
          s = s\<lparr>GPPUDCLK0 := 0, AUX_ENABLE := AUX_ENABLE s OR 1, AUX_MU_CNTL := 0, AUX_MU_LCR := 3,
                AUX_MU_MCR := 0, AUX_MU_IER := 0, IRQS1 := IRQS1 s OR push_bit 29 1\<rparr> in
      s\<lparr>AUX_MU_IIR := 0x06, AUX_MU_BAUD := 270, AUX_MU_CNTL := 3\<rparr>)"

section \<open>Polled transfers\<close>

text \<open>The index of the first reading of the line status, from \<open>k\<close> on, with a bit of \<open>bits\<close> set.\<close>

partial_function (option) wait_lsr :: "(nat \<Rightarrow> 32 word) \<Rightarrow> 32 word \<Rightarrow> nat \<Rightarrow> nat option" where
  "wait_lsr status bits k = (if status k AND bits = 0 then wait_lsr status bits (k + 1) else Some k)"

definition uart_send :: "uart_dev \<Rightarrow> byte \<Rightarrow> uart \<Rightarrow> uart res" where
  "uart_send d c s =
     rbind (returns (wait_lsr (lsr d) 0x20 (lsr_reads s))) (\<lambda>k.
     Inr (s\<lparr>lsr_reads := k + 1, io_out := io_out s @ [c]\<rparr>))"

definition CR :: byte where "CR = 13"

definition LF :: byte where "LF = 10"

definition uart_getc :: "uart_dev \<Rightarrow> uart \<Rightarrow> (byte \<times> uart) res" where
  "uart_getc d s =
     rbind (returns (wait_lsr (lsr d) 0x01 (lsr_reads s))) (\<lambda>k.
     let r = io_in d (io_reads s) in
     Inr (if r = CR then LF else r, s\<lparr>lsr_reads := k + 1, io_reads := io_reads s + 1\<rparr>))"

definition uart_read_byte :: "uart_dev \<Rightarrow> uart \<Rightarrow> (byte \<times> uart) res" where
  "uart_read_byte d s =
     rbind (returns (wait_lsr (lsr d) 0x01 (lsr_reads s))) (\<lambda>k.
     Inr (io_in d (io_reads s), s\<lparr>lsr_reads := k + 1, io_reads := io_reads s + 1\<rparr>))"

text \<open>\<open>uart_puts\<close> on the bytes of a string.\<close>

primrec uart_puts :: "uart_dev \<Rightarrow> byte list \<Rightarrow> uart \<Rightarrow> uart res" where
  "uart_puts d [] s = Inr s"
| "uart_puts d (c # cs) s =
     rbind (if c = LF then uart_send d CR s else Inr s) (\<lambda>s.
     rbind (uart_send d c s) (uart_puts d cs))"

section \<open>Interrupt mask\<close>

definition enable_uart_r_interrupt :: "uart \<Rightarrow> uart" where
  "enable_uart_r_interrupt s = s\<lparr>ier := ier s OR 1\<rparr>"

definition enable_uart_w_interrupt :: "uart \<Rightarrow> uart" where
  "enable_uart_w_interrupt s = s\<lparr>ier := ier s OR 2\<rparr>"

definition disable_uart_r_interrupt :: "uart \<Rightarrow> uart" where
  "disable_uart_r_interrupt s = s\<lparr>ier := ier s AND NOT 1\<rparr>"

definition disable_uart_w_interrupt :: "uart \<Rightarrow> uart" where
  "disable_uart_w_interrupt s = s\<lparr>ier := ier s AND NOT 2\<rparr>"

section \<open>Ring buffers\<close>

definition uart_interrupt_r_handler :: "uart_dev \<Rightarrow> uart \<Rightarrow> uart" where
  "uart_interrupt_r_handler d s =
     (if (rx_widx s + 1) mod MAX_BUF_SIZE = rx_ridx s then enable_uart_r_interrupt s
      else
        let r = io_in d (io_reads s);
            s = s\<lparr>io_reads := io_reads s + 1\<rparr>;
            s = s\<lparr>rx_buffer := (rx_buffer s)(rx_widx s := (if r = CR then LF else r)), rx_widx := rx_widx s + 1\<rparr>;
            s = (if rx_widx s \<ge> MAX_BUF_SIZE then s\<lparr>rx_widx := 0\<rparr> else s) in
        enable_uart_r_interrupt s)"

definition uart_interrupt_w_handler :: "uart \<Rightarrow> uart" where
  "uart_interrupt_w_handler s =
     (if tx_ridx s = tx_widx s then disable_uart_w_interrupt s
      else
        let s = s\<lparr>io_out := io_out s @ [tx_buffer s (tx_ridx s)], tx_ridx := tx_ridx s + 1\<rparr>;
            s = (if tx_ridx s \<ge> MAX_BUF_SIZE then s\<lparr>tx_ridx := 0\<rparr> else s) in
        enable_uart_w_interrupt s)"

definition async_uart_send :: "byte \<Rightarrow> uart \<Rightarrow> uart" where
  "async_uart_send c s =
     (let s = s\<lparr>tx_buffer := (tx_buffer s)(tx_widx s := c), tx_widx := tx_widx s + 1\<rparr>;
          s = (if tx_widx s \<ge> MAX_BUF_SIZE then s\<lparr>tx_widx := 0\<rparr> else s) in
      enable_uart_w_interrupt s)"

primrec async_uart_puts :: "byte list \<Rightarrow> uart \<Rightarrow> uart" where
  "async_uart_puts [] s = s"
| "async_uart_puts (c # cs) s =
     async_uart_puts cs (async_uart_send c (if c = LF then async_uart_send CR s else s))"

definition async_uart_getc :: "uart \<Rightarrow> byte \<times> uart" where
  "async_uart_getc s =
     (if rx_ridx s = rx_widx s then (0, s)
      else
        let r = rx_buffer s (rx_ridx s);
            s = s\<lparr>rx_ridx := rx_ridx s + 1\<rparr>;
            s = (if rx_ridx s \<ge> MAX_BUF_SIZE then s\<lparr>rx_ridx := 0\<rparr> else s) in
        (r, s))"

end
