(* ===== verification/UartClaims.thy ===== *)
theory UartClaims
  imports Uart
begin

text \<open>
  The two ring buffers of the UART as queues: \<open>ring buf r w xs\<close> says that the bytes \<open>xs\<close> lie in
  \<open>buf\<close> from index \<open>r\<close> up to index \<open>w\<close>, around the end. A ring holds at most 255 bytes; the
  receiver checks for that, the transmitter does not.
\<close>

section \<open>Rings\<close>

definition ring :: "(nat \<Rightarrow> byte) \<Rightarrow> nat \<Rightarrow> nat \<Rightarrow> byte list \<Rightarrow> bool" where
  "ring buf r w xs \<longleftrightarrow> r < 256 \<and> length xs < 256 \<and> w = (r + length xs) mod 256 \<and>
     (\<forall>i < length xs. buf ((r + i) mod 256) = xs ! i)"

lemma wrap: "r < 256 \<Longrightarrow> i < 256 \<Longrightarrow> (r + i) mod 256 = (if r + i < 256 then r + i else r + i - (256::nat))"
  by (auto simp: le_mod_geq)

lemma step_wrap: "w < 256 \<Longrightarrow> (if 256 \<le> w + 1 then 0 else w + 1) = (w + 1) mod (256::nat)"
  by (cases "w = 255") auto

lemma ring_bounds: "ring buf r w xs \<Longrightarrow> r < 256 \<and> w < 256 \<and> length xs < 256"
  by (auto simp: ring_def)

lemma ring_empty: "ring buf r w xs \<Longrightarrow> r = w \<longleftrightarrow> xs = []"
  unfolding ring_def using wrap [of r "length xs"] by (auto split: if_splits)

lemma ring_full: "ring buf r w xs \<Longrightarrow> (w + 1) mod 256 = r \<longleftrightarrow> length xs = 255"
  unfolding ring_def using wrap [of r "length xs"] step_wrap [of w] by (auto split: if_splits)

lemma ring_put:
  assumes "ring buf r w xs" and "length xs < 255"
  shows "ring (buf(w := c)) r ((w + 1) mod 256) (xs @ [c])"
proof -
  have b: "r < 256" "length xs < 256" and w: "w = (r + length xs) mod 256"
    and xs: "\<forall>i < length xs. buf ((r + i) mod 256) = xs ! i"
    using assms(1) by (simp_all add: ring_def)
  have "(r + i) mod 256 \<noteq> w" if "i < length xs" for i
    using that b wrap [of r i] wrap [of r "length xs"] unfolding w by auto
  then have "\<forall>i < length (xs @ [c]). (buf(w := c)) ((r + i) mod 256) = (xs @ [c]) ! i"
    using xs w by (auto simp: less_Suc_eq nth_append)
  moreover have "(w + 1) mod 256 = (r + length (xs @ [c])) mod 256"
    unfolding w by (simp add: mod_Suc_eq)
  ultimately show ?thesis using b assms(2) by (simp add: ring_def)
qed

lemma ring_get:
  assumes "ring buf r w (x # xs)"
  shows "buf r = x" and "ring buf ((r + 1) mod 256) w xs" and "r \<noteq> w"
proof -
  have b: "r < 256" "Suc (length xs) < 256" and w: "w = (r + Suc (length xs)) mod 256"
    and xs: "\<forall>i < Suc (length xs). buf ((r + i) mod 256) = (x # xs) ! i"
    using assms by (simp_all add: ring_def)
  show "buf r = x" using xs b by (auto dest: spec [of _ 0])
  show "r \<noteq> w" using ring_empty [OF assms] by simp
  have "((r + 1) mod 256 + i) mod 256 = (r + Suc i) mod 256" for i by (simp add: mod_simps)
  moreover have "buf ((r + Suc i) mod 256) = xs ! i" if "i < length xs" for i
    using xs that by (auto dest: spec [of _ "Suc i"])
  ultimately show "ring buf ((r + 1) mod 256) w xs" using b w by (simp add: ring_def)
qed

section \<open>The transmitter\<close>

abbreviation tx_ring :: "uart \<Rightarrow> byte list \<Rightarrow> bool" where
  "tx_ring s \<equiv> ring (tx_buffer s) (tx_ridx s) (tx_widx s)"

abbreviation rx_ring :: "uart \<Rightarrow> byte list \<Rightarrow> bool" where
  "rx_ring s \<equiv> ring (rx_buffer s) (rx_ridx s) (rx_widx s)"

lemma async_send_eq:
  assumes "tx_widx s < 256"
  shows "async_uart_send c s = s\<lparr>tx_buffer := (tx_buffer s)(tx_widx s := c),
    tx_widx := (tx_widx s + 1) mod 256, ier := ier s OR 2\<rparr>"
  using step_wrap [OF assms]
  by (auto simp: async_uart_send_def Let_def MAX_BUF_SIZE_def enable_uart_w_interrupt_def split: if_splits)

lemma async_send_run:
  assumes "tx_ring s xs" and "length xs < 255"
  shows "tx_ring (async_uart_send c s) (xs @ [c])" and "io_out (async_uart_send c s) = io_out s"
  using ring_put [OF assms, of c] ring_bounds [OF assms(1)] by (simp_all add: async_send_eq)

lemma w_handler_eq:
  assumes "tx_ring s (x # xs)"
  shows "uart_interrupt_w_handler s = s\<lparr>io_out := io_out s @ [x], tx_ridx := (tx_ridx s + 1) mod 256,
    ier := ier s OR 2\<rparr>"
  using step_wrap [of "tx_ridx s"] ring_bounds [OF assms] ring_get(1,3) [OF assms]
  by (auto simp: uart_interrupt_w_handler_def Let_def MAX_BUF_SIZE_def enable_uart_w_interrupt_def split: if_splits)

lemma w_handler_empty:
  assumes "tx_ring s []"
  shows "uart_interrupt_w_handler s = disable_uart_w_interrupt s"
  using ring_empty [OF assms] by (simp add: uart_interrupt_w_handler_def)

lemma w_handler_run:
  assumes "tx_ring s (x # xs)"
  shows "tx_ring (uart_interrupt_w_handler s) xs"
    and "io_out (uart_interrupt_w_handler s) = io_out s @ [x]"
  using w_handler_eq [OF assms] ring_get(2) [OF assms] by simp_all

text \<open>The byte that the handler hands to the device, if any.\<close>

definition transmit :: "uart \<Rightarrow> (byte option \<times> uart) res" where
  "transmit s =
     (let s' = uart_interrupt_w_handler s in
      Inr (if io_out s' = io_out s then None else Some (last (io_out s')), s'))"

interpretation tx_fifo: fifo "\<lambda>c s. Inr (async_uart_send c s)" transmit tx_ring "\<lambda>xs c. length xs < 255"
proof
  fix s xs x assume "tx_ring s xs" "length xs < 255"
  then show "\<exists>s'. Inr (async_uart_send x s) = Inr s' \<and> tx_ring s' (xs @ [x])"
    using async_send_run(1) by blast
next
  fix s assume s: "tx_ring s []"
  have "tx_ring (disable_uart_w_interrupt s) []" "io_out (disable_uart_w_interrupt s) = io_out s"
    using s by (simp_all add: disable_uart_w_interrupt_def)
  then show "\<exists>s'. transmit s = Inr (None, s') \<and> tx_ring s' []"
    using w_handler_empty [OF s] by (simp add: transmit_def)
next
  fix s x xs assume s: "tx_ring s (x # xs)"
  show "\<exists>s'. transmit s = Inr (Some x, s') \<and> tx_ring s' xs"
    using w_handler_run [OF s] by (simp add: transmit_def)
qed

section \<open>The receiver\<close>

lemma r_handler_full:
  assumes "rx_ring s xs" and "length xs = 255"
  shows "uart_interrupt_r_handler d s = enable_uart_r_interrupt s"
  using ring_full [OF assms(1)] assms(2) by (simp add: uart_interrupt_r_handler_def MAX_BUF_SIZE_def)

lemma r_handler_run:
  fixes d :: uart_dev and s :: uart
  assumes "rx_ring s xs" and "length xs < 255"
  defines "c \<equiv> io_in d (io_reads s)"
  shows "rx_ring (uart_interrupt_r_handler d s) (xs @ [if c = CR then LF else c])"
    and "io_reads (uart_interrupt_r_handler d s) = io_reads s + 1"
proof -
  let ?c = "if c = CR then LF else c"
  have nf: "(rx_widx s + 1) mod 256 \<noteq> rx_ridx s" using ring_full [OF assms(1)] assms(2) by simp
  have "uart_interrupt_r_handler d s = s\<lparr>io_reads := io_reads s + 1,
      rx_buffer := (rx_buffer s)(rx_widx s := ?c), rx_widx := (rx_widx s + 1) mod 256, ier := ier s OR 1\<rparr>"
    using step_wrap [of "rx_widx s"] ring_bounds [OF assms(1)] nf
    by (auto simp: uart_interrupt_r_handler_def Let_def MAX_BUF_SIZE_def enable_uart_r_interrupt_def c_def
        split: if_splits)
  then show "rx_ring (uart_interrupt_r_handler d s) (xs @ [?c])"
    and "io_reads (uart_interrupt_r_handler d s) = io_reads s + 1"
    using ring_put [OF assms(1,2), of ?c] by simp_all
qed

lemma getc_run:
  assumes "rx_ring s (x # xs)"
  shows "\<exists>s'. async_uart_getc s = (x, s') \<and> rx_ring s' xs"
  using step_wrap [of "rx_ridx s"] ring_bounds [OF assms] ring_get [OF assms]
  by (auto simp: async_uart_getc_def Let_def MAX_BUF_SIZE_def split: if_splits)

lemma getc_empty: "rx_ring s [] \<Longrightarrow> async_uart_getc s = (0, s)"
  using ring_empty [of "rx_buffer s" "rx_ridx s" "rx_widx s" "[]"] by (simp add: async_uart_getc_def)

text \<open>Reception of one given byte, and a read that tells an empty buffer from a zero byte.\<close>

definition receive :: "byte \<Rightarrow> uart \<Rightarrow> uart res" where
  "receive c s = Inr (uart_interrupt_r_handler \<lparr>lsr = \<lambda>_. 0, io_in = \<lambda>_. c\<rparr> s)"

definition fetch :: "uart \<Rightarrow> (byte option \<times> uart) res" where
  "fetch s =
     (let (c, s') = async_uart_getc s in Inr (if rx_ridx s = rx_widx s then None else Some c, s'))"

interpretation rx_fifo: fifo receive fetch rx_ring "\<lambda>xs c. length xs < 255 \<and> c \<noteq> CR"
proof
  fix s xs x assume "rx_ring s xs" "length xs < 255 \<and> x \<noteq> CR"
  then show "\<exists>s'. receive x s = Inr s' \<and> rx_ring s' (xs @ [x])"
    using r_handler_run(1) [of s xs "\<lparr>lsr = \<lambda>_. 0, io_in = \<lambda>_. x\<rparr>"] by (simp add: receive_def)
next
  fix s assume s: "rx_ring s []"
  then show "\<exists>s'. fetch s = Inr (None, s') \<and> rx_ring s' []"
    using getc_empty [OF s] ring_empty [OF s] by (simp add: fetch_def)
next
  fix s x xs assume s: "rx_ring s (x # xs)"
  then show "\<exists>s'. fetch s = Inr (Some x, s') \<and> rx_ring s' xs"
    using getc_run [OF s] ring_empty [OF s] by (auto simp: fetch_def)
qed

section \<open>Strings\<close>

primrec crlf :: "byte list \<Rightarrow> byte list" where
  "crlf [] = []"
| "crlf (c # cs) = (if c = LF then [CR, LF] else [c]) @ crlf cs"

lemma async_puts_run:
  assumes "tx_ring s xs" and "length xs + length (crlf cs) \<le> 255"
  shows "tx_ring (async_uart_puts cs s) (xs @ crlf cs) \<and> io_out (async_uart_puts cs s) = io_out s"
  using assms
proof (induction cs arbitrary: s xs)
  case Nil
  then show ?case by simp
next
  case (Cons c cs)
  let ?s = "if c = LF then async_uart_send CR s else s" and ?xs = "if c = LF then xs @ [CR] else xs"
  have 1: "tx_ring ?s ?xs" "io_out ?s = io_out s" "length ?xs < 255"
    using Cons.prems async_send_run [of s xs CR] by auto
  have 2: "tx_ring (async_uart_send c ?s) (?xs @ [c])" "io_out (async_uart_send c ?s) = io_out s"
    using async_send_run [OF 1(1,3), of c] 1(2) by simp_all
  have "length (?xs @ [c]) + length (crlf cs) \<le> 255" using Cons.prems(2) by (auto split: if_splits)
  from Cons.IH [OF 2(1) this] show ?case using 2(2) by (auto split: if_splits)
qed

lemma w_handler_drain:
  assumes "tx_ring s xs"
  shows "io_out ((uart_interrupt_w_handler ^^ length xs) s) = io_out s @ xs \<and>
    tx_ring ((uart_interrupt_w_handler ^^ length xs) s) []"
  using assms
proof (induction xs arbitrary: s)
  case Nil
  then show ?case by simp
next
  case (Cons x xs)
  show ?case
    using Cons.IH [OF w_handler_run(1) [OF Cons.prems]] w_handler_run(2) [OF Cons.prems]
    by (simp add: funpow_swap1)
qed

section \<open>Properties\<close>

text \<open>A string given to async_uart_puts while the transmit buffer is empty, with at most 255
  bytes when each line feed counts twice, is transmitted by as many write interrupts as it has bytes,
  in order, with a carriage return before each line feed, and leaves the buffer empty.\<close>

theorem async_puts_transmitted:
  assumes "tx_ring s []" and "length (crlf cs) \<le> 255"
  shows "let s' = (uart_interrupt_w_handler ^^ length (crlf cs)) (async_uart_puts cs s) in
    io_out s' = io_out s @ crlf cs \<and> tx_ring s' []"
  using async_puts_run [OF assms(1), of cs] w_handler_drain [of "async_uart_puts cs s" "crlf cs"] assms(2)
  by (simp add: Let_def)

definition idle_uart :: uart where
  "idle_uart = \<lparr>tx_buffer = \<lambda>_. 0, tx_widx = 200, tx_ridx = 200, rx_buffer = \<lambda>_. 0, rx_widx = 0,
     rx_ridx = 0, ier = 0, io_out = [], lsr_reads = 0, io_reads = 0\<rparr>"

theorem async_puts_transmitted_example:
  "let s' = (uart_interrupt_w_handler ^^ length (crlf [104, 10])) (async_uart_puts [104, 10] idle_uart) in
    io_out s' = [] @ [104, 13, 10] \<and> tx_ring s' []"
  using async_puts_transmitted [of idle_uart "[104, 10]"]
  by (simp add: idle_uart_def ring_def CR_def LF_def)

text \<open>async_uart_send does not check for a full buffer: when 255 bytes wait, one more makes the
  write index equal to the read index, so that the buffer counts as empty and all 256 bytes are lost;
  the next write interrupt transmits nothing and turns itself off.\<close>

theorem async_send_overflow_loses_all:
  assumes "tx_ring s xs" and "length xs = 255"
  shows "tx_ring (async_uart_send c s) [] \<and>
    uart_interrupt_w_handler (async_uart_send c s) = disable_uart_w_interrupt (async_uart_send c s)"
proof -
  have b: "tx_widx s < 256" "tx_ridx s < 256" using ring_bounds [OF assms(1)] by simp_all
  have "(tx_widx s + 1) mod 256 = tx_ridx s" using ring_full [OF assms(1)] assms(2) by simp
  then have "tx_ring (async_uart_send c s) []" using b by (simp add: async_send_eq ring_def)
  then show ?thesis using w_handler_empty by blast
qed

theorem async_send_overflow_loses_all_example:
  "tx_ring (async_uart_send 7 (idle_uart\<lparr>tx_widx := 199\<rparr>)) []"
proof -
  have "tx_ring (idle_uart\<lparr>tx_widx := 199\<rparr>) (replicate 255 0)" by (simp add: idle_uart_def ring_def)
  then show ?thesis using async_send_overflow_loses_all [of "idle_uart\<lparr>tx_widx := 199\<rparr>" "replicate 255 0" 7] by simp
qed

text \<open>C38: Bytes that arrive as long as no more than 255 wait, they included, are read by async_uart_getc in the order in
  which they arrived, after those that waited (carriage returns, which are stored as line feeds,
  aside); when 255 wait, the read handler leaves the device's byte unread.\<close>

theorem received_in_order:
  assumes "rx_ring s xs" and "length xs + length ys \<le> 255" and "CR \<notin> set ys"
  shows "(\<exists>s1 s2. enq_many receive ys s = Inr s1 \<and>
      deq_many fetch (length xs + length ys) s1 = Inr (xs @ ys, s2) \<and> rx_ring s2 []) \<and>
    (length xs = 255 \<longrightarrow> (\<forall>d. uart_interrupt_r_handler d s = enable_uart_r_interrupt s))"
proof
  have "room_many (\<lambda>xs c. length xs < 255 \<and> c \<noteq> CR) xs ys" using assms(2,3)
    by (induction ys arbitrary: xs) auto
  from rx_fifo.in_order [OF assms(1) this]
  show "\<exists>s1 s2. enq_many receive ys s = Inr s1 \<and>
      deq_many fetch (length xs + length ys) s1 = Inr (xs @ ys, s2) \<and> rx_ring s2 []" .
qed (use r_handler_full [OF assms(1)] in blast)

theorem received_in_order_witness:
  "\<exists>s1 s2. enq_many receive [104, 105] idle_uart = Inr s1 \<and>
     deq_many fetch 2 s1 = Inr ([104, 105], s2) \<and> rx_ring s2 []"
proof -
  have "rx_ring idle_uart []" and "CR \<notin> set [104, 105]" by (simp_all add: idle_uart_def ring_def CR_def)
  from received_in_order [OF this(1) _ this(2)] show ?thesis by (simp add: numeral_2_eq_2)
qed

text \<open>uart_init selects alternate function 5 for pins 14 and 15 and leaves the function of the
  other pins, and unmasks the UART's interrupt without masking any other.\<close>

theorem uart_init_pins:
  "(bit (GPFSEL1 (uart_init s)) i \<longleftrightarrow>
      (if 12 \<le> i \<and> i < 18 then i = 13 \<or> i = 16 else bit (GPFSEL1 s) i)) \<and>
    (bit (IRQS1 (uart_init s)) i \<longleftrightarrow> i = 29 \<or> bit (IRQS1 s) i)"
proof -
  have "GPFSEL1 (uart_init s) = GPFSEL1 s AND NOT (push_bit 12 (mask 6)) OR (push_bit 13 1 OR push_bit 16 1)"
    by (simp add: uart_init_def Let_def mask_numeral)
  then have 1: "bit (GPFSEL1 (uart_init s)) i \<longleftrightarrow>
      (if 12 \<le> i \<and> i < 18 then i = 13 \<or> i = 16 else bit (GPFSEL1 s) i)"
    by (auto simp only: bit_or_iff bit_and_iff bit_not_iff bit_push_bit_iff bit_mask_iff bit_1_iff
        possible_bit_word dest: bit_imp_le_length split: if_splits) simp_all
  have "IRQS1 (uart_init s) = IRQS1 s OR push_bit 29 1" by (simp add: uart_init_def Let_def)
  then have "bit (IRQS1 (uart_init s)) i \<longleftrightarrow> i = 29 \<or> bit (IRQS1 s) i"
    by (auto simp only: bit_or_iff bit_push_bit_iff bit_1_iff possible_bit_word) simp_all
  then show ?thesis using 1 by blast
qed

end
