(* ===== verification/Dtb.thy ===== *)
theory Dtb
  imports StringProps
begin

text \<open>
  The device tree of \<open>lib/dtb.c\<close>: \<open>fdt_traverse\<close> walks the structure block and calls back for
  every node and property; \<open>initramfs_callback\<close> records where the initial RAM disk lies. The
  mailbox call of \<open>lib/mailbox.c\<close> and the watchdog registers of \<open>lib/reboot.c\<close>, the kernel's two other
  small device interfaces, are here too.
\<close>

unbundle bit_operations_syntax

section \<open>Byte order\<close>

definition little2big :: "32 word \<Rightarrow> 32 word" where
  "little2big str =
     ((drop_bit 24 str AND 0xff) OR (push_bit 8 str AND 0xff0000) OR
      (drop_bit 8 str AND 0xff00) OR (push_bit 24 str AND 0xff000000))"

text \<open>A 32-bit load on this little-endian machine.\<close>

definition load32 :: "mem \<Rightarrow> addr \<Rightarrow> 32 word" where
  "load32 m p = ucast (m p) OR push_bit 8 (ucast (m (p + 1))) OR push_bit 16 (ucast (m (p + 2))) OR
     push_bit 24 (ucast (m (p + 3)))"

section \<open>The traversal\<close>

definition FDT_BEGIN_NODE :: int where "FDT_BEGIN_NODE = 1"

definition FDT_PROP :: int where "FDT_PROP = 3"

text \<open>A callback gets the token, the address of the name, the address of the value (if any) and its
  length.\<close>

type_synonym 's dtb_callback = "int \<Rightarrow> addr \<Rightarrow> addr option \<Rightarrow> int \<Rightarrow> 's \<Rightarrow> 's res"

definition token_at :: "mem \<Rightarrow> addr \<Rightarrow> int" where
  "token_at m p = uint (little2big (load32 m p))"

definition align4 :: "addr \<Rightarrow> addr" where
  "align4 p = (if p mod 4 \<noteq> 0 then p + (4 - p mod 4) else p)"

lemma token_at_nonneg [simp]: "0 \<le> token_at m p"
  by (simp add: token_at_def)

lemma pad_gt: "(p::int) < p + (4 - p mod 4)"
proof -
  have "p mod 4 < 4" by simp
  then show ?thesis by linarith
qed

lemma align4_ge: "p \<le> align4 p"
  using less_imp_le [OF pad_gt [of p]] by (auto simp only: align4_def split: if_split)

function fdt_loop :: "mem \<Rightarrow> 's dtb_callback \<Rightarrow> addr \<Rightarrow> addr \<Rightarrow> addr \<Rightarrow> 's \<Rightarrow> 's res" where
  "fdt_loop m callback dt_strings_ptr limit pointer s =
     (if pointer < limit then
        let token_type = token_at m pointer;
            pointer' = pointer + 4 in
        if token_type = FDT_BEGIN_NODE then
          rbind (callback token_type pointer' None 0 s) (\<lambda>s.
          rbind (returns (strlen m pointer')) (\<lambda>n.
          let p = pointer' + int n in
          fdt_loop m callback dt_strings_ptr limit (p + (4 - p mod 4)) s))
        else if token_type = FDT_PROP then
          let len = token_at m pointer';
              name = dt_strings_ptr + token_at m (pointer' + 4);
              value = pointer' + 8 in
          rbind (callback token_type name (Some value) len s) (\<lambda>s.
          let p = value + len in
          fdt_loop m callback dt_strings_ptr limit (align4 p) s)
        else fdt_loop m callback dt_strings_ptr limit pointer' s
      else Inr s)"
  by pat_completeness auto

termination
proof (relation "measure (\<lambda>(m, callback, dt_strings_ptr, limit, pointer, s). nat (limit - pointer))", goal_cases)
  case 1
  then show ?case by simp
next
  case (2 m callback dt_strings_ptr limit pointer s a b c d e)
  then show ?case by simp
next
  case (3 m callback dt_strings_ptr limit pointer s)
  then show ?case
    using align4_ge [of "pointer + (12 + token_at m (pointer + 4))"] token_at_nonneg [of m "pointer + 4"]
    by (simp add: add.assoc del: token_at_nonneg)
qed simp

declare fdt_loop.simps [simp del]

text \<open>The header's fields: \<open>magic\<close> at 0, \<open>off_dt_struct\<close> at 8, \<open>off_dt_strings\<close> at 12 and
  \<open>size_dt_struct\<close> at 36. The second result is the new \<open>dtb_size\<close>.\<close>

definition fdt_traverse :: "mem \<Rightarrow> 's dtb_callback \<Rightarrow> addr \<Rightarrow> int \<Rightarrow> 's \<Rightarrow> ('s \<times> int) res" where
  "fdt_traverse m callback header dtb_size s =
     (if token_at m header \<noteq> 0xD00DFEED then Inr (s, dtb_size)
      else
        let struct_size = token_at m (header + 36);
            dt_struct_ptr = header + token_at m (header + 8);
            dt_strings_ptr = header + token_at m (header + 12) in
        rbind (fdt_loop m callback dt_strings_ptr (dt_struct_ptr + struct_size) dt_struct_ptr s) (\<lambda>s.
        Inr (s, struct_size)))"

record initrd =
  CPIO_DEFAULT_PLACE :: addr
  CPIO_DEFAULT_PLACE_END :: addr

definition initramfs_callback :: "mem \<Rightarrow> initrd dtb_callback" where
  "initramfs_callback m node_type name val name_size s =
     rbind
       (if node_type = FDT_PROP \<and> str_eq m name (cstr ''linux,initrd-start'') then
          rbind (deref val) (\<lambda>v. Inr (s\<lparr>CPIO_DEFAULT_PLACE := token_at m v\<rparr>))
        else Inr s) (\<lambda>s.
     if node_type = FDT_PROP \<and> str_eq m name (cstr ''linux,initrd-end'') then
       rbind (deref val) (\<lambda>v. Inr (s\<lparr>CPIO_DEFAULT_PLACE_END := token_at m v\<rparr>))
     else Inr s)"

section \<open>Mailbox and watchdog\<close>

record mailbox_dev =
  mb_status :: "nat \<Rightarrow> 32 word"
  mb_read :: "nat \<Rightarrow> 32 word"

definition MAILBOX_FULL :: "32 word" where "MAILBOX_FULL = 0x80000000"

definition MAILBOX_EMPTY :: "32 word" where "MAILBOX_EMPTY = 0x40000000"

definition MAILBOX_RESPONSE :: "32 word" where "MAILBOX_RESPONSE = 0x80000000"

text \<open>The first status reading from \<open>k\<close> on in which the bit \<open>b\<close> is clear.\<close>

partial_function (option) wait_clear :: "(nat \<Rightarrow> 32 word) \<Rightarrow> 32 word \<Rightarrow> nat \<Rightarrow> nat option" where
  "wait_clear status b k = (if status k AND b \<noteq> 0 then wait_clear status b (k + 1) else Some k)"

text \<open>Reading answers until one is for the request: \<open>k\<close> counts status readings, \<open>i\<close> answers.\<close>

partial_function (option) mbox_wait :: "mailbox_dev \<Rightarrow> 32 word \<Rightarrow> nat \<Rightarrow> nat \<Rightarrow> nat option" where
  "mbox_wait d r k i =
     Option.bind (wait_clear (mb_status d) MAILBOX_EMPTY k) (\<lambda>k.
     if mb_read d i = r then Some i else mbox_wait d r (k + 1) (i + 1))"

text \<open>The value written to the mailbox, and the answer, where \<open>response i\<close> is the second word of the
  message when the \<open>i\<close>-th answer has arrived.\<close>

definition mbox_call :: "mailbox_dev \<Rightarrow> (nat \<Rightarrow> 32 word) \<Rightarrow> byte \<Rightarrow> 64 word \<Rightarrow> (32 word \<times> int) res" where
  "mbox_call d response ch mbox =
     (let r = (ucast mbox AND NOT 0xF) OR (ucast ch AND 0xf) in
      rbind (returns (wait_clear (mb_status d) MAILBOX_FULL 0)) (\<lambda>k.
      rbind (returns (mbox_wait d r (k + 1) 0)) (\<lambda>i.
      Inr (r, if response i = MAILBOX_RESPONSE then 1 else 0))))"

definition PM_PASSWORD :: "32 word" where "PM_PASSWORD = 0x5a000000"

definition PM_RSTC :: addr where "PM_RSTC = 0x3F10001c"

definition PM_WDOG :: addr where "PM_WDOG = 0x3F100024"

definition set_reg :: "addr \<Rightarrow> 32 word \<Rightarrow> (addr \<Rightarrow> 32 word) \<Rightarrow> addr \<Rightarrow> 32 word" where
  "set_reg a v regs = regs(a := v)"

definition reset :: "32 word \<Rightarrow> (addr \<Rightarrow> 32 word) \<Rightarrow> addr \<Rightarrow> 32 word" where
  "reset tick regs =
     set_reg PM_WDOG (PM_PASSWORD OR tick) (set_reg PM_RSTC (PM_PASSWORD OR 0x20) regs)"

definition cancel_reset :: "(addr \<Rightarrow> 32 word) \<Rightarrow> addr \<Rightarrow> 32 word" where
  "cancel_reset regs = set_reg PM_WDOG (PM_PASSWORD OR 0) (set_reg PM_RSTC (PM_PASSWORD OR 0) regs)"

end
