(* ===== verification/DtbClaims.thy ===== *)
theory DtbClaims
  imports Dtb
begin

text \<open>
  The traversal of the device tree against a list of the items that the structure block encodes.
\<close>

unbundle bit_operations_syntax

section \<open>Byte order\<close>

lemma little2big_bits:
  "bit (little2big x) n \<longleftrightarrow>
     (if n < 8 then bit x (n + 24) else if n < 16 then bit x (n + 8)
      else if n < 24 then bit x (n - 8) else n < 32 \<and> bit x (n - 24))"
proof -
  have m: "(0xff :: 32 word) = mask 8" "(0xff0000 :: 32 word) = push_bit 16 (mask 8)"
    "(0xff00 :: 32 word) = push_bit 8 (mask 8)" "(0xff000000 :: 32 word) = push_bit 24 (mask 8)"
    by (simp_all add: mask_numeral)
  have e: "bit (little2big x) n \<longleftrightarrow> n < 32 \<and>
    (n < 8 \<and> bit x (24 + n) \<or> 16 \<le> n \<and> n - 16 < 8 \<and> bit x (n - 8) \<or>
      8 \<le> n \<and> n - 8 < 8 \<and> bit x (8 + n) \<or> 24 \<le> n \<and> bit x (n - 24))"
    unfolding little2big_def m
    using bit_imp_le_length [of x "24 + n"] bit_imp_le_length [of x "8 + n"]
    by (simp only: bit_or_iff bit_and_iff bit_push_bit_iff bit_drop_bit_eq bit_mask_iff
        possible_bit_word o_apply) (cases "n < 32"; cases "n < 8"; cases "n < 16"; cases "n < 24"; auto)
  consider "n < 8" | "8 \<le> n" "n < 16" | "16 \<le> n" "n < 24" | "24 \<le> n" by linarith
  then show ?thesis unfolding e by cases (auto simp: add.commute)
qed

lemma little2big_involution_bits: "little2big (little2big x) = x"
proof (rule bit_word_eqI)
  fix n assume "n < LENGTH(32)"
  then show "bit (little2big (little2big x)) n \<longleftrightarrow> bit x n"
    unfolding little2big_bits by (auto split: if_splits)
qed

lemma bytes_bit:
  fixes b0 b1 b2 b3 :: "8 word"
  shows "bit (ucast b0 OR push_bit 8 (ucast b1) OR push_bit 16 (ucast b2) OR push_bit 24 (ucast b3) :: 32 word) n \<longleftrightarrow>
    (if n < 8 then bit b0 n else if n < 16 then bit b1 (n - 8) else if n < 24 then bit b2 (n - 16) else bit b3 (n - 24))"
proof -
  have b: "bit (b :: 8 word) k \<Longrightarrow> k < 8" for b k using bit_imp_le_length by fastforce
  have e: "bit (ucast b0 OR push_bit 8 (ucast b1) OR push_bit 16 (ucast b2) OR push_bit 24 (ucast b3) :: 32 word) n \<longleftrightarrow>
    n < 32 \<and> (bit b0 n \<or> 8 \<le> n \<and> bit b1 (n - 8) \<or> 16 \<le> n \<and> bit b2 (n - 16) \<or> 24 \<le> n \<and> bit b3 (n - 24))"
    by (auto simp: bit_or_iff bit_push_bit_iff bit_ucast_iff)
  consider "n < 8" | "8 \<le> n" "n < 16" | "16 \<le> n" "n < 24" | "24 \<le> n" by linarith
  then show ?thesis
    unfolding e using b [of b3 "n - 24"] b [of b2 "n - 16"] b [of b1 "n - 8"] b [of b0 n] by cases auto
qed

lemma little2big_bytes:
  fixes b0 b1 b2 b3 :: "8 word"
  shows "little2big (ucast b0 OR push_bit 8 (ucast b1) OR push_bit 16 (ucast b2) OR push_bit 24 (ucast b3)) =
   ucast b3 OR push_bit 8 (ucast b2) OR push_bit 16 (ucast b1) OR push_bit 24 (ucast b0)"
proof (rule bit_word_eqI)
  fix n assume "n < LENGTH(32)"
  then consider "n < 8" | "8 \<le> n" "n < 16" | "16 \<le> n" "n < 24" | "24 \<le> n" "n < 32" by fastforce
  then show "bit (little2big (ucast b0 OR push_bit 8 (ucast b1) OR push_bit 16 (ucast b2) OR push_bit 24 (ucast b3))) n =
    bit (ucast b3 OR push_bit 8 (ucast b2) OR push_bit 16 (ucast b1) OR push_bit 24 (ucast b0) :: 32 word) n"
    unfolding little2big_bits bytes_bit by cases auto
qed

lemma uint_bytes:
  fixes b0 b1 b2 b3 :: "8 word"
  shows "uint (ucast b0 OR push_bit 8 (ucast b1) OR push_bit 16 (ucast b2) OR push_bit 24 (ucast b3) :: 32 word) =
    uint b0 + 2 ^ 8 * uint b1 + 2 ^ 16 * uint b2 + 2 ^ 24 * uint b3"
proof -
  have b: "bit (uint (b :: 8 word)) k \<Longrightarrow> k < 8" for b k by (simp add: bit_uint_iff)
  have u: "uint (push_bit k (ucast (b :: 8 word)) :: 32 word) = push_bit k (uint b)" if "k \<le> 24" for b k
    by (rule bit_eqI) (use b that in \<open>fastforce simp: bit_uint_iff bit_push_bit_iff bit_ucast_iff dest: bit_imp_le_length\<close>)
  have u0: "uint (ucast (b :: 8 word) :: 32 word) = uint b" for b by (simp add: uint_up_ucast is_up)
  have d: "x + y = x OR y" if "\<And>n. bit x n \<Longrightarrow> \<not> bit y n" for x y :: int
    by (rule disjunctive_add) (use that in auto)
  have "uint b0 + push_bit 8 (uint b1) = uint b0 OR push_bit 8 (uint b1)"
    by (rule d) (use b in \<open>fastforce simp: bit_push_bit_iff\<close>)
  moreover have "(uint b0 OR push_bit 8 (uint b1)) + push_bit 16 (uint b2) = (uint b0 OR push_bit 8 (uint b1)) OR push_bit 16 (uint b2)"
    by (rule d) (use b in \<open>fastforce simp: bit_push_bit_iff bit_or_iff\<close>)
  moreover have "((uint b0 OR push_bit 8 (uint b1)) OR push_bit 16 (uint b2)) + push_bit 24 (uint b3) =
      ((uint b0 OR push_bit 8 (uint b1)) OR push_bit 16 (uint b2)) OR push_bit 24 (uint b3)"
    by (rule d) (use b in \<open>fastforce simp: bit_push_bit_iff bit_or_iff\<close>)
  moreover have "uint (ucast b0 OR push_bit 8 (ucast b1) OR push_bit 16 (ucast b2) OR push_bit 24 (ucast b3) :: 32 word) =
      ((uint b0 OR push_bit 8 (uint b1)) OR push_bit 16 (uint b2)) OR push_bit 24 (uint b3)"
    using u [of 8 b1] u [of 16 b2] u [of 24 b3] by (simp only: uint_or u0 or.assoc)
  ultimately have "uint (ucast b0 OR push_bit 8 (ucast b1) OR push_bit 16 (ucast b2) OR push_bit 24 (ucast b3) :: 32 word) =
      uint b0 + push_bit 8 (uint b1) + push_bit 16 (uint b2) + push_bit 24 (uint b3)"
    by (simp only:)
  then show ?thesis by (simp only: push_bit_eq_mult mult.commute)
qed

lemma token_at_bytes:
  "token_at m p = 2 ^ 24 * uint (m p) + 2 ^ 16 * uint (m (p + 1)) + 2 ^ 8 * uint (m (p + 2)) + uint (m (p + 3))"
  unfolding token_at_def load32_def little2big_bytes uint_bytes by simp

section \<open>Items of a structure block\<close>

datatype fdt_item = Node "byte list" | Prop int int | Other int

text \<open>Memory holds the items from \<open>p\<close> up to \<open>q\<close>: a node's name, a property's length and name offset.\<close>

primrec items_at :: "mem \<Rightarrow> addr \<Rightarrow> fdt_item list \<Rightarrow> addr \<Rightarrow> bool" where
  "items_at m p [] q \<longleftrightarrow> p = q"
| "items_at m p (x # xs) q \<longleftrightarrow>
     (case x of
        Node name \<Rightarrow> token_at m p = FDT_BEGIN_NODE \<and> str_at m (p + 4) name \<and>
          items_at m (align4 (p + 4 + int (length name) + 1)) xs q
      | Prop len nameoff \<Rightarrow> token_at m p = FDT_PROP \<and> token_at m (p + 4) = len \<and>
          token_at m (p + 8) = nameoff \<and> items_at m (align4 (p + 12 + len)) xs q
      | Other t \<Rightarrow> token_at m p = t \<and> t \<noteq> FDT_BEGIN_NODE \<and> t \<noteq> FDT_PROP \<and> items_at m (p + 4) xs q)"

text \<open>The calls that the items stand for, in order.\<close>

primrec visit :: "'s dtb_callback \<Rightarrow> addr \<Rightarrow> addr \<Rightarrow> fdt_item list \<Rightarrow> 's \<Rightarrow> 's res" where
  "visit callback strs p [] s = Inr s"
| "visit callback strs p (x # xs) s =
     (case x of
        Node name \<Rightarrow> rbind (callback FDT_BEGIN_NODE (p + 4) None 0 s)
          (visit callback strs (align4 (p + 4 + int (length name) + 1)) xs)
      | Prop len nameoff \<Rightarrow> rbind (callback FDT_PROP (strs + nameoff) (Some (p + 12)) len s)
          (visit callback strs (align4 (p + 12 + len)) xs)
      | Other t \<Rightarrow> visit callback strs (p + 4) xs s)"

lemma align4_Suc: "align4 (p + 1) = p + (4 - p mod 4)"
  unfolding align4_def by presburger

lemma items_at_le: "items_at m p xs q \<Longrightarrow> p \<le> q"
proof (induction xs arbitrary: p)
  case Nil
  then show ?case by simp
next
  case (Cons x xs)
  show ?case
  proof (cases x)
    case (Node name)
    then have "align4 (p + 4 + int (length name) + 1) \<le> q" using Cons by simp
    then show ?thesis using align4_ge [of "p + 4 + int (length name) + 1"] by linarith
  next
    case (Prop len off)
    then have "align4 (p + 12 + len) \<le> q" "0 \<le> len" using Cons by auto
    then show ?thesis using align4_ge [of "p + 12 + len"] by linarith
  next
    case (Other t)
    then show ?thesis using Cons by fastforce
  qed
qed

lemma items_at_less:
  assumes "items_at m p (x # xs) q"
  shows "p < q"
proof (cases x)
  case (Node name)
  then have "align4 (p + 4 + int (length name) + 1) \<le> q" using assms by (auto dest: items_at_le)
  then show ?thesis using align4_ge [of "p + 4 + int (length name) + 1"] by linarith
next
  case (Prop len off)
  then have "align4 (p + 12 + len) \<le> q" "0 \<le> len" using assms by (auto dest: items_at_le)
  then show ?thesis using align4_ge [of "p + 12 + len"] by linarith
next
  case (Other t)
  then have "p + 4 \<le> q" using assms by (auto dest: items_at_le)
  then show ?thesis by simp
qed

lemma fdt_loop_items:
  "items_at m p xs q \<Longrightarrow> fdt_loop m callback strs q p s = visit callback strs p xs s"
proof (induction xs arbitrary: p s)
  case Nil
  then show ?case by (simp add: fdt_loop.simps)
next
  case (Cons x xs)
  have lt: "p < q" by (rule items_at_less [OF Cons.prems])
  show ?case
  proof (cases x)
    case (Node name)
    let ?e = "p + 4 + int (length name)"
    have n: "token_at m p = FDT_BEGIN_NODE" "strlen m (p + 4) = Some (length name)"
      "items_at m (align4 (?e + 1)) xs q"
      using Cons.prems Node strlen_str by simp_all
    have "fdt_loop m callback strs q p s =
        rbind (callback FDT_BEGIN_NODE (p + 4) None 0 s) (fdt_loop m callback strs q (align4 (?e + 1)))"
      using lt n(1,2) unfolding align4_Suc by (simp add: fdt_loop.simps [of m callback strs q p] Let_def)
    then show ?thesis using Cons.IH [OF n(3)] Node by (simp cong: rbind_cong)
  next
    case (Prop len off)
    have n: "token_at m p = FDT_PROP" "token_at m (p + 4) = len" "token_at m (p + 8) = off"
      "items_at m (align4 (p + 12 + len)) xs q"
      using Cons.prems Prop by simp_all
    have "fdt_loop m callback strs q p s =
        rbind (callback FDT_PROP (strs + off) (Some (p + 12)) len s) (fdt_loop m callback strs q (align4 (p + 12 + len)))"
      using lt n(1-3)
      by (simp add: fdt_loop.simps [of m callback strs q p] Let_def FDT_PROP_def FDT_BEGIN_NODE_def add.assoc)
    then show ?thesis using Cons.IH [OF n(4)] Prop by (simp cong: rbind_cong)
  next
    case (Other t)
    then have "fdt_loop m callback strs q p s = fdt_loop m callback strs q (p + 4) s"
      using lt Cons.prems by (simp add: fdt_loop.simps [of m callback strs q p] Let_def)
    then show ?thesis using Cons Other by simp
  qed
qed

section \<open>Properties\<close>

text \<open>A 32-bit load followed by little2big gives the number whose bytes memory holds in big-endian
  order, and little2big undoes itself.\<close>

theorem little2big_correct:
  "token_at m p = 2 ^ 24 * uint (m p) + 2 ^ 16 * uint (m (p + 1)) + 2 ^ 8 * uint (m (p + 2)) + uint (m (p + 3)) \<and>
    little2big (little2big x) = x"
  by (simp add: token_at_bytes little2big_involution_bits)

text \<open>C40: When the structure block encodes a list of nodes, properties and other tokens, padded to
  4 bytes as the format prescribes, fdt_traverse calls back exactly for the nodes and properties, in
  their order, with the addresses of their names and values, and returns.\<close>

theorem fdt_traverse_correct:
  assumes "token_at m h = 0xD00DFEED" and "p = h + token_at m (h + 8)"
    and "items_at m p xs (p + token_at m (h + 36))"
  shows "fdt_traverse m callback h size0 s =
    rbind (visit callback (h + token_at m (h + 12)) p xs s) (\<lambda>s. Inr (s, token_at m (h + 36)))"
  using assms(1) fdt_loop_items [OF assms(3), of callback "h + token_at m (h + 12)" s]
  unfolding assms(2) by (simp add: fdt_traverse_def Let_def)

text \<open>A tree with one nameless node; the callback counts its calls.\<close>

definition demo_dtb :: mem where
  "demo_dtb = (\<lambda>_. 0)(0 := 0xD0, 1 := 0x0D, 2 := 0xFE, 3 := 0xED, 11 := 40, 39 := 8, 43 := 1)"

theorem fdt_traverse_correct_witness:
  "fdt_traverse demo_dtb (\<lambda>t n v l s. Inr (s + 1)) 0 0 (0::nat) = Inr (1, 8)"
proof -
  have t: "token_at demo_dtb 0 = 0xD00DFEED" "token_at demo_dtb 8 = 40" "token_at demo_dtb 12 = 0"
    "token_at demo_dtb 36 = 8" "token_at demo_dtb 40 = 1"
    by (simp_all add: token_at_bytes demo_dtb_def)
  have "items_at demo_dtb 40 [Node []] (40 + token_at demo_dtb (0 + 36))"
    using t by (simp add: FDT_BEGIN_NODE_def align4_def) (simp add: demo_dtb_def)
  from fdt_traverse_correct [OF _ _ this, where callback = "\<lambda>t n v l s. Inr (s + 1)" and s = "0::nat"]
  show ?thesis using t by simp
qed

end
