(* ===== verification/Paths.thy ===== *)
theory Paths
  imports StringProps
begin

text \<open>
  The path functions of \<open>lib/vfs.c\<close>. From here on a string is the list of its bytes before the
  terminator; \<open>spilt_strings\<close> of a string at '/' is \<open>fields SLASH\<close> of it, and a copy into a
  buffer that is too small is the fault \<open>OutOfBounds\<close>.
\<close>

definition SLASH :: byte where "SLASH = 47"

definition CURRENT_DIR :: "byte list" where "CURRENT_DIR = [46]"

definition PARENT_DIR :: "byte list" where "PARENT_DIR = [46, 46]"

definition TMPFS_MAX_COMPONENT_NAME :: nat where "TMPFS_MAX_COMPONENT_NAME = 32"

definition VFS_MAX_DEPTH :: nat where "VFS_MAX_DEPTH = 64"

definition TMPFS_MAX_PATH_LEN :: nat where "TMPFS_MAX_PATH_LEN = 255"

text \<open>A string copied into a buffer of \<open>n\<close> bytes.\<close>

definition fit :: "nat \<Rightarrow> byte list \<Rightarrow> byte list res" where
  "fit n cs = (if length cs < n then Inr cs else Inl OutOfBounds)"

section \<open>The first component\<close>

definition skip_slash :: "byte list \<Rightarrow> byte list" where
  "skip_slash p = (case p of [] \<Rightarrow> [] | c # cs \<Rightarrow> if c = SLASH then cs else p)"

definition first_component :: "byte list \<Rightarrow> byte list res" where
  "first_component pathname =
     fit TMPFS_MAX_COMPONENT_NAME (takeWhile (\<lambda>c. c \<noteq> SLASH) (skip_slash pathname))"

definition pop_first_component :: "byte list \<Rightarrow> byte list" where
  "pop_first_component pathname =
     skip_slash (dropWhile (\<lambda>c. c \<noteq> SLASH) (skip_slash pathname))"

text \<open>The array that \<open>spilt_strings\<close> fills: a pointer for each field and \<open>NULL\<close> after the last.\<close>

definition split_path :: "byte list \<Rightarrow> (byte list option list) res" where
  "split_path cs =
     (if length (fields SLASH cs) < VFS_MAX_DEPTH then Inr (map Some (fields SLASH cs) @ [None])
      else Inl OutOfBounds)"

section \<open>Absolute paths\<close>

text \<open>\<open>while(comps[r][0] == 0 || strcmp(comps[r], ".") == 0) r++;\<close>\<close>

function skip_blank :: "byte list option list \<Rightarrow> nat \<Rightarrow> nat res" where
  "skip_blank comps r =
     (if r < length comps then
        (case comps ! r of
           None \<Rightarrow> Inl NullDeref
         | Some c \<Rightarrow> if c = [] \<or> c = CURRENT_DIR then skip_blank comps (r + 1) else Inr r)
      else Inl OutOfBounds)"
  by pat_completeness auto
termination
  by (relation "measure (\<lambda>(comps, r). length comps - r)") auto

declare skip_blank.simps [simp del]

lemma skip_blank_ge: "skip_blank comps r = Inr r' \<Longrightarrow> r \<le> r' \<and> r' < length comps"
proof (induction comps r rule: skip_blank.induct)
  case (1 comps r)
  show ?case
  proof (cases "r < length comps")
    case False
    then show ?thesis using 1(2) by (simp add: skip_blank.simps)
  next
    case True
    then show ?thesis using 1(1) [OF True] 1(2)
      by (subst (asm) skip_blank.simps) (fastforce split: option.splits if_splits)
  qed
qed

text \<open>The body of the loop for one component: the array and \<open>w\<close> afterwards.\<close>

definition translate :: "byte list option list \<Rightarrow> nat \<Rightarrow> nat \<Rightarrow> (byte list option list \<times> nat) res" where
  "translate comps w r =
     (if comps ! r = Some PARENT_DIR then
        if w = 0 \<or> comps ! (w - 1) = Some PARENT_DIR then Inr (comps[w := comps ! r], w + 1)
        else Inr (comps[w := None], w - 1)
      else Inr (comps[w := comps ! r], w + 1))"

function translate_loop ::
    "nat \<Rightarrow> byte list option list \<Rightarrow> nat \<Rightarrow> nat \<Rightarrow> (byte list option list \<times> nat) res" where
  "translate_loop count comps w r =
     (if w < count \<and> r < count then
        rbind (skip_blank comps r) (\<lambda>r.
        rbind (translate comps w r) (\<lambda>(comps, w).
        translate_loop count comps w (r + 1)))
      else Inr (comps, w))"
  by pat_completeness auto
termination
  by (relation "measure (\<lambda>(count, comps, w, r). count - r)") (auto dest: skip_blank_ge)

declare translate_loop.simps [simp del]

text \<open>\<open>for(i=0; i<count; i++) { strcat_(abs_path, "/"); strcat_(abs_path, comps[i]); }\<close>\<close>

definition render :: "byte list list \<Rightarrow> byte list" where
  "render cs = concat (map (\<lambda>c. SLASH # c) cs)"

text \<open>The result is the return value with the new contents of \<open>abs_path\<close>.\<close>

definition to_abs_path :: "byte list \<Rightarrow> byte list \<Rightarrow> byte list \<Rightarrow> (int \<times> byte list) res" where
  "to_abs_path abs_path cwd path =
     (if path \<noteq> [] \<and> hd path = SLASH then
        rbind (fit TMPFS_MAX_PATH_LEN path) (\<lambda>p. Inr (0, p))
      else if cwd = [] \<or> hd cwd \<noteq> SLASH \<or> last cwd \<noteq> SLASH then Inr (1, abs_path)
      else
        rbind (fit TMPFS_MAX_PATH_LEN (cwd @ path)) (\<lambda>untranslate.
        rbind (split_path untranslate) (\<lambda>comps.
        rbind (translate_loop (length comps - 1) comps 0 0) (\<lambda>(comps, w).
        rbind (fit TMPFS_MAX_PATH_LEN (render (map the (take w comps)))) (\<lambda>p. Inr (0, p))))))"

end
