(* ===== verification/FsState.thy ===== *)
theory FsState
  imports Kmalloc Paths Uart
begin

text \<open>
  The state of the file system layer: one heap per structure of \<open>vfs.h\<close>, on top of the kernel's
  allocator. A structure's fields keep whatever was there before until they are assigned, as
  \<open>malloc_\<close> does not clear memory. A table of operations is represented by the file system
  whose functions it holds. File contents and buffers are bytes of memory.
\<close>

section \<open>Structures\<close>

datatype comp_type = COMP_FILE | COMP_DIR

datatype fs_kind = Tmpfs | Devfs | Initramfs

text \<open>\<open>entries\<close> and \<open>data\<close> are one field, as they are a union in the code.\<close>

record vnode_component =
  c_name :: "byte list"
  c_type :: comp_type
  c_len :: nat
  c_union :: "addr option"

record vnode =
  v_mount :: "addr option"
  v_ops :: addr
  f_ops :: addr
  component :: "addr option"

record vfile =
  f_vnode :: "addr option"
  f_pos :: nat
  ff_ops :: addr
  f_flags :: int

record filesystem =
  fs_name :: "byte list"
  setup_mount :: "fs_kind option"

record mount =
  m_root :: "addr option"
  m_fs :: addr

record vfs =
  heap :: pool_state
  vnodes :: "addr \<Rightarrow> vnode"
  comps :: "addr \<Rightarrow> vnode_component"
  entry_at :: "addr \<Rightarrow> nat \<Rightarrow> addr"
  files :: "addr \<Rightarrow> vfile"
  filesystems :: "addr \<Rightarrow> filesystem"
  mounts :: "addr \<Rightarrow> mount"
  fop_table :: "addr \<Rightarrow> fs_kind"
  vop_table :: "addr \<Rightarrow> fs_kind"
  bytes :: mem
  rootfs :: "addr option"
  mounted :: bool
  console :: uart

definition NAME_LEN :: nat where "NAME_LEN = 16"

definition TMPFS_MAX_ENTRY :: nat where "TMPFS_MAX_ENTRY = 16"

definition TMPFS_MAX_FILE_SIZE :: nat where "TMPFS_MAX_FILE_SIZE = 4096"

definition O_CREAT :: nat where "O_CREAT = 64"

definition SIZEOF_vnode :: nat where "SIZEOF_vnode = 32"

definition SIZEOF_vnode_component :: nat where "SIZEOF_vnode_component = 32"

definition SIZEOF_file :: nat where "SIZEOF_file = 32"

definition SIZEOF_mount :: nat where "SIZEOF_mount = 16"

definition SIZEOF_filesystem :: nat where "SIZEOF_filesystem = 16"

definition SIZEOF_file_operations :: nat where "SIZEOF_file_operations = 32"

definition SIZEOF_vnode_operations :: nat where "SIZEOF_vnode_operations = 24"

section \<open>Access\<close>

definition alloc :: "nat \<Rightarrow> vfs \<Rightarrow> (addr \<times> vfs) res" where
  "alloc n s = rbind (kmalloc n (heap s)) (\<lambda>(a, h). Inr (a, s\<lparr>heap := h\<rparr>))"

definition release :: "addr \<Rightarrow> vfs \<Rightarrow> vfs res" where
  "release a s = rbind (kfree a (heap s)) (\<lambda>h. Inr (s\<lparr>heap := h\<rparr>))"

definition upd_vnode :: "addr \<Rightarrow> (vnode \<Rightarrow> vnode) \<Rightarrow> vfs \<Rightarrow> vfs" where
  "upd_vnode a f s = s\<lparr>vnodes := (vnodes s)(a := f (vnodes s a))\<rparr>"

definition upd_comp :: "addr \<Rightarrow> (vnode_component \<Rightarrow> vnode_component) \<Rightarrow> vfs \<Rightarrow> vfs" where
  "upd_comp a f s = s\<lparr>comps := (comps s)(a := f (comps s a))\<rparr>"

definition upd_file :: "addr \<Rightarrow> (vfile \<Rightarrow> vfile) \<Rightarrow> vfs \<Rightarrow> vfs" where
  "upd_file a f s = s\<lparr>files := (files s)(a := f (files s a))\<rparr>"

definition upd_mount :: "addr \<Rightarrow> (mount \<Rightarrow> mount) \<Rightarrow> vfs \<Rightarrow> vfs" where
  "upd_mount a f s = s\<lparr>mounts := (mounts s)(a := f (mounts s a))\<rparr>"

definition upd_fs :: "addr \<Rightarrow> (filesystem \<Rightarrow> filesystem) \<Rightarrow> vfs \<Rightarrow> vfs" where
  "upd_fs a f s = s\<lparr>filesystems := (filesystems s)(a := f (filesystems s a))\<rparr>"

text \<open>\<open>node->component\<close>, followed.\<close>

definition comp_of :: "addr \<Rightarrow> vfs \<Rightarrow> vnode_component res" where
  "comp_of node s = rbind (deref (component (vnodes s node))) (\<lambda>c. Inr (comps s c))"

end
