(* ===== verification/Tmpfs.thy ===== *)
theory Tmpfs
  imports FsState
begin

text \<open>
  The memory file system of \<open>lib/tmpfs.c\<close> and the device file system of \<open>lib/devfs.c\<close>, which shares
  its directories. \<open>target\<close> is the contents of the caller's pointer variable, returned updated
  with the function's value.
\<close>

section \<open>Directories\<close>

text \<open>A new root node for the mount \<open>m\<close> with the operations of \<open>k\<close>; all three file systems do this
  in the same order.\<close>

definition fresh_root :: "fs_kind \<Rightarrow> addr \<Rightarrow> vfs \<Rightarrow> (addr \<times> vfs) res" where
  "fresh_root k m s =
     rbind (alloc SIZEOF_vnode s) (\<lambda>(root, s).
     let s = upd_mount m (\<lambda>x. x\<lparr>m_root := Some root\<rparr>) s;
         s = upd_vnode root (\<lambda>v. v\<lparr>v_mount := None\<rparr>) s in
     rbind (alloc SIZEOF_vnode_component s) (\<lambda>(c, s).
     let s = upd_vnode root (\<lambda>v. v\<lparr>component := Some c\<rparr>) s;
         s = upd_comp c (\<lambda>_. \<lparr>c_name = [], c_type = COMP_DIR, c_len = 0, c_union = None\<rparr>) s in
     rbind (alloc SIZEOF_file_operations s) (\<lambda>(fo, s).
     let s = upd_vnode root (\<lambda>v. v\<lparr>f_ops := fo\<rparr>) (s\<lparr>fop_table := (fop_table s)(fo := k)\<rparr>) in
     rbind (alloc SIZEOF_vnode_operations s) (\<lambda>(vo, s).
     Inr (root, upd_vnode root (\<lambda>v. v\<lparr>v_ops := vo\<rparr>) (s\<lparr>vop_table := (vop_table s)(vo := k)\<rparr>))))))"

definition tmpfs_setup_mount :: "addr \<Rightarrow> vfs \<Rightarrow> (int \<times> vfs) res" where
  "tmpfs_setup_mount m s = rbind (fresh_root Tmpfs m s) (\<lambda>(root, s). Inr (0, s))"

text \<open>The search of the entries from \<open>i\<close> on: the entry whose component has this name.\<close>

function find_entry :: "byte list \<Rightarrow> vnode_component \<Rightarrow> nat \<Rightarrow> vfs \<Rightarrow> addr option res" where
  "find_entry name dir i s =
     (if i < c_len dir then
        rbind (deref (c_union dir)) (\<lambda>entries.
        rbind (comp_of (entry_at s entries i) s) (\<lambda>c.
        if name = c_name c then Inr (Some (entry_at s entries i)) else find_entry name dir (i + 1) s))
      else Inr None)"
  by pat_completeness auto
termination
  by (relation "measure (\<lambda>(name, dir, i, s). c_len dir - i)") auto

declare find_entry.simps [simp del]

definition tmpfs_lookup :: "addr \<Rightarrow> addr option \<Rightarrow> byte list \<Rightarrow> vfs \<Rightarrow> (int \<times> addr option) res" where
  "tmpfs_lookup dir_node target component_name s =
     rbind (comp_of dir_node s) (\<lambda>dir.
     if c_type dir \<noteq> COMP_DIR then Inr (-1, target)
     else
       rbind (find_entry component_name dir 0 s) (\<lambda>r.
       case r of
         None \<Rightarrow> Inr (-1, target)
       | Some entry \<Rightarrow>
           (case v_mount (vnodes s entry) of
              None \<Rightarrow> Inr (0, Some entry)
            | Some m \<Rightarrow> Inr (0, m_root (mounts s m)))))"

text \<open>The new node before it is entered in the directory; its \<open>type\<close> is not set.\<close>

definition new_node :: "addr \<Rightarrow> byte list \<Rightarrow> vfs \<Rightarrow> (addr \<times> vfs) res" where
  "new_node dir_node name s =
     rbind (alloc SIZEOF_vnode s) (\<lambda>(node, s).
     rbind (alloc SIZEOF_vnode_component s) (\<lambda>(c, s).
     let s = upd_vnode node (\<lambda>v. v\<lparr>component := Some c\<rparr>) s in
     rbind (alloc NAME_LEN s) (\<lambda>(_, s).
     rbind (fit NAME_LEN name) (\<lambda>name.
     let s = upd_comp c (\<lambda>x. x\<lparr>c_name := name, c_union := None, c_len := 0\<rparr>) s in
     Inr (node, upd_vnode node (\<lambda>v. v\<lparr>f_ops := f_ops (vnodes s dir_node), v_ops := v_ops (vnodes s dir_node),
       v_mount := None\<rparr>) s)))))"

text \<open>\<open>entries[len++] = node\<close>, with an array for the first one.\<close>

definition add_entry :: "addr \<Rightarrow> addr \<Rightarrow> vfs \<Rightarrow> vfs res" where
  "add_entry d node s =
     rbind (case c_union (comps s d) of
              Some e \<Rightarrow> Inr (e, s)
            | None \<Rightarrow>
                rbind (alloc (8 * TMPFS_MAX_ENTRY) s) (\<lambda>(e, s).
                Inr (e, upd_comp d (\<lambda>x. x\<lparr>c_union := Some e\<rparr>) s))) (\<lambda>(e, s).
     let n = c_len (comps s d) in
     Inr (upd_comp d (\<lambda>x. x\<lparr>c_len := n + 1\<rparr>)
            (s\<lparr>entry_at := (entry_at s)(e := (entry_at s e)(n := node))\<rparr>)))"

definition tmpfs_create :: "addr \<Rightarrow> addr option \<Rightarrow> byte list \<Rightarrow> vfs \<Rightarrow> ((int \<times> addr option) \<times> vfs) res" where
  "tmpfs_create dir_node target component_name s =
     rbind (deref (component (vnodes s dir_node))) (\<lambda>d.
     if c_type (comps s d) \<noteq> COMP_DIR then Inr ((-1, target), s)
     else
       rbind (tmpfs_lookup dir_node target component_name s) (\<lambda>(r, t).
       if r = 0 then Inr ((1, t), s)
       else if c_len (comps s d) \<ge> TMPFS_MAX_ENTRY then Inr ((-1, target), s)
       else
         rbind (new_node dir_node component_name s) (\<lambda>(node, s).
         rbind (add_entry d node s) (\<lambda>s. Inr ((0, Some node), s)))))"

definition tmpfs_mkdir :: "addr \<Rightarrow> addr option \<Rightarrow> byte list \<Rightarrow> vfs \<Rightarrow> ((int \<times> addr option) \<times> vfs) res" where
  "tmpfs_mkdir dir_node target component_name s =
     rbind (comp_of dir_node s) (\<lambda>dir.
     if c_type dir \<noteq> COMP_DIR then Inr ((-1, target), s)
     else
       rbind (tmpfs_create dir_node target component_name s) (\<lambda>((r, t), s).
       if r = 0 then
         rbind (deref t) (\<lambda>node.
         rbind (deref (component (vnodes s node))) (\<lambda>c.
         Inr ((0, t), upd_comp c (\<lambda>x. x\<lparr>c_type := COMP_DIR, c_union := None\<rparr>) s)))
       else if r = 1 then Inr ((0, t), s)
       else Inr ((-1, t), s)))"

section \<open>Files\<close>

definition tmpfs_open :: "addr \<Rightarrow> addr option \<Rightarrow> vfs \<Rightarrow> ((int \<times> addr option) \<times> vfs) res" where
  "tmpfs_open file_node target s =
     rbind (comp_of file_node s) (\<lambda>c.
     if c_type c \<noteq> COMP_FILE then Inr ((-1, target), s)
     else
       rbind (alloc SIZEOF_file s) (\<lambda>(f, s).
       Inr ((0, Some f),
         upd_file f (\<lambda>x. x\<lparr>ff_ops := f_ops (vnodes s file_node), f_pos := 0, f_vnode := Some file_node\<rparr>) s)))"

definition tmpfs_close :: "addr option \<Rightarrow> vfs \<Rightarrow> (int \<times> vfs) res" where
  "tmpfs_close f s =
     (case f of
        None \<Rightarrow> Inr (-1, s)
      | Some a \<Rightarrow> rbind (release a s) (\<lambda>s. Inr (0, s)))"

text \<open>The checks that \<open>tmpfs_write\<close> and \<open>tmpfs_read\<close> start with: the component of an open file.\<close>

definition file_comp :: "addr option \<Rightarrow> vfs \<Rightarrow> (addr \<times> addr) option" where
  "file_comp f s =
     (case f of
        None \<Rightarrow> None
      | Some a \<Rightarrow>
          (case f_vnode (files s a) of
             None \<Rightarrow> None
           | Some node \<Rightarrow>
               (case component (vnodes s node) of
                  None \<Rightarrow> None
                | Some c \<Rightarrow> if c_type (comps s c) \<noteq> COMP_FILE then None else Some (a, c))))"

text \<open>\<open>memcpy_\<close> of \<open>n\<close> bytes between pointers of which one may be \<open>NULL\<close>.\<close>

definition copy_bytes :: "nat \<Rightarrow> addr option \<Rightarrow> addr option \<Rightarrow> vfs \<Rightarrow> vfs res" where
  "copy_bytes n dest src s =
     (if n = 0 then Inr s
      else rbind (deref src) (\<lambda>q. rbind (deref dest) (\<lambda>p. Inr (s\<lparr>bytes := memcpy n p q (bytes s)\<rparr>))))"

text \<open>Making room: a longer block with the old contents.\<close>

definition grow :: "addr \<Rightarrow> nat \<Rightarrow> vfs \<Rightarrow> vfs res" where
  "grow c new_len s =
     rbind (alloc new_len s) (\<lambda>(new_space, s).
     rbind (if c_len (comps s c) > 0 then
              rbind (copy_bytes (c_len (comps s c)) (Some new_space) (c_union (comps s c)) s) (\<lambda>s.
              rbind (deref (c_union (comps s c))) (\<lambda>old. release old s))
            else Inr s) (\<lambda>s.
     Inr (upd_comp c (\<lambda>x. x\<lparr>c_len := new_len, c_union := Some new_space\<rparr>) s)))"

definition tmpfs_write :: "addr option \<Rightarrow> addr \<Rightarrow> nat \<Rightarrow> vfs \<Rightarrow> (int \<times> vfs) res" where
  "tmpfs_write f buf len s =
     (case file_comp f s of
        None \<Rightarrow> Inr (-1, s)
      | Some (a, c) \<Rightarrow>
          let pos = f_pos (files s a);
              ideal_final_pos = u64 (int pos + int len) in
          rbind (if ideal_final_pos > c_len (comps s c) \<and> c_len (comps s c) < TMPFS_MAX_FILE_SIZE then
                   grow c (min ideal_final_pos TMPFS_MAX_FILE_SIZE) s
                 else Inr s) (\<lambda>s.
          let writable = (if ideal_final_pos \<ge> TMPFS_MAX_FILE_SIZE
                          then u64 (int TMPFS_MAX_FILE_SIZE - int pos) else len) in
          rbind (copy_bytes writable (map_option (\<lambda>d. d + int pos) (c_union (comps s c))) (Some buf) s) (\<lambda>s.
          Inr (c_int writable, upd_file a (\<lambda>x. x\<lparr>f_pos := u64 (int pos + int writable)\<rparr>) s))))"

text \<open>The copy starts at the beginning of the file, whatever the position.\<close>

definition tmpfs_read :: "addr option \<Rightarrow> addr \<Rightarrow> nat \<Rightarrow> vfs \<Rightarrow> (int \<times> vfs) res" where
  "tmpfs_read f buf len s =
     (case file_comp f s of
        None \<Rightarrow> Inr (-1, s)
      | Some (a, c) \<Rightarrow>
          let pos = f_pos (files s a);
              ideal_final_pos = u64 (int pos + int len);
              readable = (if ideal_final_pos \<ge> c_len (comps s c)
                          then u64 (int (c_len (comps s c)) - int pos) else len) in
          rbind (copy_bytes readable (Some buf) (c_union (comps s c)) s) (\<lambda>s.
          Inr (c_int readable, upd_file a (\<lambda>x. x\<lparr>f_pos := u64 (int pos + int readable)\<rparr>) s)))"

section \<open>The device file system\<close>

definition DEVFS_UART_NAME :: "byte list" where "DEVFS_UART_NAME = cstr ''uart''"

definition devfs_mkdir :: "addr option \<Rightarrow> vfs \<Rightarrow> ((int \<times> addr option) \<times> vfs) res" where
  "devfs_mkdir target s = Inr ((1, target), s)"

definition devfs_setup_mount :: "addr \<Rightarrow> vfs \<Rightarrow> (int \<times> vfs) res" where
  "devfs_setup_mount m s =
     rbind (fresh_root Devfs m s) (\<lambda>(dir_node, s).
     rbind (tmpfs_create dir_node None DEVFS_UART_NAME s) (\<lambda>((ret, node_new), s).
     if ret = 0 then
       rbind (deref node_new) (\<lambda>node.
       rbind (deref (component (vnodes s node))) (\<lambda>c.
       Inr (0, upd_comp c (\<lambda>x. x\<lparr>c_type := COMP_FILE\<rparr>) s)))
     else Inr (0, s)))"

text \<open>Sending \<open>n\<close> bytes from \<open>p\<close> on, and receiving \<open>n\<close> bytes to \<open>p\<close>.\<close>

primrec send_bytes :: "uart_dev \<Rightarrow> nat \<Rightarrow> addr \<Rightarrow> vfs \<Rightarrow> vfs res" where
  "send_bytes d 0 p s = Inr s"
| "send_bytes d (Suc n) p s =
     rbind (uart_send d (bytes s p) (console s)) (\<lambda>u. send_bytes d n (p + 1) (s\<lparr>console := u\<rparr>))"

primrec receive_bytes :: "uart_dev \<Rightarrow> nat \<Rightarrow> addr \<Rightarrow> vfs \<Rightarrow> vfs res" where
  "receive_bytes d 0 p s = Inr s"
| "receive_bytes d (Suc n) p s =
     rbind (uart_getc d (console s)) (\<lambda>(c, u).
     receive_bytes d n (p + 1) (s\<lparr>console := u, bytes := (bytes s)(p := c)\<rparr>))"

text \<open>Both compare the name of the opened node first.\<close>

definition devfs_write :: "uart_dev \<Rightarrow> addr \<Rightarrow> addr \<Rightarrow> nat \<Rightarrow> vfs \<Rightarrow> (int \<times> vfs) res" where
  "devfs_write d f buf len s =
     rbind (deref (f_vnode (files s f))) (\<lambda>node.
     rbind (comp_of node s) (\<lambda>c.
     if c_name c = DEVFS_UART_NAME then
       rbind (send_bytes d len buf s) (\<lambda>s. Inr (c_int len, s))
     else Inr (0, s)))"

definition devfs_read :: "uart_dev \<Rightarrow> addr \<Rightarrow> addr \<Rightarrow> nat \<Rightarrow> vfs \<Rightarrow> (int \<times> vfs) res" where
  "devfs_read d f buf len s =
     rbind (deref (f_vnode (files s f))) (\<lambda>node.
     rbind (comp_of node s) (\<lambda>c.
     if c_name c = DEVFS_UART_NAME then
       rbind (receive_bytes d len buf s) (\<lambda>s. Inr (c_int len, s))
     else Inr (0, s)))"

end
