(* ===== verification/Vfs.thy ===== *)
theory Vfs
  imports Tmpfs
begin

text \<open>
  \<open>lib/vfs.c\<close>: path resolution across mounts and the calls that the kernel and the system calls
  use. The loop of \<open>lookup_path\<close> that creates the components of a path starts from a variable that
  is never initialised (\<open>for(int i; i<path_count; i++)\<close>); the parameter \<open>i0\<close> is the value that is
  in it. The recursion of \<open>lookup_path\<close> through mounts need not end, so it is a
  \<open>partial_function\<close>.
\<close>

section \<open>Operations through the tables\<close>

text \<open>The operations of the RAM disk, which is read-only once it is mounted.\<close>

definition initramfs_mkdir :: "addr \<Rightarrow> addr option \<Rightarrow> byte list \<Rightarrow> vfs \<Rightarrow> ((int \<times> addr option) \<times> vfs) res" where
  "initramfs_mkdir dir_node target name s =
     (if mounted s then Inr ((1, target), s) else tmpfs_mkdir dir_node target name s)"

definition initramfs_create :: "addr \<Rightarrow> addr option \<Rightarrow> byte list \<Rightarrow> vfs \<Rightarrow> ((int \<times> addr option) \<times> vfs) res" where
  "initramfs_create dir_node target name s =
     (if mounted s then Inr ((1, target), s) else tmpfs_create dir_node target name s)"

definition initramfs_write :: "vfs \<Rightarrow> (int \<times> vfs) res" where
  "initramfs_write s = Inr (0, s)"

text \<open>\<open>dir_node->v_ops->mkdir\<close>; the \<open>lookup\<close> of every file system is \<open>tmpfs_lookup\<close>.\<close>

definition v_mkdir :: "addr \<Rightarrow> addr option \<Rightarrow> byte list \<Rightarrow> vfs \<Rightarrow> ((int \<times> addr option) \<times> vfs) res" where
  "v_mkdir dir_node target name s =
     (case vop_table s (v_ops (vnodes s dir_node)) of
        Tmpfs \<Rightarrow> tmpfs_mkdir dir_node target name s
      | Devfs \<Rightarrow> devfs_mkdir target s
      | Initramfs \<Rightarrow> initramfs_mkdir dir_node target name s)"

section \<open>Path resolution\<close>

primrec mkdir_all :: "byte list list \<Rightarrow> addr option \<Rightarrow> addr option \<Rightarrow> vfs \<Rightarrow> ((int \<times> addr option) \<times> vfs) res" where
  "mkdir_all [] dir_node target s = Inr ((0, target), s)"
| "mkdir_all (c # cs) dir_node target s =
     (if c = [] then mkdir_all cs dir_node target s
      else
        rbind (deref dir_node) (\<lambda>dir.
        rbind (v_mkdir dir target c s) (\<lambda>((r, t), s).
        mkdir_all cs (if r = 0 then t else dir_node) t s)))"

definition create_path :: "int \<Rightarrow> byte list \<Rightarrow> addr \<Rightarrow> addr option \<Rightarrow> vfs \<Rightarrow> ((int \<times> addr option) \<times> vfs) res" where
  "create_path i0 pathname dir_node target s =
     rbind (fit TMPFS_MAX_PATH_LEN pathname) (\<lambda>path_copy.
     rbind (split_path path_copy) (\<lambda>rest_comps.
     let comps = map the (butlast rest_comps) in
     if i0 < 0 \<and> i0 < int (length comps) then Inl OutOfBounds
     else mkdir_all (drop (nat i0) comps) (Some dir_node) target s))"

partial_function (option) lookup_path :: "int \<Rightarrow> byte list \<Rightarrow> addr \<Rightarrow> addr option \<Rightarrow> int \<Rightarrow> vfs \<Rightarrow>
    ((int \<times> addr option) \<times> vfs) res option" where
  "lookup_path i0 pathname dir_node target create s =
     (case first_component pathname of
        Inl e \<Rightarrow> Some (Inl e)
      | Inr component_name \<Rightarrow>
          (case v_mount (vnodes s dir_node) of
             Some m \<Rightarrow>
               (case m_root (mounts s m) of
                  None \<Rightarrow> Some (Inl NullDeref)
                | Some r \<Rightarrow> lookup_path i0 pathname r target create s)
           | None \<Rightarrow>
               (case comp_of dir_node s of
                  Inl e \<Rightarrow> Some (Inl e)
                | Inr dir \<Rightarrow>
                    if c_type dir \<noteq> COMP_DIR then Some (Inr ((-1, target), s))
                    else if create = 0 then
                      (case tmpfs_lookup dir_node target component_name s of
                         Inl e \<Rightarrow> Some (Inl e)
                       | Inr (r, t) \<Rightarrow>
                           if r \<noteq> 0 then Some (Inr ((-1, t), s))
                           else if pop_first_component pathname = [] then Some (Inr ((0, t), s))
                           else
                             (case rbind (deref t) (\<lambda>d. rbind (comp_of d s) (\<lambda>c. Inr (d, c))) of
                                Inl e \<Rightarrow> Some (Inl e)
                              | Inr (d, c) \<Rightarrow>
                                  if c_type c = COMP_DIR then
                                    lookup_path i0 (pop_first_component pathname) d t create s
                                  else Some (Inr ((-1, t), s))))
                    else if create = 1 then Some (create_path i0 pathname dir_node target s)
                    else Some (Inr ((0, target), s)))))"

text \<open>\<open>rootfs->root\<close>.\<close>

definition fs_root :: "vfs \<Rightarrow> addr res" where
  "fs_root s = rbind (deref (rootfs s)) (\<lambda>m. deref (m_root (mounts s m)))"

definition vfs_lookup :: "byte list \<Rightarrow> addr option \<Rightarrow> vfs \<Rightarrow> (int \<times> addr option) res" where
  "vfs_lookup pathname target s =
     rbind (fs_root s) (\<lambda>root.
     if pathname = [SLASH] then Inr (0, Some root)
     else rbind (finish (lookup_path 0 pathname root target 0 s)) (\<lambda>(r, _). Inr r))"

definition has_creat :: "int \<Rightarrow> bool" where
  "has_creat flags \<longleftrightarrow> u32 flags div O_CREAT mod 2 = 1"

text \<open>Creating the file at the end of a path: the node, or \<open>None\<close> when \<open>lookup_path\<close> failed.\<close>

definition create_file :: "int \<Rightarrow> byte list \<Rightarrow> addr option \<Rightarrow> vfs \<Rightarrow> (addr option \<times> vfs) res" where
  "create_file i0 pathname node s =
     rbind (fs_root s) (\<lambda>root.
     rbind (finish (lookup_path i0 pathname root node 1 s)) (\<lambda>((result, node), s).
     if result = 0 then
       rbind (deref node) (\<lambda>n.
       rbind (deref (component (vnodes s n))) (\<lambda>c.
       Inr (Some n, upd_comp c (\<lambda>x. x\<lparr>c_type := COMP_FILE, c_union := None\<rparr>) s)))
     else Inr (None, s)))"

definition open_node :: "addr \<Rightarrow> int \<Rightarrow> addr option \<Rightarrow> vfs \<Rightarrow> ((int \<times> addr option) \<times> vfs) res" where
  "open_node node flags target s =
     rbind (tmpfs_open node target s) (\<lambda>((result, t), s).
     if result = 0 then rbind (deref t) (\<lambda>f. Inr ((result, t), upd_file f (\<lambda>x. x\<lparr>f_flags := flags\<rparr>) s))
     else Inr ((result, t), s))"

definition vfs_open :: "int \<Rightarrow> byte list \<Rightarrow> int \<Rightarrow> addr option \<Rightarrow> vfs \<Rightarrow> ((int \<times> addr option) \<times> vfs) res" where
  "vfs_open i0 pathname flags target s =
     rbind (vfs_lookup pathname None s) (\<lambda>(result, node).
     if result \<noteq> 0 \<and> has_creat flags then
       rbind (create_file i0 pathname node s) (\<lambda>(created, s).
       case created of
         None \<Rightarrow> Inr ((-1, target), s)
       | Some n \<Rightarrow> open_node n flags target s)
     else if result \<noteq> 0 then Inr ((-1, target), s)
     else rbind (deref node) (\<lambda>n. open_node n flags target s))"

section \<open>Files and directories\<close>

definition vfs_close :: "addr option \<Rightarrow> vfs \<Rightarrow> (int \<times> vfs) res" where
  "vfs_close f s = rbind (deref f) (\<lambda>a. tmpfs_close (Some a) s)"

definition vfs_write :: "uart_dev \<Rightarrow> addr option \<Rightarrow> addr \<Rightarrow> nat \<Rightarrow> vfs \<Rightarrow> (int \<times> vfs) res" where
  "vfs_write d f buf len s =
     rbind (deref f) (\<lambda>a.
     case fop_table s (ff_ops (files s a)) of
       Tmpfs \<Rightarrow> tmpfs_write f buf len s
     | Devfs \<Rightarrow> devfs_write d a buf len s
     | Initramfs \<Rightarrow> initramfs_write s)"

definition vfs_read :: "uart_dev \<Rightarrow> addr option \<Rightarrow> addr \<Rightarrow> nat \<Rightarrow> vfs \<Rightarrow> (int \<times> vfs) res" where
  "vfs_read d f buf len s =
     rbind (deref f) (\<lambda>a.
     case fop_table s (ff_ops (files s a)) of
       Devfs \<Rightarrow> devfs_read d a buf len s
     | _ \<Rightarrow> tmpfs_read f buf len s)"

definition vfs_mkdir :: "int \<Rightarrow> byte list \<Rightarrow> vfs \<Rightarrow> (int \<times> vfs) res" where
  "vfs_mkdir i0 pathname s =
     rbind (vfs_lookup pathname None s) (\<lambda>(r, node).
     if r = 1 then Inr (0, s)
     else
       rbind (fs_root s) (\<lambda>root.
       rbind (finish (lookup_path i0 pathname root node 1 s)) (\<lambda>((r, _), s).
       Inr (if r = 0 then 0 else -1, s))))"

definition register_filesystem :: "addr \<Rightarrow> vfs \<Rightarrow> int \<times> vfs" where
  "register_filesystem f s =
     (if fs_name (filesystems s f) = cstr ''tmpfs'' then (0, upd_fs f (\<lambda>x. x\<lparr>setup_mount := Some Tmpfs\<rparr>) s)
      else (-1, s))"

end
