(* ===== verification/Cpio.thy ===== *)
theory Cpio
  imports Vfs
begin

text \<open>
  The RAM disk of \<open>lib/cpio.c\<close>: reading a newc archive in memory, loading programs from it, and the
  file system that is filled from it; then \<open>vfs_mount\<close>, which mounts the file systems. \<open>m\<close> is memory,
  \<open>place\<close> is \<open>CPIO_DEFAULT_PLACE\<close>. \<open>read_header\<close> appends to a local array of which only the second
  byte is set before; the parameter \<open>junk\<close> is what is in its first byte.
\<close>

section \<open>Headers\<close>

text \<open>The array \<open>a\<close> while characters are appended to it: the string in it, in \<open>n + 1\<close> bytes.\<close>

primrec header_loop :: "nat \<Rightarrow> byte list \<Rightarrow> byte list \<Rightarrow> byte list res" where
  "header_loop n [] a = Inr a"
| "header_loop n (c # cs) a =
     (if length a + 1 > n then Inl OutOfBounds
      else header_loop n cs (if c = 0 then a else a @ [c]))"

text \<open>A string in otherwise empty memory.\<close>

definition mem_of :: "byte list \<Rightarrow> mem" where
  "mem_of cs p = (if 0 \<le> p \<and> p < int (length cs) then cs ! nat p else 0)"

definition read_header :: "byte \<Rightarrow> mem \<Rightarrow> addr \<Rightarrow> nat \<Rightarrow> int res" where
  "read_header junk m str n =
     rbind (header_loop n (map (\<lambda>i. m (str + int i)) [0..<n]) (if junk = 0 then [] else [junk])) (\<lambda>a.
     finish (myHex2Int (mem_of a) 0))"

text \<open>The remainder of C and the padding to a multiple of 4.\<close>

definition c_rem :: "int \<Rightarrow> int \<Rightarrow> int" where
  "c_rem a b = sgn a * (\<bar>a\<bar> mod b)"

definition pad4 :: "int \<Rightarrow> int \<Rightarrow> int res" where
  "pad4 x off =
     rbind (int_check (x + off)) (\<lambda>y.
     if c_rem y 4 \<noteq> 0 then int_check (x + (4 - c_rem y 4)) else Inr x)"

text \<open>The padded sizes of the name and of the data of the entry at \<open>hdr\<close>; \<open>evened\<close> makes the length of
  the name even first, as some of the loops do.\<close>

definition entry_sizes :: "byte \<Rightarrow> bool \<Rightarrow> mem \<Rightarrow> addr \<Rightarrow> (int \<times> int) res" where
  "entry_sizes junk evened m hdr =
     rbind (read_header junk m (hdr + 94) 8) (\<lambda>namesize.
     rbind (read_header junk m (hdr + 54) 8) (\<lambda>filesize.
     rbind (if evened then int_check (namesize + c_rem namesize 2) else Inr namesize) (\<lambda>namesize.
     rbind (pad4 namesize 110) (\<lambda>namesize.
     rbind (pad4 filesize 0) (\<lambda>filesize.
     Inr (namesize, filesize))))))"

definition TRAILER :: "byte list" where
  "TRAILER = cstr ''TRAILER!!!''"

section \<open>The archive\<close>

text \<open>The names that \<open>cpio_ls\<close> prints, as pointers.\<close>

partial_function (option) cpio_ls :: "byte \<Rightarrow> mem \<Rightarrow> addr \<Rightarrow> addr list res option" where
  "cpio_ls junk m hdr =
     (if str_eq m (hdr + 110) TRAILER then Some (Inr [])
      else
        (case entry_sizes junk False m hdr of
           Inl e \<Rightarrow> Some (Inl e)
         | Inr (namesize, filesize) \<Rightarrow>
             Option.bind (cpio_ls junk m (hdr + namesize + filesize + 110))
               (\<lambda>r. Some (rbind r (\<lambda>ps. Inr ((hdr + 110) # ps))))))"

text \<open>The loop that \<open>cpio_cat\<close>, \<open>cpio_exec\<close> and \<open>load_program\<close> share: the place and the padded size of the
  first file with this name that is not empty.\<close>

partial_function (option) find_file :: "byte \<Rightarrow> mem \<Rightarrow> byte list \<Rightarrow> addr \<Rightarrow> (addr \<times> int) option res option" where
  "find_file junk m name hdr =
     (if str_eq m (hdr + 110) TRAILER then Some (Inr None)
      else
        (case entry_sizes junk True m hdr of
           Inl e \<Rightarrow> Some (Inl e)
         | Inr (namesize, filesize) \<Rightarrow>
             if str_eq m (hdr + 110) name \<and> filesize \<noteq> 0 then
               Some (Inr (Some (hdr + 110 + namesize, filesize)))
             else find_file junk m name (hdr + namesize + filesize + 110)))"

text \<open>What \<open>cpio_cat\<close> prints: the string at a place, or that there is no such file.\<close>

definition cpio_cat :: "byte \<Rightarrow> mem \<Rightarrow> addr \<Rightarrow> byte list \<Rightarrow> addr option res" where
  "cpio_cat junk m place str =
     rbind (finish (find_file junk m str place)) (\<lambda>r. Inr (map_option fst r))"

text \<open>Where \<open>cpio_exec\<close> jumps to in user mode, and the stack pointer it sets (the start of a block of 32
  bytes).\<close>

definition cpio_exec :: "byte \<Rightarrow> addr \<Rightarrow> byte list \<Rightarrow> vfs \<Rightarrow> ((addr \<times> addr) option \<times> vfs) res" where
  "cpio_exec junk place str s =
     rbind (finish (find_file junk (bytes s) str place)) (\<lambda>r.
     case r of
       None \<Rightarrow> Inr (None, s)
     | Some (data, filesize) \<Rightarrow> rbind (alloc 0x20 s) (\<lambda>(sp, s). Inr (Some (data, sp), s)))"

definition USER_PROGRAM_SPACE :: addr where "USER_PROGRAM_SPACE = 0x900000"

definition USER_PROGRAM_MAX_SIZE :: int where "USER_PROGRAM_MAX_SIZE = 0x500000"

text \<open>\<open>None\<close> is the null pointer that \<open>load_program\<close> returns for a file that is missing or too large.\<close>

definition load_program :: "byte \<Rightarrow> addr \<Rightarrow> byte list \<Rightarrow> mem \<Rightarrow> (addr option \<times> mem) res" where
  "load_program junk place name m =
     rbind (finish (find_file junk m name place)) (\<lambda>r.
     case r of
       None \<Rightarrow> Inr (None, m)
     | Some (data, filesize) \<Rightarrow>
         if filesize > USER_PROGRAM_MAX_SIZE then Inr (None, m)
         else Inr (Some USER_PROGRAM_SPACE, memcpy (nat filesize) USER_PROGRAM_SPACE data m))"

text \<open>The files of the archive, in the order of the list that \<open>cpio_parse\<close> links; each takes a block of
  memory. The list of an empty archive would be closed through a pointer that was never set.\<close>

record cpio_file =
  file_size :: nat
  pathname :: addr
  data_ptr :: addr

definition SIZEOF_cpio_file :: nat where "SIZEOF_cpio_file = 32"

partial_function (option) parse_loop :: "byte \<Rightarrow> addr \<Rightarrow> cpio_file list \<Rightarrow> vfs \<Rightarrow> (cpio_file list \<times> vfs) res option" where
  "parse_loop junk hdr fs s =
     (if str_eq (bytes s) (hdr + 110) TRAILER then Some (Inr (fs, s))
      else
        (case alloc SIZEOF_cpio_file s of
           Inl e \<Rightarrow> Some (Inl e)
         | Inr (cur, s) \<Rightarrow>
             (case entry_sizes junk False (bytes s) hdr of
                Inl e \<Rightarrow> Some (Inl e)
              | Inr (namesize, filesize) \<Rightarrow>
                  parse_loop junk (hdr + namesize + filesize + 110)
                    (fs @ [\<lparr>file_size = u64 filesize, pathname = hdr + 110, data_ptr = hdr + 110 + namesize\<rparr>]) s)))"

definition cpio_parse :: "byte \<Rightarrow> addr \<Rightarrow> vfs \<Rightarrow> (cpio_file list \<times> vfs) res" where
  "cpio_parse junk place s =
     rbind (finish (parse_loop junk place [] s)) (\<lambda>(fs, s).
     if fs = [] then Inl NullDeref else Inr (fs, s))"

section \<open>The file system of the RAM disk\<close>

text \<open>\<open>i0 k\<close> is what is in the loop variable of \<open>lookup_path\<close> at its call for the \<open>k\<close>-th file.\<close>

definition insert_file :: "int \<Rightarrow> addr \<Rightarrow> cpio_file \<Rightarrow> addr option \<Rightarrow> vfs \<Rightarrow> (addr option \<times> vfs) res" where
  "insert_file i0 dir_node f node_new s =
     rbind (returns (strlen (bytes s) (pathname f))) (\<lambda>n.
     rbind (finish (lookup_path i0 (map (\<lambda>i. bytes s (pathname f + int i)) [0..<n]) dir_node node_new 1 s)) (\<lambda>((r, node_new), s).
     rbind (deref node_new) (\<lambda>node.
     rbind (deref (component (vnodes s node))) (\<lambda>c.
     Inr (node_new, upd_comp c (\<lambda>x. x\<lparr>c_type := COMP_FILE, c_union := Some (data_ptr f), c_len := file_size f\<rparr>) s)))))"

primrec insert_files :: "(nat \<Rightarrow> int) \<Rightarrow> nat \<Rightarrow> addr \<Rightarrow> cpio_file list \<Rightarrow> addr option \<Rightarrow> vfs \<Rightarrow> vfs res" where
  "insert_files i0 k dir_node [] node_new s = Inr s"
| "insert_files i0 k dir_node (f # fs) node_new s =
     (if file_size f > 0 then
        rbind (insert_file (i0 k) dir_node f node_new s) (\<lambda>(node_new, s).
        insert_files i0 (k + 1) dir_node fs node_new s)
      else insert_files i0 (k + 1) dir_node fs node_new s)"

text \<open>The loop stops at the last file of the list (\<open>file->next == NULL\<close>), which is not inserted.\<close>

definition initramfs_setup_mount :: "byte \<Rightarrow> (nat \<Rightarrow> int) \<Rightarrow> addr \<Rightarrow> addr \<Rightarrow> vfs \<Rightarrow> (int \<times> vfs) res" where
  "initramfs_setup_mount junk i0 place m s =
     rbind (fresh_root Initramfs m s) (\<lambda>(dir_node, s).
     if mounted s then Inr (0, s)
     else
       rbind (cpio_parse junk place s) (\<lambda>(fs, s).
       rbind (insert_files i0 0 dir_node (butlast fs) None s) (\<lambda>s.
       Inr (0, s\<lparr>mounted := True\<rparr>))))"

section \<open>Mounting\<close>

definition run_setup :: "byte \<Rightarrow> (nat \<Rightarrow> int) \<Rightarrow> addr \<Rightarrow> fs_kind \<Rightarrow> addr \<Rightarrow> vfs \<Rightarrow> (int \<times> vfs) res" where
  "run_setup junk i0 place k m s =
     (case k of
        Tmpfs \<Rightarrow> tmpfs_setup_mount m s
      | Devfs \<Rightarrow> devfs_setup_mount m s
      | Initramfs \<Rightarrow> initramfs_setup_mount junk i0 place m s)"

text \<open>A new \<open>mount\<close> with its \<open>filesystem\<close> and name, entered in the state by \<open>attach\<close>.\<close>

definition new_mount :: "(addr \<Rightarrow> vfs \<Rightarrow> vfs) \<Rightarrow> byte list \<Rightarrow> vfs \<Rightarrow> ((addr \<times> addr) \<times> vfs) res" where
  "new_mount attach file_name s =
     rbind (alloc SIZEOF_mount s) (\<lambda>(m, s).
     rbind (alloc SIZEOF_filesystem (attach m s)) (\<lambda>(f, s).
     let s = upd_mount m (\<lambda>x. x\<lparr>m_fs := f\<rparr>) s in
     rbind (alloc NAME_LEN s) (\<lambda>(_, s).
     rbind (fit NAME_LEN file_name) (\<lambda>name.
     Inr ((m, f), upd_fs f (\<lambda>x. x\<lparr>fs_name := name\<rparr>) s)))))"

text \<open>\<open>fs->setup_mount\<close> is only set by a successful \<open>register_filesystem\<close>; otherwise what the memory of
  the structure held before is called.\<close>

definition register_and_setup :: "byte \<Rightarrow> (nat \<Rightarrow> int) \<Rightarrow> addr \<Rightarrow> addr \<Rightarrow> addr \<Rightarrow> vfs \<Rightarrow> (int \<times> vfs) res" where
  "register_and_setup junk i0 place m f s =
     (let s = snd (register_filesystem f s) in
      rbind (deref (setup_mount (filesystems s f))) (\<lambda>k. run_setup junk i0 place k m s))"

definition mount_on :: "addr \<Rightarrow> addr \<Rightarrow> vfs \<Rightarrow> vfs" where
  "mount_on node m s = upd_vnode node (\<lambda>v. v\<lparr>v_mount := Some m\<rparr>) s"

definition mount_kind :: "byte \<Rightarrow> (nat \<Rightarrow> int) \<Rightarrow> int \<Rightarrow> addr \<Rightarrow> fs_kind \<Rightarrow> byte list \<Rightarrow> byte list \<Rightarrow> vfs \<Rightarrow> (int \<times> vfs) res" where
  "mount_kind junk i0 j place k target file_name s =
     rbind (vfs_mkdir j target s) (\<lambda>(_, s).
     rbind (vfs_lookup target None s) (\<lambda>(result, node).
     if result = 0 then
       rbind (deref node) (\<lambda>n.
       rbind (new_mount (mount_on n) file_name s) (\<lambda>((m, f), s).
       run_setup junk i0 place k m (upd_fs f (\<lambda>x. x\<lparr>setup_mount := Some k\<rparr>) s)))
     else Inr (-1, s)))"

text \<open>\<open>j\<close> is what is in the loop variable of \<open>lookup_path\<close> when \<open>vfs_mkdir\<close> calls it.\<close>

definition vfs_mount :: "byte \<Rightarrow> (nat \<Rightarrow> int) \<Rightarrow> int \<Rightarrow> addr \<Rightarrow> byte list \<Rightarrow> byte list \<Rightarrow> vfs \<Rightarrow> (int \<times> vfs) res" where
  "vfs_mount junk i0 j place target file_name s =
     (if target = cstr ''/'' then
        rbind (new_mount (\<lambda>m s. s\<lparr>rootfs := Some m\<rparr>) file_name s) (\<lambda>((m, f), s).
        register_and_setup junk i0 place m f s)
      else if target = cstr ''/initramfs'' then mount_kind junk i0 j place Initramfs target file_name s
      else if target = cstr ''/dev'' then mount_kind junk i0 j place Devfs target file_name s
      else
        rbind (vfs_lookup target None s) (\<lambda>(result, node).
        if result = 0 then
          rbind (deref node) (\<lambda>n.
          rbind (new_mount (mount_on n) file_name s) (\<lambda>((m, f), s).
          register_and_setup junk i0 place m f (upd_mount m (\<lambda>x. x\<lparr>m_root := Some n\<rparr>) s)))
        else Inr (-1, s)))"

end
