(* ===== verification/TmpfsFiles.thy ===== *)
theory TmpfsFiles
  imports Tmpfs
begin

text \<open>
  Files of the memory file system: what a file contains, and what reading and writing do to it and
  to memory. The allocator's contract (locale \<open>allocator\<close>, kept by the kernel's allocator) supplies
  that a new block overlaps nothing in use.
\<close>

section \<open>Allocation in the file system's state\<close>

abbreviation blks :: "vfs \<Rightarrow> (addr \<times> nat) set" where
  "blks s \<equiv> blocks (heap s)"

abbreviation heap_ok :: "vfs \<Rightarrow> bool" where
  "heap_ok s \<equiv> alloc_ok (heap s)"

lemma alloc_eq: "alloc n s = Inr (a, s') \<longleftrightarrow> (\<exists>h. kmalloc n (heap s) = Inr (a, h) \<and> s' = s\<lparr>heap := h\<rparr>)"
  by (auto simp: alloc_def rbind_eq_Inr)

lemma alloc_run:
  assumes "heap_ok s" and "n \<le> 2 ^ 17" and "alloc n s = Inr (a, s')"
  obtains k h where "s' = s\<lparr>heap := h\<rparr>" and "n \<le> k" and "blocks h = insert (a, k) (blks s)"
    and "alloc_ok h" and "\<forall>b \<in> blks s. block_range (a, k) \<inter> block_range b = {}" and "a \<notin> fst ` blks s"
proof -
  obtain h where h: "kmalloc n (heap s) = Inr (a, h)" "s' = s\<lparr>heap := h\<rparr>" using assms(3) by (auto simp: alloc_eq)
  obtain k where "n \<le> k" "blocks h = insert (a, k) (blks s)"
    "\<forall>b \<in> blks s. block_range (a, k) \<inter> block_range b = {}" "a \<notin> fst ` blks s"
    by (rule kernel_heap.alloc_fresh [OF assms(1,2) h(1)])
  moreover have "alloc_ok h" by (rule kernel_heap.alloc_ok [OF assms(1,2) h(1)])
  ultimately show thesis using that h(2) by blast
qed

lemma release_run:
  assumes "heap_ok s" and "(a, n) \<in> blks s" and "low_addr a"
  shows "\<exists>h. release a s = Inr (s\<lparr>heap := h\<rparr>) \<and> alloc_ok h \<and> blocks h = blks s - {(a, n)}"
  using kernel_heap.release_block [OF assms] by (auto simp: release_def)

lemma block_addr_in:
  assumes "heap_ok s" and "b \<in> blks s"
  shows "fst b \<in> block_range b"
proof -
  have "8 \<le> snd b" using assms(2) live_length [of "heap s" _ "fst b" "snd b"] by (auto simp: blocks_def)
  then show ?thesis by (simp add: block_range_def)
qed

text \<open>No two blocks in use have the same address.\<close>

lemma block_addr_unique:
  assumes "heap_ok s" and "b \<in> blks s" and "c \<in> blks s" and "fst b = fst c"
  shows "b = c"
proof (rule ccontr)
  assume "b \<noteq> c"
  then have "block_range b \<inter> block_range c = {}" by (rule kernel_heap.blocks_apart [OF assms(1-3)])
  moreover have "fst b \<in> block_range b \<inter> block_range c"
    using block_addr_in [OF assms(1,2)] block_addr_in [OF assms(1,3)] assms(4) by simp
  ultimately show False by blast
qed

lemma remove_block:
  assumes "\<And>b. b \<in> B \<Longrightarrow> fst b = d \<Longrightarrow> b = (d, k0)" and "a \<noteq> d"
  shows "insert (a, k) B - {(d, k0)} = insert (a, k) {b \<in> B. Some d \<noteq> Some (fst b)}"
proof (rule set_eqI)
  fix x show "x \<in> insert (a, k) B - {(d, k0)} \<longleftrightarrow> x \<in> insert (a, k) {b \<in> B. Some d \<noteq> Some (fst b)}"
    using assms(1) [of x] assms(2) by (cases x) auto
qed

section \<open>Contents\<close>

definition mem_bytes :: "mem \<Rightarrow> addr \<Rightarrow> nat \<Rightarrow> byte list" where
  "mem_bytes m p n = map (\<lambda>i. m (p + int i)) [0..<n]"

lemma length_mem_bytes [simp]: "length (mem_bytes m p n) = n"
  by (simp add: mem_bytes_def)

lemma nth_mem_bytes [simp]: "i < n \<Longrightarrow> mem_bytes m p n ! i = m (p + int i)"
  by (simp add: mem_bytes_def)

definition contents :: "vfs \<Rightarrow> addr \<Rightarrow> byte list" where
  "contents s c = (case c_union (comps s c) of None \<Rightarrow> [] | Some d \<Rightarrow> mem_bytes (bytes s) d (c_len (comps s c)))"

text \<open>The component of a file: no longer than the limit, its data in a block of its own.\<close>

definition data_ok :: "vfs \<Rightarrow> addr \<Rightarrow> bool" where
  "data_ok s c \<longleftrightarrow> c_type (comps s c) = COMP_FILE \<and> c_len (comps s c) \<le> TMPFS_MAX_FILE_SIZE \<and>
     (case c_union (comps s c) of
        None \<Rightarrow> c_len (comps s c) = 0
      | Some d \<Rightarrow> \<exists>k. (d, k) \<in> blks s \<and> c_len (comps s c) \<le> k)"

text \<open>A buffer of \<open>n\<close> bytes in a block in use that is not the file's.\<close>

definition buffer_ok :: "vfs \<Rightarrow> addr \<Rightarrow> addr \<Rightarrow> nat \<Rightarrow> bool" where
  "buffer_ok s c buf n \<longleftrightarrow> (\<exists>b \<in> blks s. {buf..<buf + int n} \<subseteq> block_range b \<and> c_union (comps s c) \<noteq> Some (fst b))"

lemma memcpy_inside:
  assumes "{dest..<dest + int n} \<inter> {src..<src + int n} = {}"
  shows "memcpy n dest src m = (\<lambda>a. if dest \<le> a \<and> a < dest + int n then m (src + (a - dest)) else m a)"
proof (cases "n = 0")
  case True
  then show ?thesis by (auto simp: fun_eq_iff)
next
  case False
  have "src + int n \<le> dest \<or> dest + int n \<le> src"
  proof (rule ccontr)
    assume "\<not> ?thesis"
    then have "max src dest \<in> {dest..<dest + int n} \<inter> {src..<src + int n}" using False by auto
    then show False using assms by blast
  qed
  then show ?thesis using False by (intro memcpy_at) linarith
qed

lemma memcpy_bytes:
  assumes "{dest..<dest + int n} \<inter> {src..<src + int n} = {}"
  shows "mem_bytes (memcpy n dest src m) dest n = mem_bytes m src n"
    and "{p..<p + int k} \<inter> {dest..<dest + int n} = {} \<Longrightarrow> mem_bytes (memcpy n dest src m) p k = mem_bytes m p k"
proof -
  show "mem_bytes (memcpy n dest src m) dest n = mem_bytes m src n"
    by (auto simp: mem_bytes_def memcpy_inside [OF assms])
  assume dj: "{p..<p + int k} \<inter> {dest..<dest + int n} = {}"
  have "\<not> (dest \<le> p + int i \<and> p + int i < dest + int n)" if "i < k" for i
  proof
    assume "dest \<le> p + int i \<and> p + int i < dest + int n"
    then have "p + int i \<in> {p..<p + int k} \<inter> {dest..<dest + int n}" using that by simp
    then show False using dj by blast
  qed
  then show "mem_bytes (memcpy n dest src m) p k = mem_bytes m p k"
    by (auto simp: mem_bytes_def memcpy_inside [OF assms])
qed

text \<open>Bytes \<open>pos\<close> to \<open>pos + n\<close> of a file replaced.\<close>

definition overwrite :: "byte list \<Rightarrow> nat \<Rightarrow> byte list \<Rightarrow> byte list" where
  "overwrite old pos new = take pos old @ new @ drop (pos + length new) old"

lemma memcpy_overwrite:
  assumes "{d..<d + int len} \<inter> {buf..<buf + int n} = {}" and "pos + n \<le> len"
  shows "mem_bytes (memcpy n (d + int pos) buf m) d len = overwrite (mem_bytes m d len) pos (mem_bytes m buf n)"
proof -
  have sub: "{d + int pos..<d + int pos + int n} \<subseteq> {d..<d + int len}" using assms(2) by auto
  then have dj: "{d + int pos..<d + int pos + int n} \<inter> {buf..<buf + int n} = {}" using assms(1) by blast
  show ?thesis
  proof (rule nth_equalityI)
    show "length (mem_bytes (memcpy n (d + int pos) buf m) d len) =
        length (overwrite (mem_bytes m d len) pos (mem_bytes m buf n))"
      using assms(2) by (simp add: overwrite_def)
  next
    fix i assume "i < length (mem_bytes (memcpy n (d + int pos) buf m) d len)"
    then have i: "i < len" by simp
    consider "i < pos" | "pos \<le> i" "i < pos + n" | "pos + n \<le> i" by linarith
    then show "mem_bytes (memcpy n (d + int pos) buf m) d len ! i =
        overwrite (mem_bytes m d len) pos (mem_bytes m buf n) ! i"
    proof cases
      case 1
      then show ?thesis using i assms(2) by (simp add: memcpy_inside [OF dj] overwrite_def nth_append)
    next
      case 2
      then have "d + int i - (d + int pos) = int (i - pos)" "i - pos < n" by simp_all
      then show ?thesis using i 2 assms(2)
        by (simp add: memcpy_inside [OF dj] overwrite_def nth_append add.commute)
    next
      case 3
      then have "\<not> i - pos < n" by simp
      then show ?thesis using 3 i assms(2) by (simp add: memcpy_inside [OF dj] overwrite_def nth_append)
    qed
  qed
qed

section \<open>Growing\<close>

text \<open>Memory of the blocks in \<open>B\<close> is the same.\<close>

definition same_on :: "(addr \<times> nat) set \<Rightarrow> mem \<Rightarrow> mem \<Rightarrow> bool" where
  "same_on B m m' \<longleftrightarrow> (\<forall>b \<in> B. \<forall>a \<in> block_range b. m' a = m a)"

lemma same_on_bytes:
  assumes "same_on B m m'" and "b \<in> B" and "{p..<p + int n} \<subseteq> block_range b"
  shows "mem_bytes m' p n = mem_bytes m p n"
proof (rule nth_equalityI)
  fix i assume "i < length (mem_bytes m' p n)"
  then have "i < n" "p + int i \<in> {p..<p + int n}" by simp_all
  then have "i < n" "p + int i \<in> block_range b" using assms(3) by blast+
  then show "mem_bytes m' p n ! i = mem_bytes m p n ! i" using assms(1,2) by (simp add: same_on_def)
qed simp

lemma grow_run:
  assumes ok: "heap_ok s" "data_ok s c" and len: "c_len (comps s c) < n" "n \<le> TMPFS_MAX_FILE_SIZE"
    and al: "alloc n s = Inr (a, s1)" and low: "\<And>d. c_union (comps s c) = Some d \<Longrightarrow> low_addr d"
  shows "\<exists>s' k. grow c n s = Inr s' \<and> heap_ok s' \<and> n \<le> k \<and> (a, k) \<in> blks s' \<and>
    (\<forall>b \<in> blks s. block_range (a, k) \<inter> block_range b = {}) \<and>
    blks s' = insert (a, k) {b \<in> blks s. c_len (comps s c) > 0 \<longrightarrow> c_union (comps s c) \<noteq> Some (fst b)} \<and>
    s' = s\<lparr>heap := heap s', bytes := bytes s', comps := (comps s)(c := (comps s c)\<lparr>c_len := n, c_union := Some a\<rparr>)\<rparr> \<and>
    mem_bytes (bytes s') a (c_len (comps s c)) = contents s c \<and> same_on (blks s) (bytes s) (bytes s')"
proof -
  let ?len = "c_len (comps s c)"
  have "n \<le> 2 ^ 17" using len(2) by (simp add: TMPFS_MAX_FILE_SIZE_def)
  then obtain k h1 where s1: "s1 = s\<lparr>heap := h1\<rparr>" and k: "n \<le> k" "blocks h1 = insert (a, k) (blks s)"
    "alloc_ok h1" "\<forall>b \<in> blks s. block_range (a, k) \<inter> block_range b = {}" "a \<notin> fst ` blks s"
    by (rule alloc_run [OF ok(1) _ al])
  define grown where "grown s2 = upd_comp c (\<lambda>x. x\<lparr>c_len := n, c_union := Some a\<rparr>) s2" for s2
  show ?thesis
  proof (cases "?len = 0")
    case True
    then have "grow c n s = Inr (grown s1)" using al s1 by (simp add: grow_def grown_def)
    moreover have "contents s c = []"
      using True by (simp add: contents_def mem_bytes_def split: option.split)
    ultimately show ?thesis
      using True k s1 by (intro exI [of _ "grown s1"] exI [of _ k])
        (simp add: grown_def upd_comp_def mem_bytes_def same_on_def)
  next
    case False
    then obtain d k0 where d: "c_union (comps s c) = Some d" "(d, k0) \<in> blks s" "?len \<le> k0"
      using ok(2) by (auto simp: data_ok_def split: option.splits)
    let ?m = "memcpy ?len a d (bytes s)"
    let ?s2 = "s1\<lparr>bytes := ?m\<rparr>"
    have "(d, k0) \<in> blks ?s2" "heap_ok ?s2" using d(2) k(2,3) s1 by simp_all
    then obtain h where h: "release d ?s2 = Inr (?s2\<lparr>heap := h\<rparr>)" "alloc_ok h" "blocks h = blks ?s2 - {(d, k0)}"
      using release_run [of ?s2 d k0] low [OF d(1)] by blast
    let ?s3 = "?s2\<lparr>heap := h\<rparr>"
    have run: "grow c n s = Inr (grown ?s3)"
      using al s1 False d(1) h(1) by (simp add: grow_def grown_def copy_bytes_def)
    have src: "{d..<d + int ?len} \<subseteq> block_range (d, k0)" using d(3) by (auto simp: block_range_def)
    have dst: "{a..<a + int ?len} \<subseteq> block_range (a, k)" using len k(1) by (auto simp: block_range_def)
    have apart: "block_range (a, k) \<inter> block_range (d, k0) = {}" using k(4) d(2) by blast
    then have dj: "{a..<a + int ?len} \<inter> {d..<d + int ?len} = {}" using src dst by blast
    have "mem_bytes ?m a ?len = contents s c" using memcpy_bytes(1) [OF dj] d(1) by (simp add: contents_def)
    moreover have "same_on (blks s) (bytes s) ?m"
    proof -
      have "?m x = bytes s x" if "b \<in> blks s" "x \<in> block_range b" for b x
      proof -
        have "x \<notin> {a..<a + int ?len}" using k(4) that dst by blast
        then show ?thesis by (auto simp: memcpy_inside [OF dj])
      qed
      then show ?thesis by (simp add: same_on_def)
    qed
    moreover have "blocks h = insert (a, k) {b \<in> blks s. c_union (comps s c) \<noteq> Some (fst b)}"
    proof -
      have "a \<noteq> d" using k(5) d(2) by force
      moreover have "b = (d, k0)" if "b \<in> blks s" "fst b = d" for b
        using block_addr_unique [OF ok(1) that(1) d(2)] that(2) by simp
      moreover have "blocks h = insert (a, k) (blks s) - {(d, k0)}" using h(3) k(2) s1 by simp
      ultimately show ?thesis unfolding d(1) using remove_block [of "blks s" d k0 a k] by simp
    qed
    ultimately have fin: "bytes (grown ?s3) = ?m" "heap (grown ?s3) = h" "mem_bytes ?m a ?len = contents s c"
      "same_on (blks s) (bytes s) ?m" "blocks h = insert (a, k) {b \<in> blks s. c_union (comps s c) \<noteq> Some (fst b)}"
      "grown ?s3 = s\<lparr>heap := h, bytes := ?m, comps := (comps s)(c := (comps s c)\<lparr>c_len := n, c_union := Some a\<rparr>)\<rparr>"
      by (simp_all add: grown_def upd_comp_def s1)
    have pos: "0 < ?len" using False by simp
    show ?thesis
      unfolding fin(1,2) using run h(2) k(1,4) fin(3-6) pos
      by (intro exI [of _ "grown ?s3"] exI [of _ k] conjI) simp_all
  qed
qed

end
