(* ===== verification/TmpfsClaims.thy ===== *)
theory TmpfsClaims
  imports TmpfsFiles
begin

text \<open>
  Writing and reading files of the memory file system, with the round trip of the two.
\<close>

section \<open>Writing\<close>

lemma file_compD:
  assumes "file_comp f s = Some (a, c)"
  obtains node where "f = Some a" and "f_vnode (files s a) = Some node" and "component (vnodes s node) = Some c"
    and "c_type (comps s c) = COMP_FILE"
  using assms by (auto simp: file_comp_def split: option.splits if_splits)

lemma file_comp_cong:
  assumes "file_comp f s = Some (a, c)" and "vnodes s' = vnodes s"
    and "f_vnode (files s' a) = f_vnode (files s a)" and "c_type (comps s' c) = c_type (comps s c)"
  shows "file_comp f s' = Some (a, c)"
  using assms by (auto simp: file_comp_def split: option.splits if_splits)

lemma upd_file_simps [simp]:
  "contents (upd_file a g s) c = contents s c" "data_ok (upd_file a g s) c = data_ok s c"
  "heap (upd_file a g s) = heap s" "bytes (upd_file a g s) = bytes s" "comps (upd_file a g s) = comps s"
  "vnodes (upd_file a g s) = vnodes s" "files (upd_file a g s) b = (if b = a then g (files s a) else files s b)"
  by (simp_all add: upd_file_def contents_def data_ok_def cong: option.case_cong)

lemma buffer_ok_cong:
  assumes "\<And>b. b \<in> blks s \<Longrightarrow> c_union (comps s c) \<noteq> Some (fst b) \<Longrightarrow>
    b \<in> blks s' \<and> c_union (comps s' c) \<noteq> Some (fst b)"
  shows "\<forall>p k. buffer_ok s c p k \<longrightarrow> buffer_ok s' c p k"
  using assms by (auto simp: buffer_ok_def)

text \<open>The final copy, into data that is long enough.\<close>

lemma copy_into:
  assumes "c_union (comps s c) = Some d" and "(d, k) \<in> B" and "c_len (comps s c) \<le> k"
    and "b \<in> B" and "{buf..<buf + int m} \<subseteq> block_range b" and "block_range (d, k) \<inter> block_range b = {}"
    and "pos + m \<le> c_len (comps s c)"
  shows "\<exists>bs. copy_bytes m (map_option (\<lambda>d. d + int pos) (c_union (comps s c))) (Some buf) s = Inr (s\<lparr>bytes := bs\<rparr>) \<and>
    mem_bytes bs d (c_len (comps s c)) =
      overwrite (mem_bytes (bytes s) d (c_len (comps s c))) pos (mem_bytes (bytes s) buf m)"
proof (cases "m = 0")
  case True
  have "overwrite xs pos [] = xs" for xs :: "byte list" by (simp add: overwrite_def)
  then show ?thesis using True by (intro exI [of _ "bytes s"]) (simp add: copy_bytes_def mem_bytes_def)
next
  case False
  have "{d..<d + int (c_len (comps s c))} \<subseteq> block_range (d, k)" using assms(3) by (auto simp: block_range_def)
  then have "{d..<d + int (c_len (comps s c))} \<inter> {buf..<buf + int m} = {}" using assms(5,6) by blast
  from memcpy_overwrite [OF this assms(7), of "bytes s"] show ?thesis
    using False assms(1) by (intro exI [of _ "memcpy m (d + int pos) buf (bytes s)"]) (simp add: copy_bytes_def)
qed

text \<open>The state \<open>s'\<close> after the bytes \<open>xs\<close> were written at \<open>pos\<close>.\<close>

definition wrote :: "addr option \<Rightarrow> addr \<Rightarrow> addr \<Rightarrow> nat \<Rightarrow> byte list \<Rightarrow> vfs \<Rightarrow> vfs \<Rightarrow> bool" where
  "wrote f a c pos xs s s' \<longleftrightarrow> file_comp f s' = Some (a, c) \<and> heap_ok s' \<and> data_ok s' c \<and>
     contents s' c = overwrite (contents s c) pos xs \<and> f_pos (files s' a) = pos + length xs \<and> vnodes s' = vnodes s \<and>
     (\<forall>p k. buffer_ok s c p k \<longrightarrow> buffer_ok s' c p k)"

abbreviation moved :: "addr \<Rightarrow> nat \<Rightarrow> vfs \<Rightarrow> vfs" where
  "moved a p \<equiv> upd_file a (\<lambda>x. x\<lparr>f_pos := p\<rparr>)"

lemma contents_length: "length (contents s c) = (case c_union (comps s c) of None \<Rightarrow> 0 | Some d \<Rightarrow> c_len (comps s c))"
  by (simp add: contents_def split: option.split)

text \<open>The file is long enough already.\<close>

lemma write_within:
  assumes ok: "heap_ok s" and f: "file_comp f s = Some (a, c)" and data: "data_ok s c"
    and b: "b \<in> blks s" "{buf..<buf + int m} \<subseteq> block_range b" "c_union (comps s c) \<noteq> Some (fst b)" and fits: "pos + m \<le> c_len (comps s c)"
  shows "\<exists>s2. copy_bytes m (map_option (\<lambda>d. d + int pos) (c_union (comps s c))) (Some buf) s = Inr s2 \<and>
    wrote f a c pos (mem_bytes (bytes s) buf m) s (moved a (pos + m) s2)"
proof (cases "c_union (comps s c)")
  case None
  then have z: "m = 0" "pos = 0" "contents s c = []"
    using fits data by (auto simp: contents_def data_ok_def)
  have "file_comp f (moved a (pos + m) s) = Some (a, c)"
    by (rule file_comp_cong [OF f]) (simp_all add: upd_file_def)
  then show ?thesis using z ok data None buffer_ok_cong [of s c "moved a (pos + m) s"]
    by (intro exI [of _ s]) (simp add: wrote_def overwrite_def mem_bytes_def copy_bytes_def)
next
  case (Some d)
  then obtain k where k: "(d, k) \<in> blks s" "c_len (comps s c) \<le> k" using data by (auto simp: data_ok_def)
  have "(d, k) \<noteq> b" using b(3) Some by auto
  then have ap: "block_range (d, k) \<inter> block_range b = {}" by (rule kernel_heap.blocks_apart [OF ok k(1) b(1)])
  obtain bs where bs: "copy_bytes m (map_option (\<lambda>d. d + int pos) (c_union (comps s c))) (Some buf) s = Inr (s\<lparr>bytes := bs\<rparr>)"
    "mem_bytes bs d (c_len (comps s c)) = overwrite (mem_bytes (bytes s) d (c_len (comps s c))) pos (mem_bytes (bytes s) buf m)"
    using copy_into [OF Some k b(1,2) ap fits] by blast
  let ?s' = "moved a (pos + m) (s\<lparr>bytes := bs\<rparr>)"
  have "file_comp f ?s' = Some (a, c)" by (rule file_comp_cong [OF f]) (simp_all add: upd_file_def)
  then show ?thesis using ok data bs Some buffer_ok_cong [of s c ?s']
    by (intro exI [of _ "s\<lparr>bytes := bs\<rparr>"]) (simp add: wrote_def data_ok_def contents_def)
qed

text \<open>The file grows to the end of what is written.\<close>

lemma write_beyond:
  assumes ok: "heap_ok s" and f: "file_comp f s = Some (a, c)" and data: "data_ok s c" and pos: "pos \<le> length (contents s c)"
    and b: "b \<in> blks s" "{buf..<buf + int m} \<subseteq> block_range b"
    and gl: "c_len (comps s c) < pos + m" "pos + m \<le> TMPFS_MAX_FILE_SIZE" and al: "alloc (pos + m) s = Inr (d, s0)"
    and low: "\<And>d. c_union (comps s c) = Some d \<Longrightarrow> low_addr d"
  shows "\<exists>s1 s2. grow c (pos + m) s = Inr s1 \<and>
    copy_bytes m (map_option (\<lambda>d. d + int pos) (c_union (comps s1 c))) (Some buf) s1 = Inr s2 \<and>
    wrote f a c pos (mem_bytes (bytes s) buf m) s (moved a (pos + m) s2)"
proof -
  let ?len = "c_len (comps s c)"
  have len: "length (contents s c) = ?len" using data by (auto simp: contents_length data_ok_def split: option.splits)
  obtain s1 k where g: "grow c (pos + m) s = Inr s1" "heap_ok s1" "pos + m \<le> k" "(d, k) \<in> blks s1"
    "\<forall>b \<in> blks s. block_range (d, k) \<inter> block_range b = {}"
    "s1 = s\<lparr>heap := heap s1, bytes := bytes s1, comps := (comps s)(c := (comps s c)\<lparr>c_len := pos + m, c_union := Some d\<rparr>)\<rparr>"
    "mem_bytes (bytes s1) d ?len = contents s c" "same_on (blks s) (bytes s) (bytes s1)"
    "blks s1 = insert (d, k) {b \<in> blks s. ?len > 0 \<longrightarrow> c_union (comps s c) \<noteq> Some (fst b)}"
    using grow_run [OF ok data gl al low] by blast
  have s1: "comps s1 c = (comps s c)\<lparr>c_len := pos + m, c_union := Some d\<rparr>" "files s1 = files s" "vnodes s1 = vnodes s"
    by (subst g(6), simp)+
  have ap: "block_range (d, k) \<inter> block_range b = {}" using g(5) b(1) by blast
  obtain bs where bs: "copy_bytes m (map_option (\<lambda>d. d + int pos) (c_union (comps s1 c))) (Some buf) s1 = Inr (s1\<lparr>bytes := bs\<rparr>)"
    "mem_bytes bs d (pos + m) = overwrite (mem_bytes (bytes s1) d (pos + m)) pos (mem_bytes (bytes s1) buf m)"
    using copy_into [of s1 c d k "insert (d, k) (blks s)" b buf m pos] s1(1) g(3) b ap by auto
  let ?s' = "moved a (pos + m) (s1\<lparr>bytes := bs\<rparr>)"
  have "file_comp f ?s' = Some (a, c)" by (rule file_comp_cong [OF f]) (simp_all add: upd_file_def s1)
  moreover have "mem_bytes (bytes s1) buf m = mem_bytes (bytes s) buf m" by (rule same_on_bytes [OF g(8) b])
  moreover have "take ?len (mem_bytes (bytes s1) d (pos + m)) = mem_bytes (bytes s1) d ?len"
    using gl(1) by (simp add: mem_bytes_def take_map)
  then have "take pos (mem_bytes (bytes s1) d (pos + m)) = take pos (contents s c)"
    using pos len g(7) by (metis take_take min.absorb1)
  moreover have "drop (pos + m) (contents s c) = []" using gl(1) len by simp
  moreover have "\<forall>p k. buffer_ok s c p k \<longrightarrow> buffer_ok ?s' c p k"
  proof (rule buffer_ok_cong)
    fix b assume "b \<in> blks s" and "c_union (comps s c) \<noteq> Some (fst b)"
    moreover from this(1) have "d \<noteq> fst b"
      using g(5) block_addr_in [OF ok] block_addr_in [OF g(2,4)] by fastforce
    ultimately show "b \<in> blks ?s' \<and> c_union (comps ?s' c) \<noteq> Some (fst b)" using g(9) s1(1) by simp
  qed
  ultimately have "wrote f a c pos (mem_bytes (bytes s) buf m) s ?s'" using g(2-4) data s1 bs(2) gl(2)
    unfolding wrote_def by (auto simp: data_ok_def contents_def overwrite_def)
  then show ?thesis using g(1) bs(1) by blast
qed

lemma tmpfs_write_run:
  assumes ok: "heap_ok s" and f: "file_comp f s = Some (a, c)" and data: "data_ok s c"
    and buf: "buffer_ok s c buf n" and pos: "f_pos (files s a) = pos" "pos \<le> length (contents s c)"
    and n: "n < 2 ^ 31" and m: "m = min n (4096 - pos)"
    and grow: "length (contents s c) < pos + m \<Longrightarrow> \<exists>b s1. alloc (pos + m) s = Inr (b, s1)"
    and low: "\<And>d. c_union (comps s c) = Some d \<Longrightarrow> low_addr d"
  shows "\<exists>s'. tmpfs_write f buf n s = Inr (int m, s') \<and> file_comp f s' = Some (a, c) \<and> heap_ok s' \<and>
    data_ok s' c \<and> contents s' c = overwrite (contents s c) pos (mem_bytes (bytes s) buf m) \<and>
    f_pos (files s' a) = pos + m \<and> vnodes s' = vnodes s \<and> (\<forall>p k. buffer_ok s c p k \<longrightarrow> buffer_ok s' c p k)"
proof -
  define len where "len = c_len (comps s c)"
  have len: "length (contents s c) = len" "len \<le> 4096"
    using data by (auto simp: contents_def data_ok_def len_def TMPFS_MAX_FILE_SIZE_def split: option.splits)
  have pm: "pos + m \<le> 4096" "m \<le> n" using pos(2) len m by simp_all
  have u: "u64 (int pos + int n) = pos + n" using pos(2) len n by (simp add: u64_small nat_add_distrib)
  have u2: "u64 (int pos + int m) = pos + m" using pm by (simp add: u64_small nat_add_distrib)
  have cm: "c_int m = int m" using pm n by (intro c_int_small) simp
  have wr: "(if pos + n \<ge> TMPFS_MAX_FILE_SIZE then u64 (int TMPFS_MAX_FILE_SIZE - int pos) else n) = m"
    using pos(2) len m by (auto simp: TMPFS_MAX_FILE_SIZE_def u64_small nat_diff_distrib)
  have gr: "pos + n > len \<and> len < TMPFS_MAX_FILE_SIZE \<longleftrightarrow> len < pos + m" "min (pos + n) TMPFS_MAX_FILE_SIZE = pos + m"
    using len m pos(2) by (auto simp: TMPFS_MAX_FILE_SIZE_def)
  obtain b where b: "b \<in> blks s" "{buf..<buf + int n} \<subseteq> block_range b" "c_union (comps s c) \<noteq> Some (fst b)"
    using buf by (auto simp: buffer_ok_def)
  have bm: "{buf..<buf + int m} \<subseteq> block_range b" using b(2) pm(2) by (auto simp: subset_iff)
  have fin: "tmpfs_write f buf n s = Inr (int m, moved a (pos + m) s2)"
    if "(if len < pos + m then grow c (pos + m) s else Inr s) = Inr s1"
      and "copy_bytes m (map_option (\<lambda>d. d + int pos) (c_union (comps s1 c))) (Some buf) s1 = Inr s2" for s1 s2
    using f that unfolding tmpfs_write_def
    by (simp add: Let_def pos(1) u u2 wr gr len_def [symmetric] cm split del: if_split cong: if_cong)
  have "\<exists>s'. tmpfs_write f buf n s = Inr (int m, s') \<and> wrote f a c pos (mem_bytes (bytes s) buf m) s s'"
  proof (cases "len < pos + m")
    case False
    then have "pos + m \<le> c_len (comps s c)" by (simp add: len_def)
    from write_within [OF ok f data b(1) bm b(3) this] show ?thesis using fin False by fastforce
  next
    case True
    then obtain d s0 where al: "alloc (pos + m) s = Inr (d, s0)" using grow len(1) by blast
    have gl: "c_len (comps s c) < pos + m" "pos + m \<le> TMPFS_MAX_FILE_SIZE"
      using True pm by (simp_all add: len_def TMPFS_MAX_FILE_SIZE_def)
    from write_beyond [OF ok f data pos(2) b(1) bm gl al low] show ?thesis using fin True by fastforce
  qed
  then show ?thesis by (simp add: wrote_def)
qed

section \<open>Reading\<close>

text \<open>The bytes that are copied are the first ones of the file, whatever the position.\<close>

lemma tmpfs_read_run:
  assumes f: "file_comp f s = Some (a, c)" and data: "data_ok s c"
    and buf: "buffer_ok s c buf n" "heap_ok s" and pos: "f_pos (files s a) = pos" "pos \<le> length (contents s c)"
    and n: "n < 2 ^ 31" and m: "m = min n (length (contents s c) - pos)"
  shows "\<exists>s'. tmpfs_read f buf n s = Inr (int m, s') \<and> file_comp f s' = Some (a, c) \<and> heap_ok s' \<and>
    contents s' c = contents s c \<and> mem_bytes (bytes s') buf m = take m (contents s c) \<and>
    f_pos (files s' a) = pos + m"
proof -
  define len where "len = c_len (comps s c)"
  have len: "length (contents s c) = len" "len \<le> 4096"
    using data by (auto simp: contents_def data_ok_def len_def TMPFS_MAX_FILE_SIZE_def split: option.splits)
  have pm: "pos + m \<le> len" "m \<le> n" using pos(2) len m by simp_all
  have u: "u64 (int pos + int n) = pos + n" "u64 (int pos + int m) = pos + m"
    using pos(2) len n pm by (simp_all add: u64_small nat_add_distrib)
  have cm: "c_int m = int m" using pm n by (intro c_int_small) simp
  have rd: "(if pos + n \<ge> len then u64 (int len - int pos) else n) = m"
    using pos(2) len m by (auto simp: u64_small nat_diff_distrib)
  have fin: "tmpfs_read f buf n s = Inr (int m, upd_file a (\<lambda>x. x\<lparr>f_pos := pos + m\<rparr>) s2)"
    if "copy_bytes m (Some buf) (c_union (comps s c)) s = Inr s2" for s2
    using f that unfolding tmpfs_read_def
    by (simp add: Let_def pos(1) u rd len_def [symmetric] cm split del: if_split cong: if_cong)
  have fc: "file_comp f (upd_file a (\<lambda>x. x\<lparr>f_pos := pos + m\<rparr>) (s\<lparr>bytes := bs\<rparr>)) = Some (a, c)" for bs
    by (rule file_comp_cong [OF f]) (simp_all add: upd_file_def)
  show ?thesis
  proof (cases "m = 0")
    case True
    then have "tmpfs_read f buf n s = Inr (int m, upd_file a (\<lambda>x. x\<lparr>f_pos := pos + m\<rparr>) s)"
      using fin [of s] by (simp add: copy_bytes_def)
    then show ?thesis using True buf(2) fc [of "bytes s"]
      by (intro exI [of _ "upd_file a (\<lambda>x. x\<lparr>f_pos := pos + m\<rparr>) s"])
        (simp add: mem_bytes_def)
  next
    case False
    then obtain d k where d: "c_union (comps s c) = Some d" "(d, k) \<in> blks s" "len \<le> k"
      using data pm by (auto simp: data_ok_def len_def split: option.splits)
    obtain b where b: "b \<in> blks s" "{buf..<buf + int n} \<subseteq> block_range b" "c_union (comps s c) \<noteq> Some (fst b)"
      using buf(1) by (auto simp: buffer_ok_def)
    have "(d, k) \<noteq> b" using b(3) d(1) by auto
    then have ap: "block_range (d, k) \<inter> block_range b = {}"
      by (rule kernel_heap.blocks_apart [OF buf(2) d(2) b(1)])
    have "{d..<d + int len} \<subseteq> block_range (d, k)" using d(3) by (auto simp: block_range_def)
    moreover have "{buf..<buf + int m} \<subseteq> block_range b" using b(2) pm(2) by (auto simp: subset_iff)
    moreover have "{d..<d + int m} \<subseteq> {d..<d + int len}" using pm by auto
    ultimately have dj: "{buf..<buf + int m} \<inter> {d..<d + int m} = {}"
      "{d..<d + int len} \<inter> {buf..<buf + int m} = {}" using ap by blast+
    let ?m = "memcpy m buf d (bytes s)"
    let ?s' = "upd_file a (\<lambda>x. x\<lparr>f_pos := pos + m\<rparr>) (s\<lparr>bytes := ?m\<rparr>)"
    have "tmpfs_read f buf n s = Inr (int m, ?s')"
      using fin False d(1) by (simp add: copy_bytes_def)
    moreover have "mem_bytes ?m buf m = mem_bytes (bytes s) d m" "mem_bytes ?m d len = mem_bytes (bytes s) d len"
      using memcpy_bytes [OF dj(1)] dj(2) by blast+
    moreover have "mem_bytes (bytes s) d m = take m (mem_bytes (bytes s) d len)"
      using pm(1) by (simp add: mem_bytes_def take_map)
    ultimately show ?thesis using fc [of ?m] buf(2) d(1)
      by (intro exI [of _ ?s']) (simp add: contents_def len_def)
  qed
qed

section \<open>Reading back\<close>

text \<open>A file that \<open>tmpfs_open\<close> opens on the node of \<open>c\<close>.\<close>

lemma tmpfs_open_run:
  assumes "heap_ok s" and "data_ok s c" and "component (vnodes s node) = Some c"
    and "tmpfs_open node t s = Inr ((0, Some g), s')"
  shows "file_comp (Some g) s' = Some (g, c)" and "f_pos (files s' g) = 0" and "heap_ok s'" and "data_ok s' c"
    and "contents s' c = contents s c" and "bytes s' = bytes s"
    and "buffer_ok s c p k \<Longrightarrow> buffer_ok s' c p k"
proof -
  have "c_type (comps s c) = COMP_FILE" using assms(2) by (simp add: data_ok_def)
  then obtain h where h: "kmalloc SIZEOF_file (heap s) = Inr (g, h)"
    and s': "s' = upd_file g (\<lambda>x. x\<lparr>ff_ops := f_ops (vnodes s node), f_pos := 0, f_vnode := Some node\<rparr>) (s\<lparr>heap := h\<rparr>)"
    using assms(3,4) by (auto simp: tmpfs_open_def comp_of_def rbind_eq_Inr alloc_eq)
  have h': "alloc_ok h" "blks s \<subseteq> blocks h"
    using kernel_heap.alloc_ok [OF assms(1) _ h] kernel_heap.alloc_keeps [OF assms(1) _ h]
    by (simp_all add: SIZEOF_file_def)
  show "file_comp (Some g) s' = Some (g, c)" "f_pos (files s' g) = 0" "heap_ok s'" "bytes s' = bytes s"
    "contents s' c = contents s c"
    using assms(2,3) h' by (simp_all add: s' file_comp_def data_ok_def contents_def cong: option.case_cong)
  show "data_ok s' c" using assms(2) h'(2) by (auto simp: s' data_ok_def split: option.splits)
  show "buffer_ok s' c p k" if "buffer_ok s c p k"
    using that h'(2) by (auto simp: s' buffer_ok_def)
qed

lemma write_read_run:
  assumes s: "heap_ok s" "file_comp (Some a) s = Some (a, c)" "data_ok s c" "contents s c = []"
    and buf: "buffer_ok s c buf n" "buffer_ok s c buf2 n" and pos: "f_pos (files s a) = 0" and n: "n < 2 ^ 31"
    and m: "m = min n 4096" and al: "\<exists>b s1. alloc m s = Inr (b, s1)"
    and low: "\<And>d. c_union (comps s c) = Some d \<Longrightarrow> low_addr d"
    and wr: "tmpfs_write (Some a) buf n s = Inr (r, s1)" and node: "f_vnode (files s1 a) = Some node"
    and opn: "tmpfs_open node t s1 = Inr ((0, Some g), s2)"
  shows "\<exists>s3. r = int m \<and> tmpfs_read (Some g) buf2 n s2 = Inr (int m, s3) \<and>
    mem_bytes (bytes s3) buf2 m = mem_bytes (bytes s) buf m"
proof -
  have w: "r = int m" "file_comp (Some a) s1 = Some (a, c)" "heap_ok s1" "data_ok s1 c"
    "contents s1 c = overwrite (contents s c) 0 (mem_bytes (bytes s) buf m)" "buffer_ok s1 c buf2 n"
    using tmpfs_write_run [OF s(1-3) buf(1) pos _ n, of m] m al low wr buf(2) s(4) by auto
  have c1: "contents s1 c = mem_bytes (bytes s) buf m" using w(5) s(4) by (simp add: overwrite_def)
  have nd: "component (vnodes s1 node) = Some c" using w(2) node by (auto elim: file_compD)
  note o = tmpfs_open_run [OF w(3,4) nd opn]
  have "\<exists>s3. tmpfs_read (Some g) buf2 n s2 = Inr (int m, s3) \<and> mem_bytes (bytes s3) buf2 m = take m (contents s2 c)"
    using tmpfs_read_run [OF o(1,4) o(7) [OF w(6)] o(3) o(2) _ n, of m] m o(5) c1 by auto
  then show ?thesis using w(1) o(5) c1 by auto
qed

section \<open>A file of five bytes' space\<close>

text \<open>A file system state on the allocator state \<open>h\<close>: an open file at 1, its node at 2, its empty
  component at 3, and the bytes of memory \<open>m\<close>.\<close>

definition file_state :: "pool_state \<Rightarrow> mem \<Rightarrow> vfs" where
  "file_state h m =
     \<lparr>heap = h, vnodes = (\<lambda>_. \<lparr>v_mount = None, v_ops = 4, f_ops = 5, component = Some 3\<rparr>),
      comps = (\<lambda>_. \<lparr>c_name = [], c_type = COMP_FILE, c_len = 0, c_union = None\<rparr>), entry_at = (\<lambda>_ _. 0),
      files = (\<lambda>_. \<lparr>f_vnode = Some 2, f_pos = 0, ff_ops = 5, f_flags = 0\<rparr>),
      filesystems = (\<lambda>_. \<lparr>fs_name = [], setup_mount = Some Tmpfs\<rparr>), mounts = (\<lambda>_. \<lparr>m_root = None, m_fs = 0\<rparr>),
      fop_table = (\<lambda>_. Tmpfs), vop_table = (\<lambda>_. Tmpfs), bytes = m, rootfs = None, mounted = False,
      console = \<lparr>tx_buffer = (\<lambda>_. 0), tx_widx = 0, tx_ridx = 0, rx_buffer = (\<lambda>_. 0), rx_widx = 0, rx_ridx = 0,
        ier = 0, io_out = [], lsr_reads = 0, io_reads = 0\<rparr>\<rparr>"

lemma file_state_simps [simp]:
  "heap (file_state h m) = h" "bytes (file_state h m) = m" "f_pos (files (file_state h m) a) = 0"
  "c_union (comps (file_state h m) c) = None" "c_len (comps (file_state h m) c) = 0"
  "f_vnode (files (file_state h m) a) = Some 2" "component (vnodes (file_state h m) v) = Some 3" "file_comp (Some a) (file_state h m) = Some (a, 3)"
  "contents (file_state h m) c = []" "data_ok (file_state h m) c"
  by (simp_all add: file_state_def file_comp_def contents_def data_ok_def)

text \<open>With a buffer of 64 bytes from the allocator.\<close>

lemma file_state_buffer:
  obtains a h where "kmalloc 64 empty_pool = Inr (a, h)" and "kstock h 61"
    and "\<forall>m. heap_ok (file_state h m) \<and> buffer_ok (file_state h m) 3 a 64"
proof -
  obtain a h where k: "kmalloc 64 empty_pool = Inr (a, h)" "kstock h 61"
    using kmalloc_stock [of empty_pool 61 64] empty_pool_stock by auto
  obtain n where "64 \<le> n" "(a, n) \<in> blocks h" "alloc_ok h"
    using kernel_heap.alloc_block [OF kstock_ok [OF empty_pool_stock] _ k(1)] by auto
  then show thesis using that [OF k] by (force simp: buffer_ok_def block_range_def)
qed

lemma file_state_alloc:
  assumes "kstock h 61" and "n \<le> 2048"
  shows "\<exists>b s1. alloc n (file_state h m) = Inr (b, s1)"
  using kmalloc_stock [of h 60 n] assms by (force simp: alloc_eq)

lemma file_state_write:
  assumes "kmalloc 5 h = Inr (b, h2)" and "tmpfs_write (Some 1) a 5 (file_state h m) = Inr (r, s')"
  shows "heap s' = h2" and "f_vnode (files s' 1) = Some 2" and "component (vnodes s' 2) = Some 3"
  using assms(2) by (auto simp: tmpfs_write_def Let_def u64_def TMPFS_MAX_FILE_SIZE_def grow_def alloc_def assms(1)
    copy_bytes_def upd_comp_def)

text \<open>The buffer holds the bytes 0, 1, 2, ..., of which five are written.\<close>

lemma file_state_written:
  obtains a h s' where "kmalloc 64 empty_pool = Inr (a, h)" and "kstock h 61"
    and "heap_ok (file_state h (\<lambda>p. word_of_int (p - a)))" and "buffer_ok (file_state h (\<lambda>p. word_of_int (p - a))) 3 a 5"
    and "tmpfs_write (Some 1) a 5 (file_state h (\<lambda>p. word_of_int (p - a))) = Inr (5, s')"
    and "heap_ok s'" and "data_ok s' 3" and "contents s' 3 = [0, 1, 2, 3, 4]" and "file_comp (Some 1) s' = Some (1, 3)"
    and "buffer_ok s' 3 a 5" and "kstock (heap s') 60" and "f_vnode (files s' 1) = Some 2"
    and "component (vnodes s' 2) = Some 3"
proof -
  obtain a h where k: "kmalloc 64 empty_pool = Inr (a, h)" "kstock h 61"
    and "\<forall>m. heap_ok (file_state h m) \<and> buffer_ok (file_state h m) 3 a 64"
    by (rule file_state_buffer)
  then have all: "heap_ok (file_state h m)" "buffer_ok (file_state h m) 3 a 64" for m by simp_all
  let ?s = "file_state h (\<lambda>p. word_of_int (p - a))"
  have b: "buffer_ok ?s 3 a 5" using all(2) by (force simp: buffer_ok_def)
  have "\<exists>b s1. alloc (0 + 5) ?s = Inr (b, s1)" using file_state_alloc [OF k(2), of 5] by simp
  then have "\<exists>s'. tmpfs_write (Some 1) a 5 ?s = Inr (int 5, s') \<and> file_comp (Some 1) s' = Some (1, 3) \<and>
    heap_ok s' \<and> data_ok s' 3 \<and> contents s' 3 = overwrite (contents ?s 3) 0 (mem_bytes (bytes ?s) a 5) \<and>
    f_pos (files s' 1) = 0 + 5 \<and> vnodes s' = vnodes ?s \<and> (\<forall>p k. buffer_ok ?s 3 p k \<longrightarrow> buffer_ok s' 3 p k)"
    by (intro tmpfs_write_run [OF all(1) _ _ b]) simp_all
  then obtain s' where "tmpfs_write (Some 1) a 5 ?s = Inr (int 5, s')" "file_comp (Some 1) s' = Some (1, 3)"
    "heap_ok s'" "data_ok s' 3" "contents s' 3 = overwrite (contents ?s 3) 0 (mem_bytes (bytes ?s) a 5)"
    "buffer_ok s' 3 a 5" using b by blast
  moreover obtain b h2 where h2: "kmalloc 5 h = Inr (b, h2)" "kstock h2 60"
    using kmalloc_stock [of h 60 5] k(2) by auto
  ultimately show thesis
    using that [OF k all(1) b, of s'] file_state_write [OF h2(1)] by (simp add: overwrite_def mem_bytes_def upt_rec)
qed

section \<open>Properties\<close>

text \<open>C17: tmpfs_write on an open file writes at the file's position as much of the buffer as fits below
  4096 bytes. It returns that length, the file's contents become the old ones with exactly these
  bytes overwritten (longer when needed), the position moves past them, and every buffer in another
  block in use stays one.\<close>

theorem tmpfs_write_correct:
  assumes "heap_ok s" and "file_comp f s = Some (a, c)" and "data_ok s c"
    and "buffer_ok s c buf n" and "f_pos (files s a) = pos" and "pos \<le> length (contents s c)"
    and "n < 2 ^ 31" and "m = min n (4096 - pos)"
    and "length (contents s c) < pos + m \<Longrightarrow> \<exists>b s1. alloc (pos + m) s = Inr (b, s1)"
    and "\<And>d. c_union (comps s c) = Some d \<Longrightarrow> low_addr d"
  shows "\<exists>s'. tmpfs_write f buf n s = Inr (int m, s') \<and> file_comp f s' = Some (a, c) \<and> heap_ok s' \<and>
    data_ok s' c \<and> contents s' c = overwrite (contents s c) pos (mem_bytes (bytes s) buf m) \<and>
    f_pos (files s' a) = pos + m \<and> vnodes s' = vnodes s \<and> (\<forall>p k. buffer_ok s c p k \<longrightarrow> buffer_ok s' c p k)"
  using assms by (rule tmpfs_write_run)

theorem tmpfs_write_correct_witness:
  "\<exists>a h s'. kmalloc 64 empty_pool = Inr (a, h) \<and> tmpfs_write (Some 1) a 5 (file_state h (\<lambda>p. word_of_int (p - a))) = Inr (5, s') \<and>
     contents s' 3 = [0, 1, 2, 3, 4] \<and> f_pos (files s' 1) = 5"
proof -
  obtain a h where k: "kmalloc 64 empty_pool = Inr (a, h)" "kstock h 61"
    and "\<forall>m. heap_ok (file_state h m) \<and> buffer_ok (file_state h m) 3 a 64"
    by (rule file_state_buffer)
  then have all: "heap_ok (file_state h m)" "buffer_ok (file_state h m) 3 a 64" for m by simp_all
  let ?s = "file_state h (\<lambda>p. word_of_int (p - a))"
  have b: "buffer_ok ?s 3 a 5" using all(2) by (force simp: buffer_ok_def)
  have "\<exists>b s1. alloc (0 + 5) ?s = Inr (b, s1)" using file_state_alloc [OF k(2), of 5] by simp
  then have "\<exists>s'. tmpfs_write (Some 1) a 5 ?s = Inr (int 5, s') \<and> file_comp (Some 1) s' = Some (1, 3) \<and>
    heap_ok s' \<and> data_ok s' 3 \<and> contents s' 3 = overwrite (contents ?s 3) 0 (mem_bytes (bytes ?s) a 5) \<and>
    f_pos (files s' 1) = 0 + 5 \<and> vnodes s' = vnodes ?s \<and> (\<forall>p k. buffer_ok ?s 3 p k \<longrightarrow> buffer_ok s' 3 p k)"
    by (intro tmpfs_write_correct [OF all(1) _ _ b]) simp_all
  then obtain s' where "tmpfs_write (Some 1) a 5 ?s = Inr (int 5, s')"
    "contents s' 3 = overwrite (contents ?s 3) 0 (mem_bytes (bytes ?s) a 5)" "f_pos (files s' 1) = 0 + 5"
    by blast
  then show ?thesis using k(1)
    by (intro exI [of _ a] exI [of _ h] exI [of _ s']) (simp add: overwrite_def mem_bytes_def upt_rec)
qed

text \<open>C18: tmpfs_read on an open file returns how many bytes there are between the position and the
  end of the file, at most the length asked for, and moves the position past them. But the bytes
  that it copies to the buffer are the first ones of the file, whatever the position: reading a
  file in two parts gives its beginning twice.\<close>

theorem tmpfs_read_correct:
  assumes "file_comp f s = Some (a, c)" and "data_ok s c" and "buffer_ok s c buf n" and "heap_ok s"
    and "f_pos (files s a) = pos" and "pos \<le> length (contents s c)"
    and "n < 2 ^ 31" and "m = min n (length (contents s c) - pos)"
  shows "\<exists>s'. tmpfs_read f buf n s = Inr (int m, s') \<and> file_comp f s' = Some (a, c) \<and> heap_ok s' \<and>
    contents s' c = contents s c \<and> mem_bytes (bytes s') buf m = take m (contents s c) \<and>
    f_pos (files s' a) = pos + m"
  using assms by (rule tmpfs_read_run)

theorem tmpfs_read_correct_witness:
  "\<exists>s buf s'. f_pos (files s 1) = 2 \<and> contents s 3 = [0, 1, 2, 3, 4] \<and> tmpfs_read (Some 1) buf 5 s = Inr (3, s') \<and>
     mem_bytes (bytes s') buf 3 = [0, 1, 2] \<and> f_pos (files s' 1) = 5"
proof -
  obtain a s' where s': "heap_ok s'" "data_ok s' 3" "contents s' 3 = [0, 1, 2, 3, 4]"
    "file_comp (Some 1) s' = Some (1, 3)" "buffer_ok s' 3 a 5"
    by (rule file_state_written)
  let ?s = "upd_file 1 (\<lambda>x. x\<lparr>f_pos := 2\<rparr>) s'"
  have "file_comp (Some 1) ?s = Some (1, 3)" by (rule file_comp_cong [OF s'(4)]) simp_all
  moreover have "buffer_ok ?s 3 a 5" using s'(5) by (simp add: buffer_ok_def)
  ultimately obtain s2 where "tmpfs_read (Some 1) a 5 ?s = Inr (int 3, s2)" "mem_bytes (bytes s2) a 3 = take 3 (contents ?s 3)"
    "f_pos (files s2 1) = 2 + 3"
    using tmpfs_read_correct [of "Some 1" ?s 1 3 a 5 2 3] s'(1-3) by auto
  then show ?thesis using s'(3) by (intro exI [of _ ?s] exI [of _ a] exI [of _ s2]) simp
qed

text \<open>What tmpfs_write wrote to an empty file, tmpfs_read gives back through a new tmpfs_open of
  the same node: the length written (the buffer's, at most 4096) and the same bytes.\<close>

theorem write_read_round_trip:
  assumes "heap_ok s" and "file_comp (Some a) s = Some (a, c)" and "data_ok s c" and "contents s c = []"
    and "buffer_ok s c buf n" and "buffer_ok s c buf2 n" and "f_pos (files s a) = 0" and "n < 2 ^ 31"
    and "m = min n 4096" and "\<exists>b s1. alloc m s = Inr (b, s1)"
    and "\<And>d. c_union (comps s c) = Some d \<Longrightarrow> low_addr d"
    and "tmpfs_write (Some a) buf n s = Inr (r, s1)" and "f_vnode (files s1 a) = Some node"
    and "tmpfs_open node t s1 = Inr ((0, Some g), s2)"
  shows "\<exists>s3. r = int m \<and> tmpfs_read (Some g) buf2 n s2 = Inr (int m, s3) \<and>
    mem_bytes (bytes s3) buf2 m = mem_bytes (bytes s) buf m"
  using assms by (rule write_read_run)

theorem write_read_round_trip_example:
  "\<exists>s buf s1 g s2 s3. tmpfs_write (Some 1) buf 5 s = Inr (5, s1) \<and> tmpfs_open 2 None s1 = Inr ((0, Some g), s2) \<and>
     tmpfs_read (Some g) buf 5 s2 = Inr (5, s3) \<and> mem_bytes (bytes s3) buf 5 = mem_bytes (bytes s) buf 5"
proof -
  obtain a h s1 where ok: "heap_ok (file_state h (\<lambda>p. word_of_int (p - a)))" and h: "kstock h 61"
    and b: "buffer_ok (file_state h (\<lambda>p. word_of_int (p - a))) 3 a 5"
    and wr: "tmpfs_write (Some 1) a 5 (file_state h (\<lambda>p. word_of_int (p - a))) = Inr (5, s1)"
    and s1: "data_ok s1 3" "kstock (heap s1) 60" "f_vnode (files s1 1) = Some 2" "component (vnodes s1 2) = Some 3"
    by (rule file_state_written)
  let ?s = "file_state h (\<lambda>p. word_of_int (p - a))"
  obtain g h3 where "kmalloc SIZEOF_file (heap s1) = Inr (g, h3)"
    using kmalloc_stock [of "heap s1" 59 SIZEOF_file] s1(2) by (auto simp: SIZEOF_file_def)
  then obtain s2 where opn: "tmpfs_open 2 None s1 = Inr ((0, Some g), s2)"
    using s1(1,4) by (auto simp: tmpfs_open_def comp_of_def data_ok_def alloc_def)
  have "\<exists>s3. (5::int) = int 5 \<and> tmpfs_read (Some g) a 5 s2 = Inr (int 5, s3) \<and>
    mem_bytes (bytes s3) a 5 = mem_bytes (bytes ?s) a 5"
    by (rule write_read_round_trip [OF ok _ _ _ b b _ _ _ _ _ wr s1(3) opn])
      (use file_state_alloc [OF h, of 5] in simp_all)
  then obtain s3 where "tmpfs_read (Some g) a 5 s2 = Inr (5, s3)" "mem_bytes (bytes s3) a 5 = mem_bytes (bytes ?s) a 5"
    by auto
  then show ?thesis using wr opn by (intro exI conjI)
qed

end
