(* ===== verification/TmpfsDirs.thy ===== *)
theory TmpfsDirs
  imports TmpfsClaims
begin

text \<open>
  Directories of the memory file system: a directory as the list of its entries with their names,
  what looking up and creating an entry do to it, and the law that relates the two.
\<close>

section \<open>Directories as association lists\<close>

definition entries_of :: "vfs \<Rightarrow> addr \<Rightarrow> addr list" where
  "entries_of s d =
     (case c_union (comps s d) of None \<Rightarrow> [] | Some e \<Rightarrow> map (entry_at s e) [0..<c_len (comps s d)])"

definition node_name :: "vfs \<Rightarrow> addr \<Rightarrow> byte list" where
  "node_name s n = (case component (vnodes s n) of None \<Rightarrow> [] | Some c \<Rightarrow> c_name (comps s c))"

definition dir_view :: "vfs \<Rightarrow> addr \<Rightarrow> (byte list \<times> addr) list" where
  "dir_view s d = map (\<lambda>n. (node_name s n, n)) (entries_of s d)"

text \<open>What a directory entry stands for: its own node, or the root of what is mounted on it.\<close>

definition mount_target :: "vfs \<Rightarrow> addr \<Rightarrow> addr option" where
  "mount_target s n = (case v_mount (vnodes s n) of None \<Rightarrow> Some n | Some m \<Rightarrow> m_root (mounts s m))"

definition in_use :: "vfs \<Rightarrow> addr set" where
  "in_use s = fst ` blks s"

text \<open>A directory whose structures are all in blocks in use.\<close>

definition dir_ok :: "vfs \<Rightarrow> addr \<Rightarrow> bool" where
  "dir_ok s d \<longleftrightarrow> c_type (comps s d) = COMP_DIR \<and> c_len (comps s d) \<le> TMPFS_MAX_ENTRY \<and> d \<in> in_use s \<and>
     (case c_union (comps s d) of None \<Rightarrow> c_len (comps s d) = 0 | Some e \<Rightarrow> e \<in> in_use s) \<and>
     (\<forall>n \<in> set (entries_of s d). n \<in> in_use s \<and> (\<exists>c \<in> in_use s. component (vnodes s n) = Some c))"

lemma dir_okD:
  assumes "dir_ok s d"
  shows "c_type (comps s d) = COMP_DIR" and "c_len (comps s d) \<le> TMPFS_MAX_ENTRY" and "d \<in> in_use s"
    and "c_union (comps s d) = None \<Longrightarrow> c_len (comps s d) = 0"
    and "c_union (comps s d) = Some e \<Longrightarrow> e \<in> in_use s"
    and "n \<in> set (entries_of s d) \<Longrightarrow> n \<in> in_use s"
    and "n \<in> set (entries_of s d) \<Longrightarrow> \<exists>c \<in> in_use s. component (vnodes s n) = Some c"
  using assms by (auto simp: dir_ok_def)

lemma length_entries [simp]: "dir_ok s d \<Longrightarrow> length (entries_of s d) = c_len (comps s d)"
  by (auto simp: entries_of_def dir_ok_def split: option.splits)

lemma entries_dir_view: "entries_of s d = map snd (dir_view s d)"
  by (simp add: dir_view_def comp_def)

text \<open>A change that keeps the names and another component's entries.\<close>

lemma dir_view_upd_comp:
  assumes "c \<noteq> d" and "\<And>x. c_name (f x) = c_name x"
  shows "dir_view (upd_comp c f s) d = dir_view s d"
proof -
  have "node_name (upd_comp c f s) n = node_name s n" for n
    using assms(2) by (auto simp: node_name_def upd_comp_def split: option.split)
  moreover have "entries_of (upd_comp c f s) d = entries_of s d"
    using assms(1) by (simp add: entries_of_def upd_comp_def cong: option.case_cong)
  ultimately show ?thesis by (simp add: dir_view_def)
qed

lemma dir_ok_upd_comp:
  assumes "c \<noteq> d" and "dir_ok s d" and "\<And>x. c_name (f x) = c_name x"
  shows "dir_ok (upd_comp c f s) d"
proof -
  have "entries_of (upd_comp c f s) d = entries_of s d"
    using dir_view_upd_comp [OF assms(1,3)] by (simp add: entries_dir_view)
  then show ?thesis using assms(1,2) by (simp add: dir_ok_def in_use_def upd_comp_def cong: option.case_cong)
qed

section \<open>Looking up\<close>

lemma find_entry_run:
  assumes "dir_ok s d"
  shows "find_entry name (comps s d) i s = Inr (map_of (drop i (dir_view s d)) name)"
proof (induction "c_len (comps s d) - i" arbitrary: i)
  case 0
  then show ?case using assms by (subst find_entry.simps) (simp add: dir_view_def)
next
  case (Suc k)
  then have i: "i < c_len (comps s d)" and k: "k = c_len (comps s d) - (i + 1)" by simp_all
  then obtain e where e: "c_union (comps s d) = Some e" using dir_okD(4) [OF assms] by fastforce
  then have n: "entry_at s e i \<in> set (entries_of s d)" using i by (auto simp: entries_of_def)
  then obtain c where c: "component (vnodes s (entry_at s e i)) = Some c" using dir_okD(7) [OF assms] by blast
  then have "node_name s (entry_at s e i) = c_name (comps s c)" by (simp add: node_name_def)
  moreover have "drop i (dir_view s d) = (node_name s (entry_at s e i), entry_at s e i) # drop (Suc i) (dir_view s d)"
    using i e by (simp add: dir_view_def entries_of_def Cons_nth_drop_Suc [symmetric])
  ultimately show ?case using i e c Suc(1) [OF k]
    by (subst find_entry.simps) (simp add: comp_of_def)
qed

lemma tmpfs_lookup_run:
  assumes "component (vnodes s dir) = Some d" and "dir_ok s d"
  shows "tmpfs_lookup dir t name s =
    (case map_of (dir_view s d) name of None \<Rightarrow> Inr (-1, t) | Some n \<Rightarrow> Inr (0, mount_target s n))"
  using assms(1) dir_okD(1) [OF assms(2)] find_entry_run [OF assms(2), of name 0]
  by (auto simp: tmpfs_lookup_def comp_of_def mount_target_def split: option.splits)

section \<open>Creating\<close>

text \<open>An allocation of at most 2048 bytes when there is a page for it.\<close>

lemma alloc_stock:
  assumes "kstock (heap s) (Suc k)" and "m \<le> 2048"
  obtains a h where "alloc m s = Inr (a, s\<lparr>heap := h\<rparr>)" and "kstock h k" and "a \<notin> in_use s"
    and "fst ` blocks h = insert a (in_use s)"
proof -
  obtain a h where k: "kmalloc m (heap s) = Inr (a, h)" "kstock h k" using kmalloc_stock [OF assms] by blast
  have "m \<le> 2 ^ 17" using assms(2) by simp
  then obtain l where "blocks h = insert (a, l) (blks s)" "a \<notin> fst ` blks s"
    by (rule kernel_heap.alloc_fresh [OF kstock_ok [OF assms(1)] _ k(1)])
  then show thesis using that [of a h] k by (simp add: alloc_def in_use_def)
qed

lemma vnode_assigned:
  "v\<lparr>component := c, f_ops := f, v_ops := g, v_mount := m\<rparr> = \<lparr>v_mount = m, v_ops = g, f_ops = f, component = c\<rparr>"
  by (cases v) simp

lemma vnode_reset:
  "v\<lparr>v_mount := m, component := c, f_ops := f, v_ops := g\<rparr> = \<lparr>v_mount = m, v_ops = g, f_ops = f, component = c\<rparr>"
  by (cases v) simp

lemma new_node_run:
  assumes st: "kstock (heap s) (Suc (Suc (Suc k)))" and dir: "dir \<in> in_use s" and name: "length name < NAME_LEN"
  obtains node c h x where "new_node dir name s = Inr (node, s\<lparr>heap := h,
      comps := (comps s)(c := (comps s c)\<lparr>c_name := name, c_union := None, c_len := 0\<rparr>),
      vnodes := (vnodes s)(node := \<lparr>v_mount = None, v_ops = v_ops (vnodes s dir), f_ops = f_ops (vnodes s dir), component = Some c\<rparr>)\<rparr>)"
    and "kstock h k" and "node \<notin> in_use s" and "c \<notin> in_use s" and "fst ` blocks h = {node, c, x} \<union> in_use s"
proof -
  obtain node h1 where 1: "alloc SIZEOF_vnode s = Inr (node, s\<lparr>heap := h1\<rparr>)" "kstock h1 (Suc (Suc k))"
    "node \<notin> in_use s" "fst ` blocks h1 = insert node (in_use s)"
    by (rule alloc_stock [OF st, of SIZEOF_vnode]) (simp_all add: SIZEOF_vnode_def)
  have "kstock (heap (s\<lparr>heap := h1\<rparr>)) (Suc (Suc k))" using 1(2) by simp
  then obtain c h2 where 2: "alloc SIZEOF_vnode_component (s\<lparr>heap := h1\<rparr>) = Inr (c, s\<lparr>heap := h2\<rparr>)" "kstock h2 (Suc k)"
    "c \<notin> insert node (in_use s)" "fst ` blocks h2 = insert c (insert node (in_use s))"
    by (rule alloc_stock [where m = SIZEOF_vnode_component]) (use 1(4) in \<open>simp_all add: SIZEOF_vnode_component_def in_use_def\<close>)
  let ?s = "s\<lparr>heap := h2, vnodes := (vnodes s)(node := (vnodes s node)\<lparr>component := Some c\<rparr>)\<rparr>"
  have "kstock (heap ?s) (Suc k)" using 2(2) by simp
  then obtain x h3 where 3: "alloc NAME_LEN ?s = Inr (x, ?s\<lparr>heap := h3\<rparr>)" "kstock h3 k"
    "fst ` blocks h3 = insert x (insert c (insert node (in_use s)))"
    by (rule alloc_stock [where m = NAME_LEN]) (use 2(4) in \<open>simp_all add: NAME_LEN_def in_use_def\<close>)
  have "node \<noteq> dir" using 1(3) dir by blast
  moreover have "new_node dir name s = Inr (node, s\<lparr>heap := h3,
      comps := (comps s)(c := (comps s c)\<lparr>c_name := name, c_union := None, c_len := 0\<rparr>),
      vnodes := (vnodes s)(node := \<lparr>v_mount = None, v_ops = v_ops (vnodes s dir), f_ops = f_ops (vnodes s dir), component = Some c\<rparr>)\<rparr>)"
    if "node \<noteq> dir"
    using 1(1) 2(1) 3(1) name that by (simp add: new_node_def upd_vnode_def upd_comp_def fit_def vnode_assigned)
  moreover have "fst ` blocks h3 = {node, c, x} \<union> in_use s" using 3(3) by blast
  ultimately show thesis using that [of node c h3 x] 1(3) 2(3) 3(2) by blast
qed

lemma add_entry_run:
  assumes st: "kstock (heap s) (Suc k)" and len: "c_union (comps s d) = None \<Longrightarrow> c_len (comps s d) = 0"
  obtains e h where "add_entry d node s = Inr (s\<lparr>heap := h,
      entry_at := (entry_at s)(e := (entry_at s e)(c_len (comps s d) := node)),
      comps := (comps s)(d := (comps s d)\<lparr>c_union := Some e, c_len := Suc (c_len (comps s d))\<rparr>)\<rparr>)"
    and "kstock h k" and "in_use s \<subseteq> fst ` blocks h"
    and "c_union (comps s d) = None \<Longrightarrow> e \<in> fst ` blocks h \<and> e \<notin> in_use s"
    and "c_union (comps s d) \<noteq> None \<Longrightarrow> c_union (comps s d) = Some e"
proof (cases "c_union (comps s d)")
  case (Some e)
  have c: "(comps s d)\<lparr>c_union := Some e, c_len := n\<rparr> = (comps s d)\<lparr>c_len := n\<rparr>" for n
    using Some by (intro vnode_component.equality) simp_all
  have "add_entry d node s = Inr (s\<lparr>heap := heap s,
      entry_at := (entry_at s)(e := (entry_at s e)(c_len (comps s d) := node)),
      comps := (comps s)(d := (comps s d)\<lparr>c_union := Some e, c_len := Suc (c_len (comps s d))\<rparr>)\<rparr>)"
    unfolding c using Some by (simp add: add_entry_def upd_comp_def Let_def)
  moreover have "kstock (heap s) k" by (rule kstock_mono [OF st]) simp
  ultimately show thesis by (rule that) (simp_all add: Some in_use_def)
next
  case None
  obtain e h where "alloc (8 * TMPFS_MAX_ENTRY) s = Inr (e, s\<lparr>heap := h\<rparr>)" "kstock h k"
    "fst ` blocks h = insert e (in_use s)" "e \<notin> in_use s"
    by (rule alloc_stock [OF st, of "8 * TMPFS_MAX_ENTRY"]) (simp_all add: TMPFS_MAX_ENTRY_def)
  then show thesis using that [of e h] None len by (auto simp: add_entry_def upd_comp_def Let_def)
qed

text \<open>A step that only adds structures, in memory that was not in use, and changes the component \<open>d\<close>.\<close>

definition extends :: "addr \<Rightarrow> vfs \<Rightarrow> vfs \<Rightarrow> bool" where
  "extends d s s' \<longleftrightarrow> in_use s \<subseteq> in_use s' \<and> (\<forall>n \<in> in_use s. vnodes s' n = vnodes s n) \<and>
     (\<forall>c \<in> in_use s. c \<noteq> d \<longrightarrow> comps s' c = comps s c) \<and> bytes s' = bytes s \<and> mounted s' = mounted s \<and>
     mounts s' = mounts s \<and> rootfs s' = rootfs s \<and> vop_table s' = vop_table s \<and> fop_table s' = fop_table s \<and>
     (\<forall>e \<in> in_use s. c_union (comps s d) \<noteq> Some e \<longrightarrow> entry_at s' e = entry_at s e \<and> c_union (comps s' d) \<noteq> Some e)"

lemma extendsD:
  assumes "extends d s s'"
  shows "n \<in> in_use s \<Longrightarrow> n \<in> in_use s'" and "n \<in> in_use s \<Longrightarrow> vnodes s' n = vnodes s n"
    and "c \<in> in_use s \<Longrightarrow> c \<noteq> d \<Longrightarrow> comps s' c = comps s c" and "bytes s' = bytes s" and "mounted s' = mounted s"
    and "mounts s' = mounts s" and "rootfs s' = rootfs s" and "vop_table s' = vop_table s"
    and "fop_table s' = fop_table s"
    and "e \<in> in_use s \<Longrightarrow> c_union (comps s d) \<noteq> Some e \<Longrightarrow> entry_at s' e = entry_at s e \<and> c_union (comps s' d) \<noteq> Some e"
  using assms unfolding extends_def by blast+

lemma extends_trans:
  assumes "extends d s s1" and "extends d s1 s2"
  shows "extends d s s2"
  unfolding extends_def
proof (intro conjI ballI impI)
  note x = extendsD [OF assms(1)] and y = extendsD [OF assms(2)]
  show "in_use s \<subseteq> in_use s2" using x(1) y(1) by blast
  show "vnodes s2 n = vnodes s n" if "n \<in> in_use s" for n using x(2) [OF that] y(2) [OF x(1) [OF that]] by simp
  show "comps s2 c = comps s c" if "c \<in> in_use s" "c \<noteq> d" for c
    using x(3) [OF that] y(3) [OF x(1) [OF that(1)] that(2)] by simp
  show "bytes s2 = bytes s" "mounted s2 = mounted s" "mounts s2 = mounts s" "rootfs s2 = rootfs s"
    "vop_table s2 = vop_table s" "fop_table s2 = fop_table s"
    using x(4-9) y(4-9) by simp_all
  show "entry_at s2 e = entry_at s e" "c_union (comps s2 d) \<noteq> Some e" if "e \<in> in_use s" "c_union (comps s d) \<noteq> Some e" for e
    using x(10) [OF that] y(10) [OF x(1) [OF that(1)]] by simp_all
qed

text \<open>The state with a new node \<open>node\<close> and its component \<open>c\<close> as the last entry of the directory \<open>d\<close> of \<open>dir\<close>, in the array
  \<open>e\<close>, which is new when the directory had none.\<close>

definition entry_added :: "addr \<Rightarrow> addr \<Rightarrow> addr \<Rightarrow> addr \<Rightarrow> addr \<Rightarrow> byte list \<Rightarrow> vfs \<Rightarrow> vfs \<Rightarrow> bool" where
  "entry_added dir d node c e name s s' \<longleftrightarrow>
     in_use s \<union> {node, c, e} \<subseteq> in_use s' \<and> node \<notin> in_use s \<and> c \<notin> in_use s \<and>
     (case c_union (comps s d) of None \<Rightarrow> e \<notin> in_use s | Some e' \<Rightarrow> e' = e) \<and>
     (\<exists>h. s' = s\<lparr>heap := h, entry_at := (entry_at s)(e := (entry_at s e)(c_len (comps s d) := node)),
        vnodes := (vnodes s)(node := \<lparr>v_mount = None, v_ops = v_ops (vnodes s dir), f_ops = f_ops (vnodes s dir), component = Some c\<rparr>),
        comps := (comps s)(c := (comps s c)\<lparr>c_name := name, c_union := None, c_len := 0\<rparr>,
          d := (comps s d)\<lparr>c_union := Some e, c_len := Suc (c_len (comps s d))\<rparr>)\<rparr>)"

lemma entry_addedD:
  assumes "entry_added dir d node c e name s s'"
  shows "in_use s \<subseteq> in_use s'" and "node \<in> in_use s'" and "c \<in> in_use s'" and "e \<in> in_use s'" and "node \<notin> in_use s" and "c \<notin> in_use s"
    and "c_union (comps s d) = None \<Longrightarrow> e \<notin> in_use s" and "c_union (comps s d) = Some e' \<Longrightarrow> e' = e"
    and "vnodes s' = (vnodes s)(node := \<lparr>v_mount = None, v_ops = v_ops (vnodes s dir), f_ops = f_ops (vnodes s dir), component = Some c\<rparr>)"
    and "comps s' = (comps s)(c := (comps s c)\<lparr>c_name := name, c_union := None, c_len := 0\<rparr>,
          d := (comps s d)\<lparr>c_union := Some e, c_len := Suc (c_len (comps s d))\<rparr>)"
    and "entry_at s' = (entry_at s)(e := (entry_at s e)(c_len (comps s d) := node))"
    and "bytes s' = bytes s" and "mounted s' = mounted s" and "mounts s' = mounts s" and "rootfs s' = rootfs s"
    and "vop_table s' = vop_table s" and "fop_table s' = fop_table s"
  using assms unfolding entry_added_def by auto

lemma entry_added_view:
  assumes a: "entry_added dir d node c e name s s'" and d: "dir_ok s d"
  shows "entries_of s' d = entries_of s d @ [node]" and "dir_view s' d = dir_view s d @ [(name, node)]"
proof -
  note D = entry_addedD [OF a]
  have ne: "c \<noteq> d" using D(6) dir_okD(3) [OF d] by blast
  show ent: "entries_of s' d = entries_of s d @ [node]"
    using dir_okD(4) [OF d] D(8,10,11) ne by (auto simp: entries_of_def split: option.split)
  have "node_name s' n = node_name s n" if n: "n \<in> set (entries_of s d)" for n
  proof -
    obtain m where m: "component (vnodes s n) = Some m" "m \<in> in_use s" using dir_okD(7) [OF d n] by blast
    then have "n \<noteq> node" "m \<noteq> c" using dir_okD(6) [OF d n] D(5,6) by blast+
    then show ?thesis using m(1) D(9,10) by (cases "m = d") (simp_all add: node_name_def)
  qed
  moreover have "node_name s' node = name" using ne D(9,10) by (simp add: node_name_def)
  ultimately show "dir_view s' d = dir_view s d @ [(name, node)]" unfolding dir_view_def ent by simp
qed

lemma entry_added_dir_ok:
  assumes a: "entry_added dir d node c e name s s'" and d: "dir_ok s d" and room: "c_len (comps s d) < TMPFS_MAX_ENTRY"
  shows "dir_ok s' d"
proof -
  note D = entry_addedD [OF a]
  have "n \<in> in_use s' \<and> (\<exists>m \<in> in_use s'. component (vnodes s' n) = Some m)" if n: "n \<in> set (entries_of s' d)" for n
  proof (cases "n = node")
    case False
    then have n': "n \<in> set (entries_of s d)" using n unfolding entry_added_view(1) [OF a d] by simp
    then show ?thesis using False D(1,9) dir_okD(6,7) [OF d n'] by auto
  qed (use D(2,3,9) in auto)
  moreover have "d \<in> in_use s'" using dir_okD(3) [OF d] D(1) by blast
  ultimately show ?thesis using dir_okD(1) [OF d] room D(4,10) by (simp add: dir_ok_def)
qed

lemma entry_added_extends:
  assumes a: "entry_added dir d node c e name s s'"
  shows "extends d s s'"
  unfolding extends_def
proof (intro conjI ballI impI)
  note D = entry_addedD [OF a]
  show "in_use s \<subseteq> in_use s'" by (rule D(1))
  show "vnodes s' n = vnodes s n" if "n \<in> in_use s" for n using that D(5,9) by auto
  show "comps s' x = comps s x" if "x \<in> in_use s" "x \<noteq> d" for x using that D(6,10) by auto
  show "entry_at s' x = entry_at s x" "c_union (comps s' d) \<noteq> Some x" if "x \<in> in_use s" "c_union (comps s d) \<noteq> Some x" for x
  proof -
    have "x \<noteq> e" using that D(7,8) by (cases "c_union (comps s d)") auto
    then show "entry_at s' x = entry_at s x" "c_union (comps s' d) \<noteq> Some x" using D(10,11) by simp_all
  qed
qed (use entry_addedD [OF a] in simp_all)

text \<open>A new entry, seen from the directory.\<close>

lemma tmpfs_create_entry:
  assumes d: "component (vnodes s dir) = Some d" "dir \<in> in_use s" "dir_ok s d" and st: "kstock (heap s) (Suc (Suc (Suc (Suc k))))"
    and name: "length name < NAME_LEN" "map_of (dir_view s d) name = None" and room: "c_len (comps s d) < TMPFS_MAX_ENTRY"
  obtains node c e s' where "tmpfs_create dir t name s = Inr ((0, Some node), s')" and "entry_added dir d node c e name s s'"
    and "kstock (heap s') k"
proof -
  obtain node c h x where n: "new_node dir name s = Inr (node, s\<lparr>heap := h,
      comps := (comps s)(c := (comps s c)\<lparr>c_name := name, c_union := None, c_len := 0\<rparr>),
      vnodes := (vnodes s)(node := \<lparr>v_mount = None, v_ops = v_ops (vnodes s dir), f_ops = f_ops (vnodes s dir), component = Some c\<rparr>)\<rparr>)"
    and st1: "kstock h (Suc k)" and fresh: "node \<notin> in_use s" "c \<notin> in_use s" "fst ` blocks h = {node, c, x} \<union> in_use s"
    by (rule new_node_run [OF st d(2) name(1)])
  define s1 where "s1 = s\<lparr>heap := h,
      comps := (comps s)(c := (comps s c)\<lparr>c_name := name, c_union := None, c_len := 0\<rparr>),
      vnodes := (vnodes s)(node := \<lparr>v_mount = None, v_ops = v_ops (vnodes s dir), f_ops = f_ops (vnodes s dir), component = Some c\<rparr>)\<rparr>"
  have ne: "c \<noteq> d" using fresh(2) dir_okD(3) [OF d(3)] by blast
  then have s1: "comps s1 d = comps s d" "heap s1 = h" "entry_at s1 = entry_at s" by (simp_all add: s1_def)
  have "kstock (heap s1) (Suc k)" using st1 s1(2) by simp
  then obtain e h2 where a: "add_entry d node s1 = Inr (s1\<lparr>heap := h2,
      entry_at := (entry_at s1)(e := (entry_at s1 e)(c_len (comps s1 d) := node)),
      comps := (comps s1)(d := (comps s1 d)\<lparr>c_union := Some e, c_len := Suc (c_len (comps s1 d))\<rparr>)\<rparr>)"
    and h2: "kstock h2 k" "in_use s1 \<subseteq> fst ` blocks h2"
    and e: "c_union (comps s1 d) = None \<Longrightarrow> e \<in> fst ` blocks h2 \<and> e \<notin> in_use s1" "c_union (comps s1 d) \<noteq> None \<Longrightarrow> c_union (comps s1 d) = Some e"
    by (rule add_entry_run [of s1 k d node]) (use dir_okD(4) [OF d(3)] s1(1) in auto)
  let ?s' = "s1\<lparr>heap := h2, entry_at := (entry_at s1)(e := (entry_at s1 e)(c_len (comps s1 d) := node)),
      comps := (comps s1)(d := (comps s1 d)\<lparr>c_union := Some e, c_len := Suc (c_len (comps s1 d))\<rparr>)\<rparr>"
  have run: "tmpfs_create dir t name s = Inr ((0, Some node), ?s')"
    using d(1) dir_okD(1) [OF d(3)] room name(2) tmpfs_lookup_run [OF d(1,3)] n a by (simp add: tmpfs_create_def s1_def)
  have sub: "in_use s \<union> {node, c} \<subseteq> fst ` blocks h2" using h2(2) fresh(3) s1(2) by (auto simp: in_use_def)
  have new: "c_union (comps s d) = None \<longrightarrow> e \<in> fst ` blocks h2 \<and> e \<notin> in_use s" "c_union (comps s d) \<noteq> None \<longrightarrow> c_union (comps s d) = Some e"
    using e fresh(3) s1(1,2) by (auto simp: in_use_def)
  have "e \<in> fst ` blocks h2" using new sub dir_okD(5) [OF d(3)] by (cases "c_union (comps s d)") auto
  moreover have "\<exists>h. ?s' = s\<lparr>heap := h, entry_at := (entry_at s)(e := (entry_at s e)(c_len (comps s d) := node)),
      vnodes := (vnodes s)(node := \<lparr>v_mount = None, v_ops = v_ops (vnodes s dir), f_ops = f_ops (vnodes s dir), component = Some c\<rparr>),
      comps := (comps s)(c := (comps s c)\<lparr>c_name := name, c_union := None, c_len := 0\<rparr>,
        d := (comps s d)\<lparr>c_union := Some e, c_len := Suc (c_len (comps s d))\<rparr>)\<rparr>"
    by (intro exI [of _ h2] vfs.equality) (use ne in \<open>simp_all add: s1_def\<close>)
  moreover have "case c_union (comps s d) of None \<Rightarrow> e \<notin> in_use s | Some e' \<Rightarrow> e' = e" using new by (auto split: option.split)
  ultimately have "entry_added dir d node c e name s ?s'"
    using sub fresh(1,2) unfolding entry_added_def by (simp add: in_use_def)
  then show thesis using that run h2(1) by simp
qed

lemma tmpfs_create_new:
  assumes d: "component (vnodes s dir) = Some d" "dir \<in> in_use s" "dir_ok s d" and st: "kstock (heap s) (Suc (Suc (Suc (Suc k))))"
    and name: "length name < NAME_LEN" "map_of (dir_view s d) name = None" and room: "c_len (comps s d) < TMPFS_MAX_ENTRY"
  shows "\<exists>node s'. tmpfs_create dir t name s = Inr ((0, Some node), s') \<and> node \<notin> in_use s \<and>
    component (vnodes s' dir) = Some d \<and> dir \<in> in_use s' \<and> dir_ok s' d \<and> kstock (heap s') k \<and>
    dir_view s' d = dir_view s d @ [(name, node)] \<and> v_mount (vnodes s' node) = None \<and> extends d s s' \<and>
    node \<in> in_use s' \<and> v_ops (vnodes s' node) = v_ops (vnodes s dir) \<and> f_ops (vnodes s' node) = f_ops (vnodes s dir) \<and>
    (\<exists>c. component (vnodes s' node) = Some c \<and> c \<noteq> d \<and> c \<in> in_use s' \<and> c \<notin> in_use s \<and> c_len (comps s' c) = 0 \<and> c_union (comps s' c) = None)"
proof -
  obtain node c e s' where r: "tmpfs_create dir t name s = Inr ((0, Some node), s')" "entry_added dir d node c e name s s'" "kstock (heap s') k"
    by (rule tmpfs_create_entry [OF assms])
  note D = entry_addedD [OF r(2)]
  have "node \<noteq> dir" "c \<noteq> d" using D(5,6) d(2) dir_okD(3) [OF d(3)] by blast+
  then show ?thesis
    using r(1,3) D(1-3,5,6,9,10) d(1,2) entry_added_view(2) [OF r(2) d(3)] entry_added_dir_ok [OF r(2) d(3) room] entry_added_extends [OF r(2)]
    by (intro exI [of _ node] exI [of _ s']) auto
qed

section \<open>A new root\<close>

text \<open>A step that only adds structures, in memory that was not in use, and fills in the mount \<open>m\<close>.\<close>

definition adds :: "addr \<Rightarrow> vfs \<Rightarrow> vfs \<Rightarrow> bool" where
  "adds m s s' \<longleftrightarrow> in_use s \<subseteq> in_use s' \<and>
     (\<forall>a \<in> in_use s. vnodes s' a = vnodes s a \<and> comps s' a = comps s a \<and> entry_at s' a = entry_at s a \<and>
       fop_table s' a = fop_table s a \<and> vop_table s' a = vop_table s a \<and> (a \<noteq> m \<longrightarrow> mounts s' a = mounts s a)) \<and>
     rootfs s' = rootfs s \<and> bytes s' = bytes s"

lemma addsD:
  assumes "adds m s s'"
  shows "a \<in> in_use s \<Longrightarrow> a \<in> in_use s'" and "a \<in> in_use s \<Longrightarrow> vnodes s' a = vnodes s a"
    and "a \<in> in_use s \<Longrightarrow> comps s' a = comps s a" and "a \<in> in_use s \<Longrightarrow> entry_at s' a = entry_at s a"
    and "a \<in> in_use s \<Longrightarrow> fop_table s' a = fop_table s a" and "a \<in> in_use s \<Longrightarrow> vop_table s' a = vop_table s a"
    and "a \<in> in_use s \<Longrightarrow> a \<noteq> m \<Longrightarrow> mounts s' a = mounts s a" and "rootfs s' = rootfs s" and "bytes s' = bytes s"
  using assms unfolding adds_def by blast+

lemma adds_trans:
  assumes "adds m s s1" and "adds m s1 s2"
  shows "adds m s s2"
  unfolding adds_def
proof (intro conjI ballI impI subsetI)
  note x = addsD [OF assms(1)] and y = addsD [OF assms(2)]
  fix a assume a: "a \<in> in_use s"
  then show "a \<in> in_use s2" "vnodes s2 a = vnodes s a" "comps s2 a = comps s a" "entry_at s2 a = entry_at s a"
    "fop_table s2 a = fop_table s a" "vop_table s2 a = vop_table s a"
    using x(1-6) [OF a] y(1-6) [OF x(1) [OF a]] by simp_all
  show "mounts s2 a = mounts s a" if "a \<noteq> m" using x(7) [OF a that] y(7) [OF x(1) [OF a] that] by simp
qed (use addsD(8,9) [OF assms(1)] addsD(8,9) [OF assms(2)] in simp_all)

lemma adds_extends:
  assumes "adds m s s1" and "extends d s1 s2" and "d \<notin> in_use s" and "c_union (comps s1 d) = None"
  shows "adds m s s2"
  unfolding adds_def
proof (intro conjI ballI impI subsetI)
  note x = addsD [OF assms(1)] and y = extendsD [OF assms(2)]
  fix a assume a: "a \<in> in_use s"
  then have "a \<noteq> d" using assms(3) by blast
  then show "a \<in> in_use s2" "vnodes s2 a = vnodes s a" "comps s2 a = comps s a" "entry_at s2 a = entry_at s a"
    "fop_table s2 a = fop_table s a" "vop_table s2 a = vop_table s a"
    using x(1-6) [OF a] y(1-3) [OF x(1) [OF a]] y(8,9) y(10) [OF x(1) [OF a]] assms(4) by simp_all
  show "mounts s2 a = mounts s a" if "a \<noteq> m" using x(7) [OF a that] y(6) by simp
qed (use addsD(8,9) [OF assms(1)] extendsD(4,7) [OF assms(2)] in simp_all)

lemma fresh_root_run:
  assumes st: "kstock (heap s) (Suc (Suc (Suc (Suc k))))"
  shows "\<exists>root d s'. fresh_root kd m s = Inr (root, s') \<and> component (vnodes s' root) = Some d \<and> root \<in> in_use s' \<and>
    dir_ok s' d \<and> dir_view s' d = [] \<and> kstock (heap s') k \<and> m_root (mounts s' m) = Some root \<and>
    v_mount (vnodes s' root) = None \<and> fop_table s' (f_ops (vnodes s' root)) = kd \<and>
    vop_table s' (v_ops (vnodes s' root)) = kd \<and> rootfs s' = rootfs s \<and>
    bytes s' = bytes s \<and> mounted s' = mounted s \<and> adds m s s' \<and> root \<notin> in_use s \<and> d \<notin> in_use s \<and>
    c_union (comps s' d) = None \<and> v_ops (vnodes s' root) \<in> in_use s' \<and> f_ops (vnodes s' root) \<in> in_use s'"
proof -
  obtain root h1 where 1: "alloc SIZEOF_vnode s = Inr (root, s\<lparr>heap := h1\<rparr>)" "kstock h1 (Suc (Suc (Suc k)))"
    "root \<notin> in_use s" "fst ` blocks h1 = insert root (in_use s)"
    by (rule alloc_stock [OF st, of SIZEOF_vnode]) (simp_all add: SIZEOF_vnode_def)
  define s1 where "s1 = upd_vnode root (\<lambda>v. v\<lparr>v_mount := None\<rparr>) (upd_mount m (\<lambda>x. x\<lparr>m_root := Some root\<rparr>) (s\<lparr>heap := h1\<rparr>))"
  have h1: "heap s1 = h1" by (simp add: s1_def upd_vnode_def upd_mount_def)
  then have st1: "kstock (heap s1) (Suc (Suc (Suc k)))" using 1(2) by simp
  obtain c h2 where 2: "alloc SIZEOF_vnode_component s1 = Inr (c, s1\<lparr>heap := h2\<rparr>)" "kstock h2 (Suc (Suc k))"
    "c \<notin> in_use s1" "fst ` blocks h2 = insert c (in_use s1)"
    by (rule alloc_stock [OF st1, of SIZEOF_vnode_component]) (simp_all add: SIZEOF_vnode_component_def)
  define s2 where "s2 = upd_comp c (\<lambda>_. \<lparr>c_name = [], c_type = COMP_DIR, c_len = 0, c_union = None\<rparr>)
    (upd_vnode root (\<lambda>v. v\<lparr>component := Some c\<rparr>) (s1\<lparr>heap := h2\<rparr>))"
  have h2: "heap s2 = h2" by (simp add: s2_def upd_vnode_def upd_comp_def)
  then have st2: "kstock (heap s2) (Suc (Suc k))" using 2(2) by simp
  obtain fo h3 where 3: "alloc SIZEOF_file_operations s2 = Inr (fo, s2\<lparr>heap := h3\<rparr>)" "kstock h3 (Suc k)"
    "fo \<notin> in_use s2" "fst ` blocks h3 = insert fo (in_use s2)"
    by (rule alloc_stock [OF st2, of SIZEOF_file_operations]) (simp_all add: SIZEOF_file_operations_def)
  define s3 where "s3 = upd_vnode root (\<lambda>v. v\<lparr>f_ops := fo\<rparr>) (s2\<lparr>heap := h3, fop_table := (fop_table s2)(fo := kd)\<rparr>)"
  have h3: "heap s3 = h3" by (simp add: s3_def upd_vnode_def)
  then have st3: "kstock (heap s3) (Suc k)" using 3(2) by simp
  obtain vo h4 where 4: "alloc SIZEOF_vnode_operations s3 = Inr (vo, s3\<lparr>heap := h4\<rparr>)" "kstock h4 k"
    "vo \<notin> in_use s3" "fst ` blocks h4 = insert vo (in_use s3)"
    by (rule alloc_stock [OF st3, of SIZEOF_vnode_operations]) (simp_all add: SIZEOF_vnode_operations_def)
  define s' where "s' = upd_vnode root (\<lambda>v. v\<lparr>v_ops := vo\<rparr>) (s3\<lparr>heap := h4, vop_table := (vop_table s3)(vo := kd)\<rparr>)"
  have run: "fresh_root kd m s = Inr (root, s')"
    using 1(1) 2(1) 3(1) 4(1) by (simp add: fresh_root_def Let_def s'_def s3_def s2_def s1_def)
  have h: "heap s' = h4" by (simp add: s'_def upd_vnode_def)
  have use: "in_use s' = {root, c, fo, vo} \<union> in_use s"
    using 1(4) 2(4) 3(4) 4(4) h1 h2 h3 h by (auto simp: in_use_def)
  have new: "root \<notin> in_use s" "c \<notin> in_use s" "fo \<notin> in_use s" "vo \<notin> in_use s"
    using 1(3,4) 2(3,4) 3(3,4) 4(3) h1 h2 h3 by (auto simp: in_use_def)
  have f: "vnodes s' = (vnodes s)(root := \<lparr>v_mount = None, v_ops = vo, f_ops = fo, component = Some c\<rparr>)"
    "comps s' = (comps s)(c := \<lparr>c_name = [], c_type = COMP_DIR, c_len = 0, c_union = None\<rparr>)" "m_root (mounts s' m) = Some root"
    "fop_table s' = (fop_table s)(fo := kd)" "vop_table s' = (vop_table s)(vo := kd)" "rootfs s' = rootfs s"
    "bytes s' = bytes s" "mounted s' = mounted s" "entry_at s' = entry_at s" "\<And>x. x \<noteq> m \<Longrightarrow> mounts s' x = mounts s x"
    by (simp_all add: s'_def s3_def s2_def s1_def upd_vnode_def upd_comp_def upd_mount_def vnode_reset)
  have "dir_ok s' c" using f(2) use by (simp add: dir_ok_def entries_of_def)
  moreover have "adds m s s'" using f new use unfolding adds_def by auto
  ultimately show ?thesis using run use f 4(2) h new
    by (intro exI [of _ root] exI [of _ c] exI [of _ s']) (simp add: dir_view_def entries_of_def)
qed

section \<open>Properties\<close>

text \<open>tmpfs_create in a directory of the memory file system. A name that is already there gives 1 and
  what that entry stands for, and changes nothing; a full directory (16 entries) gives -1 and changes
  nothing. Otherwise a new node, in memory that was not in use, becomes the last entry of the
  directory: looking up its name afterwards gives it, and looking up any other name gives what it gave
  before.\<close>

theorem tmpfs_create_correct:
  assumes d: "component (vnodes s dir) = Some d" "dir \<in> in_use s" "dir_ok s d"
    and st: "kstock (heap s) 4" and len: "length name < NAME_LEN"
  shows "case map_of (dir_view s d) name of
      Some n \<Rightarrow> tmpfs_create dir t name s = Inr ((1, mount_target s n), s)
    | None \<Rightarrow>
        if c_len (comps s d) = TMPFS_MAX_ENTRY then tmpfs_create dir t name s = Inr ((-1, t), s)
        else \<exists>node s'. tmpfs_create dir t name s = Inr ((0, Some node), s') \<and> node \<notin> in_use s \<and>
          component (vnodes s' dir) = Some d \<and> dir \<in> in_use s' \<and> dir_ok s' d \<and>
          dir_view s' d = dir_view s d @ [(name, node)] \<and>
          (\<forall>nm t'. tmpfs_lookup dir t' nm s' = (if nm = name then Inr (0, Some node) else tmpfs_lookup dir t' nm s))"
proof (cases "map_of (dir_view s d) name")
  case (Some n)
  then show ?thesis using d(1) dir_okD(1) [OF d(3)] tmpfs_lookup_run [OF d(1,3)] by (simp add: tmpfs_create_def)
next
  case None
  show ?thesis
  proof (cases "c_len (comps s d) = TMPFS_MAX_ENTRY")
    case True
    then show ?thesis
      using None d(1) dir_okD(1) [OF d(3)] tmpfs_lookup_run [OF d(1,3)] by (simp add: tmpfs_create_def)
  next
    case False
    then have room: "c_len (comps s d) < TMPFS_MAX_ENTRY" using dir_okD(2) [OF d(3)] by simp
    have "kstock (heap s) (Suc (Suc (Suc (Suc 0))))" using st by (simp add: numeral_eq_Suc)
    then obtain node s' where c: "tmpfs_create dir t name s = Inr ((0, Some node), s')" "node \<notin> in_use s"
      "component (vnodes s' dir) = Some d" "dir \<in> in_use s'" "dir_ok s' d"
      "dir_view s' d = dir_view s d @ [(name, node)]" "v_mount (vnodes s' node) = None" "extends d s s'"
      using tmpfs_create_new [OF d _ len None room] by blast
    have "mount_target s' n = mount_target s n" if "map_of (dir_view s d) nm = Some n" for nm n
    proof -
      have "n \<in> set (entries_of s d)" using map_of_SomeD [OF that] by (auto simp: dir_view_def)
      then have "n \<in> in_use s" by (rule dir_okD(6) [OF d(3)])
      then show ?thesis using extendsD [OF c(8)] by (simp add: mount_target_def cong: option.case_cong)
    qed
    moreover have "mount_target s' node = Some node" using c(7) by (simp add: mount_target_def)
    ultimately have "tmpfs_lookup dir t' nm s' = (if nm = name then Inr (0, Some node) else tmpfs_lookup dir t' nm s)" for nm t'
      using None unfolding tmpfs_lookup_run [OF c(3,5)] tmpfs_lookup_run [OF d(1,3)] c(6)
      by (auto simp: map_add_def split: option.split)
    then show ?thesis using c None False by auto
  qed
qed

text \<open>In the directory of a new root.\<close>

theorem tmpfs_create_correct_example:
  "\<exists>dir s node s'. tmpfs_setup_mount 7 (file_state empty_pool (\<lambda>_. 0)) = Inr (0, s) \<and>
     tmpfs_create dir None (cstr ''a'') s = Inr ((0, Some node), s') \<and>
     tmpfs_lookup dir None (cstr ''a'') s' = Inr (0, Some node)"
proof -
  have "kstock (heap (file_state empty_pool (\<lambda>_. 0))) (Suc (Suc (Suc (Suc 4))))"
    using kstock_mono [OF empty_pool_stock] by simp
  from fresh_root_run [OF this, of Tmpfs 7] obtain dir d s where s:
    "tmpfs_setup_mount 7 (file_state empty_pool (\<lambda>_. 0)) = Inr (0, s)"
    "component (vnodes s dir) = Some d" "dir \<in> in_use s" "dir_ok s d" "dir_view s d = []" "kstock (heap s) 4"
    by (auto simp: tmpfs_setup_mount_def)
  have "c_len (comps s d) = 0" using s(5) length_entries [OF s(4)] by (simp add: dir_view_def)
  then obtain node s' where "tmpfs_create dir None (cstr ''a'') s = Inr ((0, Some node), s')"
    "tmpfs_lookup dir None (cstr ''a'') s' = Inr (0, Some node)"
    using tmpfs_create_correct [OF s(2-4,6), of "cstr ''a''" None] s(5)
    by (auto simp: cstr_def NAME_LEN_def TMPFS_MAX_ENTRY_def)
  then show ?thesis using s(1) by blast
qed

end
