(* ===== verification/PathClaims.thy ===== *)
theory PathClaims
  imports Paths StringClaims
begin

text \<open>
  What \<open>to_abs_path\<close> computes: the components of the path with the blank ones and "." left out and
  ".." resolved against the component before it, unless the last component is blank or ".", when
  the skipping loop runs past the end of the array.
\<close>

section \<open>Reference\<close>

definition blank :: "byte list \<Rightarrow> bool" where
  "blank c \<longleftrightarrow> c = [] \<or> c = CURRENT_DIR"

definition push :: "byte list list \<Rightarrow> byte list \<Rightarrow> byte list list" where
  "push st c =
     (if c = PARENT_DIR then if st = [] \<or> last st = PARENT_DIR then st @ [c] else butlast st
      else st @ [c])"

definition resolve :: "byte list list \<Rightarrow> byte list list" where
  "resolve cs = foldl push [] (filter (\<lambda>c. \<not> blank c) cs)"

section \<open>The loops\<close>

text \<open>The array while the loop runs: the stack \<open>st\<close> in front, the unread components from \<open>r\<close> on.\<close>

definition split_state :: "byte list list \<Rightarrow> byte list option list \<Rightarrow> nat \<Rightarrow> nat \<Rightarrow> byte list list \<Rightarrow> bool" where
  "split_state cs comps w r st \<longleftrightarrow>
     length comps = Suc (length cs) \<and> comps ! length cs = None \<and> r \<le> length cs \<and> w \<le> r \<and>
     (\<forall>i. r \<le> i \<and> i < length cs \<longrightarrow> comps ! i = Some (cs ! i)) \<and> take w comps = map Some st"

lemma split_stateD:
  assumes "split_state cs comps w r st"
  shows "length comps = Suc (length cs)" and "comps ! length cs = None" and "r \<le> length cs" and "w \<le> r"
    and "r \<le> i \<Longrightarrow> i < length cs \<Longrightarrow> comps ! i = Some (cs ! i)" and "take w comps = map Some st"
    and "length st = w"
proof -
  show *: "length comps = Suc (length cs)" "comps ! length cs = None" "r \<le> length cs" "w \<le> r"
    "r \<le> i \<Longrightarrow> i < length cs \<Longrightarrow> comps ! i = Some (cs ! i)" "take w comps = map Some st"
    using assms unfolding split_state_def by blast+
  have "length (take w comps) = w" using *(1,3,4) by simp
  then show "length st = w" unfolding *(6) by simp
qed

lemma skip_blank_run:
  assumes "split_state cs comps w r st"
  shows "(\<exists>r'. r \<le> r' \<and> r' < length cs \<and> \<not> blank (cs ! r') \<and> (\<forall>i. r \<le> i \<and> i < r' \<longrightarrow> blank (cs ! i)) \<and>
      skip_blank comps r = Inr r') \<or>
    (\<forall>i. r \<le> i \<and> i < length cs \<longrightarrow> blank (cs ! i)) \<and> skip_blank comps r = Inl NullDeref"
  using assms
proof (induction "length cs - r" arbitrary: r)
  case 0
  then have "r = length cs" using split_stateD(3) by fastforce
  then show ?case using split_stateD(1,2) [OF 0(2)] by (auto simp: skip_blank.simps)
next
  case (Suc n)
  note D = split_stateD [OF Suc.prems]
  have r: "r < length cs" using Suc.hyps(2) by simp
  have c: "comps ! r = Some (cs ! r)" using D(5) [of r] r by simp
  show ?case
  proof (cases "blank (cs ! r)")
    case False
    then have "skip_blank comps r = Inr r" using r c D(1) by (simp add: skip_blank.simps blank_def)
    then show ?thesis using False r by (intro disjI1 exI [of _ r]) auto
  next
    case True
    then have run: "skip_blank comps r = skip_blank comps (Suc r)"
      using r c D(1) by (simp add: skip_blank.simps [of comps r] blank_def)
    have st: "split_state cs comps w (Suc r) st" using Suc.prems r unfolding split_state_def by auto
    have n: "n = length cs - Suc r" using Suc.hyps(2) by simp
    have step: "r \<le> i \<longleftrightarrow> i = r \<or> Suc r \<le> i" for i by auto
    from Suc.hyps(1) [OF n st] show ?thesis
      unfolding run step using True r by (metis Suc_leD)
  qed
qed

lemma filter_from:
  assumes "r \<le> r'" and "r' < length cs" and "P (cs ! r')" and "\<forall>i. r \<le> i \<and> i < r' \<longrightarrow> \<not> P (cs ! i)"
  shows "filter P (drop r cs) = cs ! r' # filter P (drop (Suc r') cs)"
proof -
  have "drop r cs = take (r' - r) (drop r cs) @ drop (r' - r) (drop r cs)"
    by (rule append_take_drop_id [symmetric])
  also have "drop (r' - r) (drop r cs) = cs ! r' # drop (Suc r') cs"
    using assms(1,2) by (simp add: Cons_nth_drop_Suc)
  finally have d: "drop r cs = take (r' - r) (drop r cs) @ cs ! r' # drop (Suc r') cs" .
  have "filter P (take (r' - r) (drop r cs)) = []"
    using assms by (auto simp: filter_empty_conv in_set_conv_nth)
  then show ?thesis using assms(3) by (subst d) simp
qed

lemma translate_run:
  assumes "split_state cs comps w r' st" and "r' < length cs"
  shows "\<exists>comps' w'. translate comps w r' = Inr (comps', w') \<and>
    split_state cs comps' w' (Suc r') (push st (cs ! r'))"
proof -
  note D = split_stateD [OF assms(1)]
  have c: "comps ! r' = Some (cs ! r')" using D(5) [of r'] assms(2) by simp
  have top: "w \<noteq> 0 \<Longrightarrow> comps ! (w - 1) = Some (last st)"
  proof -
    assume "w \<noteq> 0"
    then have "comps ! (w - 1) = take w comps ! (w - 1)" by simp
    also have "\<dots> = Some (last st)" using D(6,7) \<open>w \<noteq> 0\<close> by (cases st rule: rev_cases) (auto simp: nth_append)
    finally show ?thesis .
  qed
  have put: "split_state cs (comps[w := Some (cs ! r')]) (w + 1) (Suc r') (st @ [cs ! r'])"
    using D assms(2) by (auto simp: split_state_def take_Suc_conv_app_nth)
  have pop: "w \<noteq> 0 \<Longrightarrow> split_state cs (comps[w := None]) (w - 1) (Suc r') (butlast st)"
  proof -
    assume "w \<noteq> 0"
    have "take (w - 1) comps = butlast (take w comps)" using D(1,3,4) by (simp add: butlast_take)
    then show ?thesis using D assms(2) by (auto simp: split_state_def map_butlast nth_list_update)
  qed
  show ?thesis
  proof (cases "cs ! r' = PARENT_DIR \<and> w \<noteq> 0 \<and> last st \<noteq> PARENT_DIR")
    case True
    then have "push st (cs ! r') = butlast st" using D(7) by (auto simp: push_def)
    then show ?thesis using True c top pop by (auto simp: translate_def)
  next
    case False
    then have "push st (cs ! r') = st @ [cs ! r']" using D(7) by (auto simp: push_def)
    then show ?thesis using False c top put by (auto simp: translate_def)
  qed
qed

lemma translate_loop_run:
  assumes "split_state cs comps w r st"
  shows "if r < length cs \<and> blank (last cs) then translate_loop (length cs) comps w r = Inl NullDeref
    else \<exists>comps' w'. translate_loop (length cs) comps w r = Inr (comps', w') \<and>
      take w' comps' = map Some (foldl push st (filter (\<lambda>c. \<not> blank c) (drop r cs)))"
  using assms
proof (induction "length cs - r" arbitrary: comps w r st rule: less_induct)
  case less
  note D = split_stateD [OF less.prems]
  show ?case
  proof (cases "r < length cs")
    case False
    then show ?thesis using D(3,6) by (simp add: translate_loop.simps)
  next
    case True
    then have w: "w < length cs" and ne: "cs \<noteq> []" using D(4) by auto
    have run: "translate_loop (length cs) comps w r =
        rbind (skip_blank comps r) (\<lambda>r. rbind (translate comps w r) (\<lambda>(comps, w).
          translate_loop (length cs) comps w (r + 1)))"
      using True w by (simp add: translate_loop.simps [of "length cs" comps w r])
    from skip_blank_run [OF less.prems] show ?thesis
    proof
      assume *: "(\<forall>i. r \<le> i \<and> i < length cs \<longrightarrow> blank (cs ! i)) \<and> skip_blank comps r = Inl NullDeref"
      then have "blank (last cs)" using True ne by (simp add: last_conv_nth)
      then show ?thesis using run * True by simp
    next
      assume "\<exists>r'. r \<le> r' \<and> r' < length cs \<and> \<not> blank (cs ! r') \<and> (\<forall>i. r \<le> i \<and> i < r' \<longrightarrow> blank (cs ! i)) \<and>
        skip_blank comps r = Inr r'"
      then obtain r' where r': "r \<le> r'" "r' < length cs" "\<not> blank (cs ! r')"
        "\<forall>i. r \<le> i \<and> i < r' \<longrightarrow> blank (cs ! i)" "skip_blank comps r = Inr r'" by blast
      have "split_state cs comps w r' st" using less.prems r'(1,2) unfolding split_state_def by auto
      then obtain comps' w' where t: "translate comps w r' = Inr (comps', w')"
        "split_state cs comps' w' (Suc r') (push st (cs ! r'))"
        using translate_run r'(2) by blast
      have f: "filter (\<lambda>c. \<not> blank c) (drop r cs) = cs ! r' # filter (\<lambda>c. \<not> blank c) (drop (Suc r') cs)"
        by (rule filter_from) (use r' in auto)
      have last: "Suc r' < length cs \<or> last cs = cs ! r'"
      proof (cases "Suc r' < length cs")
        case False
        then have "length cs - 1 = r'" using r'(2) by simp
        then show ?thesis using ne by (simp add: last_conv_nth)
      qed simp
      have lt: "length cs - Suc r' < length cs - r" using r'(1,2) by simp
      show ?thesis
        using less.hyps [OF lt t(2)] run r'(3,5) t(1) True f last by (auto split: if_splits)
    qed
  qed
qed

lemma split_state_start: "split_state cs (map Some cs @ [None]) 0 0 []"
  by (auto simp: split_state_def nth_append)

lemma render_length: "length (render cs) = sum_list (map (\<lambda>c. Suc (length c)) cs)"
  by (induction cs) (simp_all add: render_def)

lemma push_length:
  "sum_list (map (\<lambda>c. Suc (length c)) (push st c)) \<le> sum_list (map (\<lambda>c. Suc (length c)) st) + Suc (length c)"
  by (cases st rule: rev_cases) (auto simp: push_def)

lemma foldl_push_length:
  "sum_list (map (\<lambda>c. Suc (length c)) (foldl push st cs)) \<le>
     sum_list (map (\<lambda>c. Suc (length c)) st) + sum_list (map (\<lambda>c. Suc (length c)) cs)"
proof (induction cs arbitrary: st)
  case Nil
  then show ?case by simp
next
  case (Cons c cs)
  show ?case using Cons.IH [of "push st c"] push_length [of st c] by simp
qed

lemma fields_length: "sum_list (map (\<lambda>c. Suc (length c)) (fields d cs)) = Suc (length cs)"
proof (induction "length cs" arbitrary: cs rule: less_induct)
  case less
  show ?case
  proof (cases "d \<in> set cs")
    case False
    then show ?thesis by (simp add: fields_none)
  next
    case True
    then obtain xs rest where cs: "cs = xs @ d # rest" and xs: "d \<notin> set xs" by (rule split_first)
    then show ?thesis using less [of rest] by (simp add: fields_some [OF xs])
  qed
qed

lemma filter_length_le:
  "sum_list (map (\<lambda>c. Suc (length c)) (filter P cs)) \<le> sum_list (map (\<lambda>c. Suc (length c)) cs)"
  by (induction cs) auto

text \<open>The first field of a path that starts with '/' is empty.\<close>

lemma resolve_fits:
  assumes "cs = SLASH # cs'"
  shows "length (render (resolve (fields SLASH cs))) \<le> length cs"
proof -
  have f: "fields SLASH cs = [] # fields SLASH cs'" using fields_some [of SLASH "[]" cs'] assms by simp
  have "length (render (resolve (fields SLASH cs))) \<le>
      sum_list (map (\<lambda>c. Suc (length c)) (filter (\<lambda>c. \<not> blank c) (fields SLASH cs)))"
    using foldl_push_length [of "[]"] by (simp add: render_length resolve_def)
  also have "\<dots> \<le> sum_list (map (\<lambda>c. Suc (length c)) (fields SLASH cs'))"
    using filter_length_le [of "\<lambda>c. \<not> blank c" "fields SLASH cs'"] by (simp add: f blank_def)
  also have "\<dots> = length cs" using assms by (simp add: fields_length)
  finally show ?thesis .
qed

lemma to_abs_path_relative:
  assumes "path = [] \<or> hd path \<noteq> SLASH" and "cwd \<noteq> []" and "hd cwd = SLASH" and "last cwd = SLASH"
    and "length (cwd @ path) < 255" and "length (fields SLASH (cwd @ path)) < 64"
  shows "to_abs_path old cwd path =
    (if blank (last (fields SLASH (cwd @ path))) then Inl NullDeref
     else Inr (0, render (resolve (fields SLASH (cwd @ path)))))"
proof -
  let ?cs = "fields SLASH (cwd @ path)"
  have ne: "0 < length ?cs" using fields_nonempty [of SLASH "cwd @ path"] by simp
  have "to_abs_path old cwd path =
      rbind (translate_loop (length ?cs) (map Some ?cs @ [None]) 0 0) (\<lambda>(comps, w).
        rbind (fit TMPFS_MAX_PATH_LEN (render (map the (take w comps)))) (\<lambda>p. Inr (0, p)))"
    using assms by (auto simp: to_abs_path_def fit_def split_path_def TMPFS_MAX_PATH_LEN_def VFS_MAX_DEPTH_def)
  moreover obtain c where "cwd @ path = SLASH # c" using assms(2,3) by (cases cwd) auto
  then have "length (render (resolve ?cs)) < 255" using resolve_fits [of "cwd @ path" c] assms(5) by simp
  moreover note translate_loop_run [OF split_state_start, of ?cs]
  ultimately show ?thesis using ne
    by (auto simp: fit_def TMPFS_MAX_PATH_LEN_def resolve_def o_def split: if_splits)
qed

section \<open>Properties\<close>

text \<open>C16: to_abs_path of a relative path (in a working directory that starts and ends with '/', when
  the joined path has less than 255 bytes and less than 64 components) writes the components of the
  joined path without the blank ones and ".", each ".." taken together with the component before it,
  each after a '/'. But when the last component is blank or ".", as for "docs/" or ".", it reads
  through the NULL pointer that ends the component array.\<close>

theorem to_abs_path_correct:
  assumes "path = [] \<or> hd path \<noteq> SLASH" and "cwd \<noteq> []" and "hd cwd = SLASH" and "last cwd = SLASH"
    and "length (cwd @ path) < 255" and "length (fields SLASH (cwd @ path)) < 64"
  shows "to_abs_path old cwd path =
    (if blank (last (fields SLASH (cwd @ path))) then Inl NullDeref
     else Inr (0, render (resolve (fields SLASH (cwd @ path)))))"
  using assms by (rule to_abs_path_relative)

text \<open>"../b" in "/a/" is "/b".\<close>

lemma fields_Cons: "fields d (c # cs) = (if c = d then [] # fields d cs else (c # hd (fields d cs)) # tl (fields d cs))"
proof (cases "c = d")
  case True
  then show ?thesis using fields_some [of d "[]" cs] by simp
next
  case False
  show ?thesis
  proof (cases "d \<in> set cs")
    case True
    then obtain xs rest where cs: "cs = xs @ d # rest" and xs: "d \<notin> set xs" by (rule split_first)
    then show ?thesis using False fields_some [of d "c # xs" rest] fields_some [OF xs, of rest] by simp
  next
    case False
    then show ?thesis using \<open>c \<noteq> d\<close> by (simp add: fields_none)
  qed
qed

theorem to_abs_path_correct_witness:
  "to_abs_path [] [47, 97, 47] [46, 46, 47, 98] = Inr (0, [47, 98])"
proof -
  have f: "fields 47 [47, 97, 47, 46, 46, 47, 98 :: byte] = [[], [97], [46, 46], [98]]"
    by (simp add: fields_Cons fields_none)
  have "to_abs_path [] [47, 97, 47] [46, 46, 47, 98] =
    (if blank (last (fields SLASH ([47, 97, 47] @ [46, 46, 47, 98]))) then Inl NullDeref
     else Inr (0, render (resolve (fields SLASH ([47, 97, 47] @ [46, 46, 47, 98])))))"
    by (rule to_abs_path_correct) (simp_all add: SLASH_def f)
  then show ?thesis
    by (simp add: SLASH_def f blank_def resolve_def push_def render_def CURRENT_DIR_def PARENT_DIR_def)
qed

end
