(* ===== verification/VfsClaims.thy ===== *)
theory VfsClaims
  imports Vfs TmpfsDirs PathClaims
begin

text \<open>
  Path resolution follows the tree of directories, across mounts, and what opening a file with
  \<open>O_CREAT\<close> does when the file is not there.
\<close>

section \<open>Walking the tree\<close>

text \<open>The node at the end of a list of names: one directory entry, with what is mounted on it, after the
  other.\<close>

primrec walk :: "vfs \<Rightarrow> addr \<Rightarrow> byte list list \<Rightarrow> addr option" where
  "walk s n [] = Some n"
| "walk s n (c # cs) =
     Option.bind (component (vnodes s n)) (\<lambda>d.
     if c_type (comps s d) \<noteq> COMP_DIR then None
     else Option.bind (map_of (dir_view s d) c) (\<lambda>e.
       Option.bind (mount_target s e) (\<lambda>n'. walk s n' cs)))"

text \<open>A set of nodes that is closed under following entries and mounts.\<close>

definition tree_ok :: "vfs \<Rightarrow> addr set \<Rightarrow> bool" where
  "tree_ok s N \<longleftrightarrow> (\<forall>n \<in> N. v_mount (vnodes s n) = None \<and>
     (\<exists>d. component (vnodes s n) = Some d \<and>
       (c_type (comps s d) = COMP_DIR \<longrightarrow>
         dir_ok s d \<and> (\<forall>e \<in> set (entries_of s d). \<exists>n' \<in> N. mount_target s e = Some n'))))"

lemma tree_okD:
  assumes "tree_ok s N" and "n \<in> N"
  obtains d where "v_mount (vnodes s n) = None" and "component (vnodes s n) = Some d"
    and "c_type (comps s d) = COMP_DIR \<Longrightarrow> dir_ok s d"
    and "\<And>nm e. c_type (comps s d) = COMP_DIR \<Longrightarrow> map_of (dir_view s d) nm = Some e \<Longrightarrow> \<exists>n' \<in> N. mount_target s e = Some n'"
proof -
  obtain d where d: "v_mount (vnodes s n) = None" "component (vnodes s n) = Some d"
    "c_type (comps s d) = COMP_DIR \<longrightarrow> dir_ok s d \<and> (\<forall>e \<in> set (entries_of s d). \<exists>n' \<in> N. mount_target s e = Some n')"
    using assms unfolding tree_ok_def by blast
  have "e \<in> set (entries_of s d)" if "map_of (dir_view s d) nm = Some e" for nm e
    using map_of_SomeD [OF that] by (auto simp: dir_view_def)
  then show thesis using that [of d] d by blast
qed

section \<open>Paths of proper names\<close>

definition proper :: "byte list \<Rightarrow> bool" where
  "proper c \<longleftrightarrow> c \<noteq> [] \<and> SLASH \<notin> set c \<and> length c < TMPFS_MAX_COMPONENT_NAME"

definition rest_of :: "byte list list \<Rightarrow> byte list" where
  "rest_of cs = (case cs of [] \<Rightarrow> [] | c # cs' \<Rightarrow> c @ render cs')"

lemma render_simps [simp]: "render [] = []" "render (c # cs) = SLASH # c @ render cs"
  by (simp_all add: render_def)

lemma skip_slash_rest: "\<forall>c \<in> set cs. proper c \<Longrightarrow> skip_slash (rest_of cs) = rest_of cs"
  by (cases cs; cases "hd cs") (auto simp: rest_of_def skip_slash_def proper_def)

lemma skip_slash_render: "skip_slash (render cs) = rest_of cs"
  by (cases cs) (simp_all add: rest_of_def skip_slash_def)

lemma components_of:
  assumes "proper c" and "\<forall>c \<in> set cs. proper c" and "skip_slash p = rest_of (c # cs)"
  shows "first_component p = Inr c" and "pop_first_component p = rest_of cs"
proof -
  have c: "\<forall>x \<in> set c. x \<noteq> SLASH" "length c < TMPFS_MAX_COMPONENT_NAME" using assms(1) by (auto simp: proper_def)
  have "takeWhile (\<lambda>c. c \<noteq> SLASH) (c @ render cs) = c" using c(1) by (cases cs) (simp_all add: takeWhile_append)
  then show "first_component p = Inr c"
    using assms(3) c(2) by (simp add: first_component_def fit_def rest_of_def)
  have "dropWhile (\<lambda>c. c \<noteq> SLASH) (c @ render cs) = render cs" using c(1) by (cases cs) (simp_all add: dropWhile_append)
  then show "pop_first_component p = rest_of cs"
    using assms(3) by (simp add: pop_first_component_def rest_of_def [of "c # cs"] skip_slash_render)
qed

lemma rest_of_empty: "\<forall>c \<in> set cs. proper c \<Longrightarrow> rest_of cs = [] \<longleftrightarrow> cs = []"
  by (cases cs) (auto simp: rest_of_def proper_def)

section \<open>Looking up a path\<close>

lemma lookup_path_run:
  assumes "tree_ok s N" and "n \<in> N" and "cs \<noteq> []" and "\<forall>c \<in> set cs. proper c" and "skip_slash p = rest_of cs"
  shows "\<exists>t'. lookup_path i0 p n t 0 s =
    Some (Inr ((if walk s n cs = None then -1 else 0, if walk s n cs = None then t' else walk s n cs), s))"
  using assms(2-5)
proof (induction cs arbitrary: n p t)
  case Nil
  then show ?case by simp
next
  case (Cons c cs)
  obtain d where d: "v_mount (vnodes s n) = None" "component (vnodes s n) = Some d"
    "c_type (comps s d) = COMP_DIR \<Longrightarrow> dir_ok s d"
    "\<And>nm e. c_type (comps s d) = COMP_DIR \<Longrightarrow> map_of (dir_view s d) nm = Some e \<Longrightarrow> \<exists>n' \<in> N. mount_target s e = Some n'"
    by (rule tree_okD [OF assms(1) Cons.prems(1)]) blast
  have pr: "proper c" "\<forall>c \<in> set cs. proper c" using Cons.prems(3) by simp_all
  note fc = components_of [OF pr Cons.prems(4)]
  show ?case
  proof (cases "c_type (comps s d) = COMP_DIR")
    case False
    then show ?thesis using d(1,2) fc by (subst lookup_path.simps) (simp add: comp_of_def)
  next
    case True
    note lk = tmpfs_lookup_run [OF d(2) d(3) [OF True], of t c]
    show ?thesis
    proof (cases "map_of (dir_view s d) c")
      case None
      then show ?thesis using d(1,2) fc True lk by (subst lookup_path.simps) (simp add: comp_of_def)
    next
      case (Some e)
      then obtain n' where n': "n' \<in> N" "mount_target s e = Some n'" using d(4) [OF True] by blast
      show ?thesis
      proof (cases "cs = []")
        case True
        then show ?thesis using d(1,2) fc \<open>c_type _ = _\<close> lk Some n'(2)
          by (subst lookup_path.simps) (simp add: comp_of_def rest_of_def)
      next
        case False
        then have ne: "rest_of cs \<noteq> []" using rest_of_empty [OF pr(2)] by simp
        obtain d' where d': "component (vnodes s n') = Some d'" by (rule tree_okD [OF assms(1) n'(1)])
        have w: "walk s n (c # cs) = walk s n' cs" using d(2) True Some n'(2) by simp
        have st: "lookup_path i0 p n t 0 s =
          (if c_type (comps s d') = COMP_DIR then lookup_path i0 (rest_of cs) n' (Some n') 0 s
           else Some (Inr ((-1, Some n'), s)))"
          using d(1,2) fc True lk Some n'(2) ne d' by (subst lookup_path.simps) (simp add: comp_of_def)
        show ?thesis
        proof (cases "c_type (comps s d') = COMP_DIR")
          case True
          then have st': "lookup_path i0 p n t 0 s = lookup_path i0 (rest_of cs) n' (Some n') 0 s" using st by simp
          show ?thesis unfolding w st'
            by (rule Cons.IH [OF n'(1) False pr(2) skip_slash_rest [OF pr(2)]])
        next
          case c': False
          then have "walk s n' cs = None" using d' False by (cases cs) simp_all
          then show ?thesis using w st c' by simp
        qed
      qed
    qed
  qed
qed

lemma vfs_lookup_run:
  assumes "fs_root s = Inr r" and "tree_ok s N" and "r \<in> N" and "\<forall>c \<in> set cs. proper c" and "cs \<noteq> []"
  shows "\<exists>t'. vfs_lookup (render cs) t s =
    Inr (case walk s r cs of None \<Rightarrow> (-1, t') | Some n \<Rightarrow> (0, Some n))"
proof -
  have "render cs \<noteq> [SLASH]" using assms(4,5) by (cases cs) (auto simp: proper_def)
  moreover obtain t' where "lookup_path 0 (render cs) r t 0 s =
    Some (Inr ((if walk s r cs = None then -1 else 0, if walk s r cs = None then t' else walk s r cs), s))"
    using lookup_path_run [OF assms(2,3,5,4) skip_slash_render, of 0 t] by blast
  ultimately show ?thesis using assms(1)
    by (intro exI [of _ t']) (simp add: vfs_lookup_def split: option.split)
qed

section \<open>Opening with \<open>O_CREAT\<close>\<close>

lemma fields_render:
  assumes "\<forall>c \<in> set cs. proper c" and "cs \<noteq> []"
  shows "StringProps.fields SLASH (render cs) = [] # cs"
proof -
  have "StringProps.fields SLASH (c @ render cs) = c # cs" if "\<forall>c \<in> set (c # cs). proper c" for c cs
    using that
  proof (induction cs arbitrary: c)
    case Nil
    then show ?case by (simp add: fields_none proper_def)
  next
    case (Cons c' cs)
    then have "SLASH \<notin> set c" by (simp add: proper_def)
    then show ?case using Cons.IH [of c'] Cons.prems fields_some [of SLASH c "c' @ render cs"] by simp
  qed
  then show ?thesis using assms fields_some [of SLASH "[]"] by (cases cs) simp_all
qed

lemma create_path_render:
  assumes "\<forall>c \<in> set cs. proper c" and "cs \<noteq> []" and "length (render cs) < TMPFS_MAX_PATH_LEN"
    and "length cs < 63" and "0 \<le> i0"
  shows "create_path i0 (render cs) dir t s = mkdir_all (drop (nat i0) ([] # cs)) (Some dir) t s"
proof -
  have "map the (butlast (map Some ([] # cs) @ [None])) = [] # cs" by (simp add: butlast_append comp_def)
  then show ?thesis
    using assms by (simp add: create_path_def fit_def split_path_def fields_render VFS_MAX_DEPTH_def)
qed

lemma lookup_path_create:
  assumes "proper c" and "\<forall>c \<in> set cs. proper c" and "skip_slash p = rest_of (c # cs)" and "v_mount (vnodes s n) = None"
    and "component (vnodes s n) = Some d" and "c_type (comps s d) = COMP_DIR"
  shows "lookup_path i0 p n t 1 s = Some (create_path i0 p n t s)"
  using components_of(1) [OF assms(1-3)] assms(4-6)
  by (subst lookup_path.simps) (simp add: comp_of_def del: render_simps)

lemma tmpfs_mkdir_exists:
  assumes "component (vnodes s dir) = Some d" and "dir_ok s d" and "map_of (dir_view s d) name = Some n"
  shows "tmpfs_mkdir dir t name s = Inr ((0, mount_target s n), s)"
  using assms(1,3) dir_okD(1) [OF assms(2)] tmpfs_lookup_run [OF assms(1,2)]
  by (simp add: tmpfs_mkdir_def tmpfs_create_def comp_of_def)

lemma tmpfs_mkdir_file:
  assumes "component (vnodes s dir) = Some d" and "c_type (comps s d) = COMP_FILE"
  shows "tmpfs_mkdir dir t name s = Inr ((-1, t), s)"
  using assms by (simp add: tmpfs_mkdir_def comp_of_def)

text \<open>A new directory is a new node whose component \<open>c\<close> is empty; it may become a file afterwards.\<close>

lemma tmpfs_mkdir_new:
  assumes d: "component (vnodes s dir) = Some d" "dir \<in> in_use s" "dir_ok s d" and st: "kstock (heap s) (Suc (Suc (Suc (Suc k))))"
    and name: "length name < NAME_LEN" "map_of (dir_view s d) name = None" and room: "c_len (comps s d) < TMPFS_MAX_ENTRY"
  shows "\<exists>node c s'. tmpfs_mkdir dir t name s = Inr ((0, Some node), s') \<and> component (vnodes s' node) = Some c \<and>
    node \<in> in_use s' \<and> c \<in> in_use s' \<and> c \<notin> in_use s \<and> c \<noteq> d \<and> c_len (comps s' c) = 0 \<and> kstock (heap s') k \<and>
    extends d s s' \<and> component (vnodes s' dir) = Some d \<and> dir_ok s' d \<and> dir_view s' d = dir_view s d @ [(name, node)] \<and>
    v_mount (vnodes s' node) = None \<and> node \<notin> in_use s \<and> f_ops (vnodes s' node) = f_ops (vnodes s dir)"
proof -
  obtain node c s' where n: "tmpfs_create dir t name s = Inr ((0, Some node), s')" "component (vnodes s' node) = Some c"
    "node \<in> in_use s'" "c \<in> in_use s'" "c \<notin> in_use s" "c \<noteq> d" "c_len (comps s' c) = 0" "kstock (heap s') k" "extends d s s'"
    "component (vnodes s' dir) = Some d" "dir_ok s' d" "dir_view s' d = dir_view s d @ [(name, node)]"
    "v_mount (vnodes s' node) = None" "node \<notin> in_use s" "f_ops (vnodes s' node) = f_ops (vnodes s dir)"
    using tmpfs_create_new [OF d st name room, of t] by blast
  let ?s = "upd_comp c (\<lambda>x. x\<lparr>c_type := COMP_DIR, c_union := None\<rparr>) s'"
  have "tmpfs_mkdir dir t name s = Inr ((0, Some node), ?s)"
    using n(1,2) d(1) dir_okD(1) [OF d(3)] by (simp add: tmpfs_mkdir_def comp_of_def)
  moreover have "dir_view ?s d = dir_view s' d" "dir_ok ?s d"
    using dir_view_upd_comp [OF n(6)] dir_ok_upd_comp [OF n(6,11)] by simp_all
  moreover have "extends d s ?s" using n(5,9) by (auto simp: extends_def upd_comp_def in_use_def)
  ultimately show ?thesis using n(2-8,10-15)
    by (intro exI [of _ node] exI [of _ c] exI [of _ ?s]) (simp add: upd_comp_def in_use_def)
qed

lemma open_node_run:
  assumes "component (vnodes s node) = Some c" and "c_type (comps s c) = COMP_FILE" and "kstock (heap s) (Suc k)"
  shows "\<exists>g s'. open_node node flags t s = Inr ((0, Some g), s') \<and> f_vnode (files s' g) = Some node \<and>
    f_pos (files s' g) = 0 \<and> vnodes s' = vnodes s \<and> comps s' = comps s \<and> entry_at s' = entry_at s \<and> bytes s' = bytes s"
proof -
  obtain g h where "alloc SIZEOF_file s = Inr (g, s\<lparr>heap := h\<rparr>)"
    by (rule alloc_stock [OF assms(3), of SIZEOF_file]) (simp_all add: SIZEOF_file_def)
  then show ?thesis using assms(1,2) by (simp add: open_node_def tmpfs_open_def comp_of_def upd_file_def)
qed

text \<open>A file in the root directory that is not there yet.\<close>

lemma create_in_root:
  assumes r: "fs_root s = Inr r" "component (vnodes s r) = Some d" "v_mount (vnodes s r) = None"
    and d: "r \<in> in_use s" "dir_ok s d" "vop_table s (v_ops (vnodes s r)) = Tmpfs"
    and c: "proper c" "length c < NAME_LEN" "map_of (dir_view s d) c = None" and room: "c_len (comps s d) < TMPFS_MAX_ENTRY"
    and st: "kstock (heap s) (Suc (Suc (Suc (Suc k))))" and i0: "0 \<le> i0"
  shows "if i0 \<le> 1 then \<exists>node b s'. create_file i0 (render [c]) None s = Inr (Some node, s') \<and>
      component (vnodes s' node) = Some b \<and> c_type (comps s' b) = COMP_FILE \<and> contents s' b = [] \<and> kstock (heap s') k \<and>
      component (vnodes s' r) = Some d \<and> dir_view s' d = dir_view s d @ [(c, node)]
    else create_file i0 (render [c]) None s = Inl NullDeref"
proof -
  have ct: "c_type (comps s d) = COMP_DIR" by (rule dir_okD(1) [OF d(2)])
  have "length (render [c]) < TMPFS_MAX_PATH_LEN" using c(2) by (simp add: NAME_LEN_def TMPFS_MAX_PATH_LEN_def)
  then have lk: "lookup_path i0 (render [c]) r None 1 s = Some (mkdir_all (drop (nat i0) [[], c]) (Some r) None s)"
    using lookup_path_create [OF c(1) _ skip_slash_render r(3,2) ct, of "[]" i0 None] create_path_render [of "[c]" i0 r None s] c(1) i0
    by simp
  show ?thesis
  proof (cases "i0 \<le> 1")
    case False
    then have "drop (nat i0) [[], c] = []" by simp
    then show ?thesis using False lk r(1) by (simp add: create_file_def)
  next
    case True
    then have "drop (nat i0) [[], c] = (if i0 = 0 then [[], c] else [c])" using i0 by (auto simp: drop_Cons')
    then have mk: "mkdir_all (drop (nat i0) [[], c]) (Some r) None s = rbind (tmpfs_mkdir r None c s) (\<lambda>((x, t), s). Inr ((0, t), s))"
      using c(1) d(3) by (auto simp: v_mkdir_def proper_def split_def)
    obtain node b s' where n: "tmpfs_mkdir r None c s = Inr ((0, Some node), s')" "component (vnodes s' node) = Some b"
      "b \<noteq> d" "c_len (comps s' b) = 0" "kstock (heap s') k" "component (vnodes s' r) = Some d"
      "dir_view s' d = dir_view s d @ [(c, node)]"
      using tmpfs_mkdir_new [OF r(2) d(1,2) st c(2,3) room, of None] by blast
    let ?s = "upd_comp b (\<lambda>x. x\<lparr>c_type := COMP_FILE, c_union := None\<rparr>) s'"
    have "create_file i0 (render [c]) None s = Inr (Some node, ?s)"
      using lk mk r(1) n(1,2) by (simp add: create_file_def)
    moreover have "dir_view ?s d = dir_view s' d" by (rule dir_view_upd_comp) (use n(3) in simp_all)
    ultimately show ?thesis using True n(2,5-7)
      by (auto simp: upd_comp_def contents_def)
  qed
qed

section \<open>The root of a new file system\<close>

lemma new_rootfs:
  obtains r d s where "fs_root s = Inr r" "component (vnodes s r) = Some d" "v_mount (vnodes s r) = None"
    "r \<in> in_use s" "dir_ok s d" "vop_table s (v_ops (vnodes s r)) = Tmpfs" "dir_view s d = []" "c_len (comps s d) = 0"
    "kstock (heap s) 20"
proof -
  let ?s0 = "(file_state empty_pool (\<lambda>_. 0))\<lparr>rootfs := Some 7\<rparr>"
  have "kstock (heap ?s0) (Suc (Suc (Suc (Suc 20))))"
    using kstock_mono [OF empty_pool_stock] by (simp add: file_state_def)
  then obtain r d s where s: "fresh_root Tmpfs 7 ?s0 = Inr (r, s)" "component (vnodes s r) = Some d" "r \<in> in_use s"
    "dir_ok s d" "dir_view s d = []" "kstock (heap s) 20" "m_root (mounts s 7) = Some r" "v_mount (vnodes s r) = None"
    "vop_table s (v_ops (vnodes s r)) = Tmpfs" "rootfs s = rootfs ?s0"
    using fresh_root_run [of ?s0 20 Tmpfs 7] by blast
  moreover have "c_len (comps s d) = 0" using s(5) length_entries [OF s(4)] by (simp add: dir_view_def)
  ultimately show thesis using that [of s r d] by (simp add: fs_root_def)
qed

text \<open>With one entry \<open>a\<close>.\<close>

lemma rootfs_with_entry:
  obtains r d f c s where "fs_root s = Inr r" "component (vnodes s r) = Some d" "v_mount (vnodes s r) = None"
    "dir_ok s d" "vop_table s (v_ops (vnodes s r)) = Tmpfs" "dir_view s d = [(cstr ''a'', f)]" "kstock (heap s) 16"
    "component (vnodes s f) = Some c" "c \<noteq> d" "c_len (comps s c) = 0" "c_union (comps s c) = None" "c \<in> in_use s"
    "v_mount (vnodes s f) = None" "vop_table s (v_ops (vnodes s f)) = Tmpfs" "proper (cstr ''a'')"
proof -
  obtain r d s where s: "fs_root s = Inr r" "component (vnodes s r) = Some d" "v_mount (vnodes s r) = None"
    "r \<in> in_use s" "dir_ok s d" "vop_table s (v_ops (vnodes s r)) = Tmpfs" "dir_view s d = []" "c_len (comps s d) = 0"
    "kstock (heap s) 20"
    by (rule new_rootfs)
  have p: "proper (cstr ''a'')" "length (cstr ''a'') < NAME_LEN"
    by (simp_all add: proper_def cstr_def SLASH_def TMPFS_MAX_COMPONENT_NAME_def NAME_LEN_def)
  have st: "kstock (heap s) (Suc (Suc (Suc (Suc 16))))" using s(9) by (simp add: numeral_eq_Suc)
  have "map_of (dir_view s d) (cstr ''a'') = None" "c_len (comps s d) < TMPFS_MAX_ENTRY"
    using s(7,8) by (simp_all add: TMPFS_MAX_ENTRY_def)
  from tmpfs_create_new [OF s(2,4,5) st p(2) this, of None] obtain f c s'
    where n: "component (vnodes s' r) = Some d" "dir_ok s' d" "kstock (heap s') 16"
      "dir_view s' d = dir_view s d @ [(cstr ''a'', f)]" "v_mount (vnodes s' f) = None"
      "extends d s s'" "v_ops (vnodes s' f) = v_ops (vnodes s r)" "component (vnodes s' f) = Some c" "c \<noteq> d" "c \<in> in_use s'"
      "c_len (comps s' c) = 0" "c_union (comps s' c) = None"
    by blast
  show thesis
    by (rule that [of s' r d f c]) (use s n p extendsD [OF n(6)] in \<open>simp_all add: fs_root_def\<close>)
qed

section \<open>Properties\<close>

text \<open>C15: vfs_lookup of a path of proper names (not empty, shorter than 32 bytes) always returns. It finds
  the node that one reaches from the root by following the names through the directories, at each
  step going on at the root of what is mounted on the entry; it returns -1 when a name is missing or
  something on the way is not a directory.\<close>

theorem vfs_lookup_correct:
  assumes "fs_root s = Inr r" and "tree_ok s N" and "r \<in> N" and "\<forall>c \<in> set cs. proper c" and "cs \<noteq> []"
  shows "\<exists>t'. vfs_lookup (render cs) t s =
    Inr (case walk s r cs of None \<Rightarrow> (-1, t') | Some n \<Rightarrow> (0, Some n))"
  using assms by (rule vfs_lookup_run)

theorem vfs_lookup_correct_witness:
  "\<exists>s f. vfs_lookup (render [cstr ''a'']) None s = Inr (0, Some f)"
proof -
  obtain r d f c s where s: "fs_root s = Inr r" "component (vnodes s r) = Some d" "v_mount (vnodes s r) = None"
    "dir_ok s d" "dir_view s d = [(cstr ''a'', f)]" "component (vnodes s f) = Some c" "c_len (comps s c) = 0"
    "c_union (comps s c) = None" "c \<in> in_use s" "v_mount (vnodes s f) = None" "proper (cstr ''a'')"
    by (rule rootfs_with_entry)
  have mt: "mount_target s f = Some f" using s(10) by (simp add: mount_target_def)
  have "entries_of s d = [f]" using s(5) entries_dir_view [of s d] by simp
  moreover have "dir_ok s c" if "c_type (comps s c) = COMP_DIR"
    using that s(7-9) by (simp add: dir_ok_def entries_of_def)
  ultimately have "tree_ok s {r, f}"
    using s(2-4,6,8,10) mt by (auto simp: tree_ok_def entries_of_def [of s c])
  then show ?thesis
    using vfs_lookup_correct [OF s(1), of "{r, f}" "[cstr ''a'']" None] s(2,5,11) mt dir_okD(1) [OF s(4)] by auto
qed

text \<open>C19: vfs_open with O_CREAT of a file that is not in the root directory, whose name has less than 16 bytes, creates it, empty, as the last
  entry and opens it when the directory has room for an entry and memory is left, provided that the loop variable of
  lookup_path, which is never initialised, happens to hold 0 or 1. With any greater value no component is created and the call dereferences
  NULL.\<close>

theorem vfs_open_creates:
  assumes "fs_root s = Inr r" and "component (vnodes s r) = Some d" and "v_mount (vnodes s r) = None"
    and "r \<in> in_use s" and "dir_ok s d" and "vop_table s (v_ops (vnodes s r)) = Tmpfs"
    and "proper c" and "length c < NAME_LEN" and "map_of (dir_view s d) c = None" and "c_len (comps s d) < TMPFS_MAX_ENTRY"
    and "kstock (heap s) 5" and "0 \<le> i0"
  shows "if i0 \<le> 1 then \<exists>node b g s'. vfs_open i0 (render [c]) 64 t s = Inr ((0, Some g), s') \<and>
      f_vnode (files s' g) = Some node \<and> component (vnodes s' node) = Some b \<and> c_type (comps s' b) = COMP_FILE \<and>
      contents s' b = [] \<and> dir_view s' d = dir_view s d @ [(c, node)]
    else vfs_open i0 (render [c]) 64 t s = Inl NullDeref"
proof -
  have st: "kstock (heap s) (Suc (Suc (Suc (Suc 1))))" using assms(11) by (simp add: numeral_eq_Suc)
  have "lookup_path 0 (render [c]) r None 0 s = Some (Inr ((-1, None), s))"
    using components_of [OF assms(7) _ skip_slash_render, of "[]"] assms(2,3,9) dir_okD(1) [OF assms(5)]
      tmpfs_lookup_run [OF assms(2,5)]
    by (subst lookup_path.simps) (simp add: comp_of_def del: render_simps)
  moreover have "render [c] \<noteq> [SLASH]" using assms(7) by (simp add: proper_def)
  ultimately have lk: "vfs_lookup (render [c]) None s = Inr (-1, None)"
    using assms(1) by (simp add: vfs_lookup_def del: render_simps)
  have fl: "has_creat 64" by (simp add: has_creat_def O_CREAT_def u32_def)
  note cr = create_in_root [OF assms(1-10) st assms(12)]
  show ?thesis
  proof (cases "i0 \<le> 1")
    case False
    then show ?thesis using cr lk fl by (simp add: vfs_open_def del: render_simps)
  next
    case True
    then obtain node b s1 where c: "create_file i0 (render [c]) None s = Inr (Some node, s1)"
      "component (vnodes s1 node) = Some b" "c_type (comps s1 b) = COMP_FILE" "contents s1 b = []" "kstock (heap s1) (Suc 0)"
      "dir_view s1 d = dir_view s d @ [(c, node)]"
      using cr by auto
    obtain g s' where o: "open_node node 64 t s1 = Inr ((0, Some g), s')" "f_vnode (files s' g) = Some node"
      "vnodes s' = vnodes s1" "comps s' = comps s1" "entry_at s' = entry_at s1" "bytes s' = bytes s1"
      using open_node_run [OF c(2,3,5)] by blast
    have "vfs_open i0 (render [c]) 64 t s = Inr ((0, Some g), s')"
      using lk fl c(1) o(1) by (simp add: vfs_open_def del: render_simps)
    moreover have "contents s' b = []" using c(4) o(4,6) by (simp add: contents_def cong: option.case_cong)
    moreover have "dir_view s' d = dir_view s1 d"
      using o(3-5) by (simp add: dir_view_def node_name_def [abs_def] entries_of_def cong: option.case_cong)
    ultimately show ?thesis using True c(2,3,6) o(2-4) by auto
  qed
qed

theorem vfs_open_creates_witness:
  "\<exists>s g s'. vfs_open 0 (render [cstr ''a'']) 64 None s = Inr ((0, Some g), s') \<and>
     vfs_open 7 (render [cstr ''a'']) 64 None s = Inl NullDeref"
proof -
  obtain r d s where s: "fs_root s = Inr r" "component (vnodes s r) = Some d" "v_mount (vnodes s r) = None"
    "r \<in> in_use s" "dir_ok s d" "vop_table s (v_ops (vnodes s r)) = Tmpfs" "dir_view s d = []" "c_len (comps s d) = 0"
    "kstock (heap s) 20"
    by (rule new_rootfs)
  have p: "proper (cstr ''a'')" "length (cstr ''a'') < NAME_LEN"
    by (simp_all add: proper_def cstr_def SLASH_def TMPFS_MAX_COMPONENT_NAME_def NAME_LEN_def)
  have m: "map_of (dir_view s d) (cstr ''a'') = None" "c_len (comps s d) < TMPFS_MAX_ENTRY" "kstock (heap s) 5"
    using s(7,8) kstock_mono [OF s(9), of 5] by (simp_all add: TMPFS_MAX_ENTRY_def)
  show ?thesis
    using vfs_open_creates [OF s(1-6) p m, of 0 None] vfs_open_creates [OF s(1-6) p m, of 7 None]
    by (fastforce simp del: render_simps)
qed

text \<open>With 2 in the loop variable the path "/a/x" creates \<open>x\<close> in the root directory.\<close>

lemma create_skipping_first:
  assumes r: "fs_root s = Inr r" "component (vnodes s r) = Some d" "v_mount (vnodes s r) = None"
    and d: "r \<in> in_use s" "dir_ok s d" "vop_table s (v_ops (vnodes s r)) = Tmpfs"
    and p: "proper a" "proper x" "length (render [a, x]) < TMPFS_MAX_PATH_LEN"
    and x: "length x < NAME_LEN" "map_of (dir_view s d) x = None" and room: "c_len (comps s d) < TMPFS_MAX_ENTRY"
    and st: "kstock (heap s) (Suc (Suc (Suc (Suc k))))"
  shows "\<exists>node b s'. create_file 2 (render [a, x]) t s = Inr (Some node, s') \<and> component (vnodes s' node) = Some b \<and>
    c_type (comps s' b) = COMP_FILE \<and> contents s' b = [] \<and> kstock (heap s') k \<and> dir_view s' d = dir_view s d @ [(x, node)] \<and>
    (\<forall>c \<in> in_use s. c \<noteq> d \<longrightarrow> comps s' c = comps s c)"
proof -
  have ct: "c_type (comps s d) = COMP_DIR" by (rule dir_okD(1) [OF d(2)])
  have "lookup_path 2 (render [a, x]) r t 1 s = Some (mkdir_all [x] (Some r) t s)"
    using lookup_path_create [OF p(1) _ skip_slash_render r(3,2) ct, of "[x]" 2 t] create_path_render [of "[a, x]" 2 r t s] p by simp
  moreover have "mkdir_all [x] (Some r) t s = rbind (tmpfs_mkdir r t x s) (\<lambda>((y, n), s). Inr ((0, n), s))"
    using p(2) d(3) by (auto simp: v_mkdir_def proper_def split_def)
  ultimately have lk: "lookup_path 2 (render [a, x]) r t 1 s = Some (rbind (tmpfs_mkdir r t x s) (\<lambda>((y, n), s). Inr ((0, n), s)))"
    by simp
  obtain node b s' where n: "tmpfs_mkdir r t x s = Inr ((0, Some node), s')" "component (vnodes s' node) = Some b"
    "b \<noteq> d" "b \<notin> in_use s" "c_len (comps s' b) = 0" "kstock (heap s') k" "extends d s s'"
    "dir_view s' d = dir_view s d @ [(x, node)]"
    using tmpfs_mkdir_new [OF r(2) d(1,2) st x room, of t] by blast
  let ?s = "upd_comp b (\<lambda>x. x\<lparr>c_type := COMP_FILE, c_union := None\<rparr>) s'"
  have "create_file 2 (render [a, x]) t s = Inr (Some node, ?s)" using lk r(1) n(1,2) by (simp add: create_file_def)
  moreover have "dir_view ?s d = dir_view s' d" by (rule dir_view_upd_comp) (use n(3) in simp_all)
  moreover have "\<forall>c \<in> in_use s. c \<noteq> d \<longrightarrow> comps ?s c = comps s c" using n(4,7) by (auto simp: upd_comp_def extends_def)
  ultimately show ?thesis using n(2,5,6,8) by (auto simp: upd_comp_def contents_def)
qed

text \<open>Otherwise \<open>lookup_path\<close> ends with the file that the lookup found, whatever it has created.\<close>

lemma create_below_file:
  assumes r: "fs_root s = Inr r" "component (vnodes s r) = Some d" "v_mount (vnodes s r) = None"
    and d: "dir_ok s d" "vop_table s (v_ops (vnodes s r)) = Tmpfs"
    and p: "proper a" "proper x" "length (render [a, x]) < TMPFS_MAX_PATH_LEN"
    and f: "map_of (dir_view s d) a = Some f" "v_mount (vnodes s f) = None" "component (vnodes s f) = Some c"
      "c_type (comps s c) = COMP_FILE" "vop_table s (v_ops (vnodes s f)) = Tmpfs"
    and i0: "0 \<le> i0" "i0 \<noteq> 2"
  shows "create_file i0 (render [a, x]) (Some f) s = Inr (Some f, upd_comp c (\<lambda>x. x\<lparr>c_type := COMP_FILE, c_union := None\<rparr>) s)"
proof -
  have ct: "c_type (comps s d) = COMP_DIR" by (rule dir_okD(1) [OF d(1)])
  have mt: "mount_target s f = Some f" using f(2) by (simp add: mount_target_def)
  have lk: "lookup_path i0 (render [a, x]) r (Some f) 1 s = Some (mkdir_all (drop (nat i0) [[], a, x]) (Some r) (Some f) s)"
    using lookup_path_create [OF p(1) _ skip_slash_render r(3,2) ct, of "[x]" i0 "Some f"]
      create_path_render [of "[a, x]" i0 r "Some f" s] p i0(1) by simp
  have ax: "mkdir_all [a, x] (Some r) (Some f) s = Inr ((0, Some f), s)"
    using p(1,2) d(2) f(5) mt tmpfs_mkdir_exists [OF r(2) d(1) f(1)] tmpfs_mkdir_file [OF f(3,4)] by (simp add: v_mkdir_def proper_def)
  consider "i0 = 0" | "i0 = 1" | "3 \<le> i0" using i0 by linarith
  then have "mkdir_all (drop (nat i0) [[], a, x]) (Some r) (Some f) s = Inr ((0, Some f), s)"
    by cases (use ax in simp_all)
  then show ?thesis using lk r(1) f(3) by (simp add: create_file_def del: render_simps)
qed



end
