(* ===== verification/CpioClaims.thy ===== *)
theory CpioClaims
  imports Cpio VfsClaims
begin

text \<open>
  Reading an archive gives back what was packed: a relation \<open>cpio_at\<close> between memory and a list of
  files, and what the readers of \<open>lib/cpio.c\<close> find in such memory.
\<close>

section \<open>Hexadecimal fields\<close>

text \<open>The character of a digit, in either case, and the digits of a number.\<close>

definition hex_of :: "byte \<Rightarrow> nat \<Rightarrow> bool" where
  "hex_of c d \<longleftrightarrow> d < 16 \<and> (if d < 10 then uint c = int d + 48 else uint c = int d + 55 \<or> uint c = int d + 87)"

primrec digits :: "nat \<Rightarrow> nat \<Rightarrow> nat list" where
  "digits 0 n = []"
| "digits (Suc k) n = digits k (n div 16) @ [n mod 16]"

definition number :: "nat \<Rightarrow> nat list \<Rightarrow> nat" where
  "number r ds = foldl (\<lambda>r d. 16 * r + d) r ds"

lemma number_digits: "number 0 (digits k n) = n mod 16 ^ k"
proof (induction k arbitrary: n)
  case 0
  then show ?case by (simp add: number_def)
next
  case (Suc k)
  have "n mod (16 * 16 ^ k) = 16 * (n div 16 mod 16 ^ k) + n mod 16" by (rule mod_mult2_eq)
  then show ?case using Suc [of "n div 16"] by (simp add: number_def)
qed

lemma number_ge: "r \<le> number r ds"
  unfolding number_def
proof (induction ds arbitrary: r)
  case (Cons d ds)
  have "r \<le> 16 * r + d" by simp
  also have "\<dots> \<le> foldl (\<lambda>r d. 16 * r + d) (16 * r + d) ds" by (rule Cons.IH)
  finally show ?case by simp
qed simp

lemma hex_nonzero: "hex_of c d \<Longrightarrow> c \<noteq> 0"
  by (auto simp: hex_of_def split: if_splits)

lemma push_hex:
  assumes "hex_of c d" and "16 * r + d < 2 ^ 30"
  shows "push_digit 16 (int r) c (hex_zero c) = Inr (int (16 * r + d))"
proof -
  obtain u where u: "uint c = u" "0 \<le> u" by simp
  then have "u - hex_zero c = int d" "u < 103"
    using assms(1) by (auto simp: hex_of_def hex_zero_def split: if_splits)
  then show ?thesis using assms(2) u by (simp add: push_digit_def int_check_def)
qed

lemma hex_loop_run:
  assumes "str_at m p cs" and "list_all2 hex_of cs ds" and "number r ds < 2 ^ 30"
  shows "hex_loop m p (int r) = Some (Inr (int (number r ds)))"
  using assms
proof (induction cs arbitrary: p r ds)
  case Nil
  then show ?case by (simp add: hex_loop.simps [of m p] number_def)
next
  case (Cons c cs)
  then obtain d ds' where ds: "ds = d # ds'" "hex_of c d" "list_all2 hex_of cs ds'" by (auto simp: list_all2_Cons1)
  have n: "number r ds = number (16 * r + d) ds'" by (simp add: ds(1) number_def)
  have b: "16 * r + d < 2 ^ 30" using number_ge [of "16 * r + d" ds'] Cons.prems(3) n by linarith
  have "hex_loop m (p + 1) (int (16 * r + d)) = Some (Inr (int (number (16 * r + d) ds')))"
    by (rule Cons.IH [OF _ ds(3)]) (use Cons.prems(1,3) n in simp_all)
  then show ?case using Cons.prems(1) push_hex [OF ds(2) b] n by (subst hex_loop.simps) simp
qed

text \<open>A header field of 8 characters.\<close>

definition field_at :: "mem \<Rightarrow> addr \<Rightarrow> nat \<Rightarrow> bool" where
  "field_at m p n \<longleftrightarrow> n < 2 ^ 30 \<and> list_all2 hex_of (mem_bytes m p 8) (digits 8 n)"

lemma header_loop_run:
  "0 \<notin> set cs \<Longrightarrow> length a + length cs \<le> n \<Longrightarrow> header_loop n cs a = Inr (a @ cs)"
  by (induction cs arbitrary: a) auto

lemma str_at_mem_of: "0 \<notin> set cs \<Longrightarrow> str_at (mem_of cs) 0 cs"
  by (auto simp: str_at_def mem_of_def in_set_conv_nth)

lemma field_nonzero: "field_at m p n \<Longrightarrow> 0 \<notin> set (mem_bytes m p 8)"
  unfolding field_at_def using hex_nonzero by (force simp: list_all2_conv_all_nth in_set_conv_nth)

lemma read_header_run:
  assumes "field_at m p n"
  shows "read_header 0 m p 8 = Inr (int n)"
proof -
  let ?cs = "mem_bytes m p 8"
  have nz: "0 \<notin> set ?cs" by (rule field_nonzero [OF assms])
  have n: "n < 2 ^ 30" "list_all2 hex_of ?cs (digits 8 n)" using assms by (simp_all add: field_at_def)
  have "number 0 (digits 8 n) = n" using number_digits [of 8 n] n(1) by simp
  then have "hex_loop (mem_of ?cs) 0 (int 0) = Some (Inr (int n))"
    using hex_loop_run [OF str_at_mem_of [OF nz] n(2), of 0] n(1) by simp
  moreover have "header_loop 8 ?cs [] = Inr ?cs" using header_loop_run [OF nz, of "[]" 8] by simp
  ultimately show ?thesis by (simp add: read_header_def myHex2Int_def mem_bytes_def)
qed

text \<open>When the first byte of the local array is not 0 the last character does not fit.\<close>

lemma header_loop_overflow:
  "0 \<notin> set cs \<Longrightarrow> length a \<le> n \<Longrightarrow> n < length a + length cs \<Longrightarrow> header_loop n cs a = Inl OutOfBounds"
  by (induction cs arbitrary: a) auto

lemma read_header_junk:
  assumes "field_at m p n" and "junk \<noteq> 0"
  shows "read_header junk m p 8 = Inl OutOfBounds"
proof -
  let ?cs = "mem_bytes m p 8"
  have "header_loop 8 ?cs [junk] = Inl OutOfBounds"
    by (intro header_loop_overflow field_nonzero [OF assms(1)]) simp_all
  then show ?thesis using assms(2) by (simp add: read_header_def mem_bytes_def)
qed

section \<open>Entries\<close>

text \<open>The space of a name of \<open>n\<close> bytes with its terminator, and of \<open>n\<close> bytes of data.\<close>

definition name_space :: "nat \<Rightarrow> nat" where
  "name_space n = n + (4 - (n + 110) mod 4) mod 4"

definition data_space :: "nat \<Rightarrow> nat" where
  "data_space n = n + (4 - n mod 4) mod 4"

lemma pad4_run:
  assumes "n + k < 2 ^ 30" and "k < 2 ^ 10"
  shows "pad4 (int n) (int k) = Inr (int (n + (4 - (n + k) mod 4) mod 4))"
proof -
  have r: "c_rem (int n + int k) 4 = int ((n + k) mod 4)"
    by (cases "n + k = 0") (simp_all add: c_rem_def sgn_if zmod_int)
  have "(n + k) mod 4 < 4" by simp
  then show ?thesis using assms r
    by (auto simp: pad4_def int_check_def of_nat_diff)
qed

lemma even_then_pad: "n + n mod 2 + (4 - (n + n mod 2 + 110) mod 4) mod 4 = name_space n"
proof -
  obtain k r where n: "n = 4 * k + r" "r < 4" using mult_div_mod_eq [of 4 n] mod_less_divisor [of 4 n] by (metis zero_less_numeral)
  have s: "(4 * k + j) mod 4 = j mod 4" for j by simp
  have "r = 0 \<or> r = 1 \<or> r = 2 \<or> r = 3" using n(2) by linarith
  moreover have "(4 * k + r) mod 2 = r mod 2" by (simp add: mod_add_eq [symmetric])
  ultimately show ?thesis unfolding name_space_def n(1) by (auto simp: s add.assoc)
qed

lemma entry_sizes_run:
  assumes "field_at m (h + 94) n" and "field_at m (h + 54) k" and "n < 2 ^ 20"
  shows "entry_sizes 0 evened m h = Inr (int (name_space n), int (data_space k))"
proof -
  have k: "k < 2 ^ 30" using assms(2) by (simp add: field_at_def)
  have p0: "pad4 (int k) 0 = Inr (int (data_space k))" using pad4_run [of k 0] k by (simp add: data_space_def)
  have p1: "pad4 (int n) 110 = Inr (int (name_space n))" using pad4_run [of n 110] assms(3) by (simp add: name_space_def)
  have p2: "pad4 (int (n + n mod 2)) 110 = Inr (int (name_space n))"
    using pad4_run [of "n + n mod 2" 110] assms(3) even_then_pad [of n] by simp
  have r: "c_rem (int n) 2 = int (n mod 2)" by (cases "n = 0") (simp_all add: c_rem_def sgn_if zmod_int)
  obtain r where "n mod 2 = r" "r < 2" by simp
  then have "int_check (int n + c_rem (int n) 2) = Inr (int (n + n mod 2))"
    using assms(3) unfolding r by (simp add: int_check_def)
  then show ?thesis using read_header_run [OF assms(1)] read_header_run [OF assms(2)] p0 p1 p2
    by (simp add: entry_sizes_def)
qed

section \<open>Archives\<close>

text \<open>Memory at \<open>p\<close> holds the archive of a list of files, each a name and its data.\<close>

definition file_at :: "mem \<Rightarrow> addr \<Rightarrow> byte list \<Rightarrow> byte list \<Rightarrow> bool" where
  "file_at m p name data \<longleftrightarrow>
     str_at m (p + 110) name \<and> name \<noteq> TRAILER \<and> length name < 2 ^ 20 - 1 \<and>
     field_at m (p + 94) (length name + 1) \<and> field_at m (p + 54) (length data) \<and>
     mem_bytes m (p + 110 + int (name_space (length name + 1))) (length data) = data"

definition next_entry :: "addr \<Rightarrow> byte list \<Rightarrow> byte list \<Rightarrow> addr" where
  "next_entry p name data = p + int (name_space (length name + 1)) + int (data_space (length data)) + 110"

primrec cpio_at :: "mem \<Rightarrow> addr \<Rightarrow> (byte list \<times> byte list) list \<Rightarrow> bool" where
  "cpio_at m p [] \<longleftrightarrow> str_at m (p + 110) TRAILER"
| "cpio_at m p (f # fs) \<longleftrightarrow> file_at m p (fst f) (snd f) \<and> cpio_at m (next_entry p (fst f) (snd f)) fs"

primrec entries :: "addr \<Rightarrow> (byte list \<times> byte list) list \<Rightarrow> cpio_file list" where
  "entries p [] = []"
| "entries p (f # fs) =
     \<lparr>file_size = data_space (length (snd f)), pathname = p + 110, data_ptr = p + 110 + int (name_space (length (fst f) + 1))\<rparr>
     # entries (next_entry p (fst f) (snd f)) fs"

lemma TRAILER_zero: "0 \<notin> set TRAILER"
  by (simp add: TRAILER_def cstr_def)

lemma str_at_zero: "str_at m p cs \<Longrightarrow> 0 \<notin> set cs"
  by (auto simp: str_at_def in_set_conv_nth)

lemma entry_not_trailer: "file_at m p name data \<Longrightarrow> \<not> str_eq m (p + 110) TRAILER"
  using str_at_unique str_eq_at [OF TRAILER_zero] by (auto simp: file_at_def)

lemma entry_sizes_entry:
  "file_at m p name data \<Longrightarrow>
    entry_sizes 0 evened m p = Inr (int (name_space (length name + 1)), int (data_space (length data)))"
  by (rule entry_sizes_run) (simp_all add: file_at_def)

lemma entry_sizes_junk:
  assumes "file_at m p name data" and "junk \<noteq> 0"
  shows "entry_sizes junk evened m p = Inl OutOfBounds"
  using read_header_junk [OF _ assms(2), of m "p + 94" "length name + 1"] assms(1)
  by (simp add: entry_sizes_def file_at_def)

lemma data_space_bound: "n < 2 ^ 30 \<Longrightarrow> data_space n < 2 ^ 31"
proof -
  assume "n < 2 ^ 30"
  moreover have "(4 - n mod 4) mod 4 < 4" by simp
  ultimately show ?thesis unfolding data_space_def by simp
qed

lemma parse_loop_run:
  assumes "cpio_at (bytes s) p fs" and "kstock (heap s) (length fs + k)"
  shows "\<exists>h. kstock h k \<and> in_use s \<subseteq> fst ` blocks h \<and>
    parse_loop 0 p acc s = Some (Inr (acc @ entries p fs, s\<lparr>heap := h\<rparr>))"
  using assms
proof (induction fs arbitrary: p acc s)
  case Nil
  then have "str_eq (bytes s) (p + 110) TRAILER" by (simp add: str_eq_at [OF TRAILER_zero])
  then show ?case using Nil by (intro exI [of _ "heap s"]) (simp add: parse_loop.simps in_use_def)
next
  case (Cons f fs)
  have e: "file_at (bytes s) p (fst f) (snd f)" using Cons.prems(1) by simp
  have "kstock (heap s) (Suc (length fs + k))" using Cons.prems(2) by simp
  then obtain a h1 where h1: "alloc SIZEOF_cpio_file s = Inr (a, s\<lparr>heap := h1\<rparr>)" "kstock h1 (length fs + k)"
    "fst ` blocks h1 = insert a (in_use s)"
    by (rule alloc_stock [where m = SIZEOF_cpio_file]) (simp_all add: SIZEOF_cpio_file_def)
  let ?s = "s\<lparr>heap := h1\<rparr>"
  let ?acc = "acc @ [\<lparr>file_size = data_space (length (snd f)), pathname = p + 110,
    data_ptr = p + 110 + int (name_space (length (fst f) + 1))\<rparr>]"
  have "cpio_at (bytes ?s) (next_entry p (fst f) (snd f)) fs" "kstock (heap ?s) (length fs + k)"
    using Cons.prems(1) h1(2) by simp_all
  then obtain h where h: "kstock h k" "in_use ?s \<subseteq> fst ` blocks h"
    "parse_loop 0 (next_entry p (fst f) (snd f)) ?acc ?s = Some (Inr (?acc @ entries (next_entry p (fst f) (snd f)) fs, ?s\<lparr>heap := h\<rparr>))"
    using Cons.IH [of ?s "next_entry p (fst f) (snd f)" ?acc] by blast
  have "data_space (length (snd f)) < 2 ^ 31"
    using e by (intro data_space_bound) (simp add: file_at_def field_at_def)
  then have u: "u64 (int (data_space (length (snd f)))) = data_space (length (snd f))" by (simp add: u64_small)
  have "parse_loop 0 p acc s = parse_loop 0 (next_entry p (fst f) (snd f)) ?acc ?s"
    using entry_not_trailer [OF e] h1(1) entry_sizes_entry [OF e, of False] u
    by (subst parse_loop.simps) (simp add: next_entry_def)
  then show ?case using h h1(3) by (intro exI [of _ h]) (auto simp: in_use_def)
qed

section \<open>What a parsed entry holds\<close>

definition holds_file :: "mem \<Rightarrow> cpio_file \<Rightarrow> byte list \<times> byte list \<Rightarrow> bool" where
  "holds_file m e f \<longleftrightarrow> str_at m (pathname e) (fst f) \<and> file_size e = data_space (length (snd f)) \<and>
     mem_bytes m (data_ptr e) (length (snd f)) = snd f"

lemma entries_hold: "cpio_at m p fs \<Longrightarrow> list_all2 (holds_file m) (entries p fs) fs"
  by (induction fs arbitrary: p) (auto simp: holds_file_def file_at_def)

lemma cpio_parse_run:
  assumes "cpio_at (bytes s) p fs" and "fs \<noteq> []" and "kstock (heap s) (length fs + k)"
  obtains h where "cpio_parse 0 p s = Inr (entries p fs, s\<lparr>heap := h\<rparr>)" and "kstock h k" and "in_use s \<subseteq> fst ` blocks h"
proof -
  obtain h where "kstock h k" "in_use s \<subseteq> fst ` blocks h"
    "parse_loop 0 p [] s = Some (Inr ([] @ entries p fs, s\<lparr>heap := h\<rparr>))"
    using parse_loop_run [OF assms(1,3), of "[]"] by blast
  moreover have "entries p fs \<noteq> []" using assms(2) by (cases fs) simp_all
  ultimately show thesis using that [of h] by (simp add: cpio_parse_def)
qed

section \<open>Finding a file\<close>

primrec located :: "addr \<Rightarrow> (byte list \<times> byte list) list \<Rightarrow> byte list \<Rightarrow> (addr \<times> byte list) option" where
  "located p [] name = None"
| "located p (f # fs) name =
     (if fst f = name \<and> snd f \<noteq> [] then Some (p + 110 + int (name_space (length (fst f) + 1)), snd f)
      else located (next_entry p (fst f) (snd f)) fs name)"

lemma data_space_zero: "data_space n = 0 \<longleftrightarrow> n = 0"
  by (auto simp: data_space_def)

lemma find_file_run:
  assumes "cpio_at m p fs" and "0 \<notin> set name"
  shows "find_file 0 m name p = Some (Inr (map_option (\<lambda>(q, data). (q, int (data_space (length data)))) (located p fs name)))"
  using assms(1)
proof (induction fs arbitrary: p)
  case Nil
  then have "str_eq m (p + 110) TRAILER" by (simp add: str_eq_at [OF TRAILER_zero])
  then show ?case by (simp add: find_file.simps)
next
  case (Cons f fs)
  have e: "file_at m p (fst f) (snd f)" using Cons.prems by simp
  have nm: "str_eq m (p + 110) name \<longleftrightarrow> fst f = name"
    using e str_eq_at [OF assms(2), of m "p + 110"] by (auto simp: file_at_def dest: str_at_unique)
  have "find_file 0 m name (next_entry p (fst f) (snd f)) = Some (Inr (map_option (\<lambda>(q, data). (q, int (data_space (length data))))
      (located (next_entry p (fst f) (snd f)) fs name)))"
    using Cons by simp
  then show ?case using entry_not_trailer [OF e] entry_sizes_entry [OF e, of True] nm data_space_zero
    by (subst find_file.simps) (simp add: next_entry_def)
qed

lemma located_data:
  assumes "cpio_at m p fs" and "located p fs name = Some (q, data)"
  shows "p \<le> q" and "mem_bytes m q (length data) = data" and "map_of (filter (\<lambda>f. snd f \<noteq> []) fs) name = Some data"
proof -
  have "p \<le> q \<and> mem_bytes m q (length data) = data \<and> map_of (filter (\<lambda>f. snd f \<noteq> []) fs) name = Some data"
    using assms
  proof (induction fs arbitrary: p)
    case (Cons f fs)
    show ?case
    proof (cases "fst f = name \<and> snd f \<noteq> []")
      case True
      then show ?thesis using Cons.prems by (auto simp: file_at_def)
    next
      case False
      moreover have "p \<le> next_entry p (fst f) (snd f)" by (simp add: next_entry_def)
      ultimately show ?thesis using Cons.IH [of "next_entry p (fst f) (snd f)"] Cons.prems by fastforce
    qed
  qed simp
  then show "p \<le> q" "mem_bytes m q (length data) = data" "map_of (filter (\<lambda>f. snd f \<noteq> []) fs) name = Some data"
    by blast+
qed

lemma located_none: "located p fs name = None \<Longrightarrow> map_of (filter (\<lambda>f. snd f \<noteq> []) fs) name = None"
  by (induction fs arbitrary: p) (auto split: if_splits)

section \<open>A small archive\<close>

text \<open>One file, \<open>a\<close>, of five bytes, and the trailer, right above the program area.\<close>

definition demo_disk :: mem where
  "demo_disk a =
     (let i = a - 0xE00000 in
      if i = 61 then 53 else if i = 101 then 50 else if i = 110 then 97 else if i = 111 then 0
      else if 112 \<le> i \<and> i < 117 then word_of_int (i - 111) else if 117 \<le> i \<and> i < 120 then 0
      else if 230 \<le> i \<and> i < 240 then TRAILER ! nat (i - 230) else if i = 240 then 0 else 48)"

lemma few_Suc: "Suc (Suc 0) = 2" "Suc (Suc (Suc (Suc (Suc 0)))) = 5"
  by simp_all

lemma digits_8: "digits 8 2 = [0, 0, 0, 0, 0, 0, 0, 2]" "digits 8 5 = [0, 0, 0, 0, 0, 0, 0, 5]"
proof -
  have e: "(8 :: nat) = Suc (Suc (Suc (Suc (Suc (Suc (Suc (Suc 0)))))))" by simp
  show "digits 8 2 = [0, 0, 0, 0, 0, 0, 0, 2]" "digits 8 5 = [0, 0, 0, 0, 0, 0, 0, 5]" unfolding e by simp_all
qed

lemma demo_disk_archive: "cpio_at demo_disk 0xE00000 [([97], [1, 2, 3, 4, 5])]"
proof -
  have f: "field_at demo_disk (0xE00000 + 94) 2" "field_at demo_disk (0xE00000 + 54) 5"
    by (simp_all add: field_at_def digits_8 mem_bytes_def upt_rec demo_disk_def hex_of_def Let_def)
  have "str_at demo_disk (0xE00000 + 230) TRAILER"
    by (simp add: TRAILER_def cstr_def demo_disk_def Let_def)
  moreover have "file_at demo_disk 0xE00000 [97] [1, 2, 3, 4, 5]"
    using f by (simp add: file_at_def name_space_def mem_bytes_def upt_rec demo_disk_def Let_def TRAILER_def cstr_def few_Suc)
  ultimately show ?thesis by (simp add: next_entry_def name_space_def data_space_def)
qed

section \<open>Properties\<close>

text \<open>C21: cpio_parse on memory that holds a newc archive gives one list element for each file, in order: a
  pointer to its name, a pointer to its data, and as its size the length of the data rounded up to a
  multiple of 4. This is so when the first byte of the local array in read_header, which is never set,
  happens to be 0; with any other value read_header writes behind the end of that array.\<close>

theorem cpio_parse_correct:
  assumes "cpio_at (bytes s) p fs" and "fs \<noteq> []" and "kstock (heap s) (length fs)"
  shows "if junk = 0 then \<exists>es s'. cpio_parse junk p s = Inr (es, s') \<and> bytes s' = bytes s \<and>
      list_all2 (\<lambda>e f. str_at (bytes s) (pathname e) (fst f) \<and> mem_bytes (bytes s) (data_ptr e) (length (snd f)) = snd f \<and>
        file_size e = data_space (length (snd f))) es fs
    else cpio_parse junk p s = Inl OutOfBounds"
proof (cases "junk = 0")
  case True
  have "kstock (heap s) (length fs + 0)" using assms(3) by simp
  then obtain h where h: "cpio_parse 0 p s = Inr (entries p fs, s\<lparr>heap := h\<rparr>)"
    by (rule cpio_parse_run [OF assms(1,2)])
  have "list_all2 (\<lambda>e f. str_at (bytes s) (pathname e) (fst f) \<and> mem_bytes (bytes s) (data_ptr e) (length (snd f)) = snd f \<and>
      file_size e = data_space (length (snd f))) (entries p fs) fs"
    using entries_hold [OF assms(1)] by (rule list_all2_mono) (simp add: holds_file_def)
  then show ?thesis using True h by auto
next
  case False
  obtain f fs' where fs: "fs = f # fs'" using assms(2) by (cases fs) auto
  then have e: "file_at (bytes s) p (fst f) (snd f)" using assms(1) by simp
  have "kstock (heap s) (Suc (length fs'))" using assms(3) fs by simp
  then obtain a h where "alloc SIZEOF_cpio_file s = Inr (a, s\<lparr>heap := h\<rparr>)"
    by (rule alloc_stock [where m = SIZEOF_cpio_file]) (simp_all add: SIZEOF_cpio_file_def)
  then have "parse_loop junk p [] s = Some (Inl OutOfBounds)"
    using entry_not_trailer [OF e] entry_sizes_junk [OF e False, of False]
    by (subst parse_loop.simps) simp
  then show ?thesis using False by (simp add: cpio_parse_def)
qed

theorem cpio_parse_correct_witness:
  "\<exists>e s'. cpio_parse 0 0xE00000 (file_state empty_pool demo_disk) = Inr ([e], s') \<and> file_size e = 8 \<and>
     mem_bytes demo_disk (data_ptr e) 5 = [1, 2, 3, 4, 5] \<and>
     cpio_parse 33 0xE00000 (file_state empty_pool demo_disk) = Inl OutOfBounds"
proof -
  let ?s = "file_state empty_pool demo_disk"
  have a: "cpio_at (bytes ?s) 0xE00000 [([97], [1, 2, 3, 4, 5])]" using demo_disk_archive by simp
  have k: "kstock (heap ?s) (length [([97 :: byte], [1, 2, 3, 4, 5 :: byte])])"
    using kstock_mono [OF empty_pool_stock, of 1] by simp
  show ?thesis
    using cpio_parse_correct [OF a _ k, of 0] cpio_parse_correct [OF a _ k, of 33]
    by (auto simp: list_all2_Cons2 data_space_def few_Suc)
qed

text \<open>load_program on an archive that lies above the program area copies the data of the first file
  with this name that is not empty to 0x900000 and returns that address; memory outside the 5 MB of the
  program area stays as it is. When there is no such file, or its padded size exceeds the area, it
  returns NULL and changes nothing.\<close>

theorem load_program_correct:
  assumes "cpio_at m p fs" and "0 \<notin> set name" and "USER_PROGRAM_SPACE + USER_PROGRAM_MAX_SIZE \<le> p"
  shows "case map_of (filter (\<lambda>f. snd f \<noteq> []) fs) name of
      None \<Rightarrow> load_program 0 p name m = Inr (None, m)
    | Some data \<Rightarrow>
        if int (data_space (length data)) > USER_PROGRAM_MAX_SIZE then load_program 0 p name m = Inr (None, m)
        else \<exists>m'. load_program 0 p name m = Inr (Some USER_PROGRAM_SPACE, m') \<and>
          mem_bytes m' USER_PROGRAM_SPACE (length data) = data \<and>
          (\<forall>a. a < USER_PROGRAM_SPACE \<or> USER_PROGRAM_SPACE + USER_PROGRAM_MAX_SIZE \<le> a \<longrightarrow> m' a = m a)"
proof (cases "located p fs name")
  case None
  then show ?thesis using find_file_run [OF assms(1,2)] located_none [OF None] by (simp add: load_program_def)
next
  case (Some qd)
  then obtain q data where l: "located p fs name = Some (q, data)" by (cases qd) auto
  note d = located_data [OF assms(1) l]
  let ?n = "data_space (length data)"
  show ?thesis
  proof (cases "int ?n > USER_PROGRAM_MAX_SIZE")
    case True
    then show ?thesis using find_file_run [OF assms(1,2)] l d(3) by (simp add: load_program_def)
  next
    case False
    let ?m = "memcpy ?n USER_PROGRAM_SPACE q m"
    have dj: "{USER_PROGRAM_SPACE..<USER_PROGRAM_SPACE + int ?n} \<inter> {q..<q + int ?n} = {}"
      using False assms(3) d(1) by auto
    have len: "length data \<le> ?n" by (simp add: data_space_def)
    have "mem_bytes ?m USER_PROGRAM_SPACE (length data) = take (length data) (mem_bytes ?m USER_PROGRAM_SPACE ?n)"
      using len by (simp add: mem_bytes_def take_map)
    also have "\<dots> = take (length data) (mem_bytes m q ?n)" using memcpy_bytes(1) [OF dj] by simp
    also have "\<dots> = data" using d(2) len by (simp add: mem_bytes_def take_map)
    finally have "mem_bytes ?m USER_PROGRAM_SPACE (length data) = data" .
    moreover have "\<forall>a. a < USER_PROGRAM_SPACE \<or> USER_PROGRAM_SPACE + USER_PROGRAM_MAX_SIZE \<le> a \<longrightarrow> ?m a = m a"
      using False by (auto simp: memcpy_inside [OF dj])
    moreover have "load_program 0 p name m = Inr (Some USER_PROGRAM_SPACE, ?m)"
      using False find_file_run [OF assms(1,2)] l by (simp add: load_program_def)
    ultimately show ?thesis using False d(3) by auto
  qed
qed

theorem load_program_correct_example:
  "\<exists>m'. load_program 0 0xE00000 [97] demo_disk = Inr (Some USER_PROGRAM_SPACE, m') \<and>
     mem_bytes m' USER_PROGRAM_SPACE 5 = [1, 2, 3, 4, 5] \<and> load_program 0 0xE00000 [98] demo_disk = Inr (None, demo_disk)"
  using load_program_correct [OF demo_disk_archive, of "[97]"] load_program_correct [OF demo_disk_archive, of "[98]"]
  by (auto simp: USER_PROGRAM_SPACE_def USER_PROGRAM_MAX_SIZE_def data_space_def few_Suc)

end
