(* ===== verification/MountClaims.thy ===== *)
theory MountClaims
  imports CpioClaims
begin

text \<open>
  Mounting the RAM disk: the files of the archive become entries of the new root, except the last one.
\<close>

section \<open>Inserting a file\<close>

text \<open>The file operations of a node are those of the RAM disk.\<close>

definition ram_ops :: "vfs \<Rightarrow> addr \<Rightarrow> bool" where
  "ram_ops s n \<longleftrightarrow> f_ops (vnodes s n) \<in> in_use s \<and> fop_table s (f_ops (vnodes s n)) = Initramfs"

definition root_inv :: "vfs \<Rightarrow> addr \<Rightarrow> addr \<Rightarrow> bool" where
  "root_inv s r d \<longleftrightarrow> component (vnodes s r) = Some d \<and> v_mount (vnodes s r) = None \<and> r \<in> in_use s \<and> dir_ok s d \<and>
     vop_table s (v_ops (vnodes s r)) = Initramfs \<and> \<not> mounted s \<and> ram_ops s r"

text \<open>The node \<open>n\<close> is the file of the element \<open>e\<close>.\<close>

definition node_file :: "vfs \<Rightarrow> addr \<Rightarrow> cpio_file \<Rightarrow> bool" where
  "node_file s n e \<longleftrightarrow> n \<in> in_use s \<and> v_mount (vnodes s n) = None \<and> ram_ops s n \<and> (\<exists>c \<in> in_use s. component (vnodes s n) = Some c \<and> c_type (comps s c) = COMP_FILE \<and>
     c_union (comps s c) = Some (data_ptr e) \<and> c_len (comps s c) = file_size e)"

lemma mem_bytes_str: "str_at m p cs \<Longrightarrow> map (\<lambda>i. m (p + int i)) [0..<length cs] = cs"
  by (intro nth_equalityI) (simp_all add: str_at_def)

lemma create_path_name:
  assumes "proper c" and "length c < NAME_LEN"
  shows "create_path 0 c dir t s = mkdir_all [c] (Some dir) t s"
proof -
  have "StringProps.fields SLASH c = [c]" using assms(1) by (simp add: fields_none proper_def)
  moreover have "length c < TMPFS_MAX_PATH_LEN" using assms(2) by (simp add: NAME_LEN_def TMPFS_MAX_PATH_LEN_def)
  ultimately show ?thesis by (simp add: create_path_def fit_def split_path_def VFS_MAX_DEPTH_def)
qed

lemma insert_file_run:
  assumes inv: "root_inv s r d" and str: "str_at (bytes s) (pathname e) name" and name: "proper name" "length name < NAME_LEN"
    and new: "map_of (dir_view s d) name = None" and room: "c_len (comps s d) < TMPFS_MAX_ENTRY"
    and st: "kstock (heap s) (Suc (Suc (Suc (Suc k))))"
  shows "\<exists>node s'. insert_file 0 r e t s = Inr (Some node, s') \<and> root_inv s' r d \<and> kstock (heap s') k \<and>
    dir_view s' d = dir_view s d @ [(name, node)] \<and> node_file s' node e \<and>
    (\<forall>n e. node_file s n e \<longrightarrow> node_file s' n e) \<and> bytes s' = bytes s \<and> mounts s' = mounts s \<and> extends d s s'"
proof -
  have i: "component (vnodes s r) = Some d" "v_mount (vnodes s r) = None" "r \<in> in_use s" "dir_ok s d"
    "vop_table s (v_ops (vnodes s r)) = Initramfs" "\<not> mounted s" "ram_ops s r"
    using inv by (simp_all add: root_inv_def)
  have ct: "c_type (comps s d) = COMP_DIR" by (rule dir_okD(1) [OF i(4)])
  have "skip_slash name = rest_of [name]" using skip_slash_rest [of "[name]"] name(1) by (simp add: rest_of_def)
  then have lk: "lookup_path 0 name r t 1 s = Some (rbind (tmpfs_mkdir r t name s) (\<lambda>((x, t), s). Inr ((0, t), s)))"
    using lookup_path_create [OF name(1) _ _ i(2,1) ct, of "[]" name 0 t] create_path_name [OF name, of r t s] i(5,6) name(1)
    by (simp add: v_mkdir_def initramfs_mkdir_def proper_def split_def)
  obtain node c s1 where n: "tmpfs_mkdir r t name s = Inr ((0, Some node), s1)" "component (vnodes s1 node) = Some c"
    "node \<in> in_use s1" "c \<in> in_use s1" "c \<notin> in_use s" "c \<noteq> d" "kstock (heap s1) k" "extends d s s1"
    "component (vnodes s1 r) = Some d" "dir_ok s1 d" "dir_view s1 d = dir_view s d @ [(name, node)]"
    "v_mount (vnodes s1 node) = None" "f_ops (vnodes s1 node) = f_ops (vnodes s r)"
    using tmpfs_mkdir_new [OF i(1,3,4) st name(2) new room, of t] by blast
  note x = extendsD [OF n(8)]
  let ?s = "upd_comp c (\<lambda>x. x\<lparr>c_type := COMP_FILE, c_union := Some (data_ptr e), c_len := file_size e\<rparr>) s1"
  have "insert_file 0 r e t s = Inr (Some node, ?s)"
    using lk n(1,2) strlen_str [OF str] mem_bytes_str [OF str] by (simp add: insert_file_def)
  moreover have "dir_view ?s d = dir_view s1 d" "dir_ok ?s d"
    using dir_view_upd_comp [OF n(6)] dir_ok_upd_comp [OF n(6,10)] by simp_all
  moreover have use: "in_use ?s = in_use s1" "vnodes ?s = vnodes s1" by (simp_all add: in_use_def upd_comp_def)
  moreover have fo: "fop_table ?s = fop_table s" using x(9) by (simp add: upd_comp_def)
  have ops: "ram_ops ?s r" "ram_ops ?s node"
    using i(7) x(1,2) [OF i(3)] x(1) use n(13) fo by (auto simp: ram_ops_def)
  moreover have "root_inv ?s r d"
    using calculation(3) ops use n(9) x(1,2) [OF i(3)] x(5,8) i(2,5,6) by (simp add: root_inv_def) (simp add: upd_comp_def)
  moreover have "node_file ?s node e"
    using n(2-4,12) use ops by (simp add: node_file_def) (simp add: upd_comp_def)
  moreover have "node_file ?s m f" if "node_file s m f" for m f
  proof -
    obtain b where b: "m \<in> in_use s" "v_mount (vnodes s m) = None" "b \<in> in_use s" "component (vnodes s m) = Some b" "c_type (comps s b) = COMP_FILE"
      "c_union (comps s b) = Some (data_ptr f)" "c_len (comps s b) = file_size f" "ram_ops s m"
      using \<open>node_file s m f\<close> by (auto simp: node_file_def)
    then have "b \<noteq> d" "b \<noteq> c" using ct n(5) by auto
    then have "comps ?s b = comps s b" using x(3) [OF b(3)] by (simp add: upd_comp_def)
    moreover have "ram_ops ?s m" using b(8) x(1) x(2) [OF b(1)] use fo by (simp add: ram_ops_def)
    ultimately show ?thesis using b use x(1) [OF b(1)] x(1) [OF b(3)] x(2) [OF b(1)] by (simp add: node_file_def)
  qed
  moreover have "kstock (heap ?s) k" "bytes ?s = bytes s" "mounts ?s = mounts s"
    using n(7) x(4,6) by (simp_all add: upd_comp_def)
  moreover have "extends d s ?s" using n(5,6,8) by (auto simp: extends_def upd_comp_def in_use_def)
  ultimately show ?thesis using n(11) by (intro exI [of _ node] exI [of _ ?s]) simp
qed

section \<open>Inserting all files\<close>

lemma insert_files_run:
  assumes "root_inv s r d" and "list_all2 (holds_file (bytes s)) es fs" and "\<forall>f \<in> set fs. proper (fst f) \<and> length (fst f) < NAME_LEN \<and> snd f \<noteq> []"
    and "distinct (map fst (dir_view s d) @ map fst fs)" and "length (dir_view s d) + length fs \<le> TMPFS_MAX_ENTRY"
    and "kstock (heap s) (4 * length fs + k)"
  shows "\<exists>s' ns. insert_files (\<lambda>_. 0) i r es t s = Inr s' \<and> root_inv s' r d \<and>
    dir_view s' d = dir_view s d @ zip (map fst fs) ns \<and> list_all2 (node_file s') ns es \<and>
    (\<forall>n e. node_file s n e \<longrightarrow> node_file s' n e) \<and> bytes s' = bytes s \<and> mounts s' = mounts s \<and> extends d s s' \<and>
    kstock (heap s') k"
  using assms
proof (induction fs arbitrary: s es i t)
  case Nil
  then show ?case by (intro exI [of _ s] exI [of _ "[]"]) (simp add: extends_def)
next
  case (Cons f fs)
  obtain e es' where es: "es = e # es'" "holds_file (bytes s) e f" "list_all2 (holds_file (bytes s)) es' fs"
    using Cons.prems(2) by (auto simp: list_all2_Cons2)
  have str: "str_at (bytes s) (pathname e) (fst f)" and size: "file_size e \<noteq> 0"
    using es(2) Cons.prems(3) data_space_zero by (auto simp: holds_file_def)
  have ok: "dir_ok s d" using Cons.prems(1) by (simp add: root_inv_def)
  have len: "length (dir_view s d) = c_len (comps s d)" using ok by (simp add: dir_view_def)
  have "fst f \<notin> fst ` set (dir_view s d)" using Cons.prems(4) by auto
  then have new: "map_of (dir_view s d) (fst f) = None" by (simp add: map_of_eq_None_iff)
  have room: "c_len (comps s d) < TMPFS_MAX_ENTRY" using Cons.prems(5) len by simp
  have st: "kstock (heap s) (Suc (Suc (Suc (Suc (4 * length fs + k)))))" using Cons.prems(6) by (simp add: numeral_eq_Suc)
  obtain node s1 where n: "insert_file 0 r e t s = Inr (Some node, s1)" "root_inv s1 r d" "kstock (heap s1) (4 * length fs + k)"
    "dir_view s1 d = dir_view s d @ [(fst f, node)]" "node_file s1 node e" "\<forall>n e. node_file s n e \<longrightarrow> node_file s1 n e"
    "bytes s1 = bytes s" "mounts s1 = mounts s" "extends d s s1"
    using insert_file_run [OF Cons.prems(1) str _ _ new room st, of t] Cons.prems(3) by auto
  have "\<exists>s' ns. insert_files (\<lambda>_. 0) (i + 1) r es' (Some node) s1 = Inr s' \<and> root_inv s' r d \<and>
    dir_view s' d = dir_view s1 d @ zip (map fst fs) ns \<and> list_all2 (node_file s') ns es' \<and>
    (\<forall>n e. node_file s1 n e \<longrightarrow> node_file s' n e) \<and> bytes s' = bytes s1 \<and> mounts s' = mounts s1 \<and> extends d s1 s' \<and> kstock (heap s') k"
    by (rule Cons.IH [OF n(2) _ _ _ _ n(3)]) (use es(3) n(4,7) Cons.prems(3-5) in auto)
  then obtain s' ns where r: "insert_files (\<lambda>_. 0) (i + 1) r es' (Some node) s1 = Inr s'" "root_inv s' r d"
    "dir_view s' d = dir_view s1 d @ zip (map fst fs) ns" "list_all2 (node_file s') ns es'"
    "\<forall>n e. node_file s1 n e \<longrightarrow> node_file s' n e" "bytes s' = bytes s1" "mounts s' = mounts s1" "extends d s1 s'" "kstock (heap s') k"
    by blast
  show ?case
    using r n(1,4-8) es(1) size extends_trans [OF n(9) r(8)] by (intro exI [of _ s'] exI [of _ "node # ns"]) simp
qed

section \<open>Property\<close>

lemma root_inv_heap: "root_inv s r d \<Longrightarrow> in_use s \<subseteq> fst ` blocks h \<Longrightarrow> root_inv (s\<lparr>heap := h\<rparr>) r d"
proof -
  assume inv: "root_inv s r d" and sub: "in_use s \<subseteq> fst ` blocks h"
  have "entries_of (s\<lparr>heap := h\<rparr>) d = entries_of s d" by (simp add: entries_of_def cong: option.case_cong)
  moreover have "in_use (s\<lparr>heap := h\<rparr>) = fst ` blocks h" by (simp add: in_use_def)
  ultimately have "dir_ok (s\<lparr>heap := h\<rparr>) d"
    using inv sub unfolding root_inv_def dir_ok_def by (auto split: option.splits) blast+
  then show ?thesis using inv sub \<open>in_use (s\<lparr>heap := h\<rparr>) = _\<close> by (auto simp: root_inv_def ram_ops_def)
qed

lemma node_file_contents:
  assumes "node_file s n e" and "holds_file (bytes s) e f"
  shows "ram_ops s n \<and> (\<exists>c. component (vnodes s n) = Some c \<and> c_type (comps s c) = COMP_FILE \<and>
    c_len (comps s c) = data_space (length (snd f)) \<and> take (length (snd f)) (contents s c) = snd f)"
proof -
  have "length (snd f) \<le> data_space (length (snd f))" by (simp add: data_space_def)
  then have "take (length (snd f)) (mem_bytes (bytes s) (data_ptr e) (data_space (length (snd f)))) = snd f"
    using assms(2) by (simp add: holds_file_def mem_bytes_def take_map)
  then show ?thesis using assms by (auto simp: node_file_def holds_file_def contents_def)
qed

lemma list_all2_butlast: "list_all2 P xs ys \<Longrightarrow> list_all2 P (butlast xs) (butlast ys)"
  by (simp add: list_all2_conv_all_nth nth_butlast)

lemma initramfs_setup_run:
  assumes a: "cpio_at (bytes s) p fs" and ne: "fs \<noteq> []"
    and names: "\<forall>f \<in> set fs. proper (fst f) \<and> length (fst f) < NAME_LEN \<and> snd f \<noteq> []" "distinct (map fst fs)"
    and len: "length fs \<le> 17" and st: "kstock (heap s) (5 * length fs + 4 + k)" and fresh: "\<not> mounted s"
  obtains root d s' ns where "initramfs_setup_mount 0 (\<lambda>_. 0) p m s = Inr (0, s'\<lparr>mounted := True\<rparr>)" and "root_inv s' root d"
    and "m_root (mounts s' m) = Some root" and "dir_view s' d = zip (map fst (butlast fs)) ns"
    and "list_all2 (node_file s') ns (butlast (entries p fs))"
    and "list_all2 (holds_file (bytes s')) (butlast (entries p fs)) (butlast fs)"
    and "adds m s s'" and "kstock (heap s') k" and "root \<notin> in_use s" and "d \<notin> in_use s"
    and "\<forall>e \<in> in_use s. c_union (comps s' d) \<noteq> Some e"
proof -
  have "kstock (heap s) (Suc (Suc (Suc (Suc (5 * length fs + k)))))" using st by (simp add: numeral_eq_Suc)
  then obtain root d s1 where r: "fresh_root Initramfs m s = Inr (root, s1)" "component (vnodes s1 root) = Some d"
    "root \<in> in_use s1" "dir_ok s1 d" "dir_view s1 d = []" "kstock (heap s1) (5 * length fs + k)" "m_root (mounts s1 m) = Some root"
    "v_mount (vnodes s1 root) = None" "vop_table s1 (v_ops (vnodes s1 root)) = Initramfs" "bytes s1 = bytes s" "mounted s1 = mounted s" "ram_ops s1 root"
    and r': "adds m s s1" "root \<notin> in_use s" "d \<notin> in_use s" "c_union (comps s1 d) = None"
    using fresh_root_run [of s "5 * length fs + k" Initramfs m] unfolding ram_ops_def by blast
  have st1: "kstock (heap s1) (length fs + (4 * length fs + k))" using r(6) by (simp add: add.assoc)
  obtain h where h: "cpio_parse 0 p s1 = Inr (entries p fs, s1\<lparr>heap := h\<rparr>)" "kstock h (4 * length fs + k)" "in_use s1 \<subseteq> fst ` blocks h"
    by (rule cpio_parse_run [OF _ ne st1]) (use a r(10) in simp_all)
  let ?s2 = "s1\<lparr>heap := h\<rparr>" and ?fs = "butlast fs"
  have inv: "root_inv ?s2 root d"
    by (rule root_inv_heap) (use r fresh h(3) in \<open>simp_all add: root_inv_def ram_ops_def\<close>)
  have view: "dir_view ?s2 d = []"
    using r(5) by (simp add: dir_view_def entries_of_def split: option.splits)
  have "list_all2 (holds_file (bytes ?s2)) (entries p fs) fs" using entries_hold [OF a] r(10) by simp
  then have hold: "list_all2 (holds_file (bytes ?s2)) (butlast (entries p fs)) ?fs" by (rule list_all2_butlast)
  have lb: "length ?fs \<le> TMPFS_MAX_ENTRY" using len by (simp add: TMPFS_MAX_ENTRY_def)
  have "distinct (map fst ?fs)" using names(2) by (simp add: map_butlast distinct_butlast)
  moreover have "\<forall>f \<in> set ?fs. proper (fst f) \<and> length (fst f) < NAME_LEN \<and> snd f \<noteq> []"
    using names(1) by (auto dest: in_set_butlastD)
  moreover have "kstock (heap ?s2) (4 * length ?fs + k)" by (rule kstock_mono [of _ "4 * length fs + k"]) (use h(2) in simp_all)
  ultimately obtain s3 ns where i: "insert_files (\<lambda>_. 0) 0 root (butlast (entries p fs)) None ?s2 = Inr s3" "root_inv s3 root d"
    "dir_view s3 d = dir_view ?s2 d @ zip (map fst ?fs) ns" "list_all2 (node_file s3) ns (butlast (entries p fs))"
    "bytes s3 = bytes ?s2" "mounts s3 = mounts ?s2" "extends d ?s2 s3" "kstock (heap s3) k"
    using insert_files_run [OF inv hold, of k 0 None] view lb by auto
  have "initramfs_setup_mount 0 (\<lambda>_. 0) p m s = Inr (0, s3\<lparr>mounted := True\<rparr>)"
    using r(1,11) fresh h(1) i(1) by (simp add: initramfs_setup_mount_def)
  moreover have "adds m s ?s2" by (rule adds_trans [OF r'(1)]) (use h(3) in \<open>auto simp: adds_def in_use_def\<close>)
  then have "adds m s s3" by (rule adds_extends [OF _ i(7) r'(3)]) (use r'(4) in simp)
  moreover have "list_all2 (holds_file (bytes s3)) (butlast (entries p fs)) ?fs" using hold i(5) by simp
  moreover have "c_union (comps s3 d) \<noteq> Some e" if "e \<in> in_use s" for e
  proof -
    have "e \<in> in_use ?s2" using that addsD(1) [OF r'(1)] h(3) by (auto simp: in_use_def)
    then show ?thesis using extendsD(10) [OF i(7)] r'(4) by simp
  qed
  ultimately show thesis using that [of s3 root d ns] i r(7) view r'(2,3) by simp
qed

text \<open>C22: Mounting the RAM disk (when the uninitialised variables that are involved hold 0) on an archive of
  at most 17 files with distinct proper names of less than 16 bytes and with data: the new root holds,
  in order, all files of the archive except the last one, which is left out. Each starts with the data
  of its archive member; its length is that of the data rounded up to a multiple of 4.\<close>

theorem initramfs_mount_correct:
  assumes a: "cpio_at (bytes s) p fs" and ne: "fs \<noteq> []"
    and names: "\<forall>f \<in> set fs. proper (fst f) \<and> length (fst f) < NAME_LEN \<and> snd f \<noteq> []" "distinct (map fst fs)"
    and len: "length fs \<le> 17" and st: "kstock (heap s) (5 * length fs + 4)" and fresh: "\<not> mounted s"
  shows "\<exists>root d s' ns. initramfs_setup_mount 0 (\<lambda>_. 0) p m s = Inr (0, s') \<and> mounted s' \<and>
    m_root (mounts s' m) = Some root \<and> component (vnodes s' root) = Some d \<and>
    dir_view s' d = zip (map fst (butlast fs)) ns \<and>
    list_all2 (\<lambda>n f. \<exists>c. component (vnodes s' n) = Some c \<and> c_type (comps s' c) = COMP_FILE \<and>
      c_len (comps s' c) = data_space (length (snd f)) \<and> take (length (snd f)) (contents s' c) = snd f) ns (butlast fs)"
proof -
  obtain root d s3 ns where i: "initramfs_setup_mount 0 (\<lambda>_. 0) p m s = Inr (0, s3\<lparr>mounted := True\<rparr>)" "root_inv s3 root d"
    "m_root (mounts s3 m) = Some root" "dir_view s3 d = zip (map fst (butlast fs)) ns"
    "list_all2 (node_file s3) ns (butlast (entries p fs))" "list_all2 (holds_file (bytes s3)) (butlast (entries p fs)) (butlast fs)"
    by (rule initramfs_setup_run [OF a ne names len _ fresh, of 0 m]) (use st in auto)
  let ?s' = "s3\<lparr>mounted := True\<rparr>"
  have "dir_view ?s' d = zip (map fst (butlast fs)) ns"
    using i(4) by (simp add: dir_view_def node_name_def [abs_def] entries_of_def cong: option.case_cong)
  moreover have "list_all2 (\<lambda>n f. \<exists>c. component (vnodes ?s' n) = Some c \<and> c_type (comps ?s' c) = COMP_FILE \<and>
      c_len (comps ?s' c) = data_space (length (snd f)) \<and> take (length (snd f)) (contents ?s' c) = snd f) ns (butlast fs)"
  proof -
    have c: "contents ?s' c = contents s3 c" for c by (simp add: contents_def cong: option.case_cong)
    have "list_all2 (\<lambda>n f. \<exists>c. component (vnodes s3 n) = Some c \<and> c_type (comps s3 c) = COMP_FILE \<and>
        c_len (comps s3 c) = data_space (length (snd f)) \<and> take (length (snd f)) (contents s3 c) = snd f) ns (butlast fs)"
      by (rule list_all2_trans [OF _ i(5,6)]) (use node_file_contents in blast)
    then show ?thesis unfolding c by simp
  qed
  ultimately show ?thesis using i(1-3)
    by (intro exI [of _ root] exI [of _ d] exI [of _ ?s'] exI [of _ ns]) (simp add: root_inv_def)
qed

text \<open>The archive with the only file \<open>a\<close> becomes an empty directory.\<close>

theorem initramfs_mount_correct_witness:
  "\<exists>root d s'. initramfs_setup_mount 0 (\<lambda>_. 0) 0xE00000 7 (file_state empty_pool demo_disk) = Inr (0, s') \<and>
     m_root (mounts s' 7) = Some root \<and> component (vnodes s' root) = Some d \<and> dir_view s' d = []"
proof -
  let ?s = "file_state empty_pool demo_disk"
  have "\<exists>root d s' ns. initramfs_setup_mount 0 (\<lambda>_. 0) 0xE00000 7 ?s = Inr (0, s') \<and> mounted s' \<and>
    m_root (mounts s' 7) = Some root \<and> component (vnodes s' root) = Some d \<and>
    dir_view s' d = zip (map fst (butlast [([97 :: byte], [1, 2, 3, 4, 5 :: byte])])) ns \<and>
    list_all2 (\<lambda>n f. \<exists>c. component (vnodes s' n) = Some c \<and> c_type (comps s' c) = COMP_FILE \<and>
      c_len (comps s' c) = data_space (length (snd f)) \<and> take (length (snd f)) (contents s' c) = snd f) ns
      (butlast [([97 :: byte], [1, 2, 3, 4, 5 :: byte])])"
    by (rule initramfs_mount_correct)
      (use demo_disk_archive kstock_mono [OF empty_pool_stock, of 9] in
        \<open>simp_all add: proper_def SLASH_def TMPFS_MAX_COMPONENT_NAME_def NAME_LEN_def\<close>, simp add: file_state_def)
  then show ?thesis by auto
qed

end
