(* ===== verification/PageInitClaims.thy ===== *)
theory PageInitClaims
  imports PageBoot Kmalloc
begin

text \<open>
  \<open>page_init\<close> as a whole: seven reservations one after the other, of which each must not end where the earlier
  ones made a block start, and what is left of the memory. Cutting the frames at a page makes blocks
  start at this page rounded down and up to powers of two, so that this is a condition on the ranges alone.
\<close>

section \<open>A list of reservations\<close>

primrec reserve_all :: "nat \<Rightarrow> (nat \<times> nat) list \<Rightarrow> page_state \<Rightarrow> page_state res" where
  "reserve_all fuel [] s = Inr s"
| "reserve_all fuel (r # rs) s = rbind (memory_reserve fuel (fst r) (snd r) s) (reserve_all fuel rs)"

text \<open>The calls of \<open>page_init\<close>, in its order: the array of frames, the spin table, the kernel, its stack, the RAM disk, the device
  tree, the user program.\<close>

definition boot_ranges :: "boot_layout \<Rightarrow> (nat \<times> nat) list" where
  "boot_ranges b = [(heap_top b, heap_top b + nat PAGE_MAX_ENTRY * SIZEOF_frame_info), (0x0000, 0x1000),
     (kernel_start b, kernel_end b), (u64 (int (kernel_start b) - 0x2000), u64 (int (kernel_start b) - 0x1000)),
     (cpio_place b, u64 (int (cpio_place_end b) + 0x1000)), (dtb_start b, u64 (int (dtb_start b + dtb_len b))),
     (USER_PROGRAM_SPACE, USER_PROGRAM_SPACE + USER_PROGRAM_MAX_SIZE)]"

lemma reserve_all_snoc: "reserve_all fuel (xs @ [r]) s = rbind (reserve_all fuel xs s) (memory_reserve fuel (fst r) (snd r))"
proof (induction xs arbitrary: s)
  case Nil
  show ?case by (cases "memory_reserve fuel (fst r) (snd r) s") simp_all
qed (auto simp: rbind_assoc intro: rbind_cong)

lemma page_init_reserves:
  "page_init fuel b s =
     rbind (init_loop 0 PAGE_MAX_ENTRY s) (\<lambda>s. rbind (reserve_all fuel (boot_ranges b) s) (\<lambda>s.
     rbind (enlist_loop 0 PAGE_MAX_ENTRY s) (\<lambda>s. Inr (snd (simple_malloc (nat PAGE_MAX_ENTRY * SIZEOF_frame_info) b), s))))"
  by (simp add: page_init_def boot_ranges_def simple_malloc_def Let_def rbind_assoc)

definition page_range :: "nat \<times> nat \<Rightarrow> int \<times> int" where
  "page_range r = (int (fst r div 4096), int (snd r div 4096))"

abbreviation pages_in :: "int \<times> int \<Rightarrow> int set" where
  "pages_in r \<equiv> {fst r..snd r}"

definition boot_heads :: "int list" where
  "boot_heads = [0, 65536, 131072, 196608, 229376]"

text \<open>No block starts at the last page \<open>b\<close> of the range, whose first page is \<open>a\<close>, when the frames were cut at the pages
  \<open>cuts\<close> before.\<close>

definition end_ok :: "int list \<Rightarrow> int \<times> int \<Rightarrow> bool" where
  "end_ok cuts r \<longleftrightarrow> snd r = fst r \<or> snd r \<notin> set boot_heads \<and> \<not> cut_at (fst r) (snd r) \<and> (\<forall>p \<in> set cuts. \<not> rounded p (snd r))"

primrec ranges_ok :: "int list \<Rightarrow> (int \<times> int) list \<Rightarrow> bool" where
  "ranges_ok cuts [] \<longleftrightarrow> True"
| "ranges_ok cuts (r # rs) \<longleftrightarrow> fst r \<le> snd r \<and> snd r < PAGE_MAX_ENTRY \<and> (\<forall>r' \<in> set rs. snd r < fst r' \<or> snd r' < fst r) \<and>
     end_ok cuts r \<and> ranges_ok (fst r # (snd r + 1) # cuts) rs"

definition layout_ok :: "boot_layout \<Rightarrow> bool" where
  "layout_ok b \<longleftrightarrow> ranges_ok [] (map page_range (boot_ranges b))"

lemma reserve_all_run:
  assumes "reservable (frame s)" and "\<forall>r \<in> set rs. pages_in (page_range r) \<subseteq> free_pages (frame s)"
    and "\<forall>c. block_head (frame s) c \<longrightarrow> c \<in> set boot_heads \<or> (\<exists>p \<in> set cuts. rounded p c)"
    and "ranges_ok cuts (map page_range rs)" and "nat PAGE_MAX_ENTRY \<le> fuel"
  shows "\<exists>fr. reserve_all fuel rs s = Inr (s\<lparr>frame := fr\<rparr>) \<and> reservable fr \<and>
    free_pages fr = free_pages (frame s) - (\<Union>r \<in> set rs. pages_in (page_range r))"
  using assms
proof (induction rs arbitrary: s cuts)
  case Nil
  then show ?case by (intro exI [of _ "frame s"]) simp
next
  case (Cons r rs)
  let ?a = "fst (page_range r)" and ?b = "snd (page_range r)"
  have ab: "?a = int (fst r div 4096)" "?b = int (snd r div 4096)" by (simp_all add: page_range_def)
  have ok: "?a \<le> ?b" "?b < PAGE_MAX_ENTRY" "end_ok cuts (page_range r)" "ranges_ok (?a # (?b + 1) # cuts) (map page_range rs)"
    and apart: "r' \<in> set rs \<Longrightarrow> ?b < fst (page_range r') \<or> snd (page_range r') < ?a" for r'
    using Cons.prems(4) by auto
  have free: "{?a..?b} \<subseteq> free_pages (frame s)" using Cons.prems(2) by simp
  have e: "?b = ?a \<or> \<not> block_head (frame s) ?b \<and> \<not> cut_at ?a ?b"
    using ok(3) Cons.prems(3) unfolding end_ok_def by blast
  have fu: "?b - ?a < int fuel" "17 \<le> fuel" using ok(2) Cons.prems(5) ab(1) by (simp_all add: PAGE_MAX_ENTRY_def)
  obtain fr where fr: "memory_reserve fuel (fst r) (snd r) s = Inr (s\<lparr>frame := fr\<rparr>)" "reservable fr"
    "free_pages fr = free_pages (frame s) - {?a..?b}"
    "\<forall>c. block_head fr c \<longrightarrow> block_head (frame s) c \<or> rounded ?a c \<or> rounded (?b + 1) c"
    using memory_reserve_run [OF Cons.prems(1) ab ok(1) free e fu] by blast
  let ?s = "s\<lparr>frame := fr\<rparr>"
  have sub: "\<forall>r' \<in> set rs. pages_in (page_range r') \<subseteq> free_pages (frame ?s)"
  proof
    fix r' assume r': "r' \<in> set rs"
    then have "pages_in (page_range r') \<subseteq> free_pages (frame s)" using Cons.prems(2) by simp
    moreover have "pages_in (page_range r') \<inter> {?a..?b} = {}" using apart [OF r'] by auto
    ultimately show "pages_in (page_range r') \<subseteq> free_pages (frame ?s)" using fr(3) by auto
  qed
  have heads: "\<forall>c. block_head (frame ?s) c \<longrightarrow> c \<in> set boot_heads \<or> (\<exists>p \<in> set (?a # (?b + 1) # cuts). rounded p c)"
    using fr(4) Cons.prems(3) by auto
  have "reservable (frame ?s)" using fr(2) by simp
  from Cons.IH [OF this sub heads ok(4) Cons.prems(5)] obtain fr' where "reserve_all fuel rs ?s = Inr (?s\<lparr>frame := fr'\<rparr>)" "reservable fr'"
    "free_pages fr' = free_pages (frame ?s) - (\<Union>r \<in> set rs. pages_in (page_range r))"
    by blast
  then show ?case using fr(1,3) by (intro exI [of _ fr']) auto
qed

text \<open>The frames after the first loop.\<close>

lemma init_frames:
  obtains f0 where "init_loop 0 PAGE_MAX_ENTRY s = Inr (s\<lparr>frame := f0\<rparr>)" and "reservable f0" and "free_pages f0 = {0..<PAGE_MAX_ENTRY}"
    and "\<forall>c. block_head f0 c \<longrightarrow> c \<in> set boot_heads \<or> (\<exists>p \<in> set []. rounded p c)"
proof -
  define f0 where "f0 = (\<lambda>j. if 0 \<le> j \<and> j < PAGE_MAX_ENTRY then boot_frames j else frame s j)"
  have r0: "reservable f0" by (rule reservable_cong [OF boot_reservable]) (simp add: f0_def)
  have free: "free_pages f0 = {0..<PAGE_MAX_ENTRY}"
    by (rule all_free_pages [OF reservableD(1) [OF r0]]) (simp add: f0_def boot_frames_def)
  have "block_head boot_frames c \<longleftrightarrow> c \<in> {0, 65536, 131072, 196608, 229376}" for c
    by (rule boot_block_head) (simp add: boot_frames_def)
  moreover have "block_head f0 c \<longleftrightarrow> block_head boot_frames c" for c by (rule block_head_cong) (simp add: f0_def)
  ultimately have heads: "\<forall>c. block_head f0 c \<longrightarrow> c \<in> set boot_heads \<or> (\<exists>p \<in> set []. rounded p c)" by (simp add: boot_heads_def)
  show thesis by (rule that [OF _ r0 free heads]) (simp only: f0_def init_loop_run)
qed

lemma ranges_inside: "ranges_ok cuts (map page_range rs) \<Longrightarrow> r \<in> set rs \<Longrightarrow> pages_in (page_range r) \<subseteq> {0..<PAGE_MAX_ENTRY}"
  by (induction rs arbitrary: cuts) (auto simp: page_range_def)

lemma page_init_run:
  assumes ok: "layout_ok b" and lists: "\<And>l. page_list s l = None" and fuel: "nat PAGE_MAX_ENTRY \<le> fuel"
  obtains s' L where "page_init fuel b s = Inr (snd (simple_malloc (nat PAGE_MAX_ENTRY * SIZEOF_frame_info) b), s')" and "page_inv s' L"
    and "free_pages (frame s') = {0..<PAGE_MAX_ENTRY} - (\<Union>r \<in> set (boot_ranges b). pages_in (page_range r))"
proof -
  obtain f0 where f0: "init_loop 0 PAGE_MAX_ENTRY s = Inr (s\<lparr>frame := f0\<rparr>)" "reservable f0" "free_pages f0 = {0..<PAGE_MAX_ENTRY}"
    "\<forall>c. block_head f0 c \<longrightarrow> c \<in> set boot_heads \<or> (\<exists>p \<in> set []. rounded p c)"
    by (rule init_frames)
  let ?s = "s\<lparr>frame := f0\<rparr>"
  have "\<forall>r \<in> set (boot_ranges b). pages_in (page_range r) \<subseteq> free_pages (frame ?s)"
    using ranges_inside [OF ok [unfolded layout_ok_def]] f0(3) by simp
  from reserve_all_run [OF _ this _ ok [unfolded layout_ok_def] fuel] obtain fr where
    fr: "reserve_all fuel (boot_ranges b) ?s = Inr (?s\<lparr>frame := fr\<rparr>)" "reservable fr"
    "free_pages fr = {0..<PAGE_MAX_ENTRY} - (\<Union>r \<in> set (boot_ranges b). pages_in (page_range r))"
    using f0(2-4) by auto
  let ?s' = "?s\<lparr>frame := fr\<rparr>"
  have til: "tiling (frame ?s')" using reservableD(1) [OF fr(2)] by simp
  obtain i where "block_head fr i" "i \<le> 0" using tilingD_cover [of fr 0] til by (auto simp: PAGE_MAX_ENTRY_def)
  moreover from this have "i = 0" by (simp add: block_head_def)
  ultimately have hd0: "block_head (frame ?s') 0" by simp
  have "lists_rep ?s' (\<lambda>_. [])" by (rule lists_repI) (use lists in simp_all)
  moreover have "tails_ok ?s' (\<lambda>_. [])" by (rule tails_okI) simp
  ultimately have "enlisted 0 ?s' (\<lambda>_. [])" by (auto simp: enlisted_def free_head_def block_head_def)
  then obtain s' L where e: "enlist_loop 0 PAGE_MAX_ENTRY ?s' = Inr s'" "frame s' = frame ?s'" "page_inv s' L"
    using enlist_loop_run [OF til, of 0 "\<lambda>_. []" PAGE_MAX_ENTRY] hd0 by (auto simp: PAGE_MAX_ENTRY_def)
  have "page_init fuel b s = Inr (snd (simple_malloc (nat PAGE_MAX_ENTRY * SIZEOF_frame_info) b), s')"
    using f0(1) fr(1) e(1) by (simp add: page_init_reserves)
  then show thesis using that e(2,3) fr(3) by simp
qed

section \<open>What is left in small blocks\<close>

text \<open>A free page lies in a block of order 5 at most, when not all of the aligned 64 pages around it are free.\<close>

abbreviation group :: "int \<Rightarrow> int set" where
  "group p \<equiv> {p div 64 * 64..<p div 64 * 64 + 64}"

lemma small_block:
  assumes til: "tiling fr" and fh: "free_head fr l i" and p: "i \<le> p" "p < i + 2 ^ nat l" and part: "\<not> group p \<subseteq> free_pages fr"
  shows "l \<le> 5"
proof (rule ccontr)
  assume "\<not> l \<le> 5"
  then have "6 \<le> nat l" by simp
  then have "(2::int) ^ 6 dvd 2 ^ nat l" by (rule le_imp_power_dvd)
  then have d: "(64::int) dvd 2 ^ nat l" by simp
  then have "64 dvd i" using free_head_bounds(5) [OF til fh] by (rule dvd_trans)
  with d obtain c d where c: "i = 64 * c" "2 ^ nat l = 64 * (d :: int)" by (elim dvdE)
  have "64 * (p div 64) \<le> p" "p < 64 * (p div 64) + 64" by auto
  then have "c \<le> p div 64" "p div 64 + 1 \<le> c + d" using p c by linarith+
  then have "i \<le> p div 64 * 64" "p div 64 * 64 + 64 \<le> i + 2 ^ nat l" using c by linarith+
  then have "group p \<subseteq> free_pages fr" using fh by (auto intro: free_pagesI)
  then show False using part by blast
qed

lemma stock_covers:
  assumes inv: "page_inv s L" and X: "X \<subseteq> free_pages (frame s)" "\<And>p. p \<in> X \<Longrightarrow> \<not> group p \<subseteq> free_pages (frame s)"
  shows "card X \<le> stock L"
proof -
  have til: "tiling (frame s)" and lists: "i \<in> set (L l) \<longleftrightarrow> free_head (frame s) l i" for l i
    using inv by (simp_all add: page_inv_def)
  let ?pages = "\<lambda>l. \<Union>i \<in> set (L l). {i..<i + 2 ^ nat l}"
  have len: "card (?pages l) \<le> length (L l) * 2 ^ nat l" for l
  proof -
    have "card (?pages l) \<le> (\<Sum>i \<in> set (L l). card {i..<i + 2 ^ nat l})" by (rule card_UN_le) simp
    also have "\<dots> = card (set (L l)) * 2 ^ nat l" by (simp add: nat_power_eq)
    also have "\<dots> \<le> length (L l) * 2 ^ nat l" by (simp add: card_length)
    finally show ?thesis .
  qed
  have "X \<subseteq> (\<Union>l \<in> {0..5}. ?pages l)"
  proof
    fix p assume p: "p \<in> X"
    then obtain l i where f: "free_head (frame s) l i" "i \<le> p" "p < i + 2 ^ nat l" using X(1) by (blast elim: free_pagesE)
    then have "l \<le> 5" using small_block [OF til f] X(2) [OF p] by blast
    moreover have "0 \<le> l" by (rule free_head_bounds(1) [OF til f(1)])
    ultimately have "l \<in> {0..5}" by simp
    moreover have "p \<in> ?pages l" using f lists by auto
    ultimately show "p \<in> (\<Union>l \<in> {0..5}. ?pages l)" by blast
  qed
  then have "card X \<le> card (\<Union>l \<in> {0..5}. ?pages l)" by (intro card_mono) simp_all
  also have "\<dots> \<le> (\<Sum>l \<in> {0..5}. card (?pages l))" by (rule card_UN_le) simp
  also have "\<dots> \<le> (\<Sum>l \<in> {0..5}. length (L l) * 2 ^ nat l)" by (rule sum_mono) (rule len)
  also have "{0..5::int} = {0, 1, 2, 3, 4, 5}" by auto
  also have "(\<Sum>l \<in> {0, 1, 2, 3, 4, 5}. length (L l) * 2 ^ nat l) = stock L" by (simp add: stock_def)
  finally show ?thesis .
qed

section \<open>The kernel's layout\<close>

text \<open>The linker script puts the kernel at 0x80000; its image, the heap behind it, the RAM disk and the device tree lie above.\<close>

definition kernel_layout :: "boot_layout \<Rightarrow> bool" where
  "kernel_layout b \<longleftrightarrow> layout_ok b \<and> kernel_start b = 0x80000 \<and> 0x80000 \<le> heap_top b \<and> 0x80000 \<le> cpio_place b \<and> 0x80000 \<le> dtb_start b"

lemma low_pages_free:
  assumes b: "kernel_layout b" and p: "2 \<le> p" "p < 126"
  shows "p \<in> {0..<PAGE_MAX_ENTRY} - (\<Union>r \<in> set (boot_ranges b). pages_in (page_range r))"
proof -
  have hi: "0x80 \<le> int (x div 4096)" if "0x80000 \<le> x" for x :: nat using div_le_mono [OF that, of 4096] by simp
  have k: "kernel_start b = 0x80000" "0x80 \<le> int (heap_top b div 4096)" "0x80 \<le> int (cpio_place b div 4096)" "0x80 \<le> int (dtb_start b div 4096)"
    using b hi unfolding kernel_layout_def by blast+
  have "\<forall>r \<in> set (boot_ranges b). 0x80 \<le> fst (page_range r) \<or> page_range r = (0, 1) \<or> page_range r = (126, 127)"
    unfolding boot_ranges_def page_range_def list.set ball_simps fst_conv snd_conv k(1)
    using k(2-4) by (intro conjI) (simp_all add: u64_def USER_PROGRAM_SPACE_def)
  then have "p \<notin> pages_in (page_range r)" if "r \<in> set (boot_ranges b)" for r using p that by fastforce
  then show ?thesis using p by (auto simp: PAGE_MAX_ENTRY_def)
qed

lemma group_ends:
  fixes p :: int
  assumes "2 \<le> p" and "p < 126"
  shows "0 \<in> group p \<or> 126 \<in> group p"
  using assms by (cases "p < 64") (auto simp: div_pos_pos_trivial)

lemma boot_stock:
  assumes b: "kernel_layout b" and inv: "page_inv s L"
    and free: "free_pages (frame s) = {0..<PAGE_MAX_ENTRY} - (\<Union>r \<in> set (boot_ranges b). pages_in (page_range r))"
  shows "124 \<le> stock L"
proof -
  have "(0x0000, 0x1000) \<in> set (boot_ranges b)" "(0x7E000, 0x7F000) \<in> set (boot_ranges b)"
    using b by (auto simp: boot_ranges_def kernel_layout_def u64_def)
  then have "0 \<notin> free_pages (frame s)" "126 \<notin> free_pages (frame s)" unfolding free by (force simp: page_range_def)+
  then have "\<not> group p \<subseteq> free_pages (frame s)" if "2 \<le> p" "p < 126" for p using group_ends [OF that] by blast
  then have "\<not> group p \<subseteq> free_pages (frame s)" if "p \<in> {2..<126}" for p using that by (meson atLeastLessThan_iff)
  moreover have "{2..<126} \<subseteq> free_pages (frame s)" using low_pages_free [OF b] unfolding free by auto
  ultimately have "card {2..<126::int} \<le> stock L" by (intro stock_covers [OF inv]) blast+
  then show ?thesis by simp
qed

section \<open>A range that ends right before a reserved odd page\<close>

lemma lone_page:
  assumes til: "tiling fr" and a: "odd a" "a - 1 \<in> free_pages fr" "a \<notin> free_pages fr"
  shows "block_head fr (a - 1)"
proof -
  obtain l i where f: "free_head fr l i" "i \<le> a - 1" "a - 1 < i + 2 ^ nat l" using a(2) by (blast elim: free_pagesE)
  have "\<not> a < i + 2 ^ nat l" using free_pagesI [OF f(1), of a] f(2) a(3) by auto
  then have e: "a = i + 2 ^ nat l" using f(3) by simp
  have "2 ^ nat l dvd a" unfolding e using free_head_bounds(5) [OF til f(1)] by simp
  then have "nat l = 0" using a(1) by (cases "nat l") (auto elim: dvd_trans [rotated])
  then show ?thesis using e f(1) by (simp add: free_head_def)
qed

section \<open>Properties\<close>

text \<open>C35: page_init with a layout whose seven ranges (the array of frames, the spin table, the kernel, its stack, the RAM disk,
  the device tree, the user program) lie apart inside the memory and none of which ends at a page where the
  earlier reservations made a block start: it returns, the allocator's invariant holds, and exactly the
  pages of the seven ranges are in use. With a kernel at 0x80000, at least 124 single pages can be
  allocated then.\<close>

theorem page_init_correct:
  assumes "layout_ok b" and "\<And>l. page_list s l = None" and "nat PAGE_MAX_ENTRY \<le> fuel"
  shows "\<exists>s' L. page_init fuel b s = Inr (b\<lparr>heap_top := heap_top b + 0x1E0010\<rparr>, s') \<and> page_inv s' L \<and>
    free_pages (frame s') = {0..<PAGE_MAX_ENTRY} - (\<Union>r \<in> set (boot_ranges b). {int (fst r div 4096)..int (snd r div 4096)}) \<and>
    (kernel_layout b \<longrightarrow> 124 \<le> stock L)"
proof -
  have b': "snd (simple_malloc (nat PAGE_MAX_ENTRY * SIZEOF_frame_info) b) = b\<lparr>heap_top := heap_top b + 0x1E0010\<rparr>"
    by (simp add: simple_malloc_def SIZEOF_frame_info_def PAGE_MAX_ENTRY_def Let_def)
  obtain s' L where r: "page_init fuel b s = Inr (snd (simple_malloc (nat PAGE_MAX_ENTRY * SIZEOF_frame_info) b), s')" "page_inv s' L"
    "free_pages (frame s') = {0..<PAGE_MAX_ENTRY} - (\<Union>r \<in> set (boot_ranges b). pages_in (page_range r))"
    by (rule page_init_run [OF assms])
  then show ?thesis using boot_stock [OF _ r(2,3)] unfolding b' by (intro exI [of _ s'] exI [of _ L]) (simp add: page_range_def)
qed

text \<open>A kernel of 0x22000 bytes and a RAM disk of 4 MB.\<close>

definition demo_layout :: boot_layout where
  "demo_layout = \<lparr>heap_top = 0xA2230, kernel_start = 0x80000, kernel_end = 0xA1228, cpio_place = 0x8000000, cpio_place_end = 0x8400000,
     dtb_start = 0x8500000, dtb_len = 0x8000\<rparr>"

lemma demo_ranges:
  "map page_range (boot_ranges demo_layout) = [(162, 642), (0, 1), (128, 161), (126, 127), (32768, 33793), (34048, 34056), (2304, 3584)]"
  by (simp add: boot_ranges_def demo_layout_def page_range_def u64_def PAGE_MAX_ENTRY_def SIZEOF_frame_info_def
      USER_PROGRAM_SPACE_def USER_PROGRAM_MAX_SIZE_def)

lemma rounded_list: "rounded p b \<longleftrightarrow> list_ex (\<lambda>k. b = p div 2 ^ k * 2 ^ k \<or> b = (p div 2 ^ k + 1) * 2 ^ k) [0..<17]"
  by (simp add: rounded_def list_ex_iff)

lemma cut_at_list: "cut_at a b \<longleftrightarrow> list_ex (\<lambda>k. a mod 2 ^ k \<noteq> 0 \<and> b = (a div 2 ^ k + 1) * 2 ^ k) [1..<17]"
  by (simp add: cut_at_def list_ex_iff)

lemma demo_layout_ok: "kernel_layout demo_layout"
proof -
  have "ranges_ok [] [(162, 642), (0, 1), (128, 161), (126, 127), (32768, 33793), (34048, 34056), (2304, 3584)]"
    by (simp add: end_ok_def boot_heads_def PAGE_MAX_ENTRY_def rounded_list cut_at_list upt_rec)
  then show ?thesis by (simp add: kernel_layout_def layout_ok_def demo_ranges) (simp add: demo_layout_def)
qed

theorem page_init_correct_witness:
  "\<exists>s' L. page_init 245760 demo_layout (boot_state\<lparr>page_list := (\<lambda>_. None)\<rparr>) = Inr (demo_layout\<lparr>heap_top := 0x282240\<rparr>, s') \<and>
     page_inv s' L \<and> 124 \<le> stock L \<and> 161 \<notin> free_pages (frame s') \<and> 643 \<in> free_pages (frame s')"
proof -
  have ok: "layout_ok demo_layout" using demo_layout_ok by (simp add: kernel_layout_def)
  have ranges: "(\<Union>r \<in> set (boot_ranges demo_layout). {int (fst r div 4096)..int (snd r div 4096)}) =
      (\<Union>r \<in> set (map page_range (boot_ranges demo_layout)). pages_in r)"
    by (simp add: page_range_def)
  have "nat PAGE_MAX_ENTRY \<le> 245760" by (simp add: PAGE_MAX_ENTRY_def)
  from page_init_correct [OF ok _ this, of "boot_state\<lparr>page_list := (\<lambda>_. None)\<rparr>"] obtain s' L where
    r: "page_init 245760 demo_layout (boot_state\<lparr>page_list := (\<lambda>_. None)\<rparr>) = Inr (demo_layout\<lparr>heap_top := heap_top demo_layout + 0x1E0010\<rparr>, s')"
    "page_inv s' L" "124 \<le> stock L" "free_pages (frame s') = {0..<PAGE_MAX_ENTRY} - (\<Union>r \<in> set (map page_range (boot_ranges demo_layout)). pages_in r)"
    unfolding ranges using demo_layout_ok by auto
  have "161 \<notin> free_pages (frame s')" "643 \<in> free_pages (frame s')" unfolding r(4) demo_ranges by (simp_all add: PAGE_MAX_ENTRY_def)
  moreover have "heap_top demo_layout + 0x1E0010 = 0x282240" by (simp add: demo_layout_def)
  ultimately show ?thesis using r(1-3) by auto
qed

text \<open>The array of frames begins on the page behind the kernel's last one. When this page is odd, the kernel's last page is a
  block of its own by the time that page_init reserves the kernel, and the reservation destroys it: its frame
  is left in use with the index -1, and the frames describe no partition of the memory any more.\<close>

theorem page_init_destroys_kernel_end:
  assumes a: "odd a" "heap_top b div 4096 = a" "kernel_end b div 4096 = a - 1" and k: "2 \<le> kernel_start b div 4096" "kernel_start b div 4096 < a - 1"
    and ok: "ranges_ok [] (map page_range (take 2 (boot_ranges b)))" and fuel: "nat PAGE_MAX_ENTRY \<le> fuel"
  shows "\<exists>s'. rbind (init_loop 0 PAGE_MAX_ENTRY s) (reserve_all fuel (take 3 (boot_ranges b))) = Inr s' \<and>
    frame s' (int a - 1) = \<lparr>fi_status = 1, fi_index = -1\<rparr> \<and> \<not> tiling (frame s')"
proof -
  obtain f0 where f0: "init_loop 0 PAGE_MAX_ENTRY s = Inr (s\<lparr>frame := f0\<rparr>)" "reservable f0" "free_pages f0 = {0..<PAGE_MAX_ENTRY}"
    "\<forall>c. block_head f0 c \<longrightarrow> c \<in> set boot_heads \<or> (\<exists>p \<in> set []. rounded p c)"
    by (rule init_frames)
  let ?s = "s\<lparr>frame := f0\<rparr>" and ?rs = "take 2 (boot_ranges b)"
  have "\<forall>r \<in> set ?rs. pages_in (page_range r) \<subseteq> free_pages (frame ?s)" using ranges_inside [OF ok] f0(3) by simp
  from reserve_all_run [OF _ this _ ok fuel] obtain fr where fr: "reserve_all fuel ?rs ?s = Inr (?s\<lparr>frame := fr\<rparr>)" "reservable fr"
    "free_pages fr = {0..<PAGE_MAX_ENTRY} - (\<Union>r \<in> set ?rs. pages_in (page_range r))"
    using f0(2-4) by auto
  have two: "?rs = [(heap_top b, heap_top b + nat PAGE_MAX_ENTRY * SIZEOF_frame_info), (0, 0x1000)]"
    "take 3 (boot_ranges b) = ?rs @ [(kernel_start b, kernel_end b)]" by (simp_all add: boot_ranges_def numeral_2_eq_2 numeral_3_eq_3)
  have pages: "p \<in> free_pages fr \<longleftrightarrow> 2 \<le> p \<and> p < PAGE_MAX_ENTRY \<and> \<not> (int a \<le> p \<and> p \<le> int ((heap_top b + nat PAGE_MAX_ENTRY * SIZEOF_frame_info) div 4096))" for p
    unfolding fr(3) two(1) using a(2) by (auto simp: page_range_def)
  have "int ((heap_top b + nat PAGE_MAX_ENTRY * SIZEOF_frame_info) div 4096) < PAGE_MAX_ENTRY" "int a \<le> int ((heap_top b + nat PAGE_MAX_ENTRY * SIZEOF_frame_info) div 4096)"
    using ok unfolding two(1) by (simp_all add: page_range_def a(2))
  then have lim: "int a < PAGE_MAX_ENTRY" "int a \<notin> free_pages fr" "int a - 1 \<in> free_pages fr" using pages k by auto
  have hd: "block_head fr (int a - 1)" using lone_page [OF reservableD(1) [OF fr(2)] _ lim(3,2)] a(1) by simp
  let ?s1 = "?s\<lparr>frame := fr\<rparr>" and ?k = "int (kernel_start b div 4096)"
  have e: "int a - 1 = int (kernel_end b div 4096)" using a(3) k by simp
  have free: "{?k..int a - 1} \<subseteq> free_pages (frame ?s1)"
  proof
    fix p assume "p \<in> {?k..int a - 1}"
    then have "2 \<le> p" "p < PAGE_MAX_ENTRY" "p < int a" using k(1) lim(1) by simp_all
    then show "p \<in> free_pages (frame ?s1)" using pages [of p] by simp
  qed
  have fu: "int a - 1 - ?k < int fuel" "18 \<le> fuel" using lim(1) fuel by (simp_all add: PAGE_MAX_ENTRY_def)
  have r1: "reservable (frame ?s1)" and hd1: "block_head (frame ?s1) (int a - 1)" and less: "?k < int a - 1" using fr(2) hd k(2) by simp_all
  obtain s' where "memory_reserve fuel (kernel_start b) (kernel_end b) ?s1 = Inr s'" "frame s' (int a - 1) = \<lparr>fi_status = 1, fi_index = -1\<rparr>"
    "\<not> tiling (frame s')"
    using memory_reserve_destroys_next_block [OF r1 refl e less free hd1 fu] by blast
  then show ?thesis using f0(1) fr(1) unfolding two(2) by (intro exI [of _ s']) (simp add: reserve_all_snoc)
qed

end
