(* ===== verification/Tasks.thy ===== *)
theory Tasks
  imports Cpio Sched Timer
begin

text \<open>
  Creating and reaping tasks (\<open>lib/scheduler.c\<close>) and booting (\<open>main.c\<close>): the parts of the scheduler that
  use the allocator and the file system. \<open>kernel\<close> is the state of all of them, with the trap frames
  in memory and the static variables of \<open>lib/exception.c\<close>.
\<close>

section \<open>State\<close>

text \<open>The registers \<open>x0\<close> to \<open>x30\<close> that an exception saves on the kernel stack, with the user's stack pointer,
  return address and status.\<close>

record trap_frame =
  xr :: "nat \<Rightarrow> nat"
  sp_el0 :: nat
  elr_el1 :: nat
  spsr_el1 :: nat

record kernel =
  k_fs :: vfs
  k_sched :: sched
  frames :: "addr \<Rightarrow> trap_frame"
  sig_handler :: "code option"
  signal_exit :: bool
  signal_pid :: nat
  irq_on :: bool

definition THREAD_SP_SIZE :: nat where "THREAD_SP_SIZE = 2048"

definition SIZEOF_task :: nat where "SIZEOF_task = 544"

definition upd_task :: "addr \<Rightarrow> (task \<Rightarrow> task) \<Rightarrow> kernel \<Rightarrow> kernel" where
  "upd_task a f s = s\<lparr>k_sched := (k_sched s)\<lparr>tasks := (tasks (k_sched s))(a := f (tasks (k_sched s) a))\<rparr>\<rparr>"

definition task_of :: "kernel \<Rightarrow> addr \<Rightarrow> task" where
  "task_of s a = tasks (k_sched s) a"

definition get_current :: "kernel \<Rightarrow> addr res" where
  "get_current s = deref (current (k_sched s))"

text \<open>Operations of the file system and of the scheduler on this state.\<close>

definition on_fs :: "(vfs \<Rightarrow> ('a \<times> vfs) res) \<Rightarrow> kernel \<Rightarrow> ('a \<times> kernel) res" where
  "on_fs f s = rbind (f (k_fs s)) (\<lambda>(x, t). Inr (x, s\<lparr>k_fs := t\<rparr>))"

definition on_sched :: "(sched \<Rightarrow> sched res) \<Rightarrow> kernel \<Rightarrow> kernel res" where
  "on_sched f s = rbind (f (k_sched s)) (\<lambda>t. Inr (s\<lparr>k_sched := t\<rparr>))"

section \<open>Creating a task\<close>

text \<open>The stack pointer in a new stack: its last byte, rounded down to a multiple of 16.\<close>

definition stack_top :: "addr \<Rightarrow> nat" where
  "stack_top a = u64 (let p = a + int THREAD_SP_SIZE - 1 in p - p mod 0x10)"

text \<open>One of the three descriptors; \<open>file_handler\<close> keeps its value when the file cannot be opened.\<close>

definition open_std :: "addr \<Rightarrow> nat \<Rightarrow> addr option \<Rightarrow> kernel \<Rightarrow> (addr option \<times> kernel) res" where
  "open_std t fd file_handler s =
     rbind (on_fs (vfs_open 0 (cstr ''/dev/uart'') 0 file_handler) s) (\<lambda>((r, f), s).
     Inr (f, upd_task t (\<lambda>x. x\<lparr>fd_table := (fd_table x)[fd := f]\<rparr>) s))"

definition task_create :: "code option \<Rightarrow> tmode \<Rightarrow> kernel \<Rightarrow> (addr \<times> kernel) res" where
  "task_create func md s =
     rbind (on_fs (alloc SIZEOF_task) s) (\<lambda>(t, s).
     let p = pid (k_sched s);
         s = upd_task t (\<lambda>x. x\<lparr>mode := md, t_next := None, t_pid := p, handler := None, t_state := RUNNING\<rparr>) s in
     rbind (int_check (int p + 1)) (\<lambda>_.
     let s = s\<lparr>k_sched := (k_sched s)\<lparr>pid := p + 1\<rparr>\<rparr> in
     rbind (if md = USER then
              rbind (on_fs (alloc THREAD_SP_SIZE) s) (\<lambda>(a, s).
              Inr (upd_task t (\<lambda>x. x\<lparr>user_sp := a, lr := Some Switch_to_user_space, target_func := func\<rparr>) s))
            else Inr (upd_task t (\<lambda>x. x\<lparr>lr := func\<rparr>) s)) (\<lambda>s.
     rbind (on_fs (alloc THREAD_SP_SIZE) s) (\<lambda>(a, s).
     let s = upd_task t (\<lambda>x. x\<lparr>sp_addr := a, fp := stack_top a, sp := stack_top a, cwd := [SLASH],
               fd_table := replicate VFS_PROCESS_MAX_OPEN_FILE None\<rparr>) s in
     rbind (open_std t 0 None s) (\<lambda>(f, s).
     rbind (open_std t 1 f s) (\<lambda>(f, s).
     rbind (open_std t 2 f s) (\<lambda>(f, s).
     rbind (on_sched (enqueue_run t) s) (\<lambda>s. Inr (t, s)))))))))"

definition thread_init :: "kernel \<Rightarrow> kernel res" where
  "thread_init s = rbind (task_create (Some Idle_thread) KERNEL s) (\<lambda>(t, s). Inr s)"

section \<open>Reaping and running\<close>

text \<open>The fields are read after the task's own block has been released, as in the code. They still hold what they held: \<open>free\<close>
  changes no byte of a block but, at most, the last 24 of its page, which lie behind all slots of this size.\<close>

definition kill_zombies :: "kernel \<Rightarrow> kernel res" where
  "kill_zombies s =
     rbind (dequeue_zombie (k_sched s)) (\<lambda>(z, q).
     let s = s\<lparr>k_sched := q\<rparr> in
     case z of
       None \<Rightarrow> Inr s
     | Some cur \<Rightarrow>
         rbind (release cur (k_fs s)) (\<lambda>t.
         rbind (release (sp_addr (task_of s cur)) t) (\<lambda>t.
         rbind (if mode (task_of s cur) = USER then release (user_sp (task_of s cur)) t else Inr t) (\<lambda>t.
         Inr (s\<lparr>k_fs := t\<rparr>)))))"

definition schedule_k :: "kernel \<Rightarrow> (outcome \<times> kernel) res" where
  "schedule_k s = rbind (schedule (k_sched s)) (\<lambda>(r, t). Inr (r, s\<lparr>k_sched := t\<rparr>))"

text \<open>The start of \<open>idle_thread\<close> before its timer, and the stack pointer and start address with which
  \<open>switch_to_user_space\<close> leaves for user mode.\<close>

definition idle_start :: "kernel \<Rightarrow> kernel res" where
  "idle_start s =
     rbind (dequeue_run (k_sched s)) (\<lambda>(t, q). Inr (s\<lparr>k_sched := q\<lparr>current := t\<rparr>\<rparr>))"

definition switch_to_user_space :: "kernel \<Rightarrow> (code option \<times> nat) res" where
  "switch_to_user_space s =
     rbind (get_current s) (\<lambda>cur.
     let p = user_sp (task_of s cur) + int THREAD_SP_SIZE - 1 in
     Inr (target_func (task_of s cur), u64 (p - p mod 0x100)))"

section \<open>Booting\<close>

text \<open>\<open>main\<close> from the first mount on; the earlier steps set up the allocator and the RAM disk's place.
  \<open>junk\<close>, \<open>i0\<close> and \<open>j\<close> are what is in the uninitialised variables of the three mounts.\<close>

definition boot_mounts :: "byte \<Rightarrow> (nat \<Rightarrow> int) \<Rightarrow> int \<Rightarrow> addr \<Rightarrow> vfs \<Rightarrow> vfs res" where
  "boot_mounts junk i0 j place s =
     rbind (vfs_mount junk i0 j place (cstr ''/'') (cstr ''tmpfs'') s) (\<lambda>(r, s).
     rbind (vfs_mount junk i0 j place (cstr ''/initramfs'') (cstr ''tmpfs'') s) (\<lambda>(r, s).
     rbind (vfs_mount junk i0 j place (cstr ''/dev'') (cstr ''devfs'') s) (\<lambda>(r, s). Inr s)))"

definition kernel_main :: "byte \<Rightarrow> (nat \<Rightarrow> int) \<Rightarrow> int \<Rightarrow> addr \<Rightarrow> kernel \<Rightarrow> kernel res" where
  "kernel_main junk i0 j place s =
     rbind (boot_mounts junk i0 j place (k_fs s)) (\<lambda>t. thread_init (s\<lparr>k_fs := t\<rparr>))"

end
