(* ===== verification/TaskProps.thy ===== *)
theory TaskProps
  imports Tasks VfsClaims SchedClaims
begin

text \<open>
  What creating a task does to the memory in use, to the file system and to the queues, provided that
  the console can be opened; and what reaping one gives back.
\<close>

section \<open>Opening a file that is there\<close>

lemma alloc_fits:
  assumes "kstock (heap s) (Suc k)" and "m \<le> 2048"
  obtains a l h where "alloc m s = Inr (a, s\<lparr>heap := h\<rparr>)" and "kstock h k" and "m \<le> l" and "a \<notin> in_use s"
    and "blocks h = insert (a, l) (blks s)" and "fst ` blocks h = insert a (in_use s)"
proof -
  obtain a h where k: "kmalloc m (heap s) = Inr (a, h)" "kstock h k" using kmalloc_stock [OF assms] by blast
  have "m \<le> 2 ^ 17" using assms(2) by simp
  then obtain l where "m \<le> l" "blocks h = insert (a, l) (blks s)" "a \<notin> fst ` blks s"
    by (rule kernel_heap.alloc_fresh [OF kstock_ok [OF assms(1)] _ k(1)])
  then show thesis using that [of a h l] k by (simp add: alloc_def in_use_def)
qed

text \<open>The path leads to a file. Only structures in use matter, so more of them change nothing.\<close>

definition leads_to :: "vfs \<Rightarrow> byte list list \<Rightarrow> addr \<Rightarrow> bool" where
  "leads_to s cs n \<longleftrightarrow> cs \<noteq> [] \<and> (\<forall>c \<in> set cs. proper c) \<and>
     (\<exists>N r c. fs_root s = Inr r \<and> tree_ok s N \<and> r \<in> N \<and> walk s r cs = Some n \<and>
       component (vnodes s n) = Some c \<and> c_type (comps s c) = COMP_FILE)"

definition same_tree :: "vfs \<Rightarrow> vfs \<Rightarrow> bool" where
  "same_tree s s' \<longleftrightarrow> in_use s \<subseteq> in_use s' \<and> vnodes s' = vnodes s \<and> comps s' = comps s \<and> entry_at s' = entry_at s \<and>
     mounts s' = mounts s \<and> rootfs s' = rootfs s \<and> fop_table s' = fop_table s \<and> bytes s' = bytes s"

lemma same_treeD:
  assumes "same_tree s s'"
  shows "in_use s \<subseteq> in_use s'" and "vnodes s' = vnodes s" and "comps s' = comps s" and "entry_at s' = entry_at s"
    and "mounts s' = mounts s" and "rootfs s' = rootfs s" and "fop_table s' = fop_table s" and "bytes s' = bytes s"
  using assms by (simp_all add: same_tree_def)

lemma same_tree_dirs:
  assumes "same_tree s s'"
  shows "entries_of s' d = entries_of s d" and "dir_view s' d = dir_view s d" and "mount_target s' n = mount_target s n"
    and "dir_ok s d \<Longrightarrow> dir_ok s' d" and "fs_root s' = fs_root s"
proof -
  note t = same_treeD [OF assms]
  show e: "entries_of s' d = entries_of s d" for d using t by (simp add: entries_of_def cong: option.case_cong)
  show "dir_view s' d = dir_view s d" using t e by (simp add: dir_view_def node_name_def cong: option.case_cong)
  show "mount_target s' n = mount_target s n" using t by (simp add: mount_target_def cong: option.case_cong)
  show "dir_ok s' d" if "dir_ok s d"
    using that t e unfolding dir_ok_def by (auto split: option.splits) blast+
  show "fs_root s' = fs_root s" using t by (simp add: fs_root_def)
qed

lemma same_tree_walk: "same_tree s s' \<Longrightarrow> walk s' n cs = walk s n cs"
  using same_treeD same_tree_dirs by (induction cs arbitrary: n) (simp_all cong: if_cong)

lemma same_tree_ok:
  assumes st: "same_tree s s'" and "tree_ok s N"
  shows "tree_ok s' N"
  unfolding tree_ok_def
proof
  fix n assume "n \<in> N"
  then obtain d where d: "v_mount (vnodes s n) = None" "component (vnodes s n) = Some d"
    "c_type (comps s d) = COMP_DIR \<longrightarrow> dir_ok s d \<and> (\<forall>e \<in> set (entries_of s d). \<exists>n' \<in> N. mount_target s e = Some n')"
    using assms(2) unfolding tree_ok_def by blast
  then show "v_mount (vnodes s' n) = None \<and> (\<exists>d. component (vnodes s' n) = Some d \<and> (c_type (comps s' d) = COMP_DIR \<longrightarrow>
      dir_ok s' d \<and> (\<forall>e \<in> set (entries_of s' d). \<exists>n' \<in> N. mount_target s' e = Some n')))"
    using same_tree_dirs(4) [OF st, of d] by (simp add: same_treeD [OF st] same_tree_dirs(1,3) [OF st])
qed

lemma leads_to_same: "same_tree s s' \<Longrightarrow> leads_to s cs n \<Longrightarrow> leads_to s' cs n"
  unfolding leads_to_def by (simp add: same_treeD same_tree_dirs same_tree_walk) (blast intro: same_tree_ok)

definition opened :: "vfs \<Rightarrow> addr \<Rightarrow> int \<Rightarrow> vfile" where
  "opened s n flags = \<lparr>f_vnode = Some n, f_pos = 0, ff_ops = f_ops (vnodes s n), f_flags = flags\<rparr>"

lemma vfs_open_run:
  assumes "leads_to s cs n" and "kstock (heap s) (Suc k)"
  obtains g l h where "vfs_open i0 (render cs) flags t s =
      Inr ((0, Some g), s\<lparr>heap := h, files := (files s)(g := opened s n flags)\<rparr>)"
    and "kstock h k" and "SIZEOF_file \<le> l" and "g \<notin> in_use s" and "blocks h = insert (g, l) (blks s)"
    and "fst ` blocks h = insert g (in_use s)"
    and "same_tree s (s\<lparr>heap := h, files := (files s)(g := opened s n flags)\<rparr>)"
proof -
  obtain N r c where p: "cs \<noteq> []" "\<forall>c \<in> set cs. proper c" "fs_root s = Inr r" "tree_ok s N" "r \<in> N" "walk s r cs = Some n"
    "component (vnodes s n) = Some c" "c_type (comps s c) = COMP_FILE"
    using assms(1) by (auto simp: leads_to_def)
  have lk: "vfs_lookup (render cs) None s = Inr (0, Some n)"
    using vfs_lookup_run [OF p(3-5,2,1), of None] p(6) by auto
  obtain g l h where a: "alloc SIZEOF_file s = Inr (g, s\<lparr>heap := h\<rparr>)" "kstock h k" "SIZEOF_file \<le> l" "g \<notin> in_use s"
    "blocks h = insert (g, l) (blks s)" "fst ` blocks h = insert g (in_use s)"
    by (rule alloc_fits [OF assms(2), of SIZEOF_file]) (simp_all add: SIZEOF_file_def)
  have f: "(x :: vfile)\<lparr>ff_ops := o1, f_pos := 0, f_vnode := Some n, f_flags := flags\<rparr> =
      \<lparr>f_vnode = Some n, f_pos = 0, ff_ops = o1, f_flags = flags\<rparr>" for x o1
    by simp
  have "vfs_open i0 (render cs) flags t s = Inr ((0, Some g), s\<lparr>heap := h, files := (files s)(g := opened s n flags)\<rparr>)"
    using lk a(1) p(7,8) by (simp add: vfs_open_def open_node_def tmpfs_open_def comp_of_def upd_file_def opened_def f)
  moreover have "same_tree s (s\<lparr>heap := h, files := (files s)(g := opened s n flags)\<rparr>)"
    using a(6) by (auto simp: same_tree_def in_use_def)
  ultimately show thesis using that a(2-6) by blast
qed

section \<open>Creating a task\<close>

definition uart_path :: "byte list list" where
  "uart_path = [cstr ''dev'', cstr ''uart'']"

lemma render_uart_path: "cstr ''/dev/uart'' = render uart_path"
  by (simp add: uart_path_def cstr_def SLASH_def)

lemma open_std_run:
  assumes "leads_to (k_fs s) uart_path n" and "kstock (heap (k_fs s)) (Suc k)"
  obtains g l h where "open_std t fd f s = Inr (Some g, upd_task t (\<lambda>x. x\<lparr>fd_table := (fd_table x)[fd := Some g]\<rparr>)
      (s\<lparr>k_fs := (k_fs s)\<lparr>heap := h, files := (files (k_fs s))(g := opened (k_fs s) n 0)\<rparr>\<rparr>))"
    and "kstock h k" and "SIZEOF_file \<le> l" and "g \<notin> in_use (k_fs s)" and "blocks h = insert (g, l) (blks (k_fs s))"
    and "fst ` blocks h = insert g (in_use (k_fs s))"
    and "leads_to ((k_fs s)\<lparr>heap := h, files := (files (k_fs s))(g := opened (k_fs s) n 0)\<rparr>) uart_path n"
proof -
  obtain g l h where r: "vfs_open 0 (render uart_path) 0 f (k_fs s) =
      Inr ((0, Some g), (k_fs s)\<lparr>heap := h, files := (files (k_fs s))(g := opened (k_fs s) n 0)\<rparr>)" "kstock h k"
    "SIZEOF_file \<le> l" "g \<notin> in_use (k_fs s)" "blocks h = insert (g, l) (blks (k_fs s))" "fst ` blocks h = insert g (in_use (k_fs s))"
    "same_tree (k_fs s) ((k_fs s)\<lparr>heap := h, files := (files (k_fs s))(g := opened (k_fs s) n 0)\<rparr>)"
    by (rule vfs_open_run [OF assms])
  have "open_std t fd f s = Inr (Some g, upd_task t (\<lambda>x. x\<lparr>fd_table := (fd_table x)[fd := Some g]\<rparr>)
      (s\<lparr>k_fs := (k_fs s)\<lparr>heap := h, files := (files (k_fs s))(g := opened (k_fs s) n 0)\<rparr>\<rparr>))"
    using r(1) by (simp add: open_std_def on_fs_def render_uart_path)
  then show thesis using that r(2-6) leads_to_same [OF r(7) assms(1)] by blast
qed

text \<open>The contents of a new task's structure.\<close>

definition fresh_task :: "code option \<Rightarrow> tmode \<Rightarrow> nat \<Rightarrow> addr \<Rightarrow> addr \<Rightarrow> addr list \<Rightarrow> task \<Rightarrow> task" where
  "fresh_task func md p u a fs x =
     (let x = x\<lparr>mode := md, t_next := None, t_pid := p, handler := None, t_state := RUNNING\<rparr>;
          x = (if md = USER then x\<lparr>user_sp := u, lr := Some Switch_to_user_space, target_func := func\<rparr> else x\<lparr>lr := func\<rparr>) in
      x\<lparr>sp_addr := a, fp := stack_top a, sp := stack_top a, cwd := [SLASH],
        fd_table := map Some fs @ replicate (VFS_PROCESS_MAX_OPEN_FILE - length fs) None\<rparr>)"

lemma three_fds:
  "(replicate VFS_PROCESS_MAX_OPEN_FILE None)[0 := Some f, Suc 0 := Some g, 2 := Some h] =
     map Some [f, g, h] @ replicate (VFS_PROCESS_MAX_OPEN_FILE - length [f, g, h]) None"
  by (simp add: VFS_PROCESS_MAX_OPEN_FILE_def numeral_eq_Suc)

lemma upd_task_simps [simp]:
  "k_fs (upd_task t F s) = k_fs s" "k_sched (upd_task t F s) = (k_sched s)\<lparr>tasks := (tasks (k_sched s))(t := F (tasks (k_sched s) t))\<rparr>"
  "upd_task t F (s\<lparr>k_fs := x\<rparr>) = (upd_task t F s)\<lparr>k_fs := x\<rparr>" "upd_task t F (upd_task t G s) = upd_task t (\<lambda>x. F (G x)) s"
  by (simp_all add: upd_task_def)

lemma user_stack_run:
  assumes "kstock (heap (k_fs s)) (Suc k)"
  obtains u h where "(if md = USER then
        rbind (on_fs (alloc THREAD_SP_SIZE) s) (\<lambda>(a, s).
        Inr (upd_task t (\<lambda>x. x\<lparr>user_sp := a, lr := Some Switch_to_user_space, target_func := func\<rparr>) s))
      else Inr (upd_task t (\<lambda>x. x\<lparr>lr := func\<rparr>) s)) =
    Inr (upd_task t (\<lambda>x. if md = USER then x\<lparr>user_sp := fst u, lr := Some Switch_to_user_space, target_func := func\<rparr>
      else x\<lparr>lr := func\<rparr>) (s\<lparr>k_fs := (k_fs s)\<lparr>heap := h\<rparr>\<rparr>))"
    and "kstock h k" and "blocks h = (if md = USER then {u} else {}) \<union> blks (k_fs s)"
    and "md = USER \<Longrightarrow> THREAD_SP_SIZE \<le> snd u \<and> fst u \<notin> in_use (k_fs s)"
proof (cases "md = USER")
  case True
  obtain u l h where "alloc THREAD_SP_SIZE (k_fs s) = Inr (u, (k_fs s)\<lparr>heap := h\<rparr>)" "kstock h k" "THREAD_SP_SIZE \<le> l"
    "u \<notin> in_use (k_fs s)" "blocks h = insert (u, l) (blks (k_fs s))"
    by (rule alloc_fits [OF assms, of THREAD_SP_SIZE]) (simp_all add: THREAD_SP_SIZE_def)
  then show thesis using True that [of "(u, l)" h] by (simp add: on_fs_def)
next
  case False
  moreover have "kstock (heap (k_fs s)) k" by (rule kstock_mono [OF assms]) simp
  ultimately show thesis using that [of undefined "heap (k_fs s)"] by simp
qed

lemma console_run:
  assumes "leads_to (k_fs s) uart_path n" and "kstock (heap (k_fs s)) (Suc (Suc (Suc k)))"
  obtains f g h hp where "\<forall>K :: kernel \<Rightarrow> (addr \<times> kernel) res.
      rbind (open_std t 0 None s) (\<lambda>(f, s). rbind (open_std t 1 f s) (\<lambda>(f, s). rbind (open_std t 2 f s) (\<lambda>(f, s). K s))) =
      K (upd_task t (\<lambda>x. x\<lparr>fd_table := (fd_table x)[0 := Some (fst f), Suc 0 := Some (fst g), 2 := Some (fst h)]\<rparr>)
        (s\<lparr>k_fs := (k_fs s)\<lparr>heap := hp, files := (files (k_fs s))(fst f := opened (k_fs s) n 0, fst g := opened (k_fs s) n 0,
          fst h := opened (k_fs s) n 0)\<rparr>\<rparr>))"
    and "kstock hp k" and "blocks hp = {f, g, h} \<union> blks (k_fs s)" and "fst ` {f, g, h} \<inter> in_use (k_fs s) = {}"
    and "distinct (map fst [f, g, h])"
proof -
  let ?F = "opened (k_fs s) n 0"
  obtain f lf h1 where 1: "open_std t 0 None s = Inr (Some f, upd_task t (\<lambda>x. x\<lparr>fd_table := (fd_table x)[0 := Some f]\<rparr>)
      (s\<lparr>k_fs := (k_fs s)\<lparr>heap := h1, files := (files (k_fs s))(f := ?F)\<rparr>\<rparr>))"
    "kstock h1 (Suc (Suc k))" "f \<notin> in_use (k_fs s)" "blocks h1 = insert (f, lf) (blks (k_fs s))"
    "leads_to ((k_fs s)\<lparr>heap := h1, files := (files (k_fs s))(f := ?F)\<rparr>) uart_path n"
    by (rule open_std_run [OF assms]) blast
  let ?s1 = "upd_task t (\<lambda>x. x\<lparr>fd_table := (fd_table x)[0 := Some f]\<rparr>)
      (s\<lparr>k_fs := (k_fs s)\<lparr>heap := h1, files := (files (k_fs s))(f := ?F)\<rparr>\<rparr>)"
  have F1: "opened (k_fs ?s1) n 0 = ?F" by (simp add: opened_def)
  have c1: "leads_to (k_fs ?s1) uart_path n" "kstock (heap (k_fs ?s1)) (Suc (Suc k))" using 1(2,5) by simp_all
  obtain g lg h2 where 2: "open_std t 1 (Some f) ?s1 = Inr (Some g, upd_task t (\<lambda>x. x\<lparr>fd_table := (fd_table x)[1 := Some g]\<rparr>)
      (?s1\<lparr>k_fs := (k_fs ?s1)\<lparr>heap := h2, files := (files (k_fs ?s1))(g := ?F)\<rparr>\<rparr>))"
    "kstock h2 (Suc k)" "g \<notin> in_use (k_fs ?s1)" "blocks h2 = insert (g, lg) (blks (k_fs ?s1))"
    "leads_to ((k_fs ?s1)\<lparr>heap := h2, files := (files (k_fs ?s1))(g := ?F)\<rparr>) uart_path n"
    by (rule open_std_run [OF c1, unfolded F1]) blast
  let ?s2 = "upd_task t (\<lambda>x. x\<lparr>fd_table := (fd_table x)[1 := Some g]\<rparr>)
      (?s1\<lparr>k_fs := (k_fs ?s1)\<lparr>heap := h2, files := (files (k_fs ?s1))(g := ?F)\<rparr>\<rparr>)"
  have F2: "opened (k_fs ?s2) n 0 = ?F" by (simp add: opened_def)
  have c2: "leads_to (k_fs ?s2) uart_path n" "kstock (heap (k_fs ?s2)) (Suc k)" using 2(2,5) by simp_all
  obtain h lh h3 where 3: "open_std t 2 (Some g) ?s2 = Inr (Some h, upd_task t (\<lambda>x. x\<lparr>fd_table := (fd_table x)[2 := Some h]\<rparr>)
      (?s2\<lparr>k_fs := (k_fs ?s2)\<lparr>heap := h3, files := (files (k_fs ?s2))(h := ?F)\<rparr>\<rparr>))"
    "kstock h3 k" "h \<notin> in_use (k_fs ?s2)" "blocks h3 = insert (h, lh) (blks (k_fs ?s2))"
    by (rule open_std_run [OF c2, unfolded F2]) blast
  show thesis
    by (rule that [of "(f, lf)" "(g, lg)" "(h, lh)" h3])
      (use 1(1,3,4) 2(1,3,4) 3 in \<open>auto simp: in_use_def\<close>)
qed

text \<open>Everything up to the queue: the blocks that are taken, and the new task's fields.\<close>

definition created :: "tmode \<Rightarrow> addr \<Rightarrow> kernel \<Rightarrow> addr \<Rightarrow> addr \<Rightarrow> addr \<Rightarrow> addr \<times> addr \<times> addr \<Rightarrow> pool_state \<Rightarrow> code option \<Rightarrow> kernel" where
  "created md n s t u a = (\<lambda>(f, g, h) hp func.
     s\<lparr>k_fs := (k_fs s)\<lparr>heap := hp, files := (files (k_fs s))(f := opened (k_fs s) n 0, g := opened (k_fs s) n 0, h := opened (k_fs s) n 0)\<rparr>,
       k_sched := (k_sched s)\<lparr>pid := Suc (pid (k_sched s)),
         tasks := (tasks (k_sched s))(t := fresh_task func md (pid (k_sched s)) u a [f, g, h] (tasks (k_sched s) t))\<rparr>\<rparr>)"

lemma task_create_start:
  assumes con: "leads_to (k_fs s) uart_path n" and st: "kstock (heap (k_fs s)) (Suc (Suc (Suc (Suc (Suc (Suc k))))))"
    and pid: "pid (k_sched s) < 2 ^ 31 - 1"
  obtains t u a f g h hp where "task_create func md s =
      rbind (on_sched (enqueue_run (fst t)) (created md n s (fst t) (fst u) (fst a) (fst f, fst g, fst h) hp func)) (\<lambda>s. Inr (fst t, s))"
    and "fst ` ({t, a, f, g, h} \<union> (if md = USER then {u} else {})) \<inter> in_use (k_fs s) = {}"
    and "distinct (map fst ([t, a, f, g, h] @ (if md = USER then [u] else [])))"
    and "blocks hp = {t, a, f, g, h} \<union> (if md = USER then {u} else {}) \<union> blks (k_fs s)" and "kstock hp k"
    and "THREAD_SP_SIZE \<le> snd a" and "md = USER \<Longrightarrow> THREAD_SP_SIZE \<le> snd u"
proof -
  let ?p = "pid (k_sched s)"
  obtain t lt h1 where 1: "alloc SIZEOF_task (k_fs s) = Inr (t, (k_fs s)\<lparr>heap := h1\<rparr>)" "kstock h1 (Suc (Suc (Suc (Suc (Suc k)))))"
    "t \<notin> in_use (k_fs s)" "blocks h1 = insert (t, lt) (blks (k_fs s))"
    by (rule alloc_fits [OF st, of SIZEOF_task]) (simp_all add: SIZEOF_task_def)
  let ?s1 = "upd_task t (\<lambda>x. x\<lparr>mode := md, t_next := None, t_pid := ?p, handler := None, t_state := RUNNING\<rparr>) (s\<lparr>k_fs := (k_fs s)\<lparr>heap := h1\<rparr>\<rparr>)"
  let ?s2 = "?s1\<lparr>k_sched := (k_sched ?s1)\<lparr>pid := ?p + 1\<rparr>\<rparr>"
  have "kstock (heap (k_fs ?s2)) (Suc (Suc (Suc (Suc (Suc k)))))" using 1(2) by simp
  then obtain u h2 where 2: "(if md = USER then
        rbind (on_fs (alloc THREAD_SP_SIZE) ?s2) (\<lambda>(a, s).
        Inr (upd_task t (\<lambda>x. x\<lparr>user_sp := a, lr := Some Switch_to_user_space, target_func := func\<rparr>) s))
      else Inr (upd_task t (\<lambda>x. x\<lparr>lr := func\<rparr>) ?s2)) =
    Inr (upd_task t (\<lambda>x. if md = USER then x\<lparr>user_sp := fst u, lr := Some Switch_to_user_space, target_func := func\<rparr>
      else x\<lparr>lr := func\<rparr>) (?s2\<lparr>k_fs := (k_fs ?s2)\<lparr>heap := h2\<rparr>\<rparr>))"
    "kstock h2 (Suc (Suc (Suc (Suc k))))" "blocks h2 = (if md = USER then {u} else {}) \<union> blks (k_fs ?s2)"
    "md = USER \<Longrightarrow> THREAD_SP_SIZE \<le> snd u \<and> fst u \<notin> in_use (k_fs ?s2)"
    by (rule user_stack_run) blast
  let ?s3 = "upd_task t (\<lambda>x. if md = USER then x\<lparr>user_sp := fst u, lr := Some Switch_to_user_space, target_func := func\<rparr>
      else x\<lparr>lr := func\<rparr>) (?s2\<lparr>k_fs := (k_fs ?s2)\<lparr>heap := h2\<rparr>\<rparr>)"
  have st3: "kstock (heap (k_fs ?s3)) (Suc (Suc (Suc (Suc k))))" using 2(2) by simp
  obtain a la h3 where 3: "alloc THREAD_SP_SIZE (k_fs ?s3) = Inr (a, (k_fs ?s3)\<lparr>heap := h3\<rparr>)" "kstock h3 (Suc (Suc (Suc k)))"
    "THREAD_SP_SIZE \<le> la" "a \<notin> in_use (k_fs ?s3)" "blocks h3 = insert (a, la) (blks (k_fs ?s3))"
    by (rule alloc_fits [OF st3, of THREAD_SP_SIZE]) (simp_all add: THREAD_SP_SIZE_def)
  let ?s4 = "upd_task t (\<lambda>x. x\<lparr>sp_addr := a, fp := stack_top a, sp := stack_top a, cwd := [SLASH],
               fd_table := replicate VFS_PROCESS_MAX_OPEN_FILE None\<rparr>) (?s3\<lparr>k_fs := (k_fs ?s3)\<lparr>heap := h3\<rparr>\<rparr>)"
  have fs4: "k_fs ?s4 = (k_fs s)\<lparr>heap := h3\<rparr>" by simp
  have b3: "blocks h3 = {(t, lt), (a, la)} \<union> (if md = USER then {u} else {}) \<union> blks (k_fs s)"
    using 1(4) 2(3) 3(5) by auto
  have "same_tree (k_fs s) (k_fs ?s4)" unfolding fs4 using b3 by (auto simp: same_tree_def in_use_def)
  then have con4: "leads_to (k_fs ?s4) uart_path n" by (rule leads_to_same [OF _ con])
  have F: "opened (k_fs ?s4) n 0 = opened (k_fs s) n 0" by (simp add: opened_def)
  have st4: "kstock (heap (k_fs ?s4)) (Suc (Suc (Suc k)))" using 3(2) by simp
  obtain f g h hp where 4: "\<forall>K :: kernel \<Rightarrow> (addr \<times> kernel) res.
      rbind (open_std t 0 None ?s4) (\<lambda>(f, s). rbind (open_std t 1 f s) (\<lambda>(f, s). rbind (open_std t 2 f s) (\<lambda>(f, s). K s))) =
      K (upd_task t (\<lambda>x. x\<lparr>fd_table := (fd_table x)[0 := Some (fst f), Suc 0 := Some (fst g), 2 := Some (fst h)]\<rparr>)
        (?s4\<lparr>k_fs := (k_fs ?s4)\<lparr>heap := hp, files := (files (k_fs ?s4))(fst f := opened (k_fs s) n 0, fst g := opened (k_fs s) n 0,
          fst h := opened (k_fs s) n 0)\<rparr>\<rparr>))"
    "kstock hp k" "blocks hp = {f, g, h} \<union> blks (k_fs ?s4)" "fst ` {f, g, h} \<inter> in_use (k_fs ?s4) = {}" "distinct (map fst [f, g, h])"
    by (rule console_run [OF con4 st4, unfolded F]) blast
  let ?s5 = "upd_task t (\<lambda>x. x\<lparr>fd_table := (fd_table x)[0 := Some (fst f), Suc 0 := Some (fst g), 2 := Some (fst h)]\<rparr>)
        (?s4\<lparr>k_fs := (k_fs ?s4)\<lparr>heap := hp, files := (files (k_fs ?s4))(fst f := opened (k_fs s) n 0, fst g := opened (k_fs s) n 0,
          fst h := opened (k_fs s) n 0)\<rparr>\<rparr>)"
  have s5: "?s5 = created md n s t (fst u) a (fst f, fst g, fst h) hp func"
    by (simp add: created_def fresh_task_def upd_task_def three_fds Let_def del: replicate.simps)
  have "int_check (int ?p + 1) = Inr (int ?p + 1)" using pid by (simp add: int_check_def)
  then have "task_create func md s = rbind (on_sched (enqueue_run t) ?s5) (\<lambda>s. Inr (t, s))"
    using 1(1) 2(1) 3(1) 4(1) by (simp add: task_create_def on_fs_def Let_def cong: if_cong)
  then show thesis unfolding s5
    by (rule that [of "(t, lt)" u "(a, la)", unfolded fst_conv])
      (use 1(3,4) 2(3,4) 3(3-5) 4(2-5) b3 in \<open>auto simp: in_use_def\<close>)
qed

section \<open>The state of all tasks\<close>

text \<open>The queues are well formed and hold task structures in use.\<close>

definition kernel_ok :: "kernel \<Rightarrow> addr \<Rightarrow> addr list \<Rightarrow> addr list \<Rightarrow> addr list \<Rightarrow> bool" where
  "kernel_ok s c rq zq tq \<longleftrightarrow> sched_ok (k_sched s) c rq zq tq \<and> set (c # rq @ zq @ tq) \<subseteq> in_use (k_fs s)"

lemma kernel_okD:
  assumes "kernel_ok s c rq zq tq"
  shows "sched_ok (k_sched s) c rq zq tq" and "set (c # rq @ zq @ tq) \<subseteq> in_use (k_fs s)" and "get_current s = Inr c"
    and "c \<in> in_use (k_fs s)"
  using assms sched_okD(1) by (auto simp: kernel_ok_def get_current_def)

lemma sched_unused:
  assumes "sched_ok s c rq zq tq" and "t \<notin> set (c # rq @ zq @ tq)"
  shows "unused t s"
proof -
  have "\<not> on_queue (tasks s) q t" if c: "chain (nexts (tasks s)) q as" and "t \<notin> set as" for q as
    using chain_unique [OF c] that(2) by (auto simp: on_queue_def)
  then show ?thesis using sched_okD(1-4) [OF assms(1)] assms(2) by (simp add: unused_def)
qed

text \<open>What the rest of the kernel sees of a new task: \<open>ts\<close> are the blocks it takes.\<close>

definition has_new_task ::
    "code option \<Rightarrow> tmode \<Rightarrow> addr \<Rightarrow> kernel \<Rightarrow> (addr \<times> nat) \<Rightarrow> (addr \<times> nat) \<Rightarrow> (addr \<times> nat) \<Rightarrow> (addr \<times> nat) list \<Rightarrow> kernel \<Rightarrow> bool" where
  "has_new_task func md n s t u a fs s' \<longleftrightarrow>
     (let bs = t # a # fs @ (if md = USER then [u] else []) in
      distinct (map fst bs) \<and> fst ` set bs \<inter> in_use (k_fs s) = {} \<and> blks (k_fs s') = set bs \<union> blks (k_fs s)) \<and>
     THREAD_SP_SIZE \<le> snd a \<and> (md = USER \<longrightarrow> THREAD_SP_SIZE \<le> snd u) \<and>
     (\<forall>f \<in> set fs. files (k_fs s') (fst f) = opened (k_fs s) n 0) \<and>
     pid (k_sched s') = Suc (pid (k_sched s)) \<and>
     task_of s' (fst t) = fresh_task func md (pid (k_sched s)) (fst u) (fst a) (map fst fs) (task_of s (fst t)) \<and>
     (\<forall>x. x \<noteq> fst t \<longrightarrow> task_of s' x = (task_of s x)\<lparr>t_next := t_next (task_of s' x)\<rparr>) \<and>
     bytes (k_fs s') = bytes (k_fs s) \<and> frames s' = frames s"

lemma has_new_taskD:
  assumes "has_new_task func md n s t u a fs s'"
  shows "task_of s' (fst t) = fresh_task func md (pid (k_sched s)) (fst u) (fst a) (map fst fs) (task_of s (fst t))"
    and "pid (k_sched s') = Suc (pid (k_sched s))" and "bytes (k_fs s') = bytes (k_fs s)" and "frames s' = frames s"
    and "x \<noteq> fst t \<Longrightarrow> task_of s' x = (task_of s x)\<lparr>t_next := t_next (task_of s' x)\<rparr>"
    and "f \<in> set fs \<Longrightarrow> files (k_fs s') (fst f) = opened (k_fs s) n 0"
    and "blks (k_fs s') = set (t # a # fs @ (if md = USER then [u] else [])) \<union> blks (k_fs s)"
    and "fst ` set (t # a # fs @ (if md = USER then [u] else [])) \<inter> in_use (k_fs s) = {}"
    and "distinct (map fst (t # a # fs @ (if md = USER then [u] else [])))"
    and "THREAD_SP_SIZE \<le> snd a" and "md = USER \<Longrightarrow> THREAD_SP_SIZE \<le> snd u"
  using assms unfolding has_new_task_def Let_def by (elim conjE; blast)+

lemma has_new_task_use:
  assumes "has_new_task func md n s t u a fs s'"
  shows "fst t \<in> in_use (k_fs s')" and "fst t \<notin> in_use (k_fs s)" and "in_use (k_fs s) \<subseteq> in_use (k_fs s')"
  using has_new_taskD(7,8) [OF assms] by (auto simp: in_use_def)

lemma task_create_chain:
  assumes ch: "chain (nexts (tasks (k_sched s))) (run_queue (k_sched s)) rq" "set rq \<subseteq> in_use (k_fs s)"
    and con: "leads_to (k_fs s) uart_path n"
    and st: "kstock (heap (k_fs s)) (Suc (Suc (Suc (Suc (Suc (Suc k))))))" and pid: "pid (k_sched s) < 2 ^ 31 - 1"
  shows "\<exists>t u a f g h s' new. task_create func md s = Inr (fst t, s') \<and>
    enqueue_run (fst t) ((k_sched s)\<lparr>tasks := (tasks (k_sched s))(fst t := new), pid := Suc (pid (k_sched s))\<rparr>) = Inr (k_sched s') \<and>
    chain (nexts (tasks (k_sched s'))) (run_queue (k_sched s')) (rq @ [fst t]) \<and>
    has_new_task func md n s t u a [f, g, h] s' \<and> kstock (heap (k_fs s')) k \<and>
    s' = s\<lparr>k_fs := k_fs s', k_sched := k_sched s'\<rparr> \<and> same_tree (k_fs s) (k_fs s')"
proof -
  obtain t u a f g h hp where c: "task_create func md s =
      rbind (on_sched (enqueue_run (fst t)) (created md n s (fst t) (fst u) (fst a) (fst f, fst g, fst h) hp func)) (\<lambda>s. Inr (fst t, s))"
    and fr: "fst ` ({t, a, f, g, h} \<union> (if md = USER then {u} else {})) \<inter> in_use (k_fs s) = {}"
    and di: "distinct (map fst ([t, a, f, g, h] @ (if md = USER then [u] else [])))"
    and hp: "blocks hp = {t, a, f, g, h} \<union> (if md = USER then {u} else {}) \<union> blks (k_fs s)" "kstock hp k"
    and sz: "THREAD_SP_SIZE \<le> snd a" "md = USER \<Longrightarrow> THREAD_SP_SIZE \<le> snd u"
    by (rule task_create_start [OF con st pid, where md = md and func = func]) blast
  let ?s = "created md n s (fst t) (fst u) (fst a) (fst f, fst g, fst h) hp func"
  let ?T = "fresh_task func md (pid (k_sched s)) (fst u) (fst a) [fst f, fst g, fst h] (tasks (k_sched s) (fst t))"
  have k: "k_sched ?s = (k_sched s)\<lparr>tasks := (tasks (k_sched s))(fst t := ?T), pid := Suc (pid (k_sched s))\<rparr>"
    by (simp add: created_def)
  have t: "fst t \<notin> set rq" using ch(2) fr by blast
  have "chain (nexts (tasks (k_sched ?s))) p rq \<longleftrightarrow> chain (nexts (tasks (k_sched s))) p rq" for p
    by (rule chain_cong) (use t in \<open>auto simp: k\<close>)
  then have "chain (nexts (tasks (k_sched ?s))) (run_queue (k_sched ?s)) rq"
    using ch(1) by (simp add: k del: fun_upd_apply)
  then obtain q where q: "enqueue_run (fst t) (k_sched ?s) = Inr q" "only_next (insert (fst t) (set rq)) (tasks (k_sched ?s)) (tasks q)"
    "chain (nexts (tasks q)) (run_queue q) (rq @ [fst t])" "q = (k_sched ?s)\<lparr>run_queue := run_queue q, tasks := tasks q\<rparr>"
    using enqueue_run_chain [OF _ t] by blast
  let ?s' = "?s\<lparr>k_sched := q\<rparr>"
  have run: "task_create func md s = Inr (fst t, ?s')" using c q(1) by (simp add: on_sched_def)
  have n: "tasks q x = (tasks (k_sched ?s) x)\<lparr>t_next := t_next (tasks q x)\<rparr>" for x
    using q(2) unfolding only_next_def by blast
  have "t_next (tasks q (fst t)) = None" using q(3) by (auto simp: chain_append)
  then have T: "tasks q (fst t) = ?T" using n [of "fst t"] by (simp add: k fresh_task_def Let_def split: if_splits)
  have others: "\<forall>x. x \<noteq> fst t \<longrightarrow> tasks q x = (tasks (k_sched s) x)\<lparr>t_next := t_next (tasks q x)\<rparr>"
  proof (intro allI impI)
    fix x assume "x \<noteq> fst t"
    then have "tasks (k_sched ?s) x = tasks (k_sched s) x" by (simp add: k)
    then show "tasks q x = (tasks (k_sched s) x)\<lparr>t_next := t_next (tasks q x)\<rparr>" using n [of x] by (simp only:)
  qed
  have pq: "pid q = Suc (pid (k_sched s))" by (subst q(4)) (simp add: k)
  have sch: "k_sched ?s' = q" by simp
  have fs: "fst ` set (t # a # [f, g, h] @ (if md = USER then [u] else [])) \<inter> in_use (k_fs s) = {}"
    using fr by (simp add: Un_ac(3) split: if_splits)
  have "has_new_task func md n s t u a [f, g, h] ?s'"
    unfolding has_new_task_def Let_def task_of_def sch
    by (intro conjI others pq fs)
      (use di hp(1) sz T in \<open>auto simp: created_def\<close>)
  moreover have "same_tree (k_fs s) (k_fs ?s')" "kstock (heap (k_fs ?s')) k"
    using hp by (auto simp: same_tree_def created_def in_use_def)
  moreover have "?s' = s\<lparr>k_fs := k_fs ?s', k_sched := k_sched ?s'\<rparr>" by (simp add: created_def)
  moreover have "enqueue_run (fst t) ((k_sched s)\<lparr>tasks := (tasks (k_sched s))(fst t := ?T), pid := Suc (pid (k_sched s))\<rparr>) = Inr (k_sched ?s')"
    using q(1) k by simp
  moreover have "chain (nexts (tasks (k_sched ?s'))) (run_queue (k_sched ?s')) (rq @ [fst t])" using q(3) by simp
  ultimately show ?thesis using run by blast
qed

lemma task_create_run:
  assumes ok: "kernel_ok s c rq zq tq" and con: "leads_to (k_fs s) uart_path n"
    and st: "kstock (heap (k_fs s)) (Suc (Suc (Suc (Suc (Suc (Suc k))))))" and pid: "pid (k_sched s) < 2 ^ 31 - 1"
  shows "\<exists>t u a f g h s'. task_create func md s = Inr (fst t, s') \<and> kernel_ok s' c (rq @ [fst t]) zq tq \<and>
    has_new_task func md n s t u a [f, g, h] s' \<and> kstock (heap (k_fs s')) k \<and>
    s' = s\<lparr>k_fs := k_fs s', k_sched := k_sched s'\<rparr> \<and> same_tree (k_fs s) (k_fs s')"
proof -
  note D = kernel_okD [OF ok]
  have rq: "set rq \<subseteq> in_use (k_fs s)" using D(2) by auto
  obtain t u a f g h s' new where c: "task_create func md s = Inr (fst t, s')"
    "enqueue_run (fst t) ((k_sched s)\<lparr>tasks := (tasks (k_sched s))(fst t := new), pid := Suc (pid (k_sched s))\<rparr>) = Inr (k_sched s')"
    "has_new_task func md n s t u a [f, g, h] s'" "kstock (heap (k_fs s')) k"
    "s' = s\<lparr>k_fs := k_fs s', k_sched := k_sched s'\<rparr>" "same_tree (k_fs s) (k_fs s')"
    using task_create_chain [OF sched_okD(2) [OF D(1)] rq con st pid, of func md] by blast
  have b: "fst t \<notin> in_use (k_fs s)" "fst t \<in> in_use (k_fs s')" "in_use (k_fs s) \<subseteq> in_use (k_fs s')"
    using c(3) same_treeD(1) [OF c(6)] by (auto simp: has_new_task_def in_use_def Let_def)
  then have "fst t \<notin> set (c # rq @ zq @ tq)" using D(2) by blast
  then have "sched_ok (k_sched s') c (rq @ [fst t]) zq tq"
    using create_wf [OF D(1) sched_unused [OF D(1)] c(2)] by blast
  then have "kernel_ok s' c (rq @ [fst t]) zq tq" using D(2) b by (auto simp: kernel_ok_def)
  then show ?thesis using c by blast
qed

end
