(* ===== verification/BootProps.thy ===== *)
theory BootProps
  imports MountClaims TaskProps
begin

text \<open>
  The mounts of \<open>main\<close>: what each adds to the tree, and that it keeps what the earlier ones made.
\<close>

section \<open>Steps that keep the rest of the tree\<close>

text \<open>Of what was in use only the component \<open>d\<close> and its array may differ.\<close>

definition grows :: "addr \<Rightarrow> vfs \<Rightarrow> vfs \<Rightarrow> bool" where
  "grows d s s' \<longleftrightarrow> in_use s \<subseteq> in_use s' \<and>
     (\<forall>a \<in> in_use s. vnodes s' a = vnodes s a \<and> (a \<noteq> d \<longrightarrow> comps s' a = comps s a) \<and>
       (c_union (comps s d) \<noteq> Some a \<longrightarrow> entry_at s' a = entry_at s a) \<and>
       fop_table s' a = fop_table s a \<and> vop_table s' a = vop_table s a \<and> mounts s' a = mounts s a) \<and>
     rootfs s' = rootfs s \<and> bytes s' = bytes s"

lemma growsD:
  assumes "grows d s s'" and "a \<in> in_use s"
  shows "a \<in> in_use s'" and "vnodes s' a = vnodes s a" and "a \<noteq> d \<Longrightarrow> comps s' a = comps s a"
    and "c_union (comps s d) \<noteq> Some a \<Longrightarrow> entry_at s' a = entry_at s a" and "fop_table s' a = fop_table s a"
    and "vop_table s' a = vop_table s a" and "mounts s' a = mounts s a"
  using assms unfolding grows_def by blast+

lemma dir_ok_keep:
  assumes ok: "dir_ok s d" and use: "in_use s \<subseteq> in_use s'" and c: "comps s' d = comps s d" and e: "entries_of s' d = entries_of s d"
    and n: "\<And>x. x \<in> set (entries_of s d) \<Longrightarrow> component (vnodes s' x) = component (vnodes s x)"
  shows "dir_ok s' d"
proof -
  note D = dir_okD [OF ok]
  have "x \<in> in_use s' \<and> (\<exists>b \<in> in_use s'. component (vnodes s' x) = Some b)" if x: "x \<in> set (entries_of s d)" for x
    using D(6,7) [OF x] use n [OF x] by auto
  then show ?thesis using c e D(1-5) use unfolding dir_ok_def by (auto split: option.splits)
qed

lemma grows_dir:
  assumes g: "grows d s s'" and d': "dir_ok s d'" "d' \<noteq> d" and ar: "\<forall>e. c_union (comps s d') = Some e \<longrightarrow> c_union (comps s d) \<noteq> Some e"
    and names: "\<And>e c. e \<in> set (entries_of s d') \<Longrightarrow> component (vnodes s e) = Some c \<Longrightarrow> c \<noteq> d"
  shows "entries_of s' d' = entries_of s d'" and "dir_view s' d' = dir_view s d'" and "dir_ok s' d'"
proof -
  note D = dir_okD [OF d'(1)]
  have c: "comps s' d' = comps s d'" by (rule growsD(3) [OF g D(3) d'(2)])
  show e: "entries_of s' d' = entries_of s d'"
  proof (cases "c_union (comps s d')")
    case (Some x)
    then have "entry_at s' x = entry_at s x" using growsD(4) [OF g D(5)] ar by blast
    then show ?thesis using c Some by (simp add: entries_of_def)
  qed (simp add: entries_of_def c)
  have n: "component (vnodes s' x) = component (vnodes s x)" "node_name s' x = node_name s x" if x: "x \<in> set (entries_of s d')" for x
  proof -
    show v: "component (vnodes s' x) = component (vnodes s x)" using growsD(2) [OF g D(6) [OF x]] by simp
    obtain b where b: "b \<in> in_use s" "component (vnodes s x) = Some b" using D(7) [OF x] by blast
    then have "comps s' b = comps s b" using growsD(3) [OF g b(1)] names [OF x b(2)] by blast
    then show "node_name s' x = node_name s x" using v b(2) by (simp add: node_name_def)
  qed
  then show "dir_view s' d' = dir_view s d'" by (simp add: dir_view_def e)
  have "in_use s \<subseteq> in_use s'" using growsD(1) [OF g] by blast
  then show "dir_ok s' d'" by (rule dir_ok_keep [OF d'(1) _ c e n(1)])
qed

section \<open>The root directory\<close>

definition tree_root :: "vfs \<Rightarrow> addr \<Rightarrow> addr \<Rightarrow> addr \<Rightarrow> bool" where
  "tree_root s m r d \<longleftrightarrow> rootfs s = Some m \<and> m \<in> in_use s \<and> m_root (mounts s m) = Some r \<and> component (vnodes s r) = Some d \<and>
     v_mount (vnodes s r) = None \<and> r \<in> in_use s \<and> dir_ok s d \<and> v_ops (vnodes s r) \<in> in_use s \<and>
     vop_table s (v_ops (vnodes s r)) = Tmpfs"

lemma tree_rootD:
  assumes "tree_root s m r d"
  shows "fs_root s = Inr r" and "component (vnodes s r) = Some d" and "v_mount (vnodes s r) = None" and "r \<in> in_use s"
    and "dir_ok s d" and "vop_table s (v_ops (vnodes s r)) = Tmpfs" and "m \<in> in_use s" and "v_ops (vnodes s r) \<in> in_use s"
    and "rootfs s = Some m" and "m_root (mounts s m) = Some r"
  using assms by (simp_all add: tree_root_def fs_root_def)

lemma grows_root: "grows d s s' \<Longrightarrow> tree_root s m r d \<Longrightarrow> dir_ok s' d \<Longrightarrow> tree_root s' m r d"
proof -
  assume g: "grows d s s'" and r: "tree_root s m r d" and ok: "dir_ok s' d"
  note D = tree_rootD [OF r]
  show "tree_root s' m r d"
    unfolding tree_root_def growsD(2) [OF g D(4)] growsD(6) [OF g D(8)] growsD(7) [OF g D(7)]
    using D growsD(1) [OF g] g ok by (simp add: grows_def)
qed

lemma extends_grows:
  assumes "extends d s s'"
  shows "grows d s s'"
proof -
  note x = extendsD [OF assms]
  show ?thesis unfolding grows_def by (simp add: x(1-9) x(10) subsetI)
qed

text \<open>The first lookup and the creation of a name that the root does not have.\<close>

lemma vfs_lookup_root:
  assumes "tree_root s m r d" and "proper nm"
  shows "vfs_lookup (render [nm]) None s =
    (case map_of (dir_view s d) nm of None \<Rightarrow> Inr (-1, None) | Some e \<Rightarrow> Inr (0, mount_target s e))"
proof -
  note D = tree_rootD [OF assms(1)]
  have "lookup_path 0 (render [nm]) r None 0 s = Some (Inr (
      (case map_of (dir_view s d) nm of None \<Rightarrow> (-1, None) | Some e \<Rightarrow> (0, mount_target s e)), s))"
    using components_of [OF assms(2) _ skip_slash_render, of "[]"] D(2,3) dir_okD(1) [OF D(5)] tmpfs_lookup_run [OF D(2,5)]
    by (subst lookup_path.simps) (simp add: comp_of_def rest_of_def del: render_simps split: option.split)
  moreover have "render [nm] \<noteq> [SLASH]" using assms(2) by (simp add: proper_def)
  ultimately show ?thesis using D(1) by (simp add: vfs_lookup_def del: render_simps split: option.split)
qed

lemma vfs_mkdir_root:
  assumes root: "tree_root s m r d" and nm: "proper nm" "length nm < NAME_LEN" "map_of (dir_view s d) nm = None"
    and room: "c_len (comps s d) < TMPFS_MAX_ENTRY" and st: "kstock (heap s) (Suc (Suc (Suc (Suc k))))"
  obtains node s' where "vfs_mkdir 0 (render [nm]) s = Inr (0, s')" and "node \<notin> in_use s" and "node \<in> in_use s'"
    and "v_mount (vnodes s' node) = None" and "extends d s s'" and "tree_root s' m r d"
    and "dir_view s' d = dir_view s d @ [(nm, node)]" and "kstock (heap s') k"
proof -
  note D = tree_rootD [OF root]
  obtain node c s' where n: "tmpfs_mkdir r None nm s = Inr ((0, Some node), s')" "node \<in> in_use s'" "kstock (heap s') k"
    "extends d s s'" "dir_ok s' d" "dir_view s' d = dir_view s d @ [(nm, node)]" "v_mount (vnodes s' node) = None" "node \<notin> in_use s"
    using tmpfs_mkdir_new [OF D(2,4,5) st nm(2,3) room, of None] by blast
  have len: "length (render [nm]) < TMPFS_MAX_PATH_LEN" using nm(2) by (simp add: NAME_LEN_def TMPFS_MAX_PATH_LEN_def)
  have "lookup_path 0 (render [nm]) r None 1 s = Some (mkdir_all [[], nm] (Some r) None s)"
    using lookup_path_create [OF nm(1) _ skip_slash_render D(3,2) dir_okD(1) [OF D(5)], of "[]" 0 None]
      create_path_render [of "[nm]" 0 r None s] nm(1) len by simp
  then have "vfs_mkdir 0 (render [nm]) s = Inr (0, s')"
    using vfs_lookup_root [OF root nm(1)] nm(1,3) D(1,6) n(1)
    by (simp add: vfs_mkdir_def v_mkdir_def proper_def del: render_simps)
  moreover have "tree_root s' m r d" by (rule grows_root [OF extends_grows [OF n(4)] root n(5)])
  ultimately show thesis using that n by blast
qed

section \<open>Mount structures\<close>

lemma new_mount_run:
  assumes st: "kstock (heap s) (Suc (Suc (Suc k)))" and name: "length name < NAME_LEN" and at: "\<And>m s. heap (attach m s) = heap s"
  obtains m f h1 h2 where "new_mount attach name s = Inr ((m, f), upd_fs f (\<lambda>x. x\<lparr>fs_name := name\<rparr>)
      (upd_mount m (\<lambda>x. x\<lparr>m_fs := f\<rparr>) (attach m (s\<lparr>heap := h1\<rparr>))\<lparr>heap := h2\<rparr>))"
    and "m \<notin> in_use s" and "kstock h2 k" and "insert m (in_use s) \<subseteq> fst ` blocks h2"
proof -
  obtain m h1 where 1: "alloc SIZEOF_mount s = Inr (m, s\<lparr>heap := h1\<rparr>)" "kstock h1 (Suc (Suc k))" "m \<notin> in_use s"
    "fst ` blocks h1 = insert m (in_use s)"
    by (rule alloc_stock [OF st, of SIZEOF_mount]) (simp_all add: SIZEOF_mount_def)
  let ?s1 = "attach m (s\<lparr>heap := h1\<rparr>)"
  have st1: "kstock (heap ?s1) (Suc (Suc k))" using 1(2) at by simp
  obtain f h2 where 2: "alloc SIZEOF_filesystem ?s1 = Inr (f, ?s1\<lparr>heap := h2\<rparr>)" "kstock h2 (Suc k)"
    "fst ` blocks h2 = insert f (in_use ?s1)"
    by (rule alloc_stock [OF st1, of SIZEOF_filesystem]) (simp_all add: SIZEOF_filesystem_def)
  let ?s2 = "upd_mount m (\<lambda>x. x\<lparr>m_fs := f\<rparr>) (?s1\<lparr>heap := h2\<rparr>)"
  have st2: "kstock (heap ?s2) (Suc k)" using 2(2) by (simp add: upd_mount_def)
  obtain x h3 where 3: "alloc NAME_LEN ?s2 = Inr (x, ?s2\<lparr>heap := h3\<rparr>)" "kstock h3 k" "fst ` blocks h3 = insert x (in_use ?s2)"
    by (rule alloc_stock [OF st2, of NAME_LEN]) (simp_all add: NAME_LEN_def)
  have "?s2\<lparr>heap := h3\<rparr> = upd_mount m (\<lambda>x. x\<lparr>m_fs := f\<rparr>) ?s1\<lparr>heap := h3\<rparr>" by (simp add: upd_mount_def)
  then have run: "new_mount attach name s = Inr ((m, f), upd_fs f (\<lambda>x. x\<lparr>fs_name := name\<rparr>)
      (upd_mount m (\<lambda>x. x\<lparr>m_fs := f\<rparr>) ?s1\<lparr>heap := h3\<rparr>))"
    using 1(1) 2(1) 3(1) name by (simp add: new_mount_def fit_def)
  have "insert m (in_use s) \<subseteq> fst ` blocks h3"
    using 1(4) 2(3) 3(3) at by (auto simp: in_use_def upd_mount_def)
  then show thesis by (rule that [OF run 1(3) 3(2)])
qed

text \<open>A new directory of the root up to the file system that is set up on it.\<close>

lemma mount_kind_run:
  assumes root: "tree_root s m0 r d" and nm: "proper nm" "length nm < NAME_LEN" "map_of (dir_view s d) nm = None"
    and room: "c_len (comps s d) < TMPFS_MAX_ENTRY" and st: "kstock (heap s) (Suc (Suc (Suc (Suc (Suc (Suc (Suc k)))))))"
    and name: "length name < NAME_LEN"
  obtains node m s' where "mount_kind junk i0 0 place kd (render [nm]) name s = run_setup junk i0 place kd m s'"
    and "node \<notin> in_use s" and "node \<in> in_use s'" and "m \<notin> in_use s" and "m \<in> in_use s'" and "v_mount (vnodes s' node) = Some m"
    and "grows d s s'" and "tree_root s' m0 r d" and "dir_view s' d = dir_view s d @ [(nm, node)]" and "kstock (heap s') k"
    and "mounted s' = mounted s"
proof -
  have st4: "kstock (heap s) (Suc (Suc (Suc (Suc (Suc (Suc (Suc k)))))))" by (rule st)
  obtain node s1 where 1: "vfs_mkdir 0 (render [nm]) s = Inr (0, s1)" "node \<notin> in_use s" "node \<in> in_use s1"
    "v_mount (vnodes s1 node) = None" "extends d s s1" "tree_root s1 m0 r d" "dir_view s1 d = dir_view s d @ [(nm, node)]"
    "kstock (heap s1) (Suc (Suc (Suc k)))"
    by (rule vfs_mkdir_root [OF root nm room st])
  have "mount_target s1 node = Some node" using 1(4) by (simp add: mount_target_def)
  then have lk: "vfs_lookup (render [nm]) None s1 = Inr (0, Some node)"
    using vfs_lookup_root [OF 1(6) nm(1)] 1(7) nm(3) by (simp add: map_add_def)
  obtain m f h1 h2 where 2: "new_mount (mount_on node) name s1 = Inr ((m, f), upd_fs f (\<lambda>x. x\<lparr>fs_name := name\<rparr>)
      (upd_mount m (\<lambda>x. x\<lparr>m_fs := f\<rparr>) (mount_on node m (s1\<lparr>heap := h1\<rparr>))\<lparr>heap := h2\<rparr>))"
    "m \<notin> in_use s1" "kstock h2 k" "insert m (in_use s1) \<subseteq> fst ` blocks h2"
    by (rule new_mount_run [where attach = "mount_on node", OF 1(8) name]) (simp_all add: mount_on_def upd_vnode_def)
  define s2 where "s2 = upd_fs f (\<lambda>x. x\<lparr>setup_mount := Some kd\<rparr>) (upd_fs f (\<lambda>x. x\<lparr>fs_name := name\<rparr>)
      (upd_mount m (\<lambda>x. x\<lparr>m_fs := f\<rparr>) (mount_on node m (s1\<lparr>heap := h1\<rparr>))\<lparr>heap := h2\<rparr>))"
  have f: "heap s2 = h2" "vnodes s2 = (vnodes s1)(node := (vnodes s1 node)\<lparr>v_mount := Some m\<rparr>)" "comps s2 = comps s1"
    "entry_at s2 = entry_at s1" "fop_table s2 = fop_table s1" "vop_table s2 = vop_table s1" "rootfs s2 = rootfs s1"
    "bytes s2 = bytes s1" "\<And>x. x \<noteq> m \<Longrightarrow> mounts s2 x = mounts s1 x" "mounted s2 = mounted s1"
    by (simp_all add: s2_def upd_fs_def upd_mount_def mount_on_def upd_vnode_def)
  have use: "in_use s2 = fst ` blocks h2" by (simp add: in_use_def f(1))
  have run: "mount_kind junk i0 0 place kd (render [nm]) name s = run_setup junk i0 place kd m s2"
    using 1(1) lk 2(1) by (simp add: mount_kind_def s2_def del: render_simps)
  have view: "dir_view s2 d = dir_view s1 d"
    unfolding dir_view_def entries_of_def node_name_def [abs_def] f(2-4) by (auto split: option.splits)
  then have ent: "entries_of s2 d = entries_of s1 d" by (simp add: entries_dir_view)
  have ok: "dir_ok s2 d"
    by (rule dir_ok_keep [OF tree_rootD(5) [OF 1(6)] _ _ ent]) (use 2(4) f(2,3) in \<open>auto simp: use\<close>)
  note g = growsD [OF extends_grows [OF 1(5)]]
  have "m \<notin> in_use s" using 2(2) g(1) by blast
  have "grows d s s2"
    unfolding grows_def f(2-8)
  proof (intro conjI ballI impI)
    show "in_use s \<subseteq> in_use s2" using g(1) 2(4) use by blast
    fix a assume a: "a \<in> in_use s"
    then have "a \<noteq> node" "a \<noteq> m" using 1(2) \<open>m \<notin> in_use s\<close> by blast+
    then show "((vnodes s1)(node := (vnodes s1 node)\<lparr>v_mount := Some m\<rparr>)) a = vnodes s a" "mounts s2 a = mounts s a"
      using g(2,7) [OF a] f(9) by simp_all
  qed (use g extends_grows [OF 1(5)] in \<open>simp_all add: grows_def\<close>)
  moreover have "tree_root s2 m0 r d" by (rule grows_root [OF calculation root ok])
  moreover have "mounted s2 = mounted s" using extendsD(5) [OF 1(5)] f(10) by simp
  ultimately show thesis
    using that [OF run 1(2)] \<open>m \<notin> in_use s\<close> use 2(3,4) 1(3,7) f(1,2) view by auto
qed

section \<open>Mounted directories\<close>

definition plain_files :: "vfs \<Rightarrow> addr \<Rightarrow> bool" where
  "plain_files s d \<longleftrightarrow> (\<forall>n \<in> set (entries_of s d). v_mount (vnodes s n) = None \<and>
     (\<exists>c. component (vnodes s n) = Some c \<and> c_type (comps s c) = COMP_FILE))"

text \<open>A file system set up on the mount \<open>m\<close>: a new root \<open>r\<close> with the directory \<open>d\<close> of files.\<close>

definition sets_up :: "addr \<Rightarrow> vfs \<Rightarrow> vfs \<Rightarrow> addr \<Rightarrow> addr \<Rightarrow> bool" where
  "sets_up m s s' r d \<longleftrightarrow> adds m s s' \<and> m_root (mounts s' m) = Some r \<and> component (vnodes s' r) = Some d \<and>
     v_mount (vnodes s' r) = None \<and> r \<in> in_use s' \<and> d \<notin> in_use s \<and> dir_ok s' d \<and> plain_files s' d \<and>
     (\<forall>e \<in> in_use s. c_union (comps s' d) \<noteq> Some e)"

text \<open>The entry \<open>n\<close> with the mount \<open>m\<close>, whose root \<open>r\<close> is such a directory.\<close>

definition mounted_dir :: "vfs \<Rightarrow> addr \<Rightarrow> addr \<Rightarrow> addr \<Rightarrow> addr \<Rightarrow> bool" where
  "mounted_dir s n m r d \<longleftrightarrow> n \<in> in_use s \<and> m \<in> in_use s \<and> r \<in> in_use s \<and> v_mount (vnodes s n) = Some m \<and>
     m_root (mounts s m) = Some r \<and> component (vnodes s r) = Some d \<and> v_mount (vnodes s r) = None \<and> dir_ok s d \<and> plain_files s d"

lemma mounted_dirD:
  assumes "mounted_dir s n m r d"
  shows "n \<in> in_use s" and "m \<in> in_use s" and "r \<in> in_use s" and "v_mount (vnodes s n) = Some m"
    and "m_root (mounts s m) = Some r" and "component (vnodes s r) = Some d" and "v_mount (vnodes s r) = None"
    and "dir_ok s d" and "plain_files s d" and "mount_target s n = Some r"
  using assms by (simp_all add: mounted_dir_def mount_target_def)

definition separate :: "vfs \<Rightarrow> addr \<Rightarrow> addr \<Rightarrow> bool" where
  "separate s d d' \<longleftrightarrow> d \<noteq> d' \<and> (\<forall>e. c_union (comps s d) = Some e \<longrightarrow> c_union (comps s d') \<noteq> Some e)"

lemma mounted_new:
  assumes g: "grows d0 s s2" and n: "n \<notin> in_use s" "n \<in> in_use s2" and m: "m \<notin> in_use s" "m \<in> in_use s2"
    and nm: "v_mount (vnodes s2 n) = Some m" and root0: "tree_root s m0 r0 d0" and root: "tree_root s2 m0 r0 d0" and up: "sets_up m s2 s3 r d"
  shows "grows d0 s s3" and "tree_root s3 m0 r0 d0" and "dir_view s3 d0 = dir_view s2 d0" and "mounted_dir s3 n m r d"
    and "separate s3 d d0"
proof -
  have a: "adds m s2 s3" using up by (simp add: sets_up_def)
  note x = addsD [OF a] and R = tree_rootD [OF root] and D = dir_okD [OF tree_rootD(5) [OF root]]
  have ent: "entries_of s3 d0 = entries_of s2 d0"
    using x(3) [OF D(3)] x(4) D(5) by (auto simp: entries_of_def split: option.split)
  have nn: "node_name s3 e = node_name s2 e" if e: "e \<in> set (entries_of s2 d0)" for e
  proof -
    obtain b where "b \<in> in_use s2" "component (vnodes s2 e) = Some b" using D(7) [OF e] by blast
    then show ?thesis using x(2) [OF D(6) [OF e]] x(3) by (simp add: node_name_def)
  qed
  show view: "dir_view s3 d0 = dir_view s2 d0" using nn by (simp add: dir_view_def ent)
  have ok: "dir_ok s3 d0"
    by (rule dir_ok_keep [OF R(5) _ x(3) [OF D(3)] ent]) (use x(1,2) D(6) in auto)
  show gr: "grows d0 s s3"
    unfolding grows_def
  proof (intro conjI ballI impI subsetI)
    fix a assume a: "a \<in> in_use s"
    note y = growsD [OF g a]
    have "a \<noteq> m" using a m(1) by blast
    then show "a \<in> in_use s3" "vnodes s3 a = vnodes s a" "a \<noteq> d0 \<Longrightarrow> comps s3 a = comps s a"
      "c_union (comps s d0) \<noteq> Some a \<Longrightarrow> entry_at s3 a = entry_at s a" "fop_table s3 a = fop_table s a"
      "vop_table s3 a = vop_table s a" "mounts s3 a = mounts s a"
      using y x(1-7) [OF y(1)] by simp_all
  qed (use x(8,9) g in \<open>simp_all add: grows_def\<close>)
  show "tree_root s3 m0 r0 d0" by (rule grows_root [OF gr root0 ok])
  show "mounted_dir s3 n m r d"
    using up x(1,2) n(2) m(2) nm by (simp add: sets_up_def mounted_dir_def)
  have "d \<noteq> d0" using up D(3) by (auto simp: sets_up_def)
  then show "separate s3 d d0"
    using up x(3) [OF D(3)] D(5) by (auto simp: sets_up_def separate_def)
qed

lemma mounted_grows:
  assumes g: "grows d0 s s'" and md: "mounted_dir s n m r d" and ap: "separate s d d0" and d0: "c_type (comps s d0) = COMP_DIR"
  shows "mounted_dir s' n m r d" and "dir_view s' d = dir_view s d"
    and "\<And>e c. e \<in> set (entries_of s d) \<Longrightarrow> component (vnodes s e) = Some c \<Longrightarrow>
      vnodes s' e = vnodes s e \<and> comps s' c = comps s c"
proof -
  note M = mounted_dirD [OF md] and D = dir_okD [OF mounted_dirD(8) [OF md]]
  have nd: "c \<noteq> d0" if "e \<in> set (entries_of s d)" "component (vnodes s e) = Some c" for e c
    using M(9) that d0 by (auto simp: plain_files_def)
  note dir = grows_dir [OF g M(8) _ _ nd]
  have d: "entries_of s' d = entries_of s d" "dir_view s' d = dir_view s d" "dir_ok s' d"
    using dir ap by (auto simp: separate_def)
  show "dir_view s' d = dir_view s d" by (rule d(2))
  show keep: "vnodes s' e = vnodes s e \<and> comps s' c = comps s c" if e: "e \<in> set (entries_of s d)" "component (vnodes s e) = Some c" for e c
  proof -
    have "c \<in> in_use s" using D(7) [OF e(1)] e(2) by auto
    then show ?thesis using growsD(2) [OF g D(6) [OF e(1)]] growsD(3) [OF g _ nd [OF e]] by simp
  qed
  have "plain_files s' d"
    unfolding plain_files_def d(1)
  proof
    fix e assume e: "e \<in> set (entries_of s d)"
    then obtain c where "v_mount (vnodes s e) = None" "component (vnodes s e) = Some c" "c_type (comps s c) = COMP_FILE"
      using M(9) by (auto simp: plain_files_def)
    then show "v_mount (vnodes s' e) = None \<and> (\<exists>c. component (vnodes s' e) = Some c \<and> c_type (comps s' c) = COMP_FILE)"
      using keep [OF e] by simp
  qed
  then show "mounted_dir s' n m r d"
    using M growsD(1,2,7) [OF g M(1)] growsD(1,2,7) [OF g M(2)] growsD(1,2) [OF g M(3)] d(3) by (simp add: mounted_dir_def)
qed

section \<open>The three file systems\<close>

lemma file_names:
  "proper (cstr ''initramfs'')" "proper (cstr ''dev'')" "proper (cstr ''uart'')" "length (cstr ''initramfs'') < NAME_LEN"
  "length (cstr ''dev'') < NAME_LEN" "length (cstr ''uart'') < NAME_LEN" "length (cstr ''tmpfs'') < NAME_LEN"
  "length (cstr ''devfs'') < NAME_LEN" "cstr ''initramfs'' \<noteq> cstr ''dev''" "cstr ''dev'' \<noteq> cstr ''initramfs''"
  "cstr ''/'' = [SLASH]" "cstr ''/initramfs'' = render [cstr ''initramfs'']" "cstr ''/dev'' = render [cstr ''dev'']"
  "render [cstr ''initramfs''] \<noteq> [SLASH]" "render [cstr ''dev''] \<noteq> [SLASH]" "render [cstr ''initramfs''] \<noteq> render [cstr ''dev'']"
  by (simp_all add: proper_def cstr_def SLASH_def NAME_LEN_def TMPFS_MAX_COMPONENT_NAME_def)

lemma root_mount_run:
  assumes "kstock (heap s) (Suc (Suc (Suc (Suc (Suc (Suc (Suc k)))))))"
  obtains m r d s' where "vfs_mount junk i0 j place (cstr ''/'') (cstr ''tmpfs'') s = Inr (0, s')" and "tree_root s' m r d"
    and "dir_view s' d = []" and "kstock (heap s') k" and "mounted s' = mounted s" and "bytes s' = bytes s"
proof -
  obtain m f h1 h2 where 1: "new_mount (\<lambda>m s. s\<lparr>rootfs := Some m\<rparr>) (cstr ''tmpfs'') s = Inr ((m, f),
      upd_fs f (\<lambda>x. x\<lparr>fs_name := cstr ''tmpfs''\<rparr>) (upd_mount m (\<lambda>x. x\<lparr>m_fs := f\<rparr>) (s\<lparr>heap := h1, rootfs := Some m\<rparr>)\<lparr>heap := h2\<rparr>))"
    "kstock h2 (Suc (Suc (Suc (Suc k))))" "insert m (in_use s) \<subseteq> fst ` blocks h2"
    by (rule new_mount_run [where attach = "\<lambda>m s. s\<lparr>rootfs := Some m\<rparr>", OF assms file_names(7)]) simp_all
  define s1 where "s1 = upd_fs f (\<lambda>x. x\<lparr>setup_mount := Some Tmpfs\<rparr>) (upd_fs f (\<lambda>x. x\<lparr>fs_name := cstr ''tmpfs''\<rparr>)
    (upd_mount m (\<lambda>x. x\<lparr>m_fs := f\<rparr>) (s\<lparr>heap := h1, rootfs := Some m\<rparr>)\<lparr>heap := h2\<rparr>))"
  have s1: "heap s1 = h2" "rootfs s1 = Some m" "mounted s1 = mounted s" "bytes s1 = bytes s"
    by (simp_all add: s1_def upd_fs_def upd_mount_def)
  have st: "kstock (heap s1) (Suc (Suc (Suc (Suc k))))" using 1(2) s1(1) by simp
  obtain r d s' where 2: "fresh_root Tmpfs m s1 = Inr (r, s')" "component (vnodes s' r) = Some d" "r \<in> in_use s'" "dir_ok s' d"
    "dir_view s' d = []" "kstock (heap s') k" "m_root (mounts s' m) = Some r" "v_mount (vnodes s' r) = None"
    "vop_table s' (v_ops (vnodes s' r)) = Tmpfs" "rootfs s' = rootfs s1" "bytes s' = bytes s1" "mounted s' = mounted s1"
    "adds m s1 s'" "v_ops (vnodes s' r) \<in> in_use s'"
    using fresh_root_run [OF st, of Tmpfs m] by blast
  have "vfs_mount junk i0 j place (cstr ''/'') (cstr ''tmpfs'') s = Inr (0, s')"
    using 1(1) 2(1) by (simp add: vfs_mount_def register_and_setup_def register_filesystem_def run_setup_def
        tmpfs_setup_mount_def upd_fs_def s1_def)
  moreover have "m \<in> in_use s'" using addsD(1) [OF 2(13)] 1(3) s1(1) by (simp add: in_use_def)
  then have "tree_root s' m r d" using 2 s1(2) by (simp add: tree_root_def)
  ultimately show thesis using that 2(5,6,11,12) s1(3,4) by metis
qed

lemma devfs_setup_run:
  assumes st: "kstock (heap s) (Suc (Suc (Suc (Suc (Suc (Suc (Suc (Suc k))))))))"
  obtains r d u s' where "devfs_setup_mount m s = Inr (0, s')" and "sets_up m s s' r d" and "dir_view s' d = [(cstr ''uart'', u)]"
    and "fop_table s' (f_ops (vnodes s' u)) = Devfs" and "f_ops (vnodes s' u) \<in> in_use s'" and "kstock (heap s') k" and "mounted s' = mounted s"
proof -
  obtain r d s1 where 1: "fresh_root Devfs m s = Inr (r, s1)" "component (vnodes s1 r) = Some d" "r \<in> in_use s1" "dir_ok s1 d"
    "dir_view s1 d = []" "kstock (heap s1) (Suc (Suc (Suc (Suc k))))" "m_root (mounts s1 m) = Some r" "v_mount (vnodes s1 r) = None"
    "fop_table s1 (f_ops (vnodes s1 r)) = Devfs" "f_ops (vnodes s1 r) \<in> in_use s1" "bytes s1 = bytes s" "mounted s1 = mounted s"
    "adds m s s1" "d \<notin> in_use s" "c_union (comps s1 d) = None"
    using fresh_root_run [OF st, of Devfs m] by blast
  have len: "c_len (comps s1 d) < TMPFS_MAX_ENTRY"
    using 1(5) length_entries [OF 1(4)] by (simp add: dir_view_def TMPFS_MAX_ENTRY_def)
  obtain u s2 c where 2: "tmpfs_create r None (cstr ''uart'') s1 = Inr ((0, Some u), s2)" "dir_ok s2 d" "kstock (heap s2) k"
    "dir_view s2 d = dir_view s1 d @ [(cstr ''uart'', u)]" "v_mount (vnodes s2 u) = None" "extends d s1 s2"
    "f_ops (vnodes s2 u) = f_ops (vnodes s1 r)" "component (vnodes s2 u) = Some c" "c \<noteq> d" "c \<notin> in_use s1"
    using tmpfs_create_new [OF 1(2,3,4,6) file_names(6) _ len, of None] 1(5) by auto
  let ?s = "upd_comp c (\<lambda>x. x\<lparr>c_type := COMP_FILE\<rparr>) s2"
  note x = extendsD [OF 2(6)]
  have f: "vnodes ?s = vnodes s2" "fop_table ?s = fop_table s1" "mounts ?s = mounts s1" "mounted ?s = mounted s" "heap ?s = heap s2"
    "comps ?s c = (comps s2 c)\<lparr>c_type := COMP_FILE\<rparr>" "comps ?s d = comps s2 d"
    using x(5,6,9) 1(12) 2(9) by (simp_all add: upd_comp_def)
  have use: "in_use ?s = in_use s2" by (simp add: in_use_def f(5))
  have run: "devfs_setup_mount m s = Inr (0, ?s)"
    using 1(1) 2(1,8) by (simp add: devfs_setup_mount_def DEVFS_UART_NAME_def)
  have view: "dir_view ?s d = [(cstr ''uart'', u)]" using dir_view_upd_comp [OF 2(9)] 2(4) 1(5) by simp
  have ok: "dir_ok ?s d" by (rule dir_ok_upd_comp [OF 2(9,2)]) simp
  have ext: "extends d s1 ?s" using 2(6,9,10) by (auto simp: extends_def upd_comp_def in_use_def)
  have "adds m s ?s" by (rule adds_extends [OF 1(13) ext 1(14,15)])
  moreover have "plain_files ?s d"
    using view 2(5,8) f(6) by (simp add: plain_files_def entries_dir_view f(1))
  moreover have "c_union (comps ?s d) \<noteq> Some e" if "e \<in> in_use s" for e
    using extendsD(10) [OF ext addsD(1) [OF 1(13) that]] 1(15) by simp
  ultimately have "sets_up m s ?s r d"
    using 1(2,3,7,8,14) x(1,2) f(1,3) ok use by (simp add: sets_up_def)
  then show thesis using that [OF run _ view] 1(3,9,10) 2(3,7) x(1) f(1,2,4,5) use by simp
qed

text \<open>A directory has a file of this name that starts with this data; its length is rounded up.\<close>

definition has_file :: "vfs \<Rightarrow> addr \<Rightarrow> byte list \<times> byte list \<Rightarrow> bool" where
  "has_file s d f \<longleftrightarrow> (\<exists>n c. map_of (dir_view s d) (fst f) = Some n \<and> component (vnodes s n) = Some c \<and>
     c_type (comps s c) = COMP_FILE \<and> c_len (comps s c) = data_space (length (snd f)) \<and>
     take (length (snd f)) (contents s c) = snd f \<and> ram_ops s n)"

lemma ramdisk_setup_run:
  assumes a: "cpio_at (bytes s) p fs" and ne: "fs \<noteq> []"
    and names: "\<forall>f \<in> set fs. proper (fst f) \<and> length (fst f) < NAME_LEN \<and> snd f \<noteq> []" "distinct (map fst fs)"
    and len: "length fs \<le> 17" and st: "kstock (heap s) (5 * length fs + 4 + k)" and fresh: "\<not> mounted s"
  obtains r d s' where "run_setup 0 (\<lambda>_. 0) p Initramfs m s = Inr (0, s')" and "sets_up m s s' r d"
    and "\<forall>f \<in> set (butlast fs). has_file s' d f" and "kstock (heap s') k"
proof -
  obtain r d s3 ns where i: "initramfs_setup_mount 0 (\<lambda>_. 0) p m s = Inr (0, s3\<lparr>mounted := True\<rparr>)" "root_inv s3 r d"
    "m_root (mounts s3 m) = Some r" "dir_view s3 d = zip (map fst (butlast fs)) ns"
    "list_all2 (node_file s3) ns (butlast (entries p fs))" "list_all2 (holds_file (bytes s3)) (butlast (entries p fs)) (butlast fs)"
    "adds m s s3" "kstock (heap s3) k" "d \<notin> in_use s" "\<forall>e \<in> in_use s. c_union (comps s3 d) \<noteq> Some e"
    by (rule initramfs_setup_run [OF a ne names len st fresh])
  let ?s = "s3\<lparr>mounted := True\<rparr>"
  have "same_tree s3 ?s" by (simp add: same_tree_def in_use_def)
  note t = same_tree_dirs [OF this]
  have ln: "length ns = length (butlast fs)" using list_all2_lengthD [OF i(5)] list_all2_lengthD [OF i(6)] by simp
  then have ent: "entries_of s3 d = ns" using i(4) by (simp add: entries_dir_view)
  have plain: "plain_files ?s d"
    unfolding plain_files_def t(1) ent
  proof
    fix n assume "n \<in> set ns"
    then obtain e where "node_file s3 n e" using i(5) by (auto simp: list_all2_conv_all_nth in_set_conv_nth)
    then show "v_mount (vnodes ?s n) = None \<and> (\<exists>c. component (vnodes ?s n) = Some c \<and> c_type (comps ?s c) = COMP_FILE)"
      by (auto simp: node_file_def)
  qed
  have "has_file ?s d f" if f: "f \<in> set (butlast fs)" for f
  proof -
    obtain j where j: "j < length (butlast fs)" "f = butlast fs ! j" using f by (metis in_set_conv_nth)
    have "distinct (map fst (butlast fs))" using names(2) by (simp add: map_butlast distinct_butlast)
    then have m: "map_of (dir_view s3 d) (fst f) = Some (ns ! j)"
      using map_of_zip_nth [of "map fst (butlast fs)" ns j] i(4) j ln by simp
    have "list_all2 (\<lambda>n f. ram_ops s3 n \<and> (\<exists>c. component (vnodes s3 n) = Some c \<and> c_type (comps s3 c) = COMP_FILE \<and>
        c_len (comps s3 c) = data_space (length (snd f)) \<and> take (length (snd f)) (contents s3 c) = snd f)) ns (butlast fs)"
      by (rule list_all2_trans [OF _ i(5,6)]) (rule node_file_contents)
    from list_all2_nthD [OF this, of j] j ln m show ?thesis
      by (auto simp: has_file_def t(2) contents_def ram_ops_def in_use_def cong: option.case_cong)
  qed
  moreover have "adds m s ?s" using i(7) by (simp add: adds_def in_use_def)
  then have "sets_up m s ?s r d"
    using i(2,3,9,10) t(4) plain by (simp add: sets_up_def root_inv_def in_use_def)
  moreover have "run_setup 0 (\<lambda>_. 0) p Initramfs m s = Inr (0, ?s)" using i(1) by (simp add: run_setup_def)
  moreover have "kstock (heap ?s) k" using i(8) by simp
  ultimately show thesis using that by blast
qed

section \<open>The whole tree\<close>

lemma two_mounts_ok:
  assumes root: "tree_root s m0 r0 d0" and view: "entries_of s d0 = [n1, n2]"
    and m1: "mounted_dir s n1 m1 r1 d1" and m2: "mounted_dir s n2 m2 r2 d2"
  shows "tree_ok s ({r0, r1, r2} \<union> set (entries_of s d1) \<union> set (entries_of s d2))" (is "tree_ok s ?N")
  unfolding tree_ok_def
proof
  note R = tree_rootD [OF root] and A = mounted_dirD [OF m1] and B = mounted_dirD [OF m2]
  have sub: "set (entries_of s d1) \<union> set (entries_of s d2) \<subseteq> ?N" by blast
  have own: "\<exists>n' \<in> ?N. mount_target s e = Some n'" if "e \<in> set (entries_of s d1) \<union> set (entries_of s d2)" for e
  proof -
    have "mount_target s e = Some e" using that A(9) B(9) by (auto simp: plain_files_def mount_target_def)
    then show ?thesis using sub that by blast
  qed
  fix n assume "n \<in> ?N"
  then consider "n = r0" | "n = r1" | "n = r2" | "n \<in> set (entries_of s d1) \<union> set (entries_of s d2)" by blast
  then show "v_mount (vnodes s n) = None \<and> (\<exists>d. component (vnodes s n) = Some d \<and> (c_type (comps s d) = COMP_DIR \<longrightarrow>
      dir_ok s d \<and> (\<forall>e \<in> set (entries_of s d). \<exists>n' \<in> ?N. mount_target s e = Some n')))"
  proof cases
    case 1
    then show ?thesis using R(2,3,5) view A(10) B(10) by auto
  next
    case 2
    then show ?thesis using A(6-8) own by auto
  next
    case 3
    then show ?thesis using B(6-8) own by auto
  next
    case 4
    then show ?thesis using A(9) B(9) by (auto simp: plain_files_def)
  qed
qed

lemma leads_to_mounted:
  assumes root: "tree_root s m0 r0 d0" and ok: "tree_ok s N" "r0 \<in> N" and md: "mounted_dir s n m r d"
    and nm: "map_of (dir_view s d0) a = Some n" "map_of (dir_view s d) b = Some e" and pr: "proper a" "proper b"
  shows "leads_to s [a, b] e"
proof -
  note R = tree_rootD [OF root] and M = mounted_dirD [OF md]
  have e: "e \<in> set (entries_of s d)" using map_of_SomeD [OF nm(2)] by (auto simp: dir_view_def)
  then obtain c where c: "v_mount (vnodes s e) = None" "component (vnodes s e) = Some c" "c_type (comps s c) = COMP_FILE"
    using M(9) by (auto simp: plain_files_def)
  have "walk s r0 [a, b] = Some e"
    using R(2) dir_okD(1) [OF R(5)] nm M(6,10) dir_okD(1) [OF M(8)] c(1) by (simp add: mount_target_def)
  then show ?thesis using R(1) ok pr c(2,3) by (auto simp: leads_to_def)
qed

text \<open>What the mounts of \<open>main\<close> leave: the device of the console, and the files of the RAM disk.\<close>

definition path_has :: "vfs \<Rightarrow> byte list list \<Rightarrow> byte list \<Rightarrow> bool" where
  "path_has s cs data \<longleftrightarrow> (\<exists>n c. leads_to s cs n \<and> component (vnodes s n) = Some c \<and>
     c_len (comps s c) = data_space (length data) \<and> take (length data) (contents s c) = data \<and> fop_table s (f_ops (vnodes s n)) = Initramfs)"

definition console_at :: "vfs \<Rightarrow> addr \<Rightarrow> bool" where
  "console_at s u \<longleftrightarrow> leads_to s uart_path u \<and> fop_table s (f_ops (vnodes s u)) = Devfs"

lemma has_file_keep:
  assumes f: "has_file s d f" and view: "dir_view s' d = dir_view s d" and b: "bytes s' = bytes s"
    and keep: "\<And>e c. e \<in> set (entries_of s d) \<Longrightarrow> component (vnodes s e) = Some c \<Longrightarrow>
      vnodes s' e = vnodes s e \<and> comps s' c = comps s c"
    and g: "grows d0 s s'"
  shows "has_file s' d f"
proof -
  obtain n c where n: "map_of (dir_view s d) (fst f) = Some n" "component (vnodes s n) = Some c"
    "c_type (comps s c) = COMP_FILE" "c_len (comps s c) = data_space (length (snd f))" "take (length (snd f)) (contents s c) = snd f"
    "ram_ops s n"
    using f by (auto simp: has_file_def)
  have "n \<in> set (entries_of s d)" using map_of_SomeD [OF n(1)] by (auto simp: dir_view_def)
  note k = keep [OF this n(2)]
  then have "ram_ops s' n" using n(6) growsD(1,5) [OF g] by (simp add: ram_ops_def)
  then show ?thesis using k n view b
    unfolding has_file_def by (intro exI [of _ n] exI [of _ c]) (simp add: contents_def cong: option.case_cong)
qed

lemma mount_ramdisk_run:
  assumes root: "tree_root s m0 r0 d0" and view: "dir_view s d0 = []" and a: "cpio_at (bytes s) p fs" and ne: "fs \<noteq> []"
    and names: "\<forall>f \<in> set fs. proper (fst f) \<and> length (fst f) < NAME_LEN \<and> snd f \<noteq> []" "distinct (map fst fs)"
    and len: "length fs \<le> 17" and st: "kstock (heap s) (5 * length fs + 11 + k)" and fresh: "\<not> mounted s"
  obtains n m r d s' where "mount_kind 0 (\<lambda>_. 0) 0 p Initramfs (render [cstr ''initramfs'']) (cstr ''tmpfs'') s = Inr (0, s')"
    and "tree_root s' m0 r0 d0" and "dir_view s' d0 = [(cstr ''initramfs'', n)]" and "mounted_dir s' n m r d" and "separate s' d d0"
    and "\<forall>f \<in> set (butlast fs). has_file s' d f" and "kstock (heap s') k"
proof -
  have l: "c_len (comps s d0) < TMPFS_MAX_ENTRY" and v: "map_of (dir_view s d0) (cstr ''initramfs'') = None"
    using view length_entries [OF tree_rootD(5) [OF root]] by (simp_all add: dir_view_def TMPFS_MAX_ENTRY_def)
  have st1: "kstock (heap s) (Suc (Suc (Suc (Suc (Suc (Suc (Suc (5 * length fs + 4 + k))))))))" using st by (simp add: numeral_eq_Suc)
  obtain n m s2 where 2: "mount_kind 0 (\<lambda>_. 0) 0 p Initramfs (render [cstr ''initramfs'']) (cstr ''tmpfs'') s =
      run_setup 0 (\<lambda>_. 0) p Initramfs m s2" "n \<notin> in_use s" "n \<in> in_use s2" "m \<notin> in_use s" "m \<in> in_use s2"
    "v_mount (vnodes s2 n) = Some m" "grows d0 s s2" "tree_root s2 m0 r0 d0" "dir_view s2 d0 = dir_view s d0 @ [(cstr ''initramfs'', n)]"
    "kstock (heap s2) (5 * length fs + 4 + k)" "mounted s2 = mounted s"
    by (rule mount_kind_run [OF root file_names(1,4) v l st1 file_names(7)])
  have a2: "cpio_at (bytes s2) p fs" and f2: "\<not> mounted s2" using a fresh 2(7,11) by (simp_all add: grows_def)
  obtain r d s3 where 3: "run_setup 0 (\<lambda>_. 0) p Initramfs m s2 = Inr (0, s3)" "sets_up m s2 s3 r d"
    "\<forall>f \<in> set (butlast fs). has_file s3 d f" "kstock (heap s3) k"
    by (rule ramdisk_setup_run [OF a2 ne names len 2(10) f2])
  show thesis using that mounted_new [OF 2(7,2,3,4,5,6) root 2(8) 3(2)] 2(1,9) 3(1,3,4) view by simp
qed

lemma mount_devices_run:
  assumes root: "tree_root s m0 r0 d0" and view: "dir_view s d0 = [(cstr ''initramfs'', n1)]" and st: "kstock (heap s) (15 + k)"
  obtains n m r d u s' where "mount_kind 0 (\<lambda>_. 0) 0 p Devfs (render [cstr ''dev'']) (cstr ''devfs'') s = Inr (0, s')"
    and "grows d0 s s'" and "tree_root s' m0 r0 d0" and "dir_view s' d0 = [(cstr ''initramfs'', n1), (cstr ''dev'', n)]"
    and "mounted_dir s' n m r d" and "dir_view s' d = [(cstr ''uart'', u)]" and "fop_table s' (f_ops (vnodes s' u)) = Devfs"
    and "kstock (heap s') k"
proof -
  have l: "c_len (comps s d0) < TMPFS_MAX_ENTRY" and v: "map_of (dir_view s d0) (cstr ''dev'') = None"
    using view length_entries [OF tree_rootD(5) [OF root]] file_names(9,10) by (simp_all add: entries_dir_view TMPFS_MAX_ENTRY_def)
  have st1: "kstock (heap s) (Suc (Suc (Suc (Suc (Suc (Suc (Suc (8 + k))))))))" using st by (simp add: numeral_eq_Suc)
  obtain n m s2 where 2: "mount_kind 0 (\<lambda>_. 0) 0 p Devfs (render [cstr ''dev'']) (cstr ''devfs'') s =
      run_setup 0 (\<lambda>_. 0) p Devfs m s2" "n \<notin> in_use s" "n \<in> in_use s2" "m \<notin> in_use s" "m \<in> in_use s2"
    "v_mount (vnodes s2 n) = Some m" "grows d0 s s2" "tree_root s2 m0 r0 d0" "dir_view s2 d0 = dir_view s d0 @ [(cstr ''dev'', n)]"
    "kstock (heap s2) (8 + k)"
    by (rule mount_kind_run [OF root file_names(2,5) v l st1 file_names(8)])
  have st2: "kstock (heap s2) (Suc (Suc (Suc (Suc (Suc (Suc (Suc (Suc k))))))))" using 2(10) by (simp add: numeral_eq_Suc)
  obtain r d u s3 where 3: "devfs_setup_mount m s2 = Inr (0, s3)" "sets_up m s2 s3 r d" "dir_view s3 d = [(cstr ''uart'', u)]"
    "fop_table s3 (f_ops (vnodes s3 u)) = Devfs" "kstock (heap s3) k"
    by (rule devfs_setup_run [OF st2])
  have "run_setup 0 (\<lambda>_. 0) p Devfs m s2 = Inr (0, s3)" using 3(1) by (simp add: run_setup_def)
  then show thesis using that mounted_new [OF 2(7,2,3,4,5,6) root 2(8) 3(2)] 2(1,9) 3(3-5) view by simp
qed

lemma boot_mounts_run:
  assumes a: "cpio_at (bytes s) p fs" and ne: "fs \<noteq> []"
    and names: "\<forall>f \<in> set fs. proper (fst f) \<and> length (fst f) < NAME_LEN \<and> snd f \<noteq> []" "distinct (map fst fs)"
    and len: "length fs \<le> 17" and st: "kstock (heap s) (5 * length fs + 33 + k)" and fresh: "\<not> mounted s"
  obtains u s' where "boot_mounts 0 (\<lambda>_. 0) 0 p s = Inr s'" and "console_at s' u" and "kstock (heap s') k"
    and "\<forall>f \<in> set (butlast fs). path_has s' [cstr ''initramfs'', fst f] (snd f)"
proof -
  have st0: "kstock (heap s) (Suc (Suc (Suc (Suc (Suc (Suc (Suc (5 * length fs + 11 + (15 + k)))))))))"
    using st by (simp add: numeral_eq_Suc)
  obtain m0 r0 d0 s1 where 1: "vfs_mount 0 (\<lambda>_. 0) 0 p (cstr ''/'') (cstr ''tmpfs'') s = Inr (0, s1)" "tree_root s1 m0 r0 d0"
    "dir_view s1 d0 = []" "kstock (heap s1) (5 * length fs + 11 + (15 + k))" "mounted s1 = mounted s" "bytes s1 = bytes s"
    by (rule root_mount_run [OF st0])
  have a1: "cpio_at (bytes s1) p fs" "\<not> mounted s1" using a fresh 1(5,6) by simp_all
  obtain n1 m1 r1 d1 s3 where 3: "mount_kind 0 (\<lambda>_. 0) 0 p Initramfs (render [cstr ''initramfs'']) (cstr ''tmpfs'') s1 = Inr (0, s3)"
    "tree_root s3 m0 r0 d0" "dir_view s3 d0 = [(cstr ''initramfs'', n1)]" "mounted_dir s3 n1 m1 r1 d1" "separate s3 d1 d0"
    "\<forall>f \<in> set (butlast fs). has_file s3 d1 f" "kstock (heap s3) (15 + k)"
    by (rule mount_ramdisk_run [OF 1(2,3) a1(1) ne names len 1(4) a1(2)])
  obtain n2 m2 r2 d2 u s5 where 5: "mount_kind 0 (\<lambda>_. 0) 0 p Devfs (render [cstr ''dev'']) (cstr ''devfs'') s3 = Inr (0, s5)"
    "grows d0 s3 s5" "tree_root s5 m0 r0 d0" "dir_view s5 d0 = [(cstr ''initramfs'', n1), (cstr ''dev'', n2)]"
    "mounted_dir s5 n2 m2 r2 d2" "dir_view s5 d2 = [(cstr ''uart'', u)]" "fop_table s5 (f_ops (vnodes s5 u)) = Devfs" "kstock (heap s5) k"
    by (rule mount_devices_run [OF 3(2,3,7)])
  note K = mounted_grows [OF 5(2) 3(4,5) dir_okD(1) [OF tree_rootD(5) [OF 3(2)]]]
  have ent: "entries_of s5 d0 = [n1, n2]" using 5(4) by (simp add: entries_dir_view)
  note ok = two_mounts_ok [OF 5(3) ent K(1) 5(5)]
  have "leads_to s5 uart_path u"
    unfolding uart_path_def
    by (rule leads_to_mounted [OF 5(3) ok _ 5(5)]) (use 5(4,6) file_names in auto)
  then have con: "console_at s5 u" using 5(7) by (simp add: console_at_def)
  have "path_has s5 [cstr ''initramfs'', fst f] (snd f)" if f: "f \<in> set (butlast fs)" for f
  proof -
    have "bytes s5 = bytes s3" using 5(2) by (simp add: grows_def)
    then have "has_file s5 d1 f" using has_file_keep [OF _ K(2) _ K(3) 5(2)] 3(6) f by blast
    then obtain n c where n: "map_of (dir_view s5 d1) (fst f) = Some n" "component (vnodes s5 n) = Some c"
      "c_len (comps s5 c) = data_space (length (snd f))" "take (length (snd f)) (contents s5 c) = snd f"
      "fop_table s5 (f_ops (vnodes s5 n)) = Initramfs"
      by (auto simp: has_file_def ram_ops_def)
    have "proper (fst f)" using names(1) f by (auto dest: in_set_butlastD)
    then have "leads_to s5 [cstr ''initramfs'', fst f] n"
      by (intro leads_to_mounted [OF 5(3) ok _ K(1) _ n(1) file_names(1)]) (simp_all add: 5(4))
    then show ?thesis using n(2-5) by (auto simp: path_has_def)
  qed
  moreover have "boot_mounts 0 (\<lambda>_. 0) 0 p s = Inr s5"
    using 1(1) 3(1) 5(1) file_names(11-16) by (simp add: boot_mounts_def vfs_mount_def del: render_simps)
  ultimately show thesis using that con 5(8) by blast
qed

end
