(* ===== verification/TaskClaims.thy ===== *)
theory TaskClaims
  imports BootProps
begin

text \<open>
  Properties of booting and of the life of a task: what \<open>main\<close> leaves behind, what a new task owns, and
  what reaping a zombie gives back.
\<close>

section \<open>Booting\<close>

lemma same_tree_boot:
  assumes st: "same_tree s s'"
  shows "path_has s cs data \<Longrightarrow> path_has s' cs data" and "console_at s u \<Longrightarrow> console_at s' u"
proof -
  note t = same_treeD [OF st]
  have "contents s' c = contents s c" for c using t by (simp add: contents_def cong: option.case_cong)
  then show "path_has s cs data \<Longrightarrow> path_has s' cs data"
    using leads_to_same [OF st] t(2,3,7) unfolding path_has_def by auto
  show "console_at s u \<Longrightarrow> console_at s' u"
    using leads_to_same [OF st] t(2,7) by (auto simp: console_at_def)
qed

text \<open>A task whose first three descriptors are handles of the file \<open>u\<close>.\<close>

definition std_open :: "kernel \<Rightarrow> addr \<Rightarrow> addr \<Rightarrow> bool" where
  "std_open s t u \<longleftrightarrow> (\<forall>i < 3. \<exists>f. fd_table (task_of s t) ! i = Some f \<and> files (k_fs s) f = opened (k_fs s) u 0)"

lemma fresh_task_simps:
  "t_pid (fresh_task func md p u a fs x) = p" "mode (fresh_task func md p u a fs x) = md"
  "t_state (fresh_task func md p u a fs x) = RUNNING" "handler (fresh_task func md p u a fs x) = None"
  "cwd (fresh_task func md p u a fs x) = [SLASH]" "sp_addr (fresh_task func md p u a fs x) = a"
  "sp (fresh_task func md p u a fs x) = stack_top a" "fp (fresh_task func md p u a fs x) = stack_top a"
  "lr (fresh_task func md p u a fs x) = (if md = USER then Some Switch_to_user_space else func)"
  "md = USER \<Longrightarrow> user_sp (fresh_task func md p u a fs x) = u" "md = USER \<Longrightarrow> target_func (fresh_task func md p u a fs x) = func"
  "fd_table (fresh_task func md p u a fs x) = map Some fs @ replicate (VFS_PROCESS_MAX_OPEN_FILE - length fs) None"
  "t_next (fresh_task func md p u a fs x) = None"
  by (simp_all add: fresh_task_def Let_def)

lemma new_task_std:
  assumes "has_new_task func md n s t u a [f, g, h] s'" and "same_tree (k_fs s) (k_fs s')"
  shows "std_open s' (fst t) n"
proof -
  have o: "opened (k_fs s') n 0 = opened (k_fs s) n 0" using same_treeD(2) [OF assms(2)] by (simp add: opened_def)
  note f = has_new_taskD(6) [OF assms(1)]
  show ?thesis
    unfolding std_open_def has_new_taskD(1) [OF assms(1)] o
  proof (intro allI impI)
    fix i :: nat assume "i < 3"
    then have "i = 0 \<or> i = 1 \<or> i = 2" by linarith
    then show "\<exists>x. fd_table (fresh_task func md (pid (k_sched s)) (fst u) (fst a) (map fst [f, g, h]) (task_of s (fst t))) ! i = Some x \<and>
        files (k_fs s') x = opened (k_fs s) n 0"
      using f [of f] f [of g] f [of h] by (auto simp: fresh_task_simps)
  qed
qed

lemma enqueue_run_others:
  "enqueue_run t s = Inr s' \<Longrightarrow> zombies_queue s' = zombies_queue s \<and> temp_queue s' = temp_queue s \<and> current s' = current s"
  by (auto simp: enqueue_run_def rbind_eq_Inr split: prod.splits)

lemma kernel_main_run:
  assumes a: "cpio_at (bytes (k_fs s)) p fs" and ne: "fs \<noteq> []"
    and names: "\<forall>f \<in> set fs. proper (fst f) \<and> length (fst f) < NAME_LEN \<and> snd f \<noteq> []" "distinct (map fst fs)"
    and len: "length fs \<le> 17" and st: "kstock (heap (k_fs s)) (5 * length fs + 39 + k)" and fresh: "\<not> mounted (k_fs s)"
    and q: "run_queue (k_sched s) = None" "pid (k_sched s) = 1"
  obtains u t s' where "kernel_main 0 (\<lambda>_. 0) 0 p s = Inr s'" and "console_at (k_fs s') u" and "t \<in> in_use (k_fs s')"
    and "\<forall>f \<in> set (butlast fs). path_has (k_fs s') [cstr ''initramfs'', fst f] (snd f)"
    and "chain (nexts (tasks (k_sched s'))) (run_queue (k_sched s')) [t]" and "pid (k_sched s') = 2"
    and "t_pid (task_of s' t) = 1" and "mode (task_of s' t) = KERNEL" and "lr (task_of s' t) = Some Idle_thread"
    and "std_open s' t u" and "kstock (heap (k_fs s')) k" and "frames s' = frames s"
    and "zombies_queue (k_sched s') = zombies_queue (k_sched s)" and "temp_queue (k_sched s') = temp_queue (k_sched s)"
    and "t_state (task_of s' t) = RUNNING"
proof -
  have st0: "kstock (heap (k_fs s)) (5 * length fs + 33 + (6 + k))" using st by (simp add: numeral_eq_Suc)
  obtain u fs1 where 1: "boot_mounts 0 (\<lambda>_. 0) 0 p (k_fs s) = Inr fs1" "console_at fs1 u" "kstock (heap fs1) (6 + k)"
    "\<forall>f \<in> set (butlast fs). path_has fs1 [cstr ''initramfs'', fst f] (snd f)"
    by (rule boot_mounts_run [OF a ne names len st0 fresh])
  let ?s = "s\<lparr>k_fs := fs1\<rparr>"
  have c: "chain (nexts (tasks (k_sched ?s))) (run_queue (k_sched ?s)) []" "set [] \<subseteq> in_use (k_fs ?s)"
    "leads_to (k_fs ?s) uart_path u" "kstock (heap (k_fs ?s)) (Suc (Suc (Suc (Suc (Suc (Suc k))))))" "pid (k_sched ?s) < 2 ^ 31 - 1"
    using q 1(2) kstock_mono [OF 1(3), of "Suc (Suc (Suc (Suc (Suc (Suc k)))))"] by (simp_all add: console_at_def)
  obtain t us a f g h s' new where t: "task_create (Some Idle_thread) KERNEL ?s = Inr (fst t, s')"
    "chain (nexts (tasks (k_sched s'))) (run_queue (k_sched s')) ([] @ [fst t])"
    "has_new_task (Some Idle_thread) KERNEL u ?s t us a [f, g, h] s'" "kstock (heap (k_fs s')) k" "same_tree (k_fs ?s) (k_fs s')"
    "enqueue_run (fst t) ((k_sched ?s)\<lparr>tasks := (tasks (k_sched ?s))(fst t := new), pid := Suc (pid (k_sched ?s))\<rparr>) = Inr (k_sched s')"
    using task_create_chain [OF c, of "Some Idle_thread" KERNEL] by blast
  have T: "task_of s' (fst t) = fresh_task (Some Idle_thread) KERNEL 1 (fst us) (fst a) (map fst [f, g, h]) (task_of ?s (fst t))"
    "pid (k_sched s') = 2" "fst t \<in> in_use (k_fs s')" "frames s' = frames s"
    using has_new_taskD(1,2,4) [OF t(3)] has_new_task_use(1) [OF t(3)] q(2) by simp_all
  have tr: "same_tree fs1 (k_fs s')" using t(5) by simp
  have "kernel_main 0 (\<lambda>_. 0) 0 p s = Inr s'" using 1(1) t(1) by (simp add: kernel_main_def thread_init_def)
  then show thesis
    using that [of s' u "fst t"] same_tree_boot [OF tr] 1(2,4) t(2,4) T new_task_std [OF t(3,5)] enqueue_run_others [OF t(6)] by (simp add: fresh_task_simps)
qed

section \<open>Stacks\<close>

lemma block_addr_bounds:
  assumes "heap_ok s" and "b \<in> blks s"
  shows "0 \<le> fst b" and "fst b < 0x3c000000"
proof -
  obtain ps where inv: "pool_inv (heap s) ps" using assms(1) by (auto simp: alloc_ok_def)
  then obtain p i where b: "fst b = slot_addr (header (heap s) p) p i" "p \<in> set ps" "slot_taken (heap s) p i"
    using assms(2) blocks_live [OF inv] by (auto simp: live_def)
  have ok: "page_ok (heap s) p" using pool_invD(3) [OF inv] b(2) by blast
  have "p div 4096 < PAGE_MAX_ENTRY" using ok by (simp add: page_ok_def page_good_def)
  then have "p div 4096 + 1 \<le> 0x3c000" by (simp add: PAGE_MAX_ENTRY_def)
  moreover have "p = p div 4096 * 4096" using page_okD(2) [OF ok] by auto
  ultimately show "0 \<le> fst b" "fst b < 0x3c000000" using slot_in_page(1,3) [OF ok b(3)] page_okD(1) [OF ok] b(1) by linarith+
qed

lemma stack_top_inside:
  assumes "0 \<le> a" and "a < 0x3c000000"
  shows "a < int (stack_top a)" and "int (stack_top a) < a + int THREAD_SP_SIZE" and "16 dvd stack_top a"
proof -
  let ?p = "a + 2047"
  have m: "0 \<le> ?p mod 16" "?p mod 16 < 16" by simp_all
  have e: "stack_top a = nat (?p - ?p mod 16)"
    using assms m by (simp add: stack_top_def THREAD_SP_SIZE_def u64_small Let_def add.commute)
  then have i: "int (stack_top a) = ?p - ?p mod 16" using assms m by simp
  show "a < int (stack_top a)" "int (stack_top a) < a + int THREAD_SP_SIZE" using i m by (simp_all add: THREAD_SP_SIZE_def)
  have "16 dvd ?p - ?p mod 16" by (rule dvd_minus_mod)
  then have "int 16 dvd int (stack_top a)" by (simp add: i)
  then show "16 dvd stack_top a" by (simp only: of_nat_dvd_iff)
qed

section \<open>An example\<close>

text \<open>A RAM disk of two files, \<open>a\<close> and \<open>b\<close>.\<close>

definition boot_disk :: mem where
  "boot_disk a =
     (let i = a - 0xE00000 in
      if i = 61 then 53 else if i = 101 then 50 else if i = 110 then 97 else if i = 111 then 0
      else if 112 \<le> i \<and> i < 117 then word_of_int (i - 111) else if 117 \<le> i \<and> i < 120 then 0
      else if i = 181 then 51 else if i = 221 then 50 else if i = 230 then 98 else if i = 231 then 0
      else if 232 \<le> i \<and> i < 235 then word_of_int (i - 226) else if i = 235 then 0
      else if 346 \<le> i \<and> i < 356 then TRAILER ! nat (i - 346) else if i = 356 then 0 else 48)"

lemma digits_8_3: "digits 8 3 = [0, 0, 0, 0, 0, 0, 0, 3]"
proof -
  have e: "(8 :: nat) = Suc (Suc (Suc (Suc (Suc (Suc (Suc (Suc 0)))))))" by simp
  show ?thesis unfolding e by simp
qed

lemma boot_disk_fields:
  "field_at boot_disk (0xE00000 + 94) 2" "field_at boot_disk (0xE00000 + 54) 5"
  "field_at boot_disk (0xE00078 + 94) 2" "field_at boot_disk (0xE00078 + 54) 3"
    by (simp_all add: field_at_def digits_8 digits_8_3 mem_bytes_def upt_rec boot_disk_def hex_of_def Let_def)

lemma boot_disk_archive: "cpio_at boot_disk 0xE00000 [([97], [1, 2, 3, 4, 5]), ([98], [6, 7, 8])]"
proof -
  note f = boot_disk_fields
  have "str_at boot_disk (0xE000EC + 110) TRAILER"
    by (simp add: TRAILER_def cstr_def boot_disk_def Let_def)
  moreover have "file_at boot_disk 0xE00000 [97] [1, 2, 3, 4, 5]"
    using f by (simp add: file_at_def name_space_def mem_bytes_def upt_rec boot_disk_def Let_def TRAILER_def cstr_def few_Suc)
  moreover have "file_at boot_disk 0xE00078 [98] [6, 7, 8]"
    using f by (simp add: file_at_def name_space_def mem_bytes_def upt_rec boot_disk_def Let_def TRAILER_def cstr_def few_Suc)
  ultimately show ?thesis by (simp add: next_entry_def name_space_def data_space_def)
qed

definition kernel_with :: "mem \<Rightarrow> kernel" where
  "kernel_with m = \<lparr>k_fs = file_state empty_pool m,
     k_sched = \<lparr>tasks = (\<lambda>_. demo_task 0 None), run_queue = None, zombies_queue = None, temp_queue = None, pid = 1, current = None\<rparr>,
     frames = (\<lambda>_. \<lparr>xr = (\<lambda>_. 0), sp_el0 = 0, elr_el1 = 0, spsr_el1 = 0\<rparr>), sig_handler = None, signal_exit = False,
     signal_pid = 0, irq_on = False\<rparr>"

abbreviation demo_kernel :: kernel where
  "demo_kernel \<equiv> kernel_with boot_disk"

abbreviation demo_files :: "(byte list \<times> byte list) list" where
  "demo_files \<equiv> [([97], [1, 2, 3, 4, 5]), ([98], [6, 7, 8])]"

lemma demo_files_facts:
  "\<forall>f \<in> set demo_files. proper (fst f) \<and> length (fst f) < NAME_LEN \<and> snd f \<noteq> []" "distinct (map fst demo_files)"
  by (simp_all add: proper_def SLASH_def TMPFS_MAX_COMPONENT_NAME_def NAME_LEN_def)

lemma kernel_with_facts:
  "bytes (k_fs (kernel_with m)) = m" "heap (k_fs (kernel_with m)) = empty_pool" "\<not> mounted (k_fs (kernel_with m))"
  "run_queue (k_sched (kernel_with m)) = None" "zombies_queue (k_sched (kernel_with m)) = None"
  "temp_queue (k_sched (kernel_with m)) = None" "pid (k_sched (kernel_with m)) = 1"
  by (simp_all add: kernel_with_def file_state_def)

text \<open>After booting from the RAM disk \<open>m\<close>, in the idle task.\<close>

lemma booted_with:
  assumes a: "cpio_at m 0xE00000 fs" "fs \<noteq> []" "\<forall>f \<in> set fs. proper (fst f) \<and> length (fst f) < NAME_LEN \<and> snd f \<noteq> []"
      "distinct (map fst fs)"
    and k: "5 * length fs + 39 + k \<le> 62"
  obtains u t s0 s where "kernel_main 0 (\<lambda>_. 0) 0 0xE00000 (kernel_with m) = Inr s0" and "idle_start s0 = Inr s"
    and "kernel_ok s t [] [] []" and "console_at (k_fs s) u" and "kstock (heap (k_fs s)) k" and "pid (k_sched s) = 2"
    and "std_open s t u" and "task_of s t = task_of s0 t" and "t_pid (task_of s t) = 1" and "t_state (task_of s t) = RUNNING"
    and "\<forall>f \<in> set (butlast fs). path_has (k_fs s) [cstr ''initramfs'', fst f] (snd f)"
proof -
  note K = kernel_with_facts
  have st: "kstock (heap (k_fs (kernel_with m))) (5 * length fs + 39 + k)" "length fs \<le> 17" "cpio_at (bytes (k_fs (kernel_with m))) 0xE00000 fs"
    using kstock_mono [OF empty_pool_stock k] k a(1) by (simp_all add: K(1,2))
  obtain u t s0 where b: "kernel_main 0 (\<lambda>_. 0) 0 0xE00000 (kernel_with m) = Inr s0" "console_at (k_fs s0) u" "t \<in> in_use (k_fs s0)"
    "chain (nexts (tasks (k_sched s0))) (run_queue (k_sched s0)) [t]" "pid (k_sched s0) = 2" "std_open s0 t u" "kstock (heap (k_fs s0)) k"
    "t_pid (task_of s0 t) = 1" "zombies_queue (k_sched s0) = None" "temp_queue (k_sched s0) = None"
    "\<forall>f \<in> set (butlast fs). path_has (k_fs s0) [cstr ''initramfs'', fst f] (snd f)" "t_state (task_of s0 t) = RUNNING"
    by (rule kernel_main_run [where p = "0xE00000" and k = k, OF st(3) a(2-4) st(2,1) K(3,4,7)]) (simp_all add: K)
  let ?s = "s0\<lparr>k_sched := (k_sched s0)\<lparr>run_queue := None, current := Some t\<rparr>\<rparr>"
  have "run_queue (k_sched s0) = Some t" "t_next (tasks (k_sched s0) t) = None" using b(4) by (auto simp: chain_Some)
  then have "idle_start s0 = Inr ?s" by (simp add: idle_start_def dequeue_run_def dequeue_def)
  moreover have "kernel_ok ?s t [] [] []" using b(3,9,10) by (simp add: kernel_ok_def sched_ok_def)
  moreover have "std_open ?s t u" using b(6) by (simp add: std_open_def task_of_def)
  ultimately show thesis using that [of s0 ?s t u] b(1,2,5,7,8,11,12) by (simp add: task_of_def)
qed

lemma booted_kernel:
  obtains u t s0 s where "kernel_main 0 (\<lambda>_. 0) 0 0xE00000 demo_kernel = Inr s0" and "idle_start s0 = Inr s"
    and "kernel_ok s t [] [] []" and "console_at (k_fs s) u" and "kstock (heap (k_fs s)) 13" and "pid (k_sched s) = 2"
    and "std_open s t u" and "task_of s t = task_of s0 t" and "t_pid (task_of s t) = 1" and "t_state (task_of s t) = RUNNING"
    and "path_has (k_fs s) [cstr ''initramfs'', [97]] [1, 2, 3, 4, 5]"
  by (rule booted_with [OF boot_disk_archive _ demo_files_facts, of 13]) simp_all

section \<open>Reaping\<close>

lemma kill_zombies_run:
  assumes ok: "sched_ok (k_sched s) c rq (z # zq) tq" and hp: "heap_ok (k_fs s)"
    and b: "(z, lz) \<in> blks (k_fs s)" "(sp_addr (task_of s z), la) \<in> blks (k_fs s)"
      "mode (task_of s z) = USER \<Longrightarrow> (user_sp (task_of s z), lu) \<in> blks (k_fs s)"
    and low: "low_addr z" "low_addr (sp_addr (task_of s z))" "mode (task_of s z) = USER \<Longrightarrow> low_addr (user_sp (task_of s z))"
    and dist: "z \<noteq> sp_addr (task_of s z)"
      "mode (task_of s z) = USER \<Longrightarrow> user_sp (task_of s z) \<notin> {z, sp_addr (task_of s z)}"
  shows "\<exists>s'. kill_zombies s = Inr s' \<and> sched_ok (k_sched s') c rq zq tq \<and> heap_ok (k_fs s') \<and>
    blks (k_fs s') = blks (k_fs s) - ({(z, lz), (sp_addr (task_of s z), la)} \<union>
      (if mode (task_of s z) = USER then {(user_sp (task_of s z), lu)} else {})) \<and>
    files (k_fs s') = files (k_fs s)"
proof -
  let ?x = "task_of s z"
  let ?q = "(k_sched s)\<lparr>zombies_queue := t_next (tasks (k_sched s) z)\<rparr>"
  note D = sched_okD [OF ok]
  have dq: "dequeue_zombie (k_sched s) = Inr (Some z, ?q)"
    using D(3) by (simp add: dequeue_zombie_def dequeue_def)
  have q: "sched_ok ?q c rq zq tq" using D by (auto simp: sched_ok_def)
  obtain h1 where 1: "release z (k_fs s) = Inr ((k_fs s)\<lparr>heap := h1\<rparr>)" "alloc_ok h1" "blocks h1 = blks (k_fs s) - {(z, lz)}"
    using release_run [OF hp b(1) low(1)] by blast
  have "heap_ok ((k_fs s)\<lparr>heap := h1\<rparr>)" "(sp_addr ?x, la) \<in> blks ((k_fs s)\<lparr>heap := h1\<rparr>)"
    using 1(2,3) b(2) dist(1) by auto
  from release_run [OF this low(2)] obtain h2 where 2: "release (sp_addr ?x) ((k_fs s)\<lparr>heap := h1\<rparr>) = Inr ((k_fs s)\<lparr>heap := h2\<rparr>)"
    "alloc_ok h2" "blocks h2 = blocks h1 - {(sp_addr ?x, la)}" by auto
  show ?thesis
  proof (cases "mode ?x = USER")
    case False
    let ?s = "s\<lparr>k_sched := ?q, k_fs := (k_fs s)\<lparr>heap := h2\<rparr>\<rparr>"
    have "kill_zombies s = Inr ?s" using dq 1(1) 2(1) False by (simp add: kill_zombies_def task_of_def)
    then show ?thesis using q 1(3) 2(2,3) False by (intro exI [of _ ?s]) auto
  next
    case True
    have "heap_ok ((k_fs s)\<lparr>heap := h2\<rparr>)" "(user_sp ?x, lu) \<in> blks ((k_fs s)\<lparr>heap := h2\<rparr>)"
      using 1(3) 2(2,3) b(3) dist(2) True by auto
    from release_run [OF this low(3) [OF True]] obtain h3 where 3:
      "release (user_sp ?x) ((k_fs s)\<lparr>heap := h2\<rparr>) = Inr ((k_fs s)\<lparr>heap := h3\<rparr>)" "alloc_ok h3" "blocks h3 = blocks h2 - {(user_sp ?x, lu)}"
      by auto
    let ?s = "s\<lparr>k_sched := ?q, k_fs := (k_fs s)\<lparr>heap := h3\<rparr>\<rparr>"
    have "kill_zombies s = Inr ?s" using dq 1(1) 2(1) 3(1) True by (simp add: kill_zombies_def task_of_def)
    then show ?thesis using q 1(3) 2(3) 3(2,3) True by (intro exI [of _ ?s]) auto
  qed
qed

section \<open>Properties\<close>

text \<open>Booting with a RAM disk of at most 17 files (distinct proper names of less than 16 bytes, with data),
  when the uninitialised loop variables hold 0: main mounts the three file systems and creates the idle
  task. Afterwards "/dev/uart" is the device of the console, every file of the archive but the last is
  found below "/initramfs", with the operations of the RAM disk, and starts with its data, and the run queue holds just the idle task, pid
  1, in kernel mode, with its three standard descriptors open on the console.\<close>

theorem kernel_main_correct:
  assumes "cpio_at (bytes (k_fs s)) p fs" and "fs \<noteq> []"
    and "\<forall>f \<in> set fs. proper (fst f) \<and> length (fst f) < NAME_LEN \<and> snd f \<noteq> []" and "distinct (map fst fs)"
    and "length fs \<le> 17" and "kstock (heap (k_fs s)) (5 * length fs + 39)" and "\<not> mounted (k_fs s)"
    and "run_queue (k_sched s) = None" and "pid (k_sched s) = 1"
  shows "\<exists>u t s'. kernel_main 0 (\<lambda>_. 0) 0 p s = Inr s' \<and> console_at (k_fs s') u \<and>
    (\<forall>f \<in> set (butlast fs). path_has (k_fs s') [cstr ''initramfs'', fst f] (snd f)) \<and>
    chain (nexts (tasks (k_sched s'))) (run_queue (k_sched s')) [t] \<and> t_pid (task_of s' t) = 1 \<and>
    mode (task_of s' t) = KERNEL \<and> lr (task_of s' t) = Some Idle_thread \<and> std_open s' t u"
proof -
  have "kstock (heap (k_fs s)) (5 * length fs + 39 + 0)" using assms(6) by simp
  from kernel_main_run [OF assms(1-5) this assms(7-9)] show ?thesis by metis
qed

theorem kernel_main_correct_example:
  "\<exists>u t s'. kernel_main 0 (\<lambda>_. 0) 0 0xE00000 demo_kernel = Inr s' \<and> console_at (k_fs s') u \<and> std_open s' t u \<and>
     path_has (k_fs s') [cstr ''initramfs'', [97]] [1, 2, 3, 4, 5]"
proof -
  have "cpio_at (bytes (k_fs demo_kernel)) 0xE00000 demo_files" "kstock (heap (k_fs demo_kernel)) (5 * length demo_files + 39)"
    using boot_disk_archive kstock_mono [OF empty_pool_stock, of 49] by (simp_all add: kernel_with_facts)
  from kernel_main_correct [OF this(1) _ demo_files_facts _ this(2) kernel_with_facts(3,4,7)] show ?thesis by auto
qed

text \<open>C10: task_create, when the console can be opened and memory is left: the new task is the last of the run
  queue and has the next pid. Its structure, its kernel stack of 2048 bytes, in user mode a second
  stack, and three handles of the console lie in separate blocks that were not in use; the stack
  pointer starts 16-byte aligned inside the kernel stack. It is RUNNING, without a signal handler, in
  "/", with the descriptors 0 to 2 open on the console and all others free, and it starts at the given
  function, through switch_to_user_space in user mode. Other tasks only change their queue link.\<close>

theorem task_create_correct:
  assumes ok: "kernel_ok s c rq zq tq" and con: "leads_to (k_fs s) uart_path n"
    and st: "kstock (heap (k_fs s)) 6" and pid: "pid (k_sched s) < 2 ^ 31 - 1"
  shows "\<exists>t u a f g h s'. task_create func md s = Inr (fst t, s') \<and> kernel_ok s' c (rq @ [fst t]) zq tq \<and>
    (let x = task_of s' (fst t); bs = [t, a, f, g, h] @ (if md = USER then [u] else []) in
      distinct (map fst bs) \<and> fst ` set bs \<inter> in_use (k_fs s) = {} \<and> blks (k_fs s') = set bs \<union> blks (k_fs s) \<and>
      THREAD_SP_SIZE \<le> snd a \<and> sp_addr x = fst a \<and> fp x = sp x \<and> 16 dvd sp x \<and>
      fst a < int (sp x) \<and> int (sp x) < fst a + int THREAD_SP_SIZE \<and>
      t_pid x = pid (k_sched s) \<and> pid (k_sched s') = Suc (pid (k_sched s)) \<and> mode x = md \<and> t_state x = RUNNING \<and>
      handler x = None \<and> cwd x = [SLASH] \<and> fd_table x = map (\<lambda>f. Some (fst f)) [f, g, h] @ replicate 13 None \<and>
      (\<forall>b \<in> {f, g, h}. files (k_fs s') (fst b) = opened (k_fs s) n 0) \<and>
      (if md = USER then THREAD_SP_SIZE \<le> snd u \<and> user_sp x = fst u \<and> lr x = Some Switch_to_user_space \<and> target_func x = func
       else lr x = func)) \<and>
    (\<forall>b. b \<noteq> fst t \<longrightarrow> task_of s' b = (task_of s b)\<lparr>t_next := t_next (task_of s' b)\<rparr>)"
proof -
  have "kstock (heap (k_fs s)) (Suc (Suc (Suc (Suc (Suc (Suc 0))))))" using kstock_mono [OF st] by simp
  from task_create_run [OF ok con this pid, of func md] obtain t u a f g h s' where
    c: "task_create func md s = Inr (fst t, s')" "kernel_ok s' c (rq @ [fst t]) zq tq" "has_new_task func md n s t u a [f, g, h] s'"
    "kstock (heap (k_fs s')) 0" by blast
  note N = has_new_taskD [OF c(3)]
  have "a \<in> blks (k_fs s')" using N(7) by simp
  then have a: "0 \<le> fst a" "fst a < 0x3c000000" using block_addr_bounds [OF kstock_ok [OF c(4)]] by blast+
  note top = stack_top_inside [OF a]
  have fds: "VFS_PROCESS_MAX_OPEN_FILE - length (map fst [f, g, h]) = 13" by (simp add: VFS_PROCESS_MAX_OPEN_FILE_def)
  show ?thesis
    by (rule exI [of _ t], rule exI [of _ u], rule exI [of _ a], rule exI [of _ f], rule exI [of _ g], rule exI [of _ h], rule exI [of _ s'])
      (use c(1,2) N(2,5-11) top fds in \<open>simp add: Let_def N(1) fresh_task_simps\<close>)
qed

text \<open>A user task created in the idle task after booting.\<close>

theorem task_create_correct_witness:
  "\<exists>s c t s'. kernel_ok s c [] [] [] \<and> task_create None USER s = Inr (t, s') \<and> kernel_ok s' c [t] [] [] \<and>
     t_pid (task_of s' t) = 2 \<and> target_func (task_of s' t) = None"
proof -
  obtain u c s0 s where s: "kernel_ok s c [] [] []" "console_at (k_fs s) u" "kstock (heap (k_fs s)) 13" "pid (k_sched s) = 2"
    by (rule booted_kernel)
  have "leads_to (k_fs s) uart_path u" "kstock (heap (k_fs s)) 6" "pid (k_sched s) < 2 ^ 31 - 1"
    using s(2,4) kstock_mono [OF s(3)] by (simp_all add: console_at_def)
  from task_create_correct [OF s(1) this, of None USER] obtain t s' where
    "task_create None USER s = Inr (t, s')" "kernel_ok s' c ([] @ [t]) [] []" "t_pid (task_of s' t) = pid (k_sched s)"
    "target_func (task_of s' t) = None"
    unfolding Let_def by (metis (no_types, lifting))
  then show ?thesis using s(1,4) by auto
qed

text \<open>C33: kill_zombies takes the first zombie off its queue and, when its structure and stacks are different blocks in
  use in pages below page 229376, gives back exactly these blocks: the kernel's stack always, the user's stack only for a
  user task. The handles of its open files stay allocated.\<close>

theorem kill_zombies_correct:
  assumes "sched_ok (k_sched s) c rq (z # zq) tq" and "heap_ok (k_fs s)"
    and "(z, lz) \<in> blks (k_fs s)" and "(sp_addr (task_of s z), la) \<in> blks (k_fs s)"
    and "mode (task_of s z) = USER \<Longrightarrow> (user_sp (task_of s z), lu) \<in> blks (k_fs s)"
    and "low_addr z" and "low_addr (sp_addr (task_of s z))" and "mode (task_of s z) = USER \<Longrightarrow> low_addr (user_sp (task_of s z))"
    and "z \<noteq> sp_addr (task_of s z)" and "mode (task_of s z) = USER \<Longrightarrow> user_sp (task_of s z) \<notin> {z, sp_addr (task_of s z)}"
  shows "\<exists>s'. kill_zombies s = Inr s' \<and> sched_ok (k_sched s') c rq zq tq \<and> heap_ok (k_fs s') \<and>
    blks (k_fs s') = blks (k_fs s) - ({(z, lz), (sp_addr (task_of s z), la)} \<union>
      (if mode (task_of s z) = USER then {(user_sp (task_of s z), lu)} else {})) \<and>
    files (k_fs s') = files (k_fs s)"
  using assms by (rule kill_zombies_run)

text \<open>A kernel task with its structure and its stack in the only two blocks.\<close>

theorem kill_zombies_correct_witness:
  "\<exists>s s'. kill_zombies s = Inr s' \<and> card (blks (k_fs s)) = 2 \<and> blks (k_fs s') = {} \<and> sched_ok (k_sched s') 100 [] [] []"
proof -
  obtain s1 h ps n1 n2 where b: "pool_inv h ps" "live h ps = {(12480, n2), (12352, n1)}"
    by (rule two_blocks) blast
  let ?ts = "(\<lambda>_. demo_task 0 None)(12352 := (demo_task 2 None)\<lparr>sp_addr := 12480\<rparr>)"
  let ?s = "demo_kernel\<lparr>k_fs := file_state h (\<lambda>_. 0), k_sched := \<lparr>tasks = ?ts, run_queue = None,
    zombies_queue = Some 12352, temp_queue = None, pid = 3, current = Some 100\<rparr>\<rparr>"
  have ok: "sched_ok (k_sched ?s) 100 [] [12352] []" by (simp add: sched_ok_def demo_task_def)
  have hp: "heap_ok (k_fs ?s)" "blocks h = {(12480, n2), (12352, n1)}"
    using b blocks_live [OF b(1)] by (auto simp: alloc_ok_def)
  have "\<exists>s'. kill_zombies ?s = Inr s' \<and> sched_ok (k_sched s') 100 [] [] [] \<and> heap_ok (k_fs s') \<and>
    blks (k_fs s') = blks (k_fs ?s) - ({(12352, n1), (sp_addr (task_of ?s 12352), n2)} \<union>
      (if mode (task_of ?s 12352) = USER then {(user_sp (task_of ?s 12352), 0)} else {})) \<and>
    files (k_fs s') = files (k_fs ?s)"
    by (rule kill_zombies_correct [OF ok hp(1)])
      (simp_all add: hp(2) task_of_def demo_task_def low_addr_def last_block_def)
  then obtain s' where "kill_zombies ?s = Inr s'" "sched_ok (k_sched s') 100 [] [] []" "blks (k_fs s') = {}"
    by (auto simp: hp(2) task_of_def demo_task_def)
  moreover have "card (blks (k_fs ?s)) = 2" by (simp add: hp(2))
  ultimately show ?thesis by blast
qed

end
