(* ===== verification/BootClaims.thy ===== *)
theory BootClaims
  imports PageInitClaims TaskClaims
begin

text \<open>
  \<open>main\<close> from \<open>page_init\<close> on: what the reservations leave free is enough for the three mounts and the first
  task, so that the kernel boots from every RAM disk that the file system can hold.
\<close>

section \<open>main\<close>

text \<open>\<open>page_init()\<close> and what follows it; \<open>b\<close> holds the linker's symbols and the places found in the device tree.\<close>

definition main_from_page_init :: "nat \<Rightarrow> byte \<Rightarrow> (nat \<Rightarrow> int) \<Rightarrow> int \<Rightarrow> boot_layout \<Rightarrow> kernel \<Rightarrow> (boot_layout \<times> kernel) res" where
  "main_from_page_init fuel junk i0 j b s =
     rbind (page_init fuel b (pages (heap (k_fs s)))) (\<lambda>(b, ps).
     rbind (kernel_main junk i0 j (int (cpio_place b)) (s\<lparr>k_fs := (k_fs s)\<lparr>heap := (heap (k_fs s))\<lparr>pages := ps\<rparr>\<rparr>\<rparr>)) (\<lambda>s. Inr (b, s)))"

lemma kstock_fresh:
  assumes "pool h = None" and "page_inv ps L" and "n \<le> stock L"
  shows "kstock (h\<lparr>pages := ps\<rparr>) n"
proof -
  have "pool_inv (h\<lparr>pages := ps\<rparr>) []" using assms(1,2) by (auto simp: pool_inv_def)
  then show ?thesis using assms(2,3) by (auto simp: kstock_def)
qed

section \<open>An archive at another place\<close>

lemma mem_bytes_shift: "mem_bytes (\<lambda>a. m (a - d)) (p + d) n = mem_bytes m p n"
  by (simp add: mem_bytes_def algebra_simps)

lemma str_at_shift: "str_at (\<lambda>a. m (a - d)) (p + d) cs = str_at m p cs"
  by (simp add: str_at_def algebra_simps)

lemma file_at_shift: "file_at (\<lambda>a. m (a - d)) (p + d) name data = file_at m p name data"
proof -
  have e: "p + d + k = p + k + d" "p + 110 + d + k = p + 110 + k + d" for k :: int by simp_all
  show ?thesis by (simp only: file_at_def field_at_def e mem_bytes_shift str_at_shift)
qed

lemma cpio_at_shift: "cpio_at (\<lambda>a. m (a - d)) (p + d) fs = cpio_at m p fs"
proof (induction fs arbitrary: p)
  case Nil
  have "p + d + 110 = p + 110 + d" by simp
  then show ?case by (simp only: cpio_at.simps str_at_shift)
next
  case (Cons f fs)
  have "next_entry (p + d) (fst f) (snd f) = next_entry p (fst f) (snd f) + d" by (simp add: next_entry_def)
  then show ?case by (simp only: cpio_at.simps file_at_shift Cons.IH)
qed

section \<open>Properties\<close>

text \<open>C9: The kernel boots. With a kernel at 0x80000 and reserved ranges as in page_init_correct, an allocator that is all
  zero, as the start-up code leaves it, and a RAM disk of at most 17 files (distinct proper names of less than
  16 bytes, with data), main goes from page_init to the first task without running out of memory, when the
  uninitialised loop variables hold 0: "/dev/uart" is the console, every file of the archive but the last is
  found below "/initramfs" and starts with its data, and the run queue holds the idle task, in kernel
  mode, with its three descriptors open on the console.\<close>

theorem main_boots:
  assumes b: "kernel_layout b" and fuel: "nat PAGE_MAX_ENTRY \<le> fuel"
    and zero: "\<And>l. page_list (pages (heap (k_fs s))) l = None" "pool (heap (k_fs s)) = None"
    and disk: "cpio_at (bytes (k_fs s)) (int (cpio_place b)) fs" "fs \<noteq> []"
      "\<forall>f \<in> set fs. proper (fst f) \<and> length (fst f) < NAME_LEN \<and> snd f \<noteq> []" "distinct (map fst fs)" "length fs \<le> 17"
    and fresh: "\<not> mounted (k_fs s)" "run_queue (k_sched s) = None" "pid (k_sched s) = 1"
  shows "\<exists>b' u t s'. main_from_page_init fuel 0 (\<lambda>_. 0) 0 b s = Inr (b', s') \<and> console_at (k_fs s') u \<and>
    (\<forall>f \<in> set (butlast fs). path_has (k_fs s') [cstr ''initramfs'', fst f] (snd f)) \<and>
    chain (nexts (tasks (k_sched s'))) (run_queue (k_sched s')) [t] \<and> t_pid (task_of s' t) = 1 \<and>
    mode (task_of s' t) = KERNEL \<and> lr (task_of s' t) = Some Idle_thread \<and> std_open s' t u"
proof -
  have ok: "layout_ok b" using b by (simp add: kernel_layout_def)
  obtain ps L where r: "page_init fuel b (pages (heap (k_fs s))) = Inr (snd (simple_malloc (nat PAGE_MAX_ENTRY * SIZEOF_frame_info) b), ps)"
    "page_inv ps L" "free_pages (frame ps) = {0..<PAGE_MAX_ENTRY} - (\<Union>r \<in> set (boot_ranges b). pages_in (page_range r))"
    by (rule page_init_run [OF ok zero(1) fuel])
  let ?b = "snd (simple_malloc (nat PAGE_MAX_ENTRY * SIZEOF_frame_info) b)"
  let ?s = "s\<lparr>k_fs := (k_fs s)\<lparr>heap := (heap (k_fs s))\<lparr>pages := ps\<rparr>\<rparr>\<rparr>"
  have "5 * length fs + 39 + 0 \<le> stock L" using disk(5) boot_stock [OF b r(2,3)] by linarith
  then have st: "kstock (heap (k_fs ?s)) (5 * length fs + 39 + 0)" using kstock_fresh [OF zero(2) r(2)] by simp
  have d: "cpio_at (bytes (k_fs ?s)) (int (cpio_place b)) fs" using disk(1) by simp
  have f: "\<not> mounted (k_fs ?s)" "run_queue (k_sched ?s) = None" "pid (k_sched ?s) = 1" using fresh by simp_all
  obtain u t s' where k: "kernel_main 0 (\<lambda>_. 0) 0 (int (cpio_place b)) ?s = Inr s'" "console_at (k_fs s') u"
    "\<forall>f \<in> set (butlast fs). path_has (k_fs s') [cstr ''initramfs'', fst f] (snd f)"
    "chain (nexts (tasks (k_sched s'))) (run_queue (k_sched s')) [t]" "t_pid (task_of s' t) = 1"
    "mode (task_of s' t) = KERNEL" "lr (task_of s' t) = Some Idle_thread" "std_open s' t u"
    by (rule kernel_main_run [OF d disk(2-5) st f])
  have "cpio_place ?b = cpio_place b" by (simp add: simple_malloc_def Let_def)
  then have "main_from_page_init fuel 0 (\<lambda>_. 0) 0 b s = Inr (?b, s')" using r(1) k(1) by (simp add: main_from_page_init_def)
  then show ?thesis using k(2-8) by blast
qed

text \<open>The layout of \<open>demo_layout\<close> with a RAM disk of two files.\<close>

theorem main_boots_witness:
  "\<exists>s b' u t s'. main_from_page_init 245760 0 (\<lambda>_. 0) 0 demo_layout s = Inr (b', s') \<and> console_at (k_fs s') u \<and> std_open s' t u \<and>
     path_has (k_fs s') [cstr ''initramfs'', [97]] [1, 2, 3, 4, 5]"
proof -
  let ?k = "kernel_with (\<lambda>a. boot_disk (a - 0x7200000))"
  let ?s = "?k\<lparr>k_fs := (k_fs ?k)\<lparr>heap := (heap (k_fs ?k))\<lparr>pages := boot_state\<lparr>page_list := (\<lambda>_. None)\<rparr>, pool := None\<rparr>\<rparr>\<rparr>"
  have "cpio_at (bytes (k_fs ?k)) (0xE00000 + 0x7200000) demo_files"
    using boot_disk_archive unfolding kernel_with_facts(1) cpio_at_shift .
  then have d: "cpio_at (bytes (k_fs ?s)) (int (cpio_place demo_layout)) demo_files" by (simp add: demo_layout_def)
  have z: "page_list (pages (heap (k_fs ?s))) l = None" "pool (heap (k_fs ?s)) = None" for l by simp_all
  have f: "\<not> mounted (k_fs ?s)" "run_queue (k_sched ?s) = None" "pid (k_sched ?s) = 1" by (simp_all add: kernel_with_facts)
  have fuel: "nat PAGE_MAX_ENTRY \<le> 245760" by (simp add: PAGE_MAX_ENTRY_def)
  have n: "demo_files \<noteq> []" "length demo_files \<le> 17" by simp_all
  have has: "([97], [1, 2, 3, 4, 5]) \<in> set (butlast demo_files)" by simp
  obtain b' u t s' where r: "main_from_page_init 245760 0 (\<lambda>_. 0) 0 demo_layout ?s = Inr (b', s')" "console_at (k_fs s') u"
    "\<forall>f \<in> set (butlast demo_files). path_has (k_fs s') [cstr ''initramfs'', fst f] (snd f)" "std_open s' t u"
    using main_boots [OF demo_layout_ok fuel z d n(1) demo_files_facts n(2) f] by blast
  have "path_has (k_fs s') [cstr ''initramfs'', [97]] [1, 2, 3, 4, 5]" using bspec [OF r(3) has] by simp
  then show ?thesis using r(1,2,4) by (intro exI [of _ ?s] exI [of _ b'] exI [of _ u] exI [of _ t] exI [of _ s'] conjI)
qed

end
