(* ===== verification/Syscalls.thy ===== *)
theory Syscalls
  imports Tasks Dtb
begin

text \<open>
  \<open>lib/exception.c\<close>: the interrupt router, the system calls and the router that dispatches them. A
  register holds a number below 2^64; an argument of type \<open>int\<close> is its low half (\<open>c_int\<close>), and a result is
  extended with its sign. Strings are read from memory at the address in a register. What the devices
  answer is a parameter: the UART in \<open>d\<close>, the mailbox in \<open>mb\<close> and \<open>response\<close>.
\<close>

section \<open>Arguments and results\<close>

text \<open>The string at a place in memory.\<close>

definition string_at :: "addr \<Rightarrow> vfs \<Rightarrow> byte list res" where
  "string_at p s = rbind (returns (strlen (bytes s) p)) (\<lambda>n. Inr (map (\<lambda>i. bytes s (p + int i)) [0..<n]))"

definition upd_frame :: "addr \<Rightarrow> (trap_frame \<Rightarrow> trap_frame) \<Rightarrow> kernel \<Rightarrow> kernel" where
  "upd_frame a f s = s\<lparr>frames := (frames s)(a := f (frames s a))\<rparr>"

definition set_x0 :: "addr \<Rightarrow> int \<Rightarrow> kernel \<Rightarrow> kernel" where
  "set_x0 a r = upd_frame a (\<lambda>f. f\<lparr>xr := (xr f)(0 := u64 r)\<rparr>)"

text \<open>\<open>cur->fd_table[fd]\<close>; the descriptor is not checked in the code.\<close>

definition fd_get :: "addr \<Rightarrow> int \<Rightarrow> kernel \<Rightarrow> addr option res" where
  "fd_get cur fd s =
     (if 0 \<le> fd \<and> fd < int (length (fd_table (task_of s cur))) then Inr (fd_table (task_of s cur) ! nat fd)
      else Inl OutOfBounds)"

definition fd_set :: "addr \<Rightarrow> int \<Rightarrow> addr option \<Rightarrow> kernel \<Rightarrow> kernel" where
  "fd_set cur fd f = upd_task cur (\<lambda>x. x\<lparr>fd_table := (fd_table x)[nat fd := f]\<rparr>)"

section \<open>Processes\<close>

definition sysc_pid :: "kernel \<Rightarrow> int res" where
  "sysc_pid s = rbind (get_current s) (\<lambda>cur. Inr (c_int (t_pid (task_of s cur))))"

text \<open>The new code is read to 64 fresh pages; the frame continues there even if there was no file to read.\<close>

definition sysc_exec :: "uart_dev \<Rightarrow> byte list \<Rightarrow> addr \<Rightarrow> kernel \<Rightarrow> (int \<times> kernel) res" where
  "sysc_exec d name fr s =
     rbind (get_current s) (\<lambda>cur.
     let usp = user_sp (task_of s cur);
         s = upd_frame fr (\<lambda>f. f\<lparr>sp_el0 := u64 (usp + int THREAD_SP_SIZE - usp mod 16)\<rparr>) s in
     rbind (page_allocate_addr 17 (0x1000 * 64) (pages (heap (k_fs s)))) (\<lambda>(load_addr, pg).
     let s = s\<lparr>k_fs := (k_fs s)\<lparr>heap := (heap (k_fs s))\<lparr>pages := pg\<rparr>\<rparr>\<rparr> in
     rbind (on_fs (vfs_open 0 name 0 None) s) (\<lambda>((r, f), s).
     rbind (if r = 0 then
              rbind (on_fs (vfs_read d f load_addr (0x1000 * 64)) s) (\<lambda>(_, s).
              rbind (on_fs (vfs_close f) s) (\<lambda>(_, s). Inr s))
            else Inr s) (\<lambda>s.
     Inr (0, upd_frame fr (\<lambda>f. f\<lparr>elr_el1 := u64 load_addr\<rparr>) s)))))"

text \<open>A stack copied byte by byte carries the trap frames that lie in it.\<close>

definition copy_stack :: "addr \<Rightarrow> addr \<Rightarrow> kernel \<Rightarrow> kernel" where
  "copy_stack dst src s =
     s\<lparr>k_fs := (k_fs s)\<lparr>bytes := memcpy THREAD_SP_SIZE dst src (bytes (k_fs s))\<rparr>,
       frames := (\<lambda>a. if dst \<le> a \<and> a < dst + int THREAD_SP_SIZE then frames s (src + (a - dst)) else frames s a)\<rparr>"

definition sysc_fork :: "addr \<Rightarrow> kernel \<Rightarrow> (int \<times> kernel) res" where
  "sysc_fork fr s =
     rbind (get_current s) (\<lambda>parent.
     rbind (task_create None USER s) (\<lambda>(child, s).
     let f = frames s fr; p = task_of s parent; c = task_of s child;
         s = upd_task child (\<lambda>x. x\<lparr>x19 := xr f 19, x20 := xr f 20, x21 := xr f 21, x22 := xr f 22, x23 := xr f 23,
               x24 := xr f 24, x25 := xr f 25, x26 := xr f 26, x27 := xr f 27, x28 := xr f 28, fp := xr f 29,
               lr := Some Child_return_from_fork, target_func := target_func p, handler := handler p\<rparr>) s;
         s = copy_stack (user_sp c) (user_sp p) s;
         s = copy_stack (sp_addr c) (sp_addr p) s;
         child_frame = fr + (sp_addr c - sp_addr p);
         s = upd_task child (\<lambda>x. x\<lparr>sp := u64 child_frame\<rparr>) s;
         s = upd_frame child_frame (\<lambda>g. g\<lparr>xr := (xr g)(0 := 0, 29 := xr f 29),
               sp_el0 := u64 (int (sp_el0 g) + (user_sp c - user_sp p))\<rparr>) s in
     Inr (c_int (t_pid c), s)))"

text \<open>\<open>sys_kill\<close> inside the kernel is a nested system call, which runs \<open>kill_thread\<close>.\<close>

definition sysc_exit :: "kernel \<Rightarrow> (int \<times> kernel) res" where
  "sysc_exit s =
     rbind (get_current s) (\<lambda>cur.
     rbind (if signal_exit s then on_sched (kill_thread (c_int (signal_pid s))) (s\<lparr>signal_exit := False\<rparr>) else Inr s) (\<lambda>s.
     Inr (0, upd_task cur (\<lambda>x. x\<lparr>t_state := EXIT\<rparr>) s)))"

definition sysc_kill :: "int \<Rightarrow> kernel \<Rightarrow> (int \<times> kernel) res" where
  "sysc_kill p s = rbind (on_sched (kill_thread p) s) (\<lambda>s. Inr (0, s))"

section \<open>Signals\<close>

definition sysc_register :: "code option \<Rightarrow> kernel \<Rightarrow> (int \<times> kernel) res" where
  "sysc_register h s = rbind (get_current s) (\<lambda>cur. Inr (0, upd_task cur (\<lambda>x. x\<lparr>handler := h\<rparr>) s))"

definition sysc_signal_kill :: "int \<Rightarrow> kernel \<Rightarrow> (int \<times> kernel) res" where
  "sysc_signal_kill p s =
     rbind (find_task (u64 p) (k_sched s)) (\<lambda>found.
     rbind (deref found) (\<lambda>target.
     let s = s\<lparr>sig_handler := handler (task_of s target), signal_pid := u64 p, signal_exit := True\<rparr> in
     rbind (on_sched (remove_task (u64 p)) s) (\<lambda>s.
     rbind (task_create None USER s) (\<lambda>(h, s).
     Inr (0, upd_task h (\<lambda>x. x\<lparr>target_func := Some Signal_handler_wrapper\<rparr>) s)))))"

text \<open>What the wrapper does after the handler, or without one, up to its \<open>sys_exit\<close>; \<open>run\<close> is the handler.\<close>

definition signal_handler_wrapper :: "(code \<Rightarrow> kernel \<Rightarrow> kernel res) \<Rightarrow> kernel \<Rightarrow> kernel res" where
  "signal_handler_wrapper run s =
     rbind (case sig_handler s of
              Some h \<Rightarrow> rbind (run h s) (on_sched add_to_queue)
            | None \<Rightarrow> on_sched (kill_thread (c_int (signal_pid s))) s) (\<lambda>s.
     rbind (sysc_exit (s\<lparr>signal_exit := False\<rparr>)) (\<lambda>(_, s). Inr s))"

section \<open>Console and mailbox\<close>

text \<open>The loops count with an \<open>int\<close>.\<close>

definition sysc_uart_read :: "uart_dev \<Rightarrow> addr \<Rightarrow> nat \<Rightarrow> kernel \<Rightarrow> (int \<times> kernel) res" where
  "sysc_uart_read d buf n s =
     rbind (int_check (int n)) (\<lambda>_.
     rbind (receive_bytes d n buf (k_fs s)) (\<lambda>t. Inr (c_int n, s\<lparr>k_fs := t\<rparr>)))"

definition sysc_uart_write :: "uart_dev \<Rightarrow> addr \<Rightarrow> nat \<Rightarrow> kernel \<Rightarrow> (int \<times> kernel) res" where
  "sysc_uart_write d buf n s =
     rbind (int_check (int n)) (\<lambda>_.
     rbind (send_bytes d n buf (k_fs s)) (\<lambda>t. Inr (c_int n, s\<lparr>k_fs := t\<rparr>)))"

definition sysc_mbox_call :: "mailbox_dev \<Rightarrow> (nat \<Rightarrow> 32 word) \<Rightarrow> nat \<Rightarrow> nat \<Rightarrow> int res" where
  "sysc_mbox_call mb response ch mbox =
     rbind (mbox_call mb response (of_nat ch) (of_nat mbox)) (\<lambda>(_, r). Inr r)"

section \<open>Files\<close>

text \<open>The path that a call works on; when \<open>to_abs_path\<close> fails it stays empty, as its result is not looked
  at.\<close>

definition abs_path_of :: "addr \<Rightarrow> byte list \<Rightarrow> kernel \<Rightarrow> byte list res" where
  "abs_path_of cur pn s = rbind (to_abs_path [] (cwd (task_of s cur)) pn) (\<lambda>(r, p). Inr p)"

text \<open>The result of \<open>vfs_open\<close> is not looked at either.\<close>

definition sysc_open :: "int \<Rightarrow> byte list \<Rightarrow> int \<Rightarrow> kernel \<Rightarrow> (int \<times> kernel) res" where
  "sysc_open i0 pn flags s =
     rbind (get_current s) (\<lambda>cur.
     let fd = get_task_idle_fd cur (k_sched s) in
     if fd < 0 then Inr (-1, s)
     else
       rbind (abs_path_of cur pn s) (\<lambda>p.
       rbind (on_fs (vfs_open i0 p flags None) s) (\<lambda>((r, f), s).
       Inr (fd, fd_set cur fd f s))))"

definition sysc_close :: "int \<Rightarrow> kernel \<Rightarrow> (int \<times> kernel) res" where
  "sysc_close fd s =
     rbind (get_current s) (\<lambda>cur.
     rbind (fd_get cur fd s) (\<lambda>f.
     rbind (on_fs (vfs_close f) s) (\<lambda>(r, s).
     Inr (0, if r = 0 then fd_set cur fd None s else s))))"

definition sysc_write :: "uart_dev \<Rightarrow> int \<Rightarrow> addr \<Rightarrow> nat \<Rightarrow> kernel \<Rightarrow> (int \<times> kernel) res" where
  "sysc_write d fd buf n s =
     rbind (get_current s) (\<lambda>cur. rbind (fd_get cur fd s) (\<lambda>f. on_fs (vfs_write d f buf n) s))"

definition sysc_read :: "uart_dev \<Rightarrow> int \<Rightarrow> addr \<Rightarrow> nat \<Rightarrow> kernel \<Rightarrow> (int \<times> kernel) res" where
  "sysc_read d fd buf n s =
     rbind (get_current s) (\<lambda>cur. rbind (fd_get cur fd s) (\<lambda>f. on_fs (vfs_read d f buf n) s))"

definition sysc_mkdir :: "int \<Rightarrow> byte list \<Rightarrow> kernel \<Rightarrow> (int \<times> kernel) res" where
  "sysc_mkdir i0 pn s =
     rbind (get_current s) (\<lambda>cur.
     rbind (abs_path_of cur pn s) (\<lambda>p.
     rbind (on_fs (vfs_mkdir i0 p) s) (\<lambda>(_, s). Inr (0, s))))"

definition sysc_mount :: "byte \<Rightarrow> (nat \<Rightarrow> int) \<Rightarrow> int \<Rightarrow> addr \<Rightarrow> byte list \<Rightarrow> byte list \<Rightarrow> kernel \<Rightarrow> (int \<times> kernel) res" where
  "sysc_mount junk i0 j place target file_name s =
     rbind (get_current s) (\<lambda>cur.
     rbind (abs_path_of cur target s) (\<lambda>p. on_fs (vfs_mount junk i0 j place p file_name) s))"

definition sysc_chdir :: "byte list \<Rightarrow> kernel \<Rightarrow> (int \<times> kernel) res" where
  "sysc_chdir pn s =
     rbind (get_current s) (\<lambda>cur.
     rbind (abs_path_of cur pn s) (\<lambda>p.
     rbind (vfs_lookup p None (k_fs s)) (\<lambda>(ret, node).
     if p = [] then Inl OutOfBounds
     else
       rbind (fit TMPFS_MAX_PATH_LEN (if last p \<noteq> SLASH then p @ [SLASH] else p)) (\<lambda>p.
       Inr (ret, if ret = 0 then upd_task cur (\<lambda>x. x\<lparr>cwd := p\<rparr>) s else s)))))"

section \<open>Dispatch\<close>

text \<open>The numbers of the system calls.\<close>

definition SYSCALL_NUM_PID :: int where "SYSCALL_NUM_PID = 0"

definition SYSCALL_NUM_UART_READ :: int where "SYSCALL_NUM_UART_READ = 1"

definition SYSCALL_NUM_UART_WRITE :: int where "SYSCALL_NUM_UART_WRITE = 2"

definition SYSCALL_NUM_EXEC :: int where "SYSCALL_NUM_EXEC = 3"

definition SYSCALL_NUM_FORK :: int where "SYSCALL_NUM_FORK = 4"

definition SYSCALL_NUM_EXIT :: int where "SYSCALL_NUM_EXIT = 5"

definition SYSCALL_NUM_MBOX_CALL :: int where "SYSCALL_NUM_MBOX_CALL = 6"

definition SYSCALL_NUM_KILL :: int where "SYSCALL_NUM_KILL = 7"

definition SYSCALL_NUM_REGISTER :: int where "SYSCALL_NUM_REGISTER = 8"

definition SYSCALL_NUM_SIGNAL_KILL :: int where "SYSCALL_NUM_SIGNAL_KILL = 9"

definition SYSCALL_NUM_OPEN :: int where "SYSCALL_NUM_OPEN = 11"

definition SYSCALL_NUM_CLOSE :: int where "SYSCALL_NUM_CLOSE = 12"

definition SYSCALL_NUM_WRITE :: int where "SYSCALL_NUM_WRITE = 13"

definition SYSCALL_NUM_READ :: int where "SYSCALL_NUM_READ = 14"

definition SYSCALL_NUM_MKDIR :: int where "SYSCALL_NUM_MKDIR = 15"

definition SYSCALL_NUM_MOUNT :: int where "SYSCALL_NUM_MOUNT = 16"

definition SYSCALL_NUM_CHDIR :: int where "SYSCALL_NUM_CHDIR = 17"

lemmas syscall_nums = SYSCALL_NUM_PID_def SYSCALL_NUM_UART_READ_def SYSCALL_NUM_UART_WRITE_def SYSCALL_NUM_EXEC_def SYSCALL_NUM_FORK_def
  SYSCALL_NUM_EXIT_def SYSCALL_NUM_MBOX_CALL_def SYSCALL_NUM_KILL_def SYSCALL_NUM_REGISTER_def SYSCALL_NUM_SIGNAL_KILL_def
  SYSCALL_NUM_OPEN_def SYSCALL_NUM_CLOSE_def SYSCALL_NUM_WRITE_def SYSCALL_NUM_READ_def SYSCALL_NUM_MKDIR_def
  SYSCALL_NUM_MOUNT_def SYSCALL_NUM_CHDIR_def

text \<open>Function pointers in registers are addresses of code, 0 is none.\<close>

definition code_of :: "nat \<Rightarrow> code option" where
  "code_of n = (if n = 0 then None else Some (Code_at (int n)))"

text \<open>The result goes to \<open>x0\<close> of the frame.\<close>

definition answer :: "addr \<Rightarrow> (int \<times> kernel) res \<Rightarrow> (outcome option \<times> kernel) res" where
  "answer fr r = rbind r (\<lambda>(x, s). Inr (None, set_x0 fr x s))"

text \<open>The router returns to the frame (\<open>None\<close>), or the caller has exited and \<open>schedule\<close> has run. A number
  that is no system call ends in the endless loop of \<open>invalid_exception_router\<close>.\<close>

definition sync_router :: "uart_dev \<Rightarrow> mailbox_dev \<Rightarrow> (nat \<Rightarrow> 32 word) \<Rightarrow> byte \<Rightarrow> (nat \<Rightarrow> int) \<Rightarrow> int \<Rightarrow> addr \<Rightarrow>
    addr \<Rightarrow> kernel \<Rightarrow> (outcome option \<times> kernel) res" where
  "sync_router d mb response junk i0 j place fr s =
     (let n = c_int (xr (frames s fr) 8); a0 = xr (frames s fr) 0; a1 = xr (frames s fr) 1; a2 = xr (frames s fr) 2;
          str = (\<lambda>a. string_at (int a) (k_fs s)) in
      if n = SYSCALL_NUM_PID then answer fr (rbind (sysc_pid s) (\<lambda>r. Inr (r, s)))
      else if n = SYSCALL_NUM_UART_READ then
        rbind (answer fr (sysc_uart_read d (int a0) a1 (s\<lparr>irq_on := True\<rparr>))) (\<lambda>(r, s). Inr (r, s\<lparr>irq_on := False\<rparr>))
      else if n = SYSCALL_NUM_UART_WRITE then
        rbind (answer fr (sysc_uart_write d (int a0) a1 (s\<lparr>irq_on := True\<rparr>))) (\<lambda>(r, s). Inr (r, s\<lparr>irq_on := False\<rparr>))
      else if n = SYSCALL_NUM_EXEC then rbind (str a0) (\<lambda>name. answer fr (sysc_exec d name fr s))
      else if n = SYSCALL_NUM_FORK then answer fr (sysc_fork fr s)
      else if n = SYSCALL_NUM_EXIT then
        rbind (answer fr (sysc_exit s)) (\<lambda>(_, s). rbind (schedule_k s) (\<lambda>(r, s). Inr (Some r, s)))
      else if n = SYSCALL_NUM_MBOX_CALL then answer fr (rbind (sysc_mbox_call mb response a0 a1) (\<lambda>r. Inr (r, s)))
      else if n = SYSCALL_NUM_KILL then answer fr (sysc_kill (c_int a0) s)
      else if n = SYSCALL_NUM_REGISTER then answer fr (sysc_register (code_of a1) s)
      else if n = SYSCALL_NUM_SIGNAL_KILL then answer fr (sysc_signal_kill (c_int a0) s)
      else if n = SYSCALL_NUM_OPEN then rbind (str a0) (\<lambda>p. answer fr (sysc_open j p (c_int a1) s))
      else if n = SYSCALL_NUM_CLOSE then answer fr (sysc_close (c_int a0) s)
      else if n = SYSCALL_NUM_WRITE then answer fr (sysc_write d (c_int a0) (int a1) a2 s)
      else if n = SYSCALL_NUM_READ then answer fr (sysc_read d (c_int a0) (int a1) a2 s)
      else if n = SYSCALL_NUM_MKDIR then rbind (str a0) (\<lambda>p. answer fr (sysc_mkdir j p s))
      else if n = SYSCALL_NUM_MOUNT then rbind (str a1) (\<lambda>p. rbind (str a2) (\<lambda>q. answer fr (sysc_mount junk i0 j place p q s)))
      else if n = SYSCALL_NUM_CHDIR then rbind (str a0) (\<lambda>p. answer fr (sysc_chdir p s))
      else Inl OutOfFuel)"

text \<open>\<open>irq_router\<close> on the timers and the UART: \<open>source\<close>, \<open>pending\<close> and \<open>iir\<close> are what the interrupt registers
  hold, \<open>run\<close> is the timer callback and \<open>now\<close> the tick counter.\<close>

definition irq_router :: "uart_dev \<Rightarrow> ('cb \<Rightarrow> byte list \<Rightarrow> 'cb timers \<Rightarrow> 'cb timers res) \<Rightarrow> nat \<Rightarrow> 64 word \<Rightarrow> 64 word \<Rightarrow>
    32 word \<Rightarrow> 'cb timers \<Rightarrow> uart \<Rightarrow> ('cb timers \<times> uart) res" where
  "irq_router d run now source pending iir t u =
     (if bit source 1 then rbind (pop_timer run now (core_timer_interrupt_disable t)) (\<lambda>t. Inr (t, u))
      else if bit pending 29 then
        if bit iir 1 then Inr (t, uart_interrupt_w_handler (disable_uart_w_interrupt u))
        else if bit iir 2 then Inr (t, uart_interrupt_r_handler d (disable_uart_r_interrupt u))
        else Inr (t, u)
      else Inr (t, u))"

end
