(* ===== verification/SyscallProps.thy ===== *)
theory SyscallProps
  imports TaskClaims Syscalls
begin

text \<open>
  What the system calls do to a well-formed kernel: \<open>fork\<close>, the descriptors and the working directory.
\<close>

section \<open>Updates of tasks\<close>

lemma sched_ok_upd_task:
  assumes "sched_ok (k_sched s) c rq zq tq" and "\<And>x. t_next (F x) = t_next x"
  shows "sched_ok (k_sched (upd_task t F s)) c rq zq tq"
proof -
  have "nexts (tasks (k_sched (upd_task t F s))) = nexts (tasks (k_sched s))" using assms(2) by (auto simp: fun_eq_iff)
  then show ?thesis using assms(1) by (simp add: sched_ok_def del: fun_upd_apply)
qed

lemma kernel_ok_upd_task:
  "kernel_ok s c rq zq tq \<Longrightarrow> (\<And>x. t_next (F x) = t_next x) \<Longrightarrow> kernel_ok (upd_task t F s) c rq zq tq"
  using sched_ok_upd_task unfolding kernel_ok_def by simp

lemma task_of_upd [simp]: "task_of (upd_task t F s) x = (if x = t then F (task_of s x) else task_of s x)"
  by (simp add: task_of_def)

lemma upd_frame_simps [simp]:
  "k_fs (upd_frame a F s) = k_fs s" "k_sched (upd_frame a F s) = k_sched s" "task_of (upd_frame a F s) x = task_of s x"
  "frames (upd_frame a F s) = (frames s)(a := F (frames s a))" "frames (upd_task t G s) = frames s"
  by (simp_all add: upd_frame_def task_of_def upd_task_def)

lemma copy_stack_simps [simp]:
  "k_sched (copy_stack d src s) = k_sched s" "task_of (copy_stack d src s) x = task_of s x"
  "heap (k_fs (copy_stack d src s)) = heap (k_fs s)" "files (k_fs (copy_stack d src s)) = files (k_fs s)"
  "bytes (k_fs (copy_stack d src s)) = memcpy THREAD_SP_SIZE d src (bytes (k_fs s))"
  "in_use (k_fs (copy_stack d src s)) = in_use (k_fs s)" "vnodes (k_fs (copy_stack d src s)) = vnodes (k_fs s)"
  by (simp_all add: copy_stack_def task_of_def in_use_def)

lemma kernel_ok_copy: "kernel_ok s c rq zq tq \<Longrightarrow> kernel_ok (copy_stack d src s) c rq zq tq"
  by (simp add: kernel_ok_def)

lemma kernel_ok_frame: "kernel_ok s c rq zq tq \<Longrightarrow> kernel_ok (upd_frame a F s) c rq zq tq"
  by (simp add: kernel_ok_def)

section \<open>Copying the stacks\<close>

text \<open>Two copies into new blocks \<open>u\<close> and \<open>a\<close> from old blocks.\<close>

lemma apart_ranges:
  assumes "heap_ok s" and "b \<in> blks s" and "b' \<in> blks s" and "b \<noteq> b'" and "n \<le> snd b" and "k \<le> snd b'"
  shows "{fst b..<fst b + int n} \<inter> {fst b'..<fst b' + int k} = {}"
proof -
  have "block_range b \<inter> block_range b' = {}" by (rule kernel_heap.blocks_apart [OF assms(1-4)])
  moreover have "{fst b..<fst b + int n} \<subseteq> block_range b" "{fst b'..<fst b' + int k} \<subseteq> block_range b'"
    using assms(5,6) by (auto simp: block_range_def)
  ultimately show ?thesis by blast
qed

lemma two_copies:
  fixes m :: mem
  assumes ok: "heap_ok s" and B: "{u, a, us, ks} \<subseteq> blks s" "u \<noteq> a" "u \<noteq> us" "u \<noteq> ks" "a \<noteq> us" "a \<noteq> ks"
    and n: "n \<le> snd u" "n \<le> snd a" "n \<le> snd us" "n \<le> snd ks"
  defines "m' \<equiv> memcpy n (fst a) (fst ks) (memcpy n (fst u) (fst us) m)"
  shows "mem_bytes m' (fst u) n = mem_bytes m (fst us) n" and "mem_bytes m' (fst a) n = mem_bytes m (fst ks) n"
    and "x \<notin> block_range u \<Longrightarrow> x \<notin> block_range a \<Longrightarrow> m' x = m x"
proof -
  have d: "{fst u..<fst u + int n} \<inter> {fst us..<fst us + int n} = {}" "{fst a..<fst a + int n} \<inter> {fst ks..<fst ks + int n} = {}"
    "{fst u..<fst u + int n} \<inter> {fst a..<fst a + int n} = {}" "{fst ks..<fst ks + int n} \<inter> {fst u..<fst u + int n} = {}"
    by (rule apart_ranges [OF ok]; use B n in auto)+
  show "mem_bytes m' (fst u) n = mem_bytes m (fst us) n"
    unfolding m'_def using memcpy_bytes(2) [OF d(2,3)] memcpy_bytes(1) [OF d(1)] by simp
  show "mem_bytes m' (fst a) n = mem_bytes m (fst ks) n"
    unfolding m'_def using memcpy_bytes(1) [OF d(2)] memcpy_bytes(2) [OF d(1,4)] by simp
  assume x: "x \<notin> block_range u" "x \<notin> block_range a"
  then have "\<not> (fst a \<le> x \<and> x < fst a + int n)" "\<not> (fst u \<le> x \<and> x < fst u + int n)"
    using n by (auto simp: block_range_def)
  then show "m' x = m x" unfolding m'_def by (auto simp: memcpy_inside [OF d(1)] memcpy_inside [OF d(2)])
qed

section \<open>Fork\<close>

text \<open>The stacks of a new task, filled with copies of two old blocks.\<close>

lemma fork_copies:
  fixes m :: mem
  assumes new: "has_new_task None USER n s t u a fs s1" and hp: "heap_ok (k_fs s1)"
    and us: "(us, lu) \<in> blks (k_fs s)" "THREAD_SP_SIZE \<le> lu" and ks: "(ks, la) \<in> blks (k_fs s)" "THREAD_SP_SIZE \<le> la"
  defines "m' \<equiv> memcpy THREAD_SP_SIZE (fst a) ks (memcpy THREAD_SP_SIZE (fst u) us m)"
  shows "mem_bytes m' (fst u) THREAD_SP_SIZE = mem_bytes m us THREAD_SP_SIZE"
    and "mem_bytes m' (fst a) THREAD_SP_SIZE = mem_bytes m ks THREAD_SP_SIZE"
    and "same_on (blks (k_fs s)) m m'"
    and "b \<in> blks (k_fs s) \<Longrightarrow> x \<in> block_range b \<Longrightarrow>
      \<not> (fst u \<le> x \<and> x < fst u + int THREAD_SP_SIZE) \<and> \<not> (fst a \<le> x \<and> x < fst a + int THREAD_SP_SIZE)"
proof -
  note N = has_new_taskD [OF new]
  have bl: "{u, a, (us, lu), (ks, la)} \<subseteq> blks (k_fs s1)" using N(7) us(1) ks(1) by auto
  have fresh: "fst u \<notin> in_use (k_fs s)" "fst a \<notin> in_use (k_fs s)" "u \<noteq> a" using N(8,9) by auto
  have old: "u \<noteq> b" "a \<noteq> b" if "b \<in> blks (k_fs s)" for b using that fresh(1,2) by (auto simp: in_use_def)
  have sz: "THREAD_SP_SIZE \<le> snd u" "THREAD_SP_SIZE \<le> snd a" "THREAD_SP_SIZE \<le> snd (us, lu)" "THREAD_SP_SIZE \<le> snd (ks, la)"
    using N(10) N(11) us(2) ks(2) by simp_all
  note cp = two_copies [OF hp bl fresh(3) old(1) [OF us(1)] old(1) [OF ks(1)] old(2) [OF us(1)] old(2) [OF ks(1)] sz,
      where m = m, unfolded fst_conv snd_conv, folded m'_def]
  show "mem_bytes m' (fst u) THREAD_SP_SIZE = mem_bytes m us THREAD_SP_SIZE"
    "mem_bytes m' (fst a) THREAD_SP_SIZE = mem_bytes m ks THREAD_SP_SIZE" by (rule cp)+
  have out: "x \<notin> block_range u" "x \<notin> block_range a" if b: "b \<in> blks (k_fs s)" "x \<in> block_range b" for x b
  proof -
    have "b \<in> blks (k_fs s1)" using b(1) N(7) by simp
    then show "x \<notin> block_range u" "x \<notin> block_range a"
      using kernel_heap.blocks_apart [OF hp, of _ b] bl b(2) old [OF b(1)] by blast+
  qed
  then show "same_on (blks (k_fs s)) m m'" using cp(3) by (simp add: same_on_def)
  assume "b \<in> blks (k_fs s)" "x \<in> block_range b"
  from out [OF this] show "\<not> (fst u \<le> x \<and> x < fst u + int THREAD_SP_SIZE) \<and> \<not> (fst a \<le> x \<and> x < fst a + int THREAD_SP_SIZE)"
    using sz(1,2) by (auto simp: block_range_def)
qed

lemma fork_run:
  assumes ok: "kernel_ok s c rq zq tq" and con: "leads_to (k_fs s) uart_path n"
    and st: "kstock (heap (k_fs s)) 6" and pid: "pid (k_sched s) < 2 ^ 31 - 1"
    and us: "(user_sp (task_of s c), lu) \<in> blks (k_fs s)" "THREAD_SP_SIZE \<le> lu"
    and ks: "(sp_addr (task_of s c), la) \<in> blks (k_fs s)" "THREAD_SP_SIZE \<le> la"
    and fr: "sp_addr (task_of s c) \<le> fr" "fr < sp_addr (task_of s c) + int THREAD_SP_SIZE"
  shows "\<exists>t s'. sysc_fork fr s = Inr (int (pid (k_sched s)), s') \<and> kernel_ok s' c (rq @ [t]) zq tq \<and> t \<notin> in_use (k_fs s) \<and>
    (let P = task_of s c; C = task_of s' t; F = frames s fr; cf = fr + (sp_addr C - sp_addr P); G = frames s' cf in
      t_pid C = pid (k_sched s) \<and> mode C = USER \<and> lr C = Some Child_return_from_fork \<and> sp C = u64 cf \<and>
      target_func C = target_func P \<and> handler C = handler P \<and>
      [x19 C, x20 C, x21 C, x22 C, x23 C, x24 C, x25 C, x26 C, x27 C, x28 C, fp C] = map (xr F) [19..<30] \<and>
      xr G = (xr F)(0 := 0) \<and> elr_el1 G = elr_el1 F \<and> spsr_el1 G = spsr_el1 F \<and>
      sp_el0 G = u64 (int (sp_el0 F) + (user_sp C - user_sp P)) \<and> frames s' fr = F \<and>
      mem_bytes (bytes (k_fs s')) (user_sp C) THREAD_SP_SIZE = mem_bytes (bytes (k_fs s)) (user_sp P) THREAD_SP_SIZE \<and>
      mem_bytes (bytes (k_fs s')) (sp_addr C) THREAD_SP_SIZE = mem_bytes (bytes (k_fs s)) (sp_addr P) THREAD_SP_SIZE \<and>
      same_on (blks (k_fs s)) (bytes (k_fs s)) (bytes (k_fs s')) \<and> cwd C = [SLASH] \<and> std_open s' t n \<and> sp_addr C \<notin> in_use (k_fs s))"
proof -
  have st6: "kstock (heap (k_fs s)) (Suc (Suc (Suc (Suc (Suc (Suc 0))))))" using kstock_mono [OF st] by simp
  obtain t u a f g h s1 where c: "task_create None USER s = Inr (fst t, s1)" "kernel_ok s1 c (rq @ [fst t]) zq tq"
    "has_new_task None USER n s t u a [f, g, h] s1" "kstock (heap (k_fs s1)) 0" "same_tree (k_fs s) (k_fs s1)"
    using task_create_run [OF ok con st6 pid, of None USER] by blast
  note N = has_new_taskD [OF c(3)] and use = has_new_task_use [OF c(3)]
  define P where "P = task_of s c"
  have ct: "c \<noteq> fst t" using kernel_okD(4) [OF ok] use(2) by blast
  then obtain nx where P1: "task_of s1 c = P\<lparr>t_next := nx\<rparr>" using N(5) unfolding P_def by blast
  have C1: "task_of s1 (fst t) = fresh_task None USER (pid (k_sched s)) (fst u) (fst a) [fst f, fst g, fst h] (task_of s (fst t))"
    using N(1) by simp
  let ?cf = "fr + (fst a - sp_addr P)"
  have hp: "heap_ok (k_fs s1)" by (rule kstock_ok [OF c(4)])
  note cp = fork_copies(1-3) [OF c(3) hp us ks, where m = "bytes (k_fs s)", folded P_def]
    and apart = fork_copies(4) [OF c(3) hp us ks]
  have "fr \<in> block_range (sp_addr P, la)" using fr ks(2) by (simp add: block_range_def P_def)
  then have nofr: "\<not> (fst u \<le> fr \<and> fr < fst u + int THREAD_SP_SIZE)" "\<not> (fst a \<le> fr \<and> fr < fst a + int THREAD_SP_SIZE)"
    using apart [OF ks(1)] unfolding P_def by blast+
  have cf: "fst a \<le> ?cf" "?cf < fst a + int THREAD_SP_SIZE" using fr by (simp_all add: P_def)
  let ?F = "frames s fr"
  let ?s2 = "upd_task (fst t) (\<lambda>x. x\<lparr>x19 := xr ?F 19, x20 := xr ?F 20, x21 := xr ?F 21, x22 := xr ?F 22, x23 := xr ?F 23,
               x24 := xr ?F 24, x25 := xr ?F 25, x26 := xr ?F 26, x27 := xr ?F 27, x28 := xr ?F 28, fp := xr ?F 29,
               lr := Some Child_return_from_fork, target_func := target_func P, handler := handler P\<rparr>) s1"
  let ?s4 = "copy_stack (fst a) (sp_addr P) (copy_stack (fst u) (user_sp P) ?s2)"
  let ?s = "upd_frame ?cf (\<lambda>g. g\<lparr>xr := (xr g)(0 := 0, 29 := xr ?F 29), sp_el0 := u64 (int (sp_el0 g) + (fst u - user_sp P))\<rparr>)
    (upd_task (fst t) (\<lambda>x. x\<lparr>sp := u64 ?cf\<rparr>) ?s4)"
  have run: "sysc_fork fr s = Inr (int (pid (k_sched s)), ?s)"
    using kernel_okD(3) [OF ok] c(1) P1 C1 N(4) pid
    by (simp add: sysc_fork_def Let_def fresh_task_simps c_int_small)
  have "kernel_ok ?s c (rq @ [fst t]) zq tq"
    by (intro kernel_ok_frame kernel_ok_upd_task kernel_ok_copy c(2)) simp_all
  moreover have "frames ?s4 ?cf = ?F" "frames ?s4 fr = ?F" "?cf \<noteq> fr"
    using cf nofr N(4) by (auto simp: copy_stack_def)
  then have F: "frames ?s ?cf = ?F\<lparr>xr := (xr ?F)(0 := 0), sp_el0 := u64 (int (sp_el0 ?F) + (fst u - user_sp P))\<rparr>" "frames ?s fr = ?F"
    by (simp_all add: fun_upd_idem_iff fun_upd_twist)
  moreover have "std_open ?s (fst t) n"
    using new_task_std [OF c(3,5)] by (simp add: std_open_def opened_def)
  moreover have "same_on (blks (k_fs s)) (bytes (k_fs s)) (bytes (k_fs ?s))"
    using cp(3) N(3) by simp
  moreover have "fst a \<notin> in_use (k_fs s)" using N(8) by simp
  moreover have "[19..<30] = [19, 20, 21, 22, 23, 24, 25, 26, 27, 28, 29 :: nat]" by (simp add: upt_rec)
  ultimately show ?thesis using run use(2) cp(1,2) C1 N(3)
    by (intro exI [of _ "fst t"] exI [of _ ?s]) (simp add: Let_def fresh_task_simps P_def)
qed

end
