(* ===== verification/FileCalls.thy ===== *)
theory FileCalls
  imports SyscallProps
begin

text \<open>
  The system calls on files: which descriptor \<open>open\<close> gives, reading through it, and where \<open>chdir\<close> goes;
  and the call that sends a signal.
\<close>

section \<open>Descriptors\<close>

definition first_idle :: "kernel \<Rightarrow> addr \<Rightarrow> nat \<Rightarrow> bool" where
  "first_idle s t k \<longleftrightarrow> length (fd_table (task_of s t)) = VFS_PROCESS_MAX_OPEN_FILE \<and> k < VFS_PROCESS_MAX_OPEN_FILE \<and>
     fd_table (task_of s t) ! k = None \<and> (\<forall>j < k. fd_table (task_of s t) ! j \<noteq> None)"

lemma idle_fd_run:
  assumes "i \<le> k" and "k < VFS_PROCESS_MAX_OPEN_FILE" and "fds ! k = None" and "\<forall>j. i \<le> j \<and> j < k \<longrightarrow> fds ! j \<noteq> None"
  shows "idle_fd fds i = int k"
  using assms
proof (induction "k - i" arbitrary: i)
  case 0
  then show ?case by (simp add: idle_fd.simps)
next
  case (Suc n)
  then have "i < k" "fds ! i \<noteq> None" by auto
  then show ?case using Suc.hyps(1) [of "i + 1"] Suc.hyps(2) Suc.prems by (simp add: idle_fd.simps [of fds i])
qed

lemma idle_fd_full:
  assumes "\<forall>j < VFS_PROCESS_MAX_OPEN_FILE. i \<le> j \<longrightarrow> fds ! j \<noteq> None"
  shows "idle_fd fds i = -1"
  using assms
proof (induction fds i rule: idle_fd.induct)
  case (1 fds i)
  then show ?case by (cases "i < VFS_PROCESS_MAX_OPEN_FILE"; cases "fds ! i") (auto simp: idle_fd.simps [of fds i])
qed

lemma first_idle_fd: "first_idle s t k \<Longrightarrow> get_task_idle_fd t (k_sched s) = int k"
  unfolding get_task_idle_fd_def first_idle_def task_of_def by (rule idle_fd_run) auto

lemma fd_get_set:
  assumes "first_idle s t k"
  shows "fd_get t (int k) s = Inr None" and "fd_get t (int k) (fd_set t (int k) f s) = Inr f"
  using assms by (simp_all add: fd_get_def fd_set_def first_idle_def)

lemma fd_set_simps [simp]:
  "k_fs (fd_set t fd f s) = k_fs s" "get_current (fd_set t fd f s) = get_current s"
  "fd_table (task_of (fd_set t (int k) f s) t) = (fd_table (task_of s t))[k := f]"
  by (simp_all add: fd_set_def get_current_def)

text \<open>An absolute path is taken as it is.\<close>

lemma abs_path_render:
  assumes "cs \<noteq> []" and "length (render cs) < TMPFS_MAX_PATH_LEN"
  shows "abs_path_of t (render cs) s = Inr (render cs)"
proof -
  have "render cs \<noteq> []" "hd (render cs) = SLASH" using assms(1) by (cases cs; simp)+
  then show ?thesis using assms(2) by (simp add: abs_path_of_def to_abs_path_def fit_def)
qed

text \<open>Opening a path that is not there, without \<open>O_CREAT\<close>: nothing changes.\<close>

lemma open_missing_run:
  assumes cur: "get_current s = Inr c" and fd: "first_idle s c k" and root: "fs_root (k_fs s) = Inr r" "tree_ok (k_fs s) N" "r \<in> N"
    and cs: "\<forall>c \<in> set cs. proper c" "cs \<noteq> []" "length (render cs) < TMPFS_MAX_PATH_LEN" and no: "walk (k_fs s) r cs = None"
    and flags: "\<not> has_creat flags"
  shows "sysc_open i0 (render cs) flags s = Inr (int k, s)"
proof -
  obtain t where "vfs_lookup (render cs) None (k_fs s) = Inr (-1, t)"
    using vfs_lookup_run [OF root cs(1,2), of None] no by auto
  then have v: "vfs_open i0 (render cs) flags None (k_fs s) = Inr ((-1, None), k_fs s)"
    using flags by (simp add: vfs_open_def)
  have "(fd_table (task_of s c))[k := None] = fd_table (task_of s c)"
    using fd by (metis first_idle_def list_update_id)
  then have "fd_set c (int k) None s = s" by (simp add: fd_set_def upd_task_def task_of_def fun_upd_idem_iff)
  then show ?thesis
    using cur first_idle_fd [OF fd] abs_path_render [OF cs(2,3)] v by (simp add: sysc_open_def on_fs_def Let_def)
qed

section \<open>Opening and reading a file\<close>

lemma open_run_stock:
  assumes ok: "kernel_ok s c rq zq tq" and fd: "first_idle s c k" and path: "leads_to (k_fs s) cs n"
    and len: "length (render cs) < TMPFS_MAX_PATH_LEN" and st: "kstock (heap (k_fs s)) (Suc j)"
  obtains g s' where "sysc_open i0 (render cs) flags s = Inr (int k, s')" and "g \<notin> in_use (k_fs s)"
    and "fd_table (task_of s' c) = (fd_table (task_of s c))[k := Some g]" and "files (k_fs s') = (files (k_fs s))(g := opened (k_fs s) n flags)"
    and "kernel_ok s' c rq zq tq" and "same_tree (k_fs s) (k_fs s')" and "get_current s' = Inr c" and "fd_get c (int k) s' = Inr (Some g)"
    and "kstock (heap (k_fs s')) j" and "blks (k_fs s) \<subseteq> blks (k_fs s')"
proof -
  obtain g l h where v: "vfs_open i0 (render cs) flags None (k_fs s) =
      Inr ((0, Some g), (k_fs s)\<lparr>heap := h, files := (files (k_fs s))(g := opened (k_fs s) n flags)\<rparr>)" "kstock h j"
    "g \<notin> in_use (k_fs s)" "fst ` blocks h = insert g (in_use (k_fs s))" "blocks h = insert (g, l) (blks (k_fs s))"
    "same_tree (k_fs s) ((k_fs s)\<lparr>heap := h, files := (files (k_fs s))(g := opened (k_fs s) n flags)\<rparr>)"
    by (rule vfs_open_run [OF path st, of i0 flags None]) blast
  let ?s1 = "s\<lparr>k_fs := (k_fs s)\<lparr>heap := h, files := (files (k_fs s))(g := opened (k_fs s) n flags)\<rparr>\<rparr>"
  let ?s = "fd_set c (int k) (Some g) ?s1"
  have cs: "cs \<noteq> []" using path by (simp add: leads_to_def)
  have "sysc_open i0 (render cs) flags s = Inr (int k, ?s)"
    using kernel_okD(3) [OF ok] first_idle_fd [OF fd] abs_path_render [OF cs len] v(1) by (simp add: sysc_open_def on_fs_def Let_def)
  moreover have "kernel_ok ?s1 c rq zq tq" using ok v(4) by (auto simp: kernel_ok_def in_use_def)
  then have "kernel_ok ?s c rq zq tq" unfolding fd_set_def by (rule kernel_ok_upd_task) simp
  moreover have "first_idle ?s1 c k" using fd by (simp add: first_idle_def task_of_def)
  then have "fd_get c (int k) ?s = Inr (Some g)" by (rule fd_get_set)
  moreover have "fd_table (task_of ?s c) = (fd_table (task_of s c))[k := Some g]" unfolding fd_set_simps by (simp add: task_of_def)
  moreover have "blks (k_fs s) \<subseteq> blks (k_fs ?s)" using v(5) by auto
  moreover have "get_current ?s1 = Inr c" using kernel_okD(3) [OF ok] by (simp add: get_current_def)
  ultimately show thesis using that [of ?s g] v(2,3,6) by simp
qed

lemma open_run:
  assumes ok: "kernel_ok s c rq zq tq" and fd: "first_idle s c k" and path: "leads_to (k_fs s) cs n"
    and len: "length (render cs) < TMPFS_MAX_PATH_LEN" and st: "kstock (heap (k_fs s)) 1"
  obtains g s' where "sysc_open i0 (render cs) flags s = Inr (int k, s')" and "g \<notin> in_use (k_fs s)"
    and "fd_table (task_of s' c) = (fd_table (task_of s c))[k := Some g]" and "files (k_fs s') g = opened (k_fs s) n flags"
    and "kernel_ok s' c rq zq tq" and "same_tree (k_fs s) (k_fs s')" and "get_current s' = Inr c" and "fd_get c (int k) s' = Inr (Some g)"
proof -
  have st1: "kstock (heap (k_fs s)) (Suc 0)" using st by simp
  obtain g s' where "sysc_open i0 (render cs) flags s = Inr (int k, s')" "g \<notin> in_use (k_fs s)"
    "fd_table (task_of s' c) = (fd_table (task_of s c))[k := Some g]" "files (k_fs s') = (files (k_fs s))(g := opened (k_fs s) n flags)"
    "kernel_ok s' c rq zq tq" "same_tree (k_fs s) (k_fs s')" "get_current s' = Inr c" "fd_get c (int k) s' = Inr (Some g)"
    by (rule open_run_stock [OF ok fd path len st1])
  then show thesis by (intro that [of s' g]) simp_all
qed

text \<open>A read at the start of a file.\<close>

lemma read_start_run:
  assumes f: "file_comp f s = Some (a, c)" and c: "c_union (comps s c) = Some d" "n \<le> c_len (comps s c)" "c_len (comps s c) < 2 ^ 31"
    and pos: "f_pos (files s a) = 0" and apart: "{buf..<buf + int n} \<inter> {d..<d + int n} = {}"
  shows "\<exists>s'. tmpfs_read f buf n s = Inr (int n, s') \<and> mem_bytes (bytes s') buf n = take n (contents s c)"
proof -
  let ?s = "upd_file a (\<lambda>x. x\<lparr>f_pos := n\<rparr>) (s\<lparr>bytes := memcpy n buf d (bytes s)\<rparr>)"
  have n: "n < 2 ^ 31" using c(2,3) by simp
  have u: "u64 (int n) = n" "c_int n = int n" using n by (simp_all add: u64_small c_int_small)
  have l: "u64 (int (c_len (comps s c))) = c_len (comps s c)" using c(3) by (simp add: u64_small)
  have "copy_bytes n (Some buf) (Some d) s = Inr (s\<lparr>bytes := memcpy n buf d (bytes s)\<rparr>)"
    by (cases "n = 0") (simp_all add: copy_bytes_def)
  then have "tmpfs_read f buf n s = Inr (int n, ?s)"
    using f c(1,2) pos u l by (auto simp: tmpfs_read_def Let_def)
  moreover have "mem_bytes (bytes ?s) buf n = mem_bytes (bytes s) d n" using memcpy_bytes(1) [OF apart] by (simp add: upd_file_def)
  moreover have "take n (contents s c) = mem_bytes (bytes s) d n" using c(1,2) by (simp add: contents_def mem_bytes_def take_map)
  ultimately show ?thesis by (intro exI [of _ ?s]) simp
qed

section \<open>Changing the directory\<close>

lemma push_subset: "set (push st c) \<subseteq> insert c (set st)"
  by (auto simp: push_def dest: in_set_butlastD)

lemma resolve_subset: "set (resolve cs) \<subseteq> {c \<in> set cs. \<not> blank c}"
proof -
  have "set (foldl push st cs) \<subseteq> set st \<union> set cs" for st cs
    using push_subset by (induction cs arbitrary: st) fastforce+
  from this [of "[]" "filter (\<lambda>c. \<not> blank c) cs"] show ?thesis by (auto simp: resolve_def)
qed

lemma resolve_proper:
  assumes "\<forall>f \<in> set (StringProps.fields SLASH cs). length f < TMPFS_MAX_COMPONENT_NAME"
  shows "\<forall>c \<in> set (resolve (StringProps.fields SLASH cs)). proper c"
proof
  fix c assume "c \<in> set (resolve (StringProps.fields SLASH cs))"
  then have c: "c \<in> set (StringProps.fields SLASH cs)" "\<not> blank c" using resolve_subset by auto
  from fields_no_delim [OF c(1)] assms c show "proper c" by (simp add: proper_def blank_def)
qed

text \<open>A lookup of the empty path, whatever it finds.\<close>

lemma vfs_lookup_empty:
  assumes "fs_root s = Inr r" and "tree_ok s N" and "r \<in> N"
  shows "\<exists>x t'. vfs_lookup [] t s = Inr (x, t')"
proof -
  obtain d where d: "v_mount (vnodes s r) = None" "component (vnodes s r) = Some d" "c_type (comps s d) = COMP_DIR \<Longrightarrow> dir_ok s d"
    using assms(2,3) unfolding tree_ok_def by blast
  have "\<exists>x t'. lookup_path 0 [] r t 0 s = Some (Inr ((x, t'), s))"
    using d tmpfs_lookup_run [OF d(2), of t "[]"]
    by (cases "c_type (comps s d)"; subst lookup_path.simps)
      (auto simp: comp_of_def first_component_def skip_slash_def fit_def TMPFS_MAX_COMPONENT_NAME_def pop_first_component_def
        split: option.splits)
  then show ?thesis using assms(1) by (auto simp: vfs_lookup_def)
qed

lemma last_render: "\<forall>c \<in> set cs. proper c \<Longrightarrow> cs \<noteq> [] \<Longrightarrow> last (render cs) \<noteq> SLASH"
proof (induction cs)
  case (Cons c cs)
  then show ?case
  proof (cases "cs = []")
    case True
    then show ?thesis using Cons.prems(1) by (auto simp: proper_def) (metis last_in_set)
  next
    case False
    then have "render cs \<noteq> []" by (cases cs) simp_all
    then show ?thesis using Cons False by simp
  qed
qed simp

lemma chdir_run:
  assumes cur: "get_current s = Inr c" and root: "fs_root (k_fs s) = Inr r" "tree_ok (k_fs s) N" "r \<in> N"
    and p: "abs_path_of c pn s = Inr (render rs)" and rs: "\<forall>c \<in> set rs. proper c" "length (render rs) < TMPFS_MAX_PATH_LEN - 1"
  shows "sysc_chdir pn s =
    (if rs = [] then Inl OutOfBounds
     else if walk (k_fs s) r rs = None then Inr (-1, s)
     else Inr (0, upd_task c (\<lambda>x. x\<lparr>cwd := render rs @ [SLASH]\<rparr>) s))"
proof (cases "rs = []")
  case True
  obtain x t' where "vfs_lookup [] None (k_fs s) = Inr (x, t')" using vfs_lookup_empty [OF root] by blast
  then show ?thesis using cur p True by (simp add: sysc_chdir_def)
next
  case False
  obtain t' where "vfs_lookup (render rs) None (k_fs s) =
      Inr (case walk (k_fs s) r rs of None \<Rightarrow> (-1, t') | Some n \<Rightarrow> (0, Some n))"
    using vfs_lookup_run [OF root rs(1) False, of None] by blast
  moreover have "render rs \<noteq> []" using False by (cases rs) simp_all
  moreover have "fit TMPFS_MAX_PATH_LEN (render rs @ [SLASH]) = Inr (render rs @ [SLASH])" using rs(2) by (simp add: fit_def)
  ultimately show ?thesis using cur p False last_render [OF rs(1) False]
    by (cases "walk (k_fs s) r rs") (simp_all add: sysc_chdir_def)
qed

lemma abs_path_relative:
  assumes "pn = [] \<or> hd pn \<noteq> SLASH" and "w \<noteq> []" and "hd w = SLASH" and "last w = SLASH" and "cwd (task_of s c) = w"
    and "length (w @ pn) < 255" and "length (StringProps.fields SLASH (w @ pn)) < 64" and "\<not> blank (last (StringProps.fields SLASH (w @ pn)))"
  shows "abs_path_of c pn s = Inr (render (resolve (StringProps.fields SLASH (w @ pn))))"
  using to_abs_path_relative [OF assms(1-4,6,7), of "[]"] assms(5,8) by (simp add: abs_path_of_def)

section \<open>Signals\<close>

lemma find_task_run:
  assumes "sched_ok s c rq zq tq"
  shows "(\<forall>a \<in> set rq. t_pid (tasks s a) \<noteq> p) \<Longrightarrow> find_task p s = Inr None"
    and "rq = as @ t # bs \<Longrightarrow> \<forall>a \<in> set as. t_pid (tasks s a) \<noteq> p \<Longrightarrow> t_pid (tasks s t) = p \<Longrightarrow> find_task p s = Inr (Some t)"
  using find_loop_none [OF sched_okD(2) [OF assms], of p None] find_loop_found [of "tasks s" "run_queue s" as t bs p None]
    sched_okD(2) [OF assms]
  by (auto simp: find_task_def)

lemma remove_task_pid: "remove_task p s = Inr s' \<Longrightarrow> pid s' = pid s"
  by (auto simp: remove_task_def rbind_eq_Inr Let_def split: option.splits prod.splits)

lemma signal_kill_absent:
  assumes ok: "kernel_ok s c rq zq tq" and no: "\<forall>a \<in> set rq. t_pid (task_of s a) \<noteq> u64 p"
  shows "sysc_signal_kill p s = Inl NullDeref"
  using find_task_run(1) [OF kernel_okD(1) [OF ok]] no by (simp add: sysc_signal_kill_def task_of_def)

lemma signal_kill_first:
  assumes ok: "kernel_ok s c (t # rq) zq tq" and p: "t_pid (task_of s t) = u64 p"
  shows "sysc_signal_kill p s = Inl NullDeref"
  using find_task_run(2) [OF kernel_okD(1) [OF ok], of "[]" t rq] remove_task_first [OF kernel_okD(1) [OF ok]] p
  by (simp add: sysc_signal_kill_def on_sched_def task_of_def Let_def)

lemma signal_kill_run:
  assumes ok: "kernel_ok s c (as @ t # bs) zq tq" and p: "t_pid (task_of s t) = u64 p" "\<forall>a \<in> set as. t_pid (task_of s a) \<noteq> u64 p"
    and ne: "as \<noteq> []" and con: "leads_to (k_fs s) uart_path n" and st: "kstock (heap (k_fs s)) (Suc (Suc (Suc (Suc (Suc (Suc k))))))"
    and pid: "pid (k_sched s) < 2 ^ 31 - 1"
  obtains h s' where "sysc_signal_kill p s = Inr (0, s')" and "kernel_ok s' c (as @ bs @ [h]) zq [t]" and "h \<notin> in_use (k_fs s)"
    and "mode (task_of s' h) = USER" and "target_func (task_of s' h) = Some Signal_handler_wrapper"
    and "t_pid (task_of s' h) = pid (k_sched s)"
    and "sig_handler s' = handler (task_of s t)" and "signal_pid s' = u64 p" and "signal_exit s'"
    and "kstock (heap (k_fs s')) k"
proof -
  note D = kernel_okD [OF ok]
  have p': "t_pid (tasks (k_sched s) t) = u64 p" "\<forall>a \<in> set as. t_pid (tasks (k_sched s) a) \<noteq> u64 p"
    using p by (simp_all add: task_of_def)
  obtain q where q: "remove_task (u64 p) (k_sched s) = Inr q" "sched_ok q c (as @ bs) zq [t]" "pid q = pid (k_sched s)"
    using remove_task_found [OF D(1) ne p'] remove_task_pid by blast
  let ?s = "s\<lparr>sig_handler := handler (task_of s t), signal_pid := u64 p, signal_exit := True, k_sched := q\<rparr>"
  have ok': "kernel_ok ?s c (as @ bs) zq [t]" using q(2) D(2) by (auto simp: kernel_ok_def)
  have c: "leads_to (k_fs ?s) uart_path n" "kstock (heap (k_fs ?s)) (Suc (Suc (Suc (Suc (Suc (Suc k))))))" "pid (k_sched ?s) < 2 ^ 31 - 1"
    using con st pid q(3) by simp_all
  obtain h u a f g i s1 where 1: "task_create None USER ?s = Inr (fst h, s1)" "kernel_ok s1 c ((as @ bs) @ [fst h]) zq [t]"
    "has_new_task None USER n ?s h u a [f, g, i] s1" "s1 = ?s\<lparr>k_fs := k_fs s1, k_sched := k_sched s1\<rparr>" "kstock (heap (k_fs s1)) k"
    using task_create_run [OF ok' c, of None USER] by blast
  let ?s' = "upd_task (fst h) (\<lambda>x. x\<lparr>target_func := Some Signal_handler_wrapper\<rparr>) s1"
  have "sysc_signal_kill p s = Inr (0, ?s')"
    using find_task_run(2) [OF D(1) refl p'(2,1)] q(1) 1(1) by (simp add: sysc_signal_kill_def on_sched_def Let_def)
  moreover have "kernel_ok ?s' c ((as @ bs) @ [fst h]) zq [t]" by (rule kernel_ok_upd_task [OF 1(2)]) simp
  moreover have "sig_handler s1 = handler (task_of s t)" "signal_pid s1 = u64 p" "signal_exit s1" by (subst 1(4); simp)+
  moreover have "sig_handler (upd_task x F s1) = sig_handler s1" "signal_pid (upd_task x F s1) = signal_pid s1"
    "signal_exit (upd_task x F s1) = signal_exit s1" for x F by (simp_all add: upd_task_def)
  ultimately show thesis
    using that [of ?s' "fst h"] has_new_taskD(1) [OF 1(3)] has_new_task_use(2) [OF 1(3)] 1(5) q(3) by (simp add: fresh_task_simps)
qed

end
