(* ===== verification/SyscallEffects.thy ===== *)
theory SyscallEffects
  imports FileCalls
begin

text \<open>
  What the router of the system calls changes outside the file system: the caller's task structure, the structures of the
  other tasks, the queues and the saved registers, for every number of a call.
\<close>

section \<open>Changes of tasks\<close>

text \<open>Equal up to the link of the queue.\<close>

definition same_but_link :: "task \<Rightarrow> task \<Rightarrow> bool" where
  "same_but_link x y \<longleftrightarrow> y = x\<lparr>t_next := t_next y\<rparr>"

lemma same_but_link_refl [simp]: "same_but_link x x"
  by (simp add: same_but_link_def)

lemma same_but_link_next [simp]: "same_but_link x (x\<lparr>t_next := n\<rparr>)"
  by (simp add: same_but_link_def)

lemma same_but_link_trans [trans]:
  assumes "same_but_link x y" and "same_but_link y z"
  shows "same_but_link x z"
proof -
  have "z = x\<lparr>t_next := t_next y, t_next := t_next z\<rparr>" using assms unfolding same_but_link_def by metis
  then show ?thesis by (simp add: same_but_link_def)
qed

lemma same_but_link_state: "same_but_link x y \<Longrightarrow> same_but_link (x\<lparr>t_state := e\<rparr>) (y\<lparr>t_state := e\<rparr>)"
  unfolding same_but_link_def by (cases x; cases y) simp

text \<open>Only links may differ.\<close>

definition relinked :: "sched \<Rightarrow> sched \<Rightarrow> bool" where
  "relinked q q' \<longleftrightarrow> (\<forall>a. same_but_link (tasks q a) (tasks q' a))"

lemma relinked_refl [simp]: "relinked q q"
  by (simp add: relinked_def)

lemma relinked_trans: "relinked q q' \<Longrightarrow> relinked q' q'' \<Longrightarrow> relinked q q''"
  unfolding relinked_def by (meson same_but_link_trans)

lemma set_next_same: "same_but_link (ts a) (set_next t n ts a)"
  by (simp add: set_next_def)

lemma set_next_same_trans: "same_but_link x (ts a) \<Longrightarrow> same_but_link x (set_next t n ts a)"
  by (rule same_but_link_trans [OF _ set_next_same])

lemma enqueue_same: "enqueue h t ts = Inr (q, ts') \<Longrightarrow> same_but_link (ts a) (ts' a)"
  by (auto simp: enqueue_def Let_def rbind_eq_Inr set_next_same set_next_same_trans split: option.splits)

lemma enqueue_relinked:
  "enqueue_run t q = Inr q' \<Longrightarrow> relinked q q'" "enqueue_zombie t q = Inr q' \<Longrightarrow> relinked q q'"
  using enqueue_same by (auto simp: enqueue_run_def enqueue_zombie_def rbind_eq_Inr relinked_def split: prod.splits)

text \<open>A link set before.\<close>

lemma relinked_set_next:
  "(\<And>a. tasks q' a = set_next t n (tasks q) a) \<Longrightarrow> relinked q' q'' \<Longrightarrow> relinked q q''"
  unfolding relinked_def by (metis same_but_link_trans set_next_same)

lemma kill_thread_relinked:
  assumes "kill_thread p q = Inr q'"
  shows "relinked q q'"
proof -
  obtain pre found where l: "find_loop (tasks q) (u32 p) None (run_queue q) = Some (pre, found)"
    using assms by (auto simp: kill_thread_def rbind_eq_Inr)
  show ?thesis
  proof (cases found)
    case (Some c)
    let ?q = "case pre of Some p \<Rightarrow> q\<lparr>tasks := set_next p (t_next (tasks q c)) (tasks q)\<rparr> | None \<Rightarrow> q\<lparr>run_queue := t_next (tasks q c)\<rparr>"
    have "enqueue_zombie c ?q = Inr q'" using assms by (simp add: kill_thread_def l Some Let_def)
    then have "relinked ?q q'" by (rule enqueue_relinked(2))
    then show ?thesis
    proof (cases pre)
      case (Some x)
      with \<open>relinked ?q q'\<close> have "relinked (q\<lparr>tasks := set_next x (t_next (tasks q c)) (tasks q)\<rparr>) q'" by simp
      then show ?thesis by (rule relinked_set_next [rotated]) simp
    qed (simp add: relinked_def)
  qed (use assms l in \<open>simp add: kill_thread_def\<close>)
qed

lemma remove_task_relinked: "remove_task p q = Inr q' \<Longrightarrow> relinked q q'"
  by (auto simp: remove_task_def rbind_eq_Inr Let_def relinked_def set_next_same set_next_same_trans split: option.splits)

lemma schedule_relinked:
  assumes run: "schedule q = Inr (r, q')"
  shows "relinked q q'"
proof -
  obtain n c h where c: "current q = Some c" and d: "dequeue_run q = Inr (n, q\<lparr>run_queue := h\<rparr>)"
    using run by (auto simp: schedule_def rbind_eq_Inr dequeue_run_def split: prod.splits)
  let ?q = "q\<lparr>run_queue := h, tasks := set_next c None (tasks q)\<rparr>"
  have from_q: "relinked q q1" if "relinked (?q\<lparr>pid := p\<rparr>) q1" for p q1 by (rule relinked_set_next [OF _ that]) simp
  let ?put = "if t_state (tasks ?q c) \<noteq> EXIT then enqueue_run c ?q else enqueue_zombie c ?q"
  have e: "schedule q = (if t_pid (tasks ?q c) = 1 \<and> n = None then rbind (enqueue_run c (?q\<lparr>pid := 2\<rparr>)) (\<lambda>s. Inr (Shell, s))
      else rbind ?put (\<lambda>s. rbind (deref n) (\<lambda>n. Inr (Switched, s\<lparr>current := Some n\<rparr>))))"
    using c d by (simp add: schedule_def Let_def)
  show ?thesis
  proof (cases "t_pid (tasks ?q c) = 1 \<and> n = None")
    case True
    then have "enqueue_run c (?q\<lparr>pid := 2\<rparr>) = Inr q'" using run unfolding e by (auto simp: rbind_eq_Inr)
    then show ?thesis using from_q enqueue_relinked(1) by blast
  next
    case False
    then obtain q1 m where q1: "?put = Inr q1" "q' = q1\<lparr>current := Some m\<rparr>"
      using run unfolding e if_not_P [OF False] rbind_eq_Inr by blast
    have "relinked ?q q1" using q1(1) enqueue_relinked by (auto split: if_splits)
    then have "relinked q q1" using from_q [of "pid q" q1] by simp
    then show ?thesis by (simp add: q1(2) relinked_def)
  qed
qed

section \<open>A new task\<close>

text \<open>All structures but that of \<open>t\<close> stay, up to their links, and so do the saved registers.\<close>

definition only_task :: "addr \<Rightarrow> kernel \<Rightarrow> kernel \<Rightarrow> bool" where
  "only_task t s s' \<longleftrightarrow> frames s' = frames s \<and> (\<forall>x. x \<noteq> t \<longrightarrow> same_but_link (task_of s x) (task_of s' x))"

lemma only_task_refl [simp]: "only_task t s s"
  by (simp add: only_task_def)

lemma only_task_trans: "only_task t s s' \<Longrightarrow> only_task t s' s'' \<Longrightarrow> only_task t s s''"
  unfolding only_task_def by (metis same_but_link_trans)

lemma only_task_upd_task: "only_task t s s' \<Longrightarrow> only_task t s (upd_task t F s')"
  by (simp add: only_task_def)

lemma only_task_fs [simp]: "only_task t s (s'\<lparr>k_fs := v\<rparr>) \<longleftrightarrow> only_task t s s'" "only_task t s (s'\<lparr>k_sched := (k_sched s')\<lparr>pid := p\<rparr>\<rparr>) \<longleftrightarrow> only_task t s s'"
  by (simp_all add: only_task_def task_of_def)

lemma only_task_on_fs: "on_fs f s' = Inr (x, s'') \<Longrightarrow> only_task t s s' \<Longrightarrow> only_task t s s''"
  by (auto simp: on_fs_def rbind_eq_Inr)

lemma only_task_relinked: "on_sched f s' = Inr s'' \<Longrightarrow> (\<And>q. f (k_sched s') = Inr q \<Longrightarrow> relinked (k_sched s') q) \<Longrightarrow> only_task t s s' \<Longrightarrow> only_task t s s''"
  by (auto simp: on_sched_def rbind_eq_Inr only_task_def relinked_def task_of_def intro: same_but_link_trans)

lemma only_task_open_std: "open_std t fd f s' = Inr (g, s'') \<Longrightarrow> only_task t s s' \<Longrightarrow> only_task t s s''"
  by (auto simp: open_std_def rbind_eq_Inr intro!: only_task_upd_task dest: only_task_on_fs split: prod.splits)

lemma user_stack_only_task:
  assumes "(if md = USER then
      rbind (on_fs (alloc THREAD_SP_SIZE) s') (\<lambda>(a, s).
      Inr (upd_task t (\<lambda>x. x\<lparr>user_sp := a, lr := Some Switch_to_user_space, target_func := func\<rparr>) s))
    else Inr (upd_task t (\<lambda>x. x\<lparr>lr := func\<rparr>) s')) = Inr s''" and "only_task t s s'"
  shows "only_task t s s''"
  using assms by (auto simp: rbind_eq_Inr intro!: only_task_upd_task dest: only_task_on_fs split: if_splits prod.splits)

lemma task_create_others:
  assumes run: "task_create func md s = Inr (t, s')" and ok: "heap_ok (k_fs s)"
  shows "t \<notin> in_use (k_fs s)" and "only_task t s s'"
proof -
  obtain t0 s1 s2 s3 a f g h s4 s5 s6 s7 s8 where
    1: "on_fs (alloc SIZEOF_task) s = Inr (t0, s1)" and
    2: "s2 = upd_task t0 (\<lambda>x. x\<lparr>mode := md, t_next := None, t_pid := pid (k_sched s1), handler := None, t_state := RUNNING\<rparr>) s1" and
    3: "(if md = USER then
        rbind (on_fs (alloc THREAD_SP_SIZE) (s2\<lparr>k_sched := (k_sched s2)\<lparr>pid := pid (k_sched s1) + 1\<rparr>\<rparr>)) (\<lambda>(a, s).
        Inr (upd_task t0 (\<lambda>x. x\<lparr>user_sp := a, lr := Some Switch_to_user_space, target_func := func\<rparr>) s))
      else Inr (upd_task t0 (\<lambda>x. x\<lparr>lr := func\<rparr>) (s2\<lparr>k_sched := (k_sched s2)\<lparr>pid := pid (k_sched s1) + 1\<rparr>\<rparr>))) = Inr s3" and
    4: "on_fs (alloc THREAD_SP_SIZE) s3 = Inr (a, s4)" and
    5: "open_std t0 0 None (upd_task t0 (\<lambda>x. x\<lparr>sp_addr := a, fp := stack_top a, sp := stack_top a, cwd := [SLASH],
               fd_table := replicate VFS_PROCESS_MAX_OPEN_FILE None\<rparr>) s4) = Inr (f, s5)" and
    6: "open_std t0 1 f s5 = Inr (g, s6)" and 7: "open_std t0 2 g s6 = Inr (h, s7)" and
    8: "on_sched (enqueue_run t0) s7 = Inr s'" and 9: "t0 = t"
    using run unfolding task_create_def Let_def rbind_eq_Inr by (clarsimp simp: rbind_eq_Inr)
  obtain hp where al: "kmalloc SIZEOF_task (heap (k_fs s)) = Inr (t, hp)" using 1 9 by (auto simp: on_fs_def alloc_def rbind_eq_Inr)
  have "(SIZEOF_task :: nat) \<le> 2 ^ 17" by (simp add: SIZEOF_task_def)
  then show "t \<notin> in_use (k_fs s)" using kernel_heap.alloc_fresh [OF ok _ al] by (auto simp: in_use_def)
  have "only_task t s s2" unfolding 2 9 by (rule only_task_upd_task) (rule only_task_on_fs [OF 1 only_task_refl])
  then have "only_task t s (s2\<lparr>k_sched := (k_sched s2)\<lparr>pid := pid (k_sched s1) + 1\<rparr>\<rparr>)" by simp
  with 3 have "only_task t s s3" unfolding 9 by (rule user_stack_only_task)
  with 4 have "only_task t s s4" by (rule only_task_on_fs)
  then have "only_task t s s5" using 5 only_task_upd_task only_task_open_std unfolding 9 by blast
  then have "only_task t s s7" using 6 7 only_task_open_std unfolding 9 by blast
  then show "only_task t s s'" using only_task_relinked [OF 8] enqueue_relinked(1) by blast
qed

section \<open>The calls\<close>

text \<open>What call \<open>n\<close> with the arguments \<open>a0\<close> and \<open>a1\<close> and the result \<open>r\<close> makes of the caller's structure: \<open>register\<close> (8) sets the handler,
  \<open>open\<close> (11) the descriptor that it returns, \<open>close\<close> (12) clears one, \<open>chdir\<close> (17) sets the directory when it succeeds, and
  \<open>exit\<close> (5) marks the task.\<close>

definition caller_after :: "int \<Rightarrow> nat \<Rightarrow> nat \<Rightarrow> int \<Rightarrow> addr option \<Rightarrow> byte list \<Rightarrow> task \<Rightarrow> task" where
  "caller_after n a0 a1 r f p x =
     (if n = 8 then x\<lparr>handler := code_of a1\<rparr>
      else if n = 11 \<and> r \<noteq> -1 then x\<lparr>fd_table := (fd_table x)[nat r := f]\<rparr>
      else if n = 12 then x\<lparr>fd_table := (fd_table x)[nat (c_int a0) := None]\<rparr>
      else if n = 17 \<and> r = 0 then x\<lparr>cwd := p\<rparr>
      else if n = 5 then x\<lparr>t_state := EXIT\<rparr> else x)"

lemma caller_after_simps:
  "n \<notin> {5, 8, 11, 12, 17} \<Longrightarrow> caller_after n a0 a1 r f p = (\<lambda>x. x)"
  "caller_after 8 a0 a1 r f p = (\<lambda>x. x\<lparr>handler := code_of a1\<rparr>)"
  "caller_after 11 a0 a1 r f p = (if r = -1 then (\<lambda>x. x) else (\<lambda>x. x\<lparr>fd_table := (fd_table x)[nat r := f]\<rparr>))"
  "caller_after 12 a0 a1 r f p = (\<lambda>x. x\<lparr>fd_table := (fd_table x)[nat (c_int a0) := None]\<rparr>)"
  "caller_after 17 a0 a1 r f p = (if r = 0 then (\<lambda>x. x\<lparr>cwd := p\<rparr>) else (\<lambda>x. x))"
  "caller_after 5 a0 a1 r f p = (\<lambda>x. x\<lparr>t_state := EXIT\<rparr>)"
  by (auto simp: caller_after_def fun_eq_iff)

text \<open>The caller's structure changes as said; nothing else of the tasks and of the saved registers does.\<close>

definition only_caller :: "addr \<Rightarrow> (task \<Rightarrow> task) \<Rightarrow> kernel \<Rightarrow> kernel \<Rightarrow> bool" where
  "only_caller cur F s s' \<longleftrightarrow> frames s' = frames s \<and> k_sched s' = k_sched (upd_task cur F s)"

lemma only_caller_none: "k_sched s' = k_sched s \<Longrightarrow> frames s' = frames s \<Longrightarrow> only_caller cur (\<lambda>x. x) s s'"
  by (simp add: only_caller_def)

lemma on_fs_keeps: "on_fs f s = Inr (x, s') \<Longrightarrow> k_sched s' = k_sched s \<and> frames s' = frames s"
  by (auto simp: on_fs_def rbind_eq_Inr)

lemma idle_fd_cases:
  "idle_fd fds i = -1 \<or> (\<exists>k. idle_fd fds i = int k \<and> i \<le> k \<and> k < VFS_PROCESS_MAX_OPEN_FILE \<and> fds ! k = None \<and> (\<forall>j. i \<le> j \<and> j < k \<longrightarrow> fds ! j \<noteq> None))"
proof (induction fds i rule: idle_fd.induct)
  case (1 fds i)
  show ?case
  proof (cases "i < VFS_PROCESS_MAX_OPEN_FILE \<and> fds ! i \<noteq> None")
    case True
    then have "idle_fd fds i = idle_fd fds (i + 1)" by (subst idle_fd.simps) auto
    moreover have "(\<forall>j. i \<le> j \<and> j < k \<longrightarrow> fds ! j \<noteq> None) \<longleftrightarrow> (\<forall>j. i + 1 \<le> j \<and> j < k \<longrightarrow> fds ! j \<noteq> None)" for k
      using True by (metis Suc_eq_plus1 Suc_leD Suc_leI le_neq_implies_less)
    ultimately show ?thesis using 1 True by (metis Suc_eq_plus1 Suc_leD)
  next
    case False
    then show ?thesis by (cases "i < VFS_PROCESS_MAX_OPEN_FILE") (auto simp: idle_fd.simps [of fds i])
  qed
qed

lemma vfs_close_result: "vfs_close f s = Inr (r, s') \<Longrightarrow> r = 0"
  by (auto simp: vfs_close_def tmpfs_close_def rbind_eq_Inr)

lemma register_effect: "sysc_register h s = Inr (r, s') \<Longrightarrow> get_current s = Inr cur \<Longrightarrow>
  only_caller cur (\<lambda>x. x\<lparr>handler := h\<rparr>) s s' \<and> r = 0 \<and> k_fs s' = k_fs s"
  by (auto simp: sysc_register_def only_caller_def)

lemma open_effect:
  assumes "sysc_open i0 pn flags s = Inr (r, s')" and "get_current s = Inr cur"
  shows "\<exists>f. only_caller cur (if r = -1 then (\<lambda>x. x) else (\<lambda>x. x\<lparr>fd_table := (fd_table x)[nat r := f]\<rparr>)) s s' \<and>
    (r \<noteq> -1 \<longrightarrow> (\<exists>k. r = int k \<and> k < VFS_PROCESS_MAX_OPEN_FILE \<and> fd_table (task_of s cur) ! k = None \<and>
      (\<forall>j < k. fd_table (task_of s cur) ! j \<noteq> None)))"
proof -
  have fd: "get_task_idle_fd cur (k_sched s) = idle_fd (fd_table (task_of s cur)) 0" by (simp add: get_task_idle_fd_def task_of_def)
  show ?thesis
  proof (cases "get_task_idle_fd cur (k_sched s) < 0")
    case True
    then show ?thesis using assms by (simp add: sysc_open_def only_caller_none)
  next
    case False
    then obtain k where k: "get_task_idle_fd cur (k_sched s) = int k" "k < VFS_PROCESS_MAX_OPEN_FILE" "fd_table (task_of s cur) ! k = None"
      "\<forall>j < k. fd_table (task_of s cur) ! j \<noteq> None" using idle_fd_cases [of "fd_table (task_of s cur)" 0] fd by auto
    obtain q x g s1 where o: "on_fs (vfs_open i0 q flags None) s = Inr ((x, g), s1)" "r = int k" "s' = fd_set cur (int k) g s1"
      using assms k(1) by (auto simp: sysc_open_def rbind_eq_Inr Let_def split: prod.splits)
    then have "r = int k" "s' = fd_set cur (int k) g s1" "k_sched s1 = k_sched s" "frames s1 = frames s" using on_fs_keeps [OF o(1)] by simp_all
    then show ?thesis using k(2-4) by (intro exI [of _ g]) (auto simp: only_caller_def fd_set_def)
  qed
qed

lemma close_effect:
  "sysc_close fd s = Inr (r, s') \<Longrightarrow> get_current s = Inr cur \<Longrightarrow>
   only_caller cur (\<lambda>x. x\<lparr>fd_table := (fd_table x)[nat fd := None]\<rparr>) s s' \<and> r = 0"
  by (auto simp: sysc_close_def rbind_eq_Inr only_caller_def fd_set_def on_fs_def dest: vfs_close_result)

lemma file_call_effects:
  "sysc_write d fd buf n s = Inr (r, s') \<Longrightarrow> only_caller cur (\<lambda>x. x) s s'"
  "sysc_read d fd buf n s = Inr (r, s') \<Longrightarrow> only_caller cur (\<lambda>x. x) s s'"
  "sysc_mkdir i0 pn s = Inr (r, s') \<Longrightarrow> only_caller cur (\<lambda>x. x) s s'"
  "sysc_mount junk l0 j place pn qn s = Inr (r, s') \<Longrightarrow> only_caller cur (\<lambda>x. x) s s'"
  "sysc_uart_read d buf n s = Inr (r, s') \<Longrightarrow> only_caller cur (\<lambda>x. x) s s'"
  "sysc_uart_write d buf n s = Inr (r, s') \<Longrightarrow> only_caller cur (\<lambda>x. x) s s'"
  by (auto simp: sysc_write_def sysc_read_def sysc_mkdir_def sysc_mount_def sysc_uart_read_def sysc_uart_write_def rbind_eq_Inr
      intro!: only_caller_none dest!: on_fs_keeps)

lemma chdir_effect:
  assumes "sysc_chdir pn s = Inr (r, s')" and "get_current s = Inr cur"
  shows "\<exists>p. only_caller cur (if r = 0 then (\<lambda>x. x\<lparr>cwd := p\<rparr>) else (\<lambda>x. x)) s s' \<and> k_fs s' = k_fs s"
proof -
  have "\<exists>p. s' = (if r = 0 then upd_task cur (\<lambda>x. x\<lparr>cwd := p\<rparr>) s else s)"
    using assms by (auto simp: sysc_chdir_def rbind_eq_Inr split: if_splits prod.splits; metis)
  then obtain p where "s' = (if r = 0 then upd_task cur (\<lambda>x. x\<lparr>cwd := p\<rparr>) s else s)" ..
  then show ?thesis by (intro exI [of _ p]) (simp add: only_caller_def)
qed

lemma exec_effect:
  assumes "sysc_exec d name fr s = Inr (r, s')" and "get_current s = Inr cur"
  shows "r = 0 \<and> k_sched s' = k_sched s \<and> (\<forall>a. a \<noteq> fr \<longrightarrow> frames s' a = frames s a) \<and> xr (frames s' fr) = xr (frames s fr)"
  using assms by (auto simp: sysc_exec_def rbind_eq_Inr Let_def dest!: on_fs_keeps split: if_splits prod.splits)

lemma kill_effect:
  "sysc_kill p s = Inr (r, s') \<Longrightarrow> r = 0 \<and> relinked (k_sched s) (k_sched s') \<and> frames s' = frames s \<and> k_fs s' = k_fs s"
  by (auto simp: sysc_kill_def rbind_eq_Inr on_sched_def dest: kill_thread_relinked)

lemma exit_effect:
  assumes "sysc_exit s = Inr (r, s1)" and "get_current s = Inr cur" and "schedule_k s1 = Inr (x, s')"
  shows "r = 0 \<and> (\<forall>t. same_but_link (if t = cur then (task_of s t)\<lparr>t_state := EXIT\<rparr> else task_of s t) (task_of s' t)) \<and>
    frames s' = frames s \<and> k_fs s' = k_fs s"
proof -
  obtain s0 where s0: "s1 = upd_task cur (\<lambda>x. x\<lparr>t_state := EXIT\<rparr>) s0" "r = 0"
    "relinked (k_sched s) (k_sched s0)" "frames s0 = frames s" "k_fs s0 = k_fs s"
    using assms(1,2) by (auto simp: sysc_exit_def rbind_eq_Inr on_sched_def split: if_splits dest: kill_thread_relinked)
  have s': "relinked (k_sched s1) (k_sched s')" "frames s' = frames s1" "k_fs s' = k_fs s1"
    using assms(3) by (auto simp: schedule_k_def rbind_eq_Inr dest: schedule_relinked)
  have "same_but_link (if t = cur then (task_of s t)\<lparr>t_state := EXIT\<rparr> else task_of s t) (task_of s1 t)" for t
    using s0(1,3) same_but_link_state by (simp add: relinked_def task_of_def)
  moreover have "same_but_link (task_of s1 t) (task_of s' t)" for t using s'(1) by (simp add: relinked_def task_of_def)
  ultimately have "same_but_link (if t = cur then (task_of s t)\<lparr>t_state := EXIT\<rparr> else task_of s t) (task_of s' t)" for t
    by (rule same_but_link_trans)
  then show ?thesis using s0(1,2,4,5) s'(2,3) by simp
qed

lemma fork_effect:
  assumes "sysc_fork fr s = Inr (r, s')" and "heap_ok (k_fs s)" and "t \<in> in_use (k_fs s)"
  shows "same_but_link (task_of s t) (task_of s' t)"
proof -
  obtain p child s1 where c: "task_create None USER s = Inr (child, s1)" and s': "\<forall>t. t \<noteq> child \<longrightarrow> task_of s' t = task_of s1 t"
    using assms(1) by (auto simp: sysc_fork_def rbind_eq_Inr Let_def split: prod.splits)
  note o = task_create_others [OF c assms(2)]
  have "t \<noteq> child" using o(1) assms(3) by blast
  then show ?thesis using o(2) s' by (simp add: only_task_def)
qed

lemma signal_effect:
  assumes "sysc_signal_kill p s = Inr (r, s')" and "heap_ok (k_fs s)"
  shows "r = 0 \<and> frames s' = frames s \<and> (t \<in> in_use (k_fs s) \<longrightarrow> same_but_link (task_of s t) (task_of s' t))"
proof -
  obtain target h s1 s2 where rm: "on_sched (remove_task (u64 p)) (s\<lparr>sig_handler := handler (task_of s target), signal_pid := u64 p, signal_exit := True\<rparr>) = Inr s1"
    and c: "task_create None USER s1 = Inr (h, s2)" and s': "s' = upd_task h (\<lambda>x. x\<lparr>target_func := Some Signal_handler_wrapper\<rparr>) s2" and r: "r = 0"
    using assms(1) by (auto simp: sysc_signal_kill_def rbind_eq_Inr Let_def split: prod.splits)
  have s1: "relinked (k_sched s) (k_sched s1)" "frames s1 = frames s" "k_fs s1 = k_fs s"
    using rm by (auto simp: on_sched_def rbind_eq_Inr dest: remove_task_relinked)
  have "heap_ok (k_fs s1)" using assms(2) s1(3) by simp
  note o = task_create_others [OF c this]
  have "same_but_link (task_of s t) (task_of s' t)" if "t \<in> in_use (k_fs s)"
  proof -
    have "t \<noteq> h" using o(1) that s1(3) by auto
    then have "same_but_link (task_of s1 t) (task_of s' t)" using o(2) s' by (simp add: only_task_def)
    moreover have "same_but_link (task_of s t) (task_of s1 t)" using s1(1) by (simp add: relinked_def task_of_def)
    ultimately show ?thesis by (rule same_but_link_trans [rotated])
  qed
  then show ?thesis using r s' o(2) s1(2) by (simp add: only_task_def)
qed

section \<open>The router\<close>

definition router_effect :: "int \<Rightarrow> nat \<Rightarrow> nat \<Rightarrow> addr \<Rightarrow> addr \<Rightarrow> kernel \<Rightarrow> outcome option \<Rightarrow> kernel \<Rightarrow> bool" where
  "router_effect n a0 a1 cur fr s out s' \<longleftrightarrow> (\<exists>r f p.
     xr (frames s' fr) 0 = u64 r \<and> (out = None \<longleftrightarrow> n \<noteq> 5) \<and>
     (\<forall>t \<in> in_use (k_fs s). same_but_link (if t = cur then caller_after n a0 a1 r f p (task_of s t) else task_of s t) (task_of s' t)) \<and>
     (n \<notin> {4, 5, 7, 9} \<longrightarrow> k_sched s' = (k_sched s)\<lparr>tasks := (tasks (k_sched s))(cur := caller_after n a0 a1 r f p (task_of s cur))\<rparr>) \<and>
     (n \<noteq> 4 \<longrightarrow> (\<forall>a. a \<noteq> fr \<longrightarrow> frames s' a = frames s a) \<and> (\<forall>i. i \<noteq> 0 \<longrightarrow> xr (frames s' fr) i = xr (frames s fr) i)) \<and>
     (n \<notin> {3, 4} \<longrightarrow> frames s' fr = (frames s fr)\<lparr>xr := (xr (frames s fr))(0 := u64 r)\<rparr>) \<and>
     (n \<in> {0, 5, 6, 7, 8, 17} \<longrightarrow> k_fs s' = k_fs s) \<and>
     (n = 0 \<longrightarrow> r = c_int (t_pid (task_of s cur))) \<and>
     (n \<in> {3, 5, 7, 8, 9, 12, 15} \<longrightarrow> r = 0) \<and>
     (n = 11 \<and> r \<noteq> -1 \<longrightarrow> (\<exists>k. r = int k \<and> k < VFS_PROCESS_MAX_OPEN_FILE \<and> fd_table (task_of s cur) ! k = None \<and>
       (\<forall>j < k. fd_table (task_of s cur) ! j \<noteq> None))))"

lemma set_x0_simps [simp]:
  "k_fs (set_x0 fr r s) = k_fs s" "k_sched (set_x0 fr r s) = k_sched s" "task_of (set_x0 fr r s) t = task_of s t"
  "frames (set_x0 fr r s) a = (if a = fr then (frames s fr)\<lparr>xr := (xr (frames s fr))(0 := u64 r)\<rparr> else frames s a)"
  by (simp_all add: set_x0_def)

lemma answer_Inr: "answer fr m = Inr (out, s') \<longleftrightarrow> (\<exists>r s1. m = Inr (r, s1) \<and> out = None \<and> s' = set_x0 fr r s1)"
  by (auto simp: answer_def rbind_eq_Inr)

text \<open>The calls that leave the queues alone.\<close>

lemma quiet_effect:
  assumes "only_caller cur (caller_after n a0 a1 r f p) s s1" and "n \<notin> {4, 5, 7, 9}"
    and "n \<in> {0, 6, 8, 17} \<longrightarrow> k_fs s1 = k_fs s" and "n = 0 \<longrightarrow> r = c_int (t_pid (task_of s cur))" and "n \<in> {3, 8, 12, 15} \<longrightarrow> r = 0"
    and "n = 11 \<and> r \<noteq> -1 \<longrightarrow> (\<exists>k. r = int k \<and> k < VFS_PROCESS_MAX_OPEN_FILE \<and> fd_table (task_of s cur) ! k = None \<and>
       (\<forall>j < k. fd_table (task_of s cur) ! j \<noteq> None))"
  shows "router_effect n a0 a1 cur fr s None (set_x0 fr r s1)"
proof -
  have k: "k_sched s1 = (k_sched s)\<lparr>tasks := (tasks (k_sched s))(cur := caller_after n a0 a1 r f p (task_of s cur))\<rparr>" "frames s1 = frames s"
    using assms(1) by (simp_all add: only_caller_def task_of_def)
  have "task_of s1 t = (if t = cur then caller_after n a0 a1 r f p (task_of s t) else task_of s t)" for t
    by (simp add: task_of_def k(1))
  then show ?thesis unfolding router_effect_def using k assms(2-6)
    by (intro exI [of _ r] exI [of _ f] exI [of _ p] conjI) simp_all
qed

lemma only_caller_irq [simp]:
  "only_caller cur F (s\<lparr>irq_on := b\<rparr>) s' = only_caller cur F s s'" "only_caller cur F s (s'\<lparr>irq_on := b\<rparr>) = only_caller cur F s s'"
  by (simp_all add: only_caller_def)

lemma router_effect_irq [simp]: "router_effect n a0 a1 cur fr s out (s'\<lparr>irq_on := b\<rparr>) = router_effect n a0 a1 cur fr s out s'"
  by (simp add: router_effect_def task_of_def)

lemma exec_answered:
  assumes "sysc_exec d name fr s = Inr (r, s1)" and "get_current s = Inr cur"
  shows "router_effect 3 a0 a1 cur fr s None (set_x0 fr r s1)"
proof -
  note e = exec_effect [OF assms]
  then have "task_of s1 t = task_of s t" for t by (simp add: task_of_def)
  then show ?thesis unfolding router_effect_def using e
    by (intro exI [of _ r] exI conjI) (simp_all add: caller_after_simps task_of_def)
qed

lemma fork_answered:
  assumes "sysc_fork fr s = Inr (r, s1)" and "heap_ok (k_fs s)"
  shows "router_effect 4 a0 a1 cur fr s None (set_x0 fr r s1)"
  unfolding router_effect_def using fork_effect [OF assms]
  by (intro exI [of _ r] exI conjI) (simp_all add: caller_after_simps)

lemma kill_answered:
  assumes "sysc_kill q s = Inr (r, s1)"
  shows "router_effect 7 a0 a1 cur fr s None (set_x0 fr r s1)"
  unfolding router_effect_def using kill_effect [OF assms]
  by (intro exI [of _ r] exI conjI) (simp_all add: caller_after_simps relinked_def task_of_def)

lemma signal_answered:
  assumes "sysc_signal_kill q s = Inr (r, s1)" and "heap_ok (k_fs s)"
  shows "router_effect 9 a0 a1 cur fr s None (set_x0 fr r s1)"
  unfolding router_effect_def using signal_effect [OF assms]
  by (intro exI [of _ r] exI conjI) (simp_all add: caller_after_simps)

lemma exit_answered:
  assumes "sysc_exit s = Inr (r, s1)" and "get_current s = Inr cur" and "schedule_k (set_x0 fr r s1) = Inr (x, s')"
  shows "router_effect 5 a0 a1 cur fr s (Some x) s'"
proof -
  obtain q where q: "schedule (k_sched s1) = Inr (x, q)" "s' = (set_x0 fr r s1)\<lparr>k_sched := q\<rparr>"
    using assms(3) by (auto simp: schedule_k_def rbind_eq_Inr)
  have "schedule_k s1 = Inr (x, s1\<lparr>k_sched := q\<rparr>)" using q(1) by (simp add: schedule_k_def)
  note e = exit_effect [OF assms(1,2) this]
  have "task_of s' t = task_of (s1\<lparr>k_sched := q\<rparr>) t" for t by (simp add: q(2) task_of_def)
  moreover have "frames s' a = (if a = fr then (frames s fr)\<lparr>xr := (xr (frames s fr))(0 := u64 r)\<rparr> else frames s a)" for a
    using e by (simp add: q(2))
  moreover have "k_fs s' = k_fs s" using e by (simp add: q(2))
  moreover have "same_but_link ((task_of s cur)\<lparr>t_state := EXIT\<rparr>) (task_of (s1\<lparr>k_sched := q\<rparr>) cur)"
    and "t \<noteq> cur \<Longrightarrow> same_but_link (task_of s t) (task_of (s1\<lparr>k_sched := q\<rparr>) t)" for t
    using e by metis+
  ultimately show ?thesis unfolding router_effect_def using e
    by (intro exI [of _ r] exI conjI ballI) (simp_all add: caller_after_simps)
qed

lemma quiet: "only_caller cur (\<lambda>x. x) s s1 \<Longrightarrow> n \<in> {1, 2, 13, 14, 16} \<Longrightarrow> router_effect n a0 a1 cur fr s None (set_x0 fr r s1)"
  by (rule quiet_effect [where f = None and p = "[]"]) (auto simp: caller_after_simps)

text \<open>Each number of a call.\<close>

lemma router_effect_run:
  assumes run: "sync_router d mb response junk i0 j place fr s = Inr (out, s')" and cur: "get_current s = Inr cur" and ok: "heap_ok (k_fs s)"
  defines "n \<equiv> c_int (xr (frames s fr) 8)"
  shows "router_effect n (xr (frames s fr) 0) (xr (frames s fr) 1) cur fr s out s'"
proof -
  let ?a0 = "xr (frames s fr) 0" and ?a1 = "xr (frames s fr) 1"
  note R = run [unfolded sync_router_def Let_def n_def [symmetric], unfolded syscall_nums]
  consider "n = 0" | "n = 1" | "n = 2" | "n = 3" | "n = 4" | "n = 5" | "n = 6" | "n = 7" | "n = 8" | "n = 9" | "n = 11" | "n = 12"
    | "n = 13" | "n = 14" | "n = 15" | "n = 16" | "n = 17"
    using R by (auto split: if_splits)
  then show ?thesis
  proof cases
    case 1
    then show ?thesis using R cur
      by (auto simp: answer_Inr rbind_eq_Inr sysc_pid_def caller_after_simps intro!: quiet_effect [where f = None and p = "[]"] only_caller_none)
  next
    case 2
    then show ?thesis using R by (auto simp: answer_Inr rbind_eq_Inr intro!: quiet dest!: file_call_effects(5) [where cur = cur])
  next
    case 3
    then show ?thesis using R by (auto simp: answer_Inr rbind_eq_Inr intro!: quiet dest!: file_call_effects(6) [where cur = cur])
  next
    case 4
    then show ?thesis using R cur by (auto simp: answer_Inr rbind_eq_Inr intro: exec_answered)
  next
    case 5
    then show ?thesis using R ok by (auto simp: answer_Inr intro: fork_answered)
  next
    case 6
    then show ?thesis using R cur by (auto simp: answer_Inr rbind_eq_Inr intro: exit_answered)
  next
    case 7
    then show ?thesis using R
      by (auto simp: answer_Inr rbind_eq_Inr caller_after_simps intro!: quiet_effect [where f = None and p = "[]"] only_caller_none)
  next
    case 8
    then show ?thesis using R by (auto simp: answer_Inr intro: kill_answered)
  next
    case 9
    then show ?thesis using R register_effect [OF _ cur]
      by (auto simp: answer_Inr caller_after_simps intro!: quiet_effect [where f = None and p = "[]"])
  next
    case 10
    then show ?thesis using R ok by (auto simp: answer_Inr intro: signal_answered)
  next
    case 11
    then obtain q r s1 where o: "sysc_open j q (c_int ?a1) s = Inr (r, s1)" "out = None" "s' = set_x0 fr r s1"
      using R by (auto simp: answer_Inr rbind_eq_Inr)
    obtain f where f: "only_caller cur (if r = -1 then (\<lambda>x. x) else (\<lambda>x. x\<lparr>fd_table := (fd_table x)[nat r := f]\<rparr>)) s s1"
      "r \<noteq> -1 \<longrightarrow> (\<exists>k. r = int k \<and> k < VFS_PROCESS_MAX_OPEN_FILE \<and> fd_table (task_of s cur) ! k = None \<and>
        (\<forall>j < k. fd_table (task_of s cur) ! j \<noteq> None))"
      using open_effect [OF o(1) cur] by blast
    show ?thesis unfolding o(2,3) using f 11 by (intro quiet_effect [where f = f and p = "[]"]) (simp_all add: caller_after_simps)
  next
    case 12
    then show ?thesis using R close_effect [OF _ cur]
      by (auto simp: answer_Inr caller_after_simps intro!: quiet_effect [where f = None and p = "[]"])
  next
    case 13
    then show ?thesis using R by (auto simp: answer_Inr intro!: quiet dest!: file_call_effects(1) [where cur = cur])
  next
    case 14
    then show ?thesis using R by (auto simp: answer_Inr intro!: quiet dest!: file_call_effects(2) [where cur = cur])
  next
    case 15
    then obtain q r s1 where o: "sysc_mkdir j q s = Inr (r, s1)" "out = None" "s' = set_x0 fr r s1"
      using R by (auto simp: answer_Inr rbind_eq_Inr)
    have "r = 0" using o(1) by (auto simp: sysc_mkdir_def rbind_eq_Inr)
    moreover have "only_caller cur (caller_after 15 ?a0 ?a1 r None []) s s1"
      using file_call_effects(3) [OF o(1), of cur] by (simp add: caller_after_simps)
    ultimately show ?thesis unfolding o(2,3) using 15 by (intro quiet_effect [where f = None and p = "[]"]) simp_all
  next
    case 16
    then show ?thesis using R by (auto simp: answer_Inr rbind_eq_Inr intro!: quiet dest!: file_call_effects(4) [where cur = cur])
  next
    case 17
    then obtain q r s1 where o: "sysc_chdir q s = Inr (r, s1)" "out = None" "s' = set_x0 fr r s1"
      using R by (auto simp: answer_Inr rbind_eq_Inr)
    obtain p where p: "only_caller cur (if r = 0 then (\<lambda>x. x\<lparr>cwd := p\<rparr>) else (\<lambda>x. x)) s s1" "k_fs s1 = k_fs s"
      using chdir_effect [OF o(1) cur] by blast
    show ?thesis unfolding o(2,3) using p 17 by (intro quiet_effect [where f = None and p = p]) (simp_all add: caller_after_simps)
  qed
qed

section \<open>The property\<close>

text \<open>C14: What a system call that returns changes outside the file system, for every number n of a call, whatever the registers,
  the files and the devices hold. The result is in x0 of the caller's frame; nothing else of this frame
  and no other frame changes, unless the call is fork (4), which copies frames to its child's stack, or exec (3), which sets the
  caller's stack pointer and return address. Of the caller's structure register (8) sets just the handler to x1, open (11) the descriptor that it returns, the
  lowest free one, close (12) clears just the descriptor x0, chdir (17) sets just the directory and only when it returns 0, exit (5)
  marks the task and is the only call that does not return to its caller, and all other calls change nothing. No other task in memory is touched but for its link in a
  queue, and that only by fork (4), exit, kill (7) and signal (9). Pid, exit, mailbox (6), kill, register and chdir
  leave the file system as it is, and pid (0) returns the caller's pid.\<close>

theorem sync_router_effects:
  assumes "sync_router d mb response junk i0 j place fr s = Inr (out, s')" and "get_current s = Inr cur" and "heap_ok (k_fs s)"
    and "n = c_int (xr (frames s fr) 8)" and "a0 = xr (frames s fr) 0" and "a1 = xr (frames s fr) 1"
  shows "\<exists>r f p. xr (frames s' fr) 0 = u64 r \<and> (out = None \<longleftrightarrow> n \<noteq> 5) \<and>
    (\<forall>t \<in> in_use (k_fs s). same_but_link (if t = cur then caller_after n a0 a1 r f p (task_of s t) else task_of s t) (task_of s' t)) \<and>
    (n \<notin> {4, 5, 7, 9} \<longrightarrow> k_sched s' = (k_sched s)\<lparr>tasks := (tasks (k_sched s))(cur := caller_after n a0 a1 r f p (task_of s cur))\<rparr>) \<and>
    (n \<noteq> 4 \<longrightarrow> (\<forall>a. a \<noteq> fr \<longrightarrow> frames s' a = frames s a) \<and> (\<forall>i. i \<noteq> 0 \<longrightarrow> xr (frames s' fr) i = xr (frames s fr) i)) \<and>
    (n \<notin> {3, 4} \<longrightarrow> frames s' fr = (frames s fr)\<lparr>xr := (xr (frames s fr))(0 := u64 r)\<rparr>) \<and>
    (n \<in> {0, 5, 6, 7, 8, 17} \<longrightarrow> k_fs s' = k_fs s) \<and>
    (n = 0 \<longrightarrow> r = c_int (t_pid (task_of s cur))) \<and>
    (n \<in> {3, 5, 7, 8, 9, 12, 15} \<longrightarrow> r = 0) \<and>
    (n = 11 \<and> r \<noteq> -1 \<longrightarrow> (\<exists>k. r = int k \<and> k < VFS_PROCESS_MAX_OPEN_FILE \<and> fd_table (task_of s cur) ! k = None \<and>
      (\<forall>j < k. fd_table (task_of s cur) ! j \<noteq> None)))"
  using router_effect_run [OF assms(1-3)] unfolding assms(4-6) router_effect_def .

text \<open>Task 100 registers the handler at 0x1234; task 200 keeps its own.\<close>

theorem sync_router_effects_witness:
  "\<forall>d mb response. \<exists>s s'. sync_router d mb response 0 (\<lambda>_. 0) 0 0 7 s = Inr (None, s') \<and>
     handler (task_of s' 100) = Some (Code_at 0x1234) \<and> task_of s' 200 = task_of s 200 \<and> xr (frames s' 7) 0 = 0"
proof (intro allI)
  fix d mb response
  let ?f = "\<lparr>xr = (\<lambda>_. 9)(8 := 8, 1 := 0x1234), sp_el0 = 0, elr_el1 = 0, spsr_el1 = 0\<rparr>"
  let ?s = "demo_kernel\<lparr>k_sched := demo_sched, frames := (\<lambda>_. ?f)\<rparr>"
  obtain s' where run: "sync_router d mb response 0 (\<lambda>_. 0) 0 0 7 ?s = Inr (None, s')"
    by (simp add: sync_router_def syscall_nums c_int_def answer_def sysc_register_def get_current_def demo_sched_def)
  have ok: "get_current ?s = Inr 100" "heap_ok (k_fs ?s)"
    using kstock_ok [OF empty_pool_stock] by (simp_all add: get_current_def demo_sched_def kernel_with_facts)
  have n: "8 = c_int (xr (frames ?s 7) 8)" by (simp add: c_int_def)
  have e: "k_sched s' = demo_sched\<lparr>tasks := (tasks demo_sched)(100 := (tasks demo_sched 100)\<lparr>handler := code_of 0x1234\<rparr>)\<rparr> \<and> xr (frames s' 7) 0 = 0"
    using sync_router_effects [OF run ok n refl refl] by (auto simp: caller_after_simps u64_def task_of_def)
  then show "\<exists>s s'. sync_router d mb response 0 (\<lambda>_. 0) 0 0 7 s = Inr (None, s') \<and>
     handler (task_of s' 100) = Some (Code_at 0x1234) \<and> task_of s' 200 = task_of s 200 \<and> xr (frames s' 7) 0 = 0"
    using run by (intro exI [of _ ?s] exI [of _ s']) (simp add: task_of_def code_of_def)
qed

end
