(* ===== verification/Usercalls.thy ===== *)
theory Usercalls
  imports Syscalls
begin

text \<open>
  \<open>lib/system.c\<close>: the functions that user programs call. Each puts the number of the system call into
  \<open>x8\<close> and its arguments into \<open>x0\<close> and \<open>x1\<close>, and the result is the \<open>int\<close> in \<open>x0\<close> afterwards. The exception
  entry of \<open>start.S\<close> saves the registers in the frame \<open>fr\<close> and calls \<open>sync_router\<close>, the parameter
  \<open>router\<close> here, with it.
\<close>

type_synonym router = "addr \<Rightarrow> kernel \<Rightarrow> (outcome option \<times> kernel) res"

text \<open>The registers when \<open>svc 0\<close> is executed.\<close>

definition call_regs :: "nat \<Rightarrow> nat list \<Rightarrow> (nat \<Rightarrow> nat) \<Rightarrow> nat \<Rightarrow> nat" where
  "call_regs n xs r = (\<lambda>i. if i = 8 then n else if i < length xs then xs ! i else r i)"

definition svc :: "router \<Rightarrow> addr \<Rightarrow> nat \<Rightarrow> nat list \<Rightarrow> kernel \<Rightarrow> (outcome option \<times> kernel) res" where
  "svc router fr n xs s = router fr (upd_frame fr (\<lambda>f. f\<lparr>xr := call_regs n xs (xr f)\<rparr>) s)"

text \<open>The \<open>int\<close> in the register \<open>x0\<close>.\<close>

definition with_x0 :: "addr \<Rightarrow> (outcome option \<times> kernel) res \<Rightarrow> (int \<times> kernel) res" where
  "with_x0 fr r = rbind r (\<lambda>(_, s). Inr (c_int (xr (frames s fr) 0), s))"

definition sys_getpid :: "router \<Rightarrow> addr \<Rightarrow> kernel \<Rightarrow> (int \<times> kernel) res" where
  "sys_getpid router fr s = with_x0 fr (svc router fr 0 [] s)"

text \<open>The two transfers return the \<open>int\<close> as a \<open>size_t\<close>.\<close>

definition sys_uart_read :: "router \<Rightarrow> addr \<Rightarrow> nat \<Rightarrow> nat \<Rightarrow> kernel \<Rightarrow> (nat \<times> kernel) res" where
  "sys_uart_read router fr buf n s = rbind (with_x0 fr (svc router fr 1 [buf, n] s)) (\<lambda>(r, s). Inr (u64 r, s))"

definition sys_uart_write :: "router \<Rightarrow> addr \<Rightarrow> nat \<Rightarrow> nat \<Rightarrow> kernel \<Rightarrow> (nat \<times> kernel) res" where
  "sys_uart_write router fr buf n s = rbind (with_x0 fr (svc router fr 2 [buf, n] s)) (\<lambda>(r, s). Inr (u64 r, s))"

definition sys_exec :: "router \<Rightarrow> addr \<Rightarrow> nat \<Rightarrow> nat \<Rightarrow> kernel \<Rightarrow> (int \<times> kernel) res" where
  "sys_exec router fr name argv s = with_x0 fr (svc router fr 3 [name, argv] s)"

definition sys_fork :: "router \<Rightarrow> addr \<Rightarrow> kernel \<Rightarrow> (int \<times> kernel) res" where
  "sys_fork router fr s = with_x0 fr (svc router fr 4 [] s)"

definition sys_exit :: "router \<Rightarrow> addr \<Rightarrow> kernel \<Rightarrow> (outcome option \<times> kernel) res" where
  "sys_exit router fr s = svc router fr 5 [] s"

text \<open>\<open>ch\<close> is an \<open>unsigned char\<close>.\<close>

definition sys_mbox_call :: "router \<Rightarrow> addr \<Rightarrow> byte \<Rightarrow> nat \<Rightarrow> kernel \<Rightarrow> (int \<times> kernel) res" where
  "sys_mbox_call router fr ch m_box s = with_x0 fr (svc router fr 6 [unat ch, m_box] s)"

definition sys_kill :: "router \<Rightarrow> addr \<Rightarrow> int \<Rightarrow> kernel \<Rightarrow> (outcome option \<times> kernel) res" where
  "sys_kill router fr p s = svc router fr 7 [u64 p] s"

definition sys_signal :: "router \<Rightarrow> addr \<Rightarrow> int \<Rightarrow> nat \<Rightarrow> kernel \<Rightarrow> (outcome option \<times> kernel) res" where
  "sys_signal router fr sig h s = svc router fr 8 [u64 sig, h] s"

end
