(* ===== verification/SyscallClaims.thy ===== *)
theory SyscallClaims
  imports SyscallEffects Usercalls
begin

text \<open>
  The properties of the system calls: fork, the calls on files and directories, and signals.
\<close>

section \<open>An example\<close>

text \<open>A user task with pid 2, running after booting, with the idle task in the run queue.\<close>

lemma user_kernel:
  obtains s c u i ls la where "kernel_ok s c [i] [] []" and "console_at (k_fs s) u" and "kstock (heap (k_fs s)) 7"
    and "pid (k_sched s) = 3" and "first_idle s c 3" and "cwd (task_of s c) = [SLASH]" and "t_pid (task_of s c) = 2"
    and "t_pid (task_of s i) = 1" and "path_has (k_fs s) [cstr ''initramfs'', [97]] [1, 2, 3, 4, 5]"
    and "(user_sp (task_of s c), ls) \<in> blks (k_fs s)" and "THREAD_SP_SIZE \<le> ls"
    and "(sp_addr (task_of s c), la) \<in> blks (k_fs s)" and "THREAD_SP_SIZE \<le> la"
proof -
  obtain u i s1 where 1: "kernel_ok s1 i [] [] []" "console_at (k_fs s1) u" "kstock (heap (k_fs s1)) 13" "pid (k_sched s1) = 2"
    "t_pid (task_of s1 i) = 1" "t_state (task_of s1 i) = RUNNING" "path_has (k_fs s1) [cstr ''initramfs'', [97]] [1, 2, 3, 4, 5]"
    by (rule booted_kernel)
  have c: "leads_to (k_fs s1) uart_path u" "kstock (heap (k_fs s1)) (Suc (Suc (Suc (Suc (Suc (Suc 7))))))" "pid (k_sched s1) < 2 ^ 31 - 1"
    using 1(2-4) by (simp_all add: console_at_def)
  from task_create_run [OF 1(1) c, of None USER] obtain t us a f g h s2 where
    2: "kernel_ok s2 i ([] @ [fst t]) [] []" "has_new_task None USER u s1 t us a [f, g, h] s2" "kstock (heap (k_fs s2)) 7"
      "same_tree (k_fs s1) (k_fs s2)" by blast
  note N = has_new_taskD [OF 2(2)]
  have ne: "i \<noteq> fst t" using kernel_okD(4) [OF 1(1)] has_new_task_use(2) [OF 2(2)] by blast
  obtain x where I: "task_of s2 i = (task_of s1 i)\<lparr>t_next := x\<rparr>" using N(5) [OF ne] by blast
  have "t_state (tasks (k_sched s2) i) \<noteq> EXIT" using I 1(6) by (simp add: task_of_def)
  moreover have "sched_ok (k_sched s2) i (fst t # []) [] []" using kernel_okD(1) [OF 2(1)] by simp
  ultimately obtain q where q: "sched_ok q (fst t) ([] @ [i]) [] []" "only_next (insert i (set [])) (tasks (k_sched s2)) (tasks q)"
    "pid q = pid (k_sched s2)" using schedule_next by blast
  let ?s = "s2\<lparr>k_sched := q\<rparr>"
  have T: "task_of ?s (fst t) = task_of s2 (fst t)" using q(2) ne by (simp add: only_next_def task_of_def)
  obtain y where "tasks q i = (tasks (k_sched s2) i)\<lparr>t_next := y\<rparr>" using q(2) unfolding only_next_def by blast
  then have pid: "t_pid (task_of ?s i) = 1" using I 1(5) by (simp add: task_of_def)
  have bl: "us \<in> blks (k_fs ?s)" "a \<in> blks (k_fs ?s)" using N(7) by simp_all
  have F: "fd_table (task_of s2 (fst t)) = [Some (fst f), Some (fst g), Some (fst h)] @ replicate 13 None"
    using N(1) by (simp add: fresh_task_simps VFS_PROCESS_MAX_OPEN_FILE_def)
  have "first_idle ?s (fst t) 3"
    unfolding first_idle_def T F by (auto simp: VFS_PROCESS_MAX_OPEN_FILE_def nth_append nth_Cons split: nat.split)
  moreover have "kernel_ok ?s (fst t) [i] [] []" using 2(1) q(1) by (simp add: kernel_ok_def)
  ultimately show thesis
    using that [of ?s "fst t" i u "snd us" "snd a"] same_tree_boot [OF 2(4)] 1(2,4,7) 2(3) q(3) pid bl N(1,2,10) N(11)
    by (simp add: T fresh_task_simps)
qed

lemma walk_append: "walk s n (cs @ ds) = Option.bind (walk s n cs) (\<lambda>m. walk s m ds)"
proof (induction cs arbitrary: n)
  case (Cons c cs)
  show ?case unfolding append_Cons walk.simps Option.bind_assoc
    by (intro Option.bind_cong refl) (simp add: Option.bind_assoc Cons.IH)
qed simp

text \<open>Below a file there is nothing.\<close>

lemma walk_below_file:
  assumes "leads_to s cs n" and "fs_root s = Inr r"
  shows "walk s r (cs @ [c]) = None"
  using assms by (auto simp: leads_to_def walk_append)

section \<open>Properties\<close>

text \<open>C8: fork, when the console can be opened and memory is left: a new user task with the next pid becomes
  the last of the run queue. Its registers x19 to x29, its start function and its signal handler are
  the caller's, it continues in child_return_from_fork on its own copy of the caller's kernel stack, and
  its copy of the trap frame differs from the caller's only in x0, which is 0, and in the user stack
  pointer, moved by the distance of the two user stacks. Both stacks have the same bytes as the
  caller's, which keeps its own and its frame. The working directory and the descriptors are not the
  caller's: they are "/" and three handles of the console.\<close>

theorem sysc_fork_correct:
  assumes ok: "kernel_ok s c rq zq tq" and con: "leads_to (k_fs s) uart_path n"
    and st: "kstock (heap (k_fs s)) 6" and pid: "pid (k_sched s) < 2 ^ 31 - 1"
    and us: "(user_sp (task_of s c), lu) \<in> blks (k_fs s)" "THREAD_SP_SIZE \<le> lu"
    and ks: "(sp_addr (task_of s c), la) \<in> blks (k_fs s)" "THREAD_SP_SIZE \<le> la"
    and fr: "sp_addr (task_of s c) \<le> fr" "fr < sp_addr (task_of s c) + int THREAD_SP_SIZE"
  shows "\<exists>t s'. sysc_fork fr s = Inr (int (pid (k_sched s)), s') \<and> kernel_ok s' c (rq @ [t]) zq tq \<and> t \<notin> in_use (k_fs s) \<and>
    (let P = task_of s c; C = task_of s' t; F = frames s fr; cf = fr + (sp_addr C - sp_addr P); G = frames s' cf in
      t_pid C = pid (k_sched s) \<and> mode C = USER \<and> lr C = Some Child_return_from_fork \<and> sp C = u64 cf \<and>
      target_func C = target_func P \<and> handler C = handler P \<and>
      [x19 C, x20 C, x21 C, x22 C, x23 C, x24 C, x25 C, x26 C, x27 C, x28 C, fp C] = map (xr F) [19..<30] \<and>
      xr G = (xr F)(0 := 0) \<and> elr_el1 G = elr_el1 F \<and> spsr_el1 G = spsr_el1 F \<and>
      sp_el0 G = u64 (int (sp_el0 F) + (user_sp C - user_sp P)) \<and> frames s' fr = F \<and>
      mem_bytes (bytes (k_fs s')) (user_sp C) THREAD_SP_SIZE = mem_bytes (bytes (k_fs s)) (user_sp P) THREAD_SP_SIZE \<and>
      mem_bytes (bytes (k_fs s')) (sp_addr C) THREAD_SP_SIZE = mem_bytes (bytes (k_fs s)) (sp_addr P) THREAD_SP_SIZE \<and>
      same_on (blks (k_fs s)) (bytes (k_fs s)) (bytes (k_fs s')) \<and> cwd C = [SLASH] \<and> std_open s' t n \<and> sp_addr C \<notin> in_use (k_fs s))"
  using assms by (rule fork_run)

text \<open>The first user task forks.\<close>

theorem sysc_fork_correct_witness:
  "\<exists>s c i fr t s'. kernel_ok s c [i] [] [] \<and> t_pid (task_of s c) = 2 \<and> sysc_fork fr s = Inr (3, s') \<and>
     kernel_ok s' c [i, t] [] [] \<and> t_pid (task_of s' t) = 3 \<and> frames s' fr = frames s fr"
proof -
  obtain s c u i ls la where s: "kernel_ok s c [i] [] []" "console_at (k_fs s) u" "kstock (heap (k_fs s)) 7" "pid (k_sched s) = 3"
    "t_pid (task_of s c) = 2" "(user_sp (task_of s c), ls) \<in> blks (k_fs s)" "THREAD_SP_SIZE \<le> ls"
    "(sp_addr (task_of s c), la) \<in> blks (k_fs s)" "THREAD_SP_SIZE \<le> la"
    by (rule user_kernel)
  have "leads_to (k_fs s) uart_path u" "kstock (heap (k_fs s)) 6" "pid (k_sched s) < 2 ^ 31 - 1"
    using s(2,4) kstock_mono [OF s(3)] by (simp_all add: console_at_def)
  from sysc_fork_correct [OF s(1) this s(6-9), of "sp_addr (task_of s c)"]
  obtain t s' where "sysc_fork (sp_addr (task_of s c)) s = Inr (int (pid (k_sched s)), s')" "kernel_ok s' c ([i] @ [t]) [] []"
    "t_pid (task_of s' t) = pid (k_sched s)" "frames s' (sp_addr (task_of s c)) = frames s (sp_addr (task_of s c))"
    unfolding Let_def by (auto simp: THREAD_SP_SIZE_def)
  then show ?thesis using s(1,4,5) by (intro exI) auto
qed

text \<open>C24: open of an absolute path that does not exist, without O_CREAT, does not fail: it returns the lowest
  free descriptor and changes nothing, so the descriptor stays free. Reading, writing or closing it then
  dereferences NULL.\<close>

theorem sysc_open_missing:
  assumes "get_current s = Inr c" and "first_idle s c k" and "fs_root (k_fs s) = Inr r" and "tree_ok (k_fs s) N" and "r \<in> N"
    and "\<forall>c \<in> set cs. proper c" and "cs \<noteq> []" and "length (render cs) < TMPFS_MAX_PATH_LEN" and "walk (k_fs s) r cs = None"
    and "\<not> has_creat flags"
  shows "sysc_open i0 (render cs) flags s = Inr (int k, s) \<and> sysc_read d (int k) buf n s = Inl NullDeref \<and>
    sysc_write d (int k) buf n s = Inl NullDeref \<and> sysc_close (int k) s = Inl NullDeref"
  using open_missing_run [OF assms] fd_get_set(1) [OF assms(2)] assms(1)
  by (simp add: sysc_read_def sysc_write_def sysc_close_def on_fs_def vfs_read_def vfs_write_def vfs_close_def)

text \<open>"/initramfs/a/x", where "/initramfs/a" is a file.\<close>

theorem sysc_open_missing_witness:
  "\<exists>s. sysc_open 0 (render [cstr ''initramfs'', [97], [120]]) 0 s = Inr (3, s) \<and> sysc_close 3 s = Inl NullDeref"
proof -
  obtain s c u i ls la where s: "kernel_ok s c [i] [] []" "first_idle s c 3" "path_has (k_fs s) [cstr ''initramfs'', [97]] [1, 2, 3, 4, 5]"
    by (rule user_kernel)
  obtain n where n: "leads_to (k_fs s) [cstr ''initramfs'', [97]] n" using s(3) unfolding path_has_def by blast
  then obtain N r where r: "fs_root (k_fs s) = Inr r" "tree_ok (k_fs s) N" "r \<in> N" unfolding leads_to_def by blast
  have "walk (k_fs s) r ([cstr ''initramfs'', [97]] @ [[120]]) = None" by (rule walk_below_file [OF n r(1)])
  moreover have "\<forall>c \<in> set [cstr ''initramfs'', [97], [120]]. proper c"
    by (simp add: proper_def cstr_def SLASH_def TMPFS_MAX_COMPONENT_NAME_def)
  moreover have "length (render [cstr ''initramfs'', [97], [120]]) < TMPFS_MAX_PATH_LEN" by (simp add: cstr_def TMPFS_MAX_PATH_LEN_def)
  moreover have "\<not> has_creat 0" by (simp add: has_creat_def u32_def)
  ultimately show ?thesis
    using sysc_open_missing [OF kernel_okD(3) [OF s(1)] s(2) r, of "[cstr ''initramfs'', [97], [120]]" 0 0] by auto
qed

text \<open>C6: open of an absolute path that leads to a file takes the lowest free descriptor for a new handle and
  changes no other one, and the directory tree stays as it is. Reading n bytes through that descriptor,
  not more than the file has and into a buffer apart from its data, then gives the first n bytes of the
  file; this is so for every file system whose read is tmpfs_read, which are all except the devices.\<close>

theorem sysc_open_read_correct:
  assumes ok: "kernel_ok s c rq zq tq" and fd: "first_idle s c k" and path: "leads_to (k_fs s) cs n"
    and len: "length (render cs) < TMPFS_MAX_PATH_LEN" and st: "kstock (heap (k_fs s)) 1"
    and x: "component (vnodes (k_fs s) n) = Some x" "c_union (comps (k_fs s) x) = Some p"
    and m: "m \<le> c_len (comps (k_fs s) x)" "c_len (comps (k_fs s) x) < 2 ^ 31"
    and ops: "fop_table (k_fs s) (f_ops (vnodes (k_fs s) n)) \<noteq> Devfs" and apart: "{buf..<buf + int m} \<inter> {p..<p + int m} = {}"
  shows "\<exists>g s1 s2. sysc_open i0 (render cs) flags s = Inr (int k, s1) \<and> g \<notin> in_use (k_fs s) \<and> kernel_ok s1 c rq zq tq \<and>
    fd_table (task_of s1 c) = (fd_table (task_of s c))[k := Some g] \<and> same_tree (k_fs s) (k_fs s1) \<and>
    sysc_read d (int k) buf m s1 = Inr (int m, s2) \<and> mem_bytes (bytes (k_fs s2)) buf m = take m (contents (k_fs s) x)"
proof -
  obtain g s1 where o: "sysc_open i0 (render cs) flags s = Inr (int k, s1)" "g \<notin> in_use (k_fs s)"
    "fd_table (task_of s1 c) = (fd_table (task_of s c))[k := Some g]" "files (k_fs s1) g = opened (k_fs s) n flags"
    "kernel_ok s1 c rq zq tq" "same_tree (k_fs s) (k_fs s1)" "get_current s1 = Inr c" "fd_get c (int k) s1 = Inr (Some g)"
    by (rule open_run [OF ok fd path len st])
  note t = same_treeD [OF o(6)]
  have f: "file_comp (Some g) (k_fs s1) = Some (g, x)"
    using o(4) t(2,3) x(1) path by (auto simp: file_comp_def opened_def leads_to_def)
  have con: "contents (k_fs s1) x = contents (k_fs s) x" using t(3,8) by (simp add: contents_def cong: option.case_cong)
  obtain fs where r: "tmpfs_read (Some g) buf m (k_fs s1) = Inr (int m, fs)" "mem_bytes (bytes fs) buf m = take m (contents (k_fs s) x)"
    using read_start_run [OF f, of p m buf] x(2) m o(4) t(3) apart con by (auto simp: opened_def)
  have "fop_table (k_fs s1) (ff_ops (files (k_fs s1) g)) \<noteq> Devfs" using o(4) t(7) ops by (simp add: opened_def)
  then have "vfs_read d (Some g) buf m (k_fs s1) = Inr (int m, fs)"
    using r(1) by (cases "fop_table (k_fs s1) (ff_ops (files (k_fs s1) g))") (simp_all add: vfs_read_def)
  then have "sysc_read d (int k) buf m s1 = Inr (int m, s1\<lparr>k_fs := fs\<rparr>)" using o(7,8) by (simp add: sysc_read_def on_fs_def)
  then show ?thesis using o(1,2,3,5,6) r(2) by (intro exI [of _ g] exI [of _ s1] exI [of _ "s1\<lparr>k_fs := fs\<rparr>"]) simp
qed

text \<open>The user task opens "/initramfs/a" after booting and reads five bytes.\<close>

theorem sysc_open_read_correct_witness:
  "\<forall>d. \<exists>s s1 s2 buf. sysc_open 0 (render [cstr ''initramfs'', [97]]) 0 s = Inr (3, s1) \<and> sysc_read d 3 buf 5 s1 = Inr (5, s2) \<and>
     mem_bytes (bytes (k_fs s2)) buf 5 = [1, 2, 3, 4, 5]"
proof
  fix d
  obtain s c u i ls la where s: "kernel_ok s c [i] [] []" "first_idle s c 3" "kstock (heap (k_fs s)) 7"
    "path_has (k_fs s) [cstr ''initramfs'', [97]] [1, 2, 3, 4, 5]"
    by (rule user_kernel)
  obtain n x where n: "leads_to (k_fs s) [cstr ''initramfs'', [97]] n" "component (vnodes (k_fs s) n) = Some x"
    "c_len (comps (k_fs s) x) = 8" "take 5 (contents (k_fs s) x) = [1, 2, 3, 4, 5]" "fop_table (k_fs s) (f_ops (vnodes (k_fs s) n)) = Initramfs"
    using s(4) by (auto simp: path_has_def data_space_def few_Suc)
  obtain p where p: "c_union (comps (k_fs s) x) = Some p"
    using n(4) by (cases "c_union (comps (k_fs s) x)") (simp_all add: contents_def)
  have "length (render [cstr ''initramfs'', [97]]) < TMPFS_MAX_PATH_LEN" by (simp add: cstr_def TMPFS_MAX_PATH_LEN_def)
  moreover have "kstock (heap (k_fs s)) 1" by (rule kstock_mono [OF s(3)]) simp
  ultimately show "\<exists>s s1 s2 buf. sysc_open 0 (render [cstr ''initramfs'', [97]]) 0 s = Inr (3, s1) \<and>
      sysc_read d 3 buf 5 s1 = Inr (5, s2) \<and> mem_bytes (bytes (k_fs s2)) buf 5 = [1, 2, 3, 4, 5]"
    using sysc_open_read_correct [OF s(1,2) n(1) _ _ n(2) p, of 5 "p + 5" 0 0 d] n(3-5) by fastforce
qed

text \<open>C23: chdir with a relative path, whose components have less than 32 bytes and the last of which is neither
  blank nor ".", and which together with the directory has less than 254 bytes and 64 components: the new directory is the resolved path with a '/' behind it if the path leads to
  anything, be it a file, and otherwise the result is -1 and nothing changes. But when ".." components
  take the path back to the root, as chdir("..") in "/a/", it reads the byte before its local array.\<close>

theorem sysc_chdir_correct:
  assumes cur: "get_current s = Inr c" and root: "fs_root (k_fs s) = Inr r" "tree_ok (k_fs s) N" "r \<in> N"
    and rel: "pn = [] \<or> hd pn \<noteq> SLASH" and w: "w = cwd (task_of s c)" "w \<noteq> []" "hd w = SLASH" "last w = SLASH"
    and len: "length (w @ pn) < 254" "length (StringProps.fields SLASH (w @ pn)) < 64"
      "\<forall>f \<in> set (StringProps.fields SLASH (w @ pn)). length f < TMPFS_MAX_COMPONENT_NAME"
    and last: "\<not> blank (last (StringProps.fields SLASH (w @ pn)))"
  shows "sysc_chdir pn s =
    (let rs = resolve (StringProps.fields SLASH (w @ pn)) in
     if rs = [] then Inl OutOfBounds
     else if walk (k_fs s) r rs = None then Inr (-1, s)
     else Inr (0, upd_task c (\<lambda>x. x\<lparr>cwd := render rs @ [SLASH]\<rparr>) s))"
proof -
  have "abs_path_of c pn s = Inr (render (resolve (StringProps.fields SLASH (w @ pn))))"
    by (rule abs_path_relative [OF rel w(2-4)]) (use w(1) len(1,2) last in simp_all)
  moreover obtain w' where "w @ pn = SLASH # w'" using w(2,3) by (cases w) auto
  then have "length (render (resolve (StringProps.fields SLASH (w @ pn)))) < TMPFS_MAX_PATH_LEN - 1"
    using resolve_fits [of "w @ pn"] len(1) by (simp add: TMPFS_MAX_PATH_LEN_def)
  ultimately show ?thesis unfolding Let_def by (rule chdir_run [OF cur root _ resolve_proper [OF len(3)]])
qed

text \<open>In "/" after booting: chdir("initramfs/a") succeeds although it is a file.\<close>

theorem sysc_chdir_correct_witness:
  "\<exists>s c s'. cwd (task_of s c) = [SLASH] \<and> sysc_chdir (cstr ''initramfs/a'') s = Inr (0, s') \<and>
     cwd (task_of s' c) = cstr ''/initramfs/a/''"
proof -
  obtain s c u i ls la where s: "kernel_ok s c [i] [] []" "cwd (task_of s c) = [SLASH]"
    "path_has (k_fs s) [cstr ''initramfs'', [97]] [1, 2, 3, 4, 5]"
    by (rule user_kernel)
  obtain n N r where n: "fs_root (k_fs s) = Inr r" "tree_ok (k_fs s) N" "r \<in> N" "walk (k_fs s) r [cstr ''initramfs'', [97]] = Some n"
    using s(3) unfolding path_has_def leads_to_def by blast
  have f: "StringProps.fields SLASH ([SLASH] @ cstr ''initramfs/a'') = [[], cstr ''initramfs'', [97]]"
    by (simp add: fields_Cons fields_none cstr_def SLASH_def)
  have rs: "resolve [[], cstr ''initramfs'', [97]] = [cstr ''initramfs'', [97]]"
    by (simp add: resolve_def blank_def push_def cstr_def CURRENT_DIR_def PARENT_DIR_def)
  have "sysc_chdir (cstr ''initramfs/a'') s =
    (let rs = resolve (StringProps.fields SLASH ([SLASH] @ cstr ''initramfs/a'')) in
     if rs = [] then Inl OutOfBounds
     else if walk (k_fs s) r rs = None then Inr (-1, s)
     else Inr (0, upd_task c (\<lambda>x. x\<lparr>cwd := render rs @ [SLASH]\<rparr>) s))"
    by (rule sysc_chdir_correct [OF kernel_okD(3) [OF s(1)] n(1-3)]; (unfold f s(2))?;
        simp add: cstr_def SLASH_def blank_def CURRENT_DIR_def TMPFS_MAX_COMPONENT_NAME_def)
  then have "sysc_chdir (cstr ''initramfs/a'') s = Inr (0, upd_task c (\<lambda>x. x\<lparr>cwd := render [cstr ''initramfs'', [97]] @ [SLASH]\<rparr>) s)"
    unfolding f rs Let_def using n(4) by simp
  moreover have "render [cstr ''initramfs'', [97]] @ [SLASH] = cstr ''/initramfs/a/''" by (simp add: cstr_def SLASH_def)
  ultimately show ?thesis using s(2) by (intro exI conjI) auto
qed

text \<open>C25: signal_kill: when the run queue has no task with the pid (the current task is not in it), or the
  first task of the queue has it, a NULL pointer is followed. Otherwise the first task with the pid is
  taken out of the queue and set aside, with its handler noted, and a new user task that starts in
  signal_handler_wrapper comes last in the queue. A task that an earlier signal had set aside is lost.\<close>

theorem sysc_signal_kill_correct:
  assumes ok: "kernel_ok s c rq zq tq" and con: "leads_to (k_fs s) uart_path n" and st: "kstock (heap (k_fs s)) 6"
    and pid: "pid (k_sched s) < 2 ^ 31 - 1"
  shows "((\<forall>a \<in> set rq. t_pid (task_of s a) \<noteq> u64 p) \<longrightarrow> sysc_signal_kill p s = Inl NullDeref) \<and>
    (\<forall>as t bs. rq = as @ t # bs \<and> t_pid (task_of s t) = u64 p \<and> (\<forall>a \<in> set as. t_pid (task_of s a) \<noteq> u64 p) \<longrightarrow>
      (if as = [] then sysc_signal_kill p s = Inl NullDeref
       else \<exists>h s'. sysc_signal_kill p s = Inr (0, s') \<and> kernel_ok s' c (as @ bs @ [h]) zq [t] \<and> h \<notin> in_use (k_fs s) \<and>
         mode (task_of s' h) = USER \<and> target_func (task_of s' h) = Some Signal_handler_wrapper \<and>
         t_pid (task_of s' h) = pid (k_sched s) \<and> sig_handler s' = handler (task_of s t) \<and>
         signal_pid s' = u64 p \<and> signal_exit s'))"
proof (intro conjI allI impI; (elim conjE)?)
  show "sysc_signal_kill p s = Inl NullDeref" if "\<forall>a \<in> set rq. t_pid (task_of s a) \<noteq> u64 p"
    using signal_kill_absent [OF ok that] .
  have st6: "kstock (heap (k_fs s)) (Suc (Suc (Suc (Suc (Suc (Suc 0))))))" using kstock_mono [OF st] by simp
  fix as t bs
  assume q: "rq = as @ t # bs" "t_pid (task_of s t) = u64 p" "\<forall>a \<in> set as. t_pid (task_of s a) \<noteq> u64 p"
  show "if as = [] then sysc_signal_kill p s = Inl NullDeref
       else \<exists>h s'. sysc_signal_kill p s = Inr (0, s') \<and> kernel_ok s' c (as @ bs @ [h]) zq [t] \<and> h \<notin> in_use (k_fs s) \<and>
         mode (task_of s' h) = USER \<and> target_func (task_of s' h) = Some Signal_handler_wrapper \<and>
         t_pid (task_of s' h) = pid (k_sched s) \<and> sig_handler s' = handler (task_of s t) \<and>
         signal_pid s' = u64 p \<and> signal_exit s'"
  proof (cases "as = []")
    case True
    then show ?thesis using signal_kill_first [of s c t bs zq tq p] ok q(1,2) by simp
  next
    case False
    show ?thesis using signal_kill_run [OF ok [unfolded q(1)] q(2,3) False con st6 pid] False by metis
  qed
qed

text \<open>The idle task with two user tasks in the queue signals the second.\<close>

theorem sysc_signal_kill_correct_witness:
  "\<exists>s i a b h s'. kernel_ok s i [a, b] [] [] \<and> sysc_signal_kill 3 s = Inr (0, s') \<and> kernel_ok s' i [a, h] [] [b] \<and>
     target_func (task_of s' h) = Some Signal_handler_wrapper \<and> sig_handler s' = None"
proof -
  obtain u i s0 where 0: "kernel_ok s0 i [] [] []" "console_at (k_fs s0) u" "kstock (heap (k_fs s0)) 18" "pid (k_sched s0) = 2"
    by (rule booted_with [OF demo_disk_archive, of 18]) (simp_all add: proper_def SLASH_def TMPFS_MAX_COMPONENT_NAME_def NAME_LEN_def)
  have c: "leads_to (k_fs s0) uart_path u" "kstock (heap (k_fs s0)) (Suc (Suc (Suc (Suc (Suc (Suc 12))))))" "pid (k_sched s0) < 2 ^ 31 - 1"
    using 0(2-4) by (simp_all add: console_at_def)
  obtain a ua aa fa s1 where 1: "kernel_ok s1 i ([] @ [fst a]) [] []" "has_new_task None USER u s0 a ua aa fa s1"
    "kstock (heap (k_fs s1)) 12" "same_tree (k_fs s0) (k_fs s1)"
    using task_create_run [OF 0(1) c, of None USER] by blast
  have c1: "leads_to (k_fs s1) uart_path u" "kstock (heap (k_fs s1)) (Suc (Suc (Suc (Suc (Suc (Suc 6))))))" "pid (k_sched s1) < 2 ^ 31 - 1"
    using leads_to_same [OF 1(4) c(1)] 1(3) has_new_taskD(2) [OF 1(2)] 0(4) by simp_all
  obtain b ub ab fb s2 where 2: "kernel_ok s2 i (([] @ [fst a]) @ [fst b]) [] []" "has_new_task None USER u s1 b ub ab fb s2"
    "kstock (heap (k_fs s2)) 6" "same_tree (k_fs s1) (k_fs s2)"
    using task_create_run [OF 1(1) c1, of None USER] by blast
  have ne: "fst a \<noteq> fst b" using has_new_task_use(1) [OF 1(2)] has_new_task_use(2) [OF 2(2)] by metis
  have A: "t_pid (task_of s1 (fst a)) = 2" "pid (k_sched s1) = 3" using has_new_taskD(1,2) [OF 1(2)] 0(4) by (simp_all add: fresh_task_simps)
  have B: "t_pid (task_of s2 (fst b)) = 3" "handler (task_of s2 (fst b)) = None" "pid (k_sched s2) = 4"
    using has_new_taskD(1,2) [OF 2(2)] A(2) by (simp_all add: fresh_task_simps)
  obtain y where "task_of s2 (fst a) = (task_of s1 (fst a))\<lparr>t_next := y\<rparr>" using has_new_taskD(5) [OF 2(2) ne] by blast
  then have A2: "t_pid (task_of s2 (fst a)) = 2" using A(1) by simp
  have "leads_to (k_fs s2) uart_path u" "pid (k_sched s2) < 2 ^ 31 - 1" using leads_to_same [OF 2(4) c1(1)] B(3) by simp_all
  note K = sysc_signal_kill_correct [OF 2(1) this(1) 2(3) this(2), of 3, THEN conjunct2, rule_format, of "[fst a]" "fst b" "[]"]
  obtain h s' where
    "sysc_signal_kill 3 s2 = Inr (0, s')" "kernel_ok s' i [fst a, h] [] [fst b]" "target_func (task_of s' h) = Some Signal_handler_wrapper"
    "sig_handler s' = None"
    using K A2 B(1,2) by (auto simp: u64_def)
  then show ?thesis using 2(1) by (intro exI conjI) auto
qed

text \<open>C26: fork as a user program calls it returns twice: in the caller with the pid of the new task, and in the
  new task, whose own frame holds 0 in x0 and otherwise the registers of the caller at the call.\<close>

theorem sys_fork_returns_twice:
  assumes ok: "kernel_ok s c rq zq tq" and con: "leads_to (k_fs s) uart_path n"
    and st: "kstock (heap (k_fs s)) 6" and pid: "pid (k_sched s) < 2 ^ 31 - 1"
    and us: "(user_sp (task_of s c), lu) \<in> blks (k_fs s)" "THREAD_SP_SIZE \<le> lu"
    and ks: "(sp_addr (task_of s c), la) \<in> blks (k_fs s)" "THREAD_SP_SIZE \<le> la"
    and fr: "sp_addr (task_of s c) \<le> fr" "fr < sp_addr (task_of s c) + int THREAD_SP_SIZE"
  shows "\<exists>t s'. sys_fork (sync_router d mb response junk i0 j place) fr s = Inr (int (pid (k_sched s)), s') \<and>
    kernel_ok s' c (rq @ [t]) zq tq \<and> t_pid (task_of s' t) = pid (k_sched s) \<and>
    xr (frames s' (fr + (sp_addr (task_of s' t) - sp_addr (task_of s c)))) = (xr (frames s fr))(8 := 4, 0 := 0)"
proof -
  let ?s = "upd_frame fr (\<lambda>f. f\<lparr>xr := call_regs 4 [] (xr f)\<rparr>) s" and ?p = "pid (k_sched s)"
  have h: "leads_to (k_fs ?s) uart_path n" "kstock (heap (k_fs ?s)) 6" "pid (k_sched ?s) < 2 ^ 31 - 1"
    "(user_sp (task_of ?s c), lu) \<in> blks (k_fs ?s)" "(sp_addr (task_of ?s c), la) \<in> blks (k_fs ?s)"
    "sp_addr (task_of ?s c) \<le> fr" "fr < sp_addr (task_of ?s c) + int THREAD_SP_SIZE"
    using con st pid us(1) ks(1) fr by simp_all
  have r: "xr (frames ?s fr) = (xr (frames s fr))(8 := 4)" by (auto simp: call_regs_def)
  obtain t s1 where f: "sysc_fork fr ?s = Inr (int ?p, s1)" "kernel_ok s1 c (rq @ [t]) zq tq" "t_pid (task_of s1 t) = ?p"
    "xr (frames s1 (fr + (sp_addr (task_of s1 t) - sp_addr (task_of s c)))) = (xr (frames ?s fr))(0 := 0)"
    "sp_addr (task_of s1 t) \<notin> in_use (k_fs s)"
    using fork_run [OF kernel_ok_frame [OF ok] h(1-4) us(2) h(5) ks(2) h(6,7)] unfolding Let_def upd_frame_simps(1-3) by blast
  let ?s' = "set_x0 fr (int ?p) s1"
  have "sp_addr (task_of s c) \<in> in_use (k_fs s)" using ks(1) by (force simp: in_use_def)
  then have ne: "fr + (sp_addr (task_of s1 t) - sp_addr (task_of s c)) \<noteq> fr" using f(5) by auto
  have T: "task_of ?s' x = task_of s1 x" for x by (simp add: set_x0_def)
  have p: "c_int (u64 (int ?p)) = int ?p" using pid by (simp add: u64_small c_int_small)
  have "sync_router d mb response junk i0 j place fr ?s = Inr (None, ?s')"
    using f(1) r by (simp add: sync_router_def syscall_nums c_int_def answer_def)
  then have "sys_fork (sync_router d mb response junk i0 j place) fr s = Inr (int ?p, ?s')"
    using p by (simp add: sys_fork_def svc_def with_x0_def set_x0_def)
  moreover have "kernel_ok ?s' c (rq @ [t]) zq tq" unfolding set_x0_def by (rule kernel_ok_frame [OF f(2)])
  moreover have "xr (frames ?s' (fr + (sp_addr (task_of s1 t) - sp_addr (task_of s c)))) = (xr (frames s fr))(8 := 4, 0 := 0)"
    using f(4) ne r by (simp add: set_x0_def)
  ultimately show ?thesis using f(3) by (intro exI [of _ t] exI [of _ ?s']) (simp add: T)
qed

theorem sys_fork_returns_twice_witness:
  "\<forall>d mb response. \<exists>s c i t s' fr cf. kernel_ok s c [i] [] [] \<and>
     sys_fork (sync_router d mb response 0 (\<lambda>_. 0) 0 0) fr s = Inr (3, s') \<and> kernel_ok s' c [i, t] [] [] \<and>
     t_pid (task_of s' t) = 3 \<and> xr (frames s' cf) 0 = 0"
proof (intro allI)
  fix d mb response
  obtain s c u i ls la where s: "kernel_ok s c [i] [] []" "console_at (k_fs s) u" "kstock (heap (k_fs s)) 7" "pid (k_sched s) = 3"
    "(user_sp (task_of s c), ls) \<in> blks (k_fs s)" "THREAD_SP_SIZE \<le> ls"
    "(sp_addr (task_of s c), la) \<in> blks (k_fs s)" "THREAD_SP_SIZE \<le> la"
    by (rule user_kernel)
  let ?fr = "sp_addr (task_of s c)"
  have h: "leads_to (k_fs s) uart_path u" "kstock (heap (k_fs s)) 6" "pid (k_sched s) < 2 ^ 31 - 1" "?fr \<le> ?fr"
    "?fr < sp_addr (task_of s c) + int THREAD_SP_SIZE"
    using s(2,4) kstock_mono [OF s(3)] by (simp_all add: console_at_def THREAD_SP_SIZE_def)
  obtain t s' where f: "sys_fork (sync_router d mb response 0 (\<lambda>_. 0) 0 0) ?fr s = Inr (int (pid (k_sched s)), s')"
    "kernel_ok s' c ([i] @ [t]) [] []" "t_pid (task_of s' t) = pid (k_sched s)"
    "xr (frames s' (?fr + (sp_addr (task_of s' t) - sp_addr (task_of s c)))) = (xr (frames s ?fr))(8 := 4, 0 := 0)"
    using sys_fork_returns_twice [OF s(1) h(1-3) s(5-8) h(4,5), of d mb response 0 "\<lambda>_. 0" 0 0] by blast
  have "xr (frames s' (?fr + (sp_addr (task_of s' t) - sp_addr (task_of s c)))) 0 = 0" using f(4) by simp
  then show "\<exists>s c i t s' fr cf. kernel_ok s c [i] [] [] \<and>
     sys_fork (sync_router d mb response 0 (\<lambda>_. 0) 0 0) fr s = Inr (3, s') \<and> kernel_ok s' c [i, t] [] [] \<and>
     t_pid (task_of s' t) = 3 \<and> xr (frames s' cf) 0 = 0"
    using s(1) f(1-3) [unfolded s(4)] unfolding append_Cons append_Nil by (metis of_nat_numeral)
qed

end
