(* ===== verification/FileRoundTrip.thy ===== *)
theory FileRoundTrip
  imports SyscallClaims
begin

text \<open>
  What one system call wrote to a file, another one reads: the way of the bytes through the descriptors,
  the handles, the memory file system and the allocator.
\<close>

section \<open>A file may change while the directories stay\<close>

definition same_dirs :: "vfs \<Rightarrow> vfs \<Rightarrow> bool" where
  "same_dirs s s' \<longleftrightarrow> in_use s \<subseteq> in_use s' \<and> vnodes s' = vnodes s \<and> entry_at s' = entry_at s \<and>
     mounts s' = mounts s \<and> rootfs s' = rootfs s \<and>
     (\<forall>c. c_name (comps s' c) = c_name (comps s c) \<and> c_type (comps s' c) = c_type (comps s c) \<and>
        (c_type (comps s c) = COMP_DIR \<longrightarrow> comps s' c = comps s c))"

lemma same_dirsD:
  assumes "same_dirs s s'"
  shows "in_use s \<subseteq> in_use s'" and "vnodes s' = vnodes s" and "entry_at s' = entry_at s" and "mounts s' = mounts s"
    and "rootfs s' = rootfs s" and "c_name (comps s' c) = c_name (comps s c)" and "c_type (comps s' c) = c_type (comps s c)"
    and "c_type (comps s c) = COMP_DIR \<Longrightarrow> comps s' c = comps s c"
  using assms unfolding same_dirs_def by blast+

lemma same_dirs_views:
  assumes "same_dirs s s'"
  shows "mount_target s' n = mount_target s n" and "fs_root s' = fs_root s" and "node_name s' n = node_name s n"
    and "c_type (comps s d) = COMP_DIR \<Longrightarrow> entries_of s' d = entries_of s d"
    and "c_type (comps s d) = COMP_DIR \<Longrightarrow> dir_view s' d = dir_view s d"
    and "dir_ok s d \<Longrightarrow> dir_ok s' d"
proof -
  note t = same_dirsD [OF assms]
  show "mount_target s' n = mount_target s n" using t by (simp add: mount_target_def cong: option.case_cong)
  show "fs_root s' = fs_root s" using t by (simp add: fs_root_def)
  show nm: "node_name s' n = node_name s n" for n using t(2,6) by (simp add: node_name_def cong: option.case_cong)
  show e: "entries_of s' d = entries_of s d" if "c_type (comps s d) = COMP_DIR" for d
    using t(3) t(8) [OF that] by (simp add: entries_of_def cong: option.case_cong)
  then show "dir_view s' d = dir_view s d" if "c_type (comps s d) = COMP_DIR"
    using that nm by (simp add: dir_view_def)
  show "dir_ok s' d" if d: "dir_ok s d"
  proof -
    have ct: "c_type (comps s d) = COMP_DIR" by (rule dir_okD(1) [OF d])
    show ?thesis using d t(1,2) t(8) [OF ct] e [OF ct] unfolding dir_ok_def by (auto split: option.splits) blast+
  qed
qed

lemma same_dirs_walk: "same_dirs s s' \<Longrightarrow> walk s' n cs = walk s n cs"
proof (induction cs arbitrary: n)
  case (Cons c cs)
  note t = same_dirsD [OF Cons.prems] same_dirs_views [OF Cons.prems]
  show ?case
  proof (cases "component (vnodes s n)")
    case (Some d)
    then show ?thesis using Cons t(2,7,9,13) by (cases "c_type (comps s d)") simp_all
  qed (simp add: t(2))
qed simp

lemma same_dirs_ok:
  assumes st: "same_dirs s s'" and "tree_ok s N"
  shows "tree_ok s' N"
  unfolding tree_ok_def
proof
  fix n assume "n \<in> N"
  then obtain d where d: "v_mount (vnodes s n) = None" "component (vnodes s n) = Some d"
    "c_type (comps s d) = COMP_DIR \<longrightarrow> dir_ok s d \<and> (\<forall>e \<in> set (entries_of s d). \<exists>n' \<in> N. mount_target s e = Some n')"
    using assms(2) unfolding tree_ok_def by blast
  have "c_type (comps s' d) = COMP_DIR \<longrightarrow> dir_ok s' d \<and> (\<forall>e \<in> set (entries_of s' d). \<exists>n' \<in> N. mount_target s' e = Some n')"
    using d(3) same_dirs_views(6) [OF st, of d] same_dirs_views(4) [OF st, of d]
    unfolding same_dirs_views(1) [OF st] same_dirsD(7) [OF st] by simp
  then show "v_mount (vnodes s' n) = None \<and> (\<exists>d. component (vnodes s' n) = Some d \<and> (c_type (comps s' d) = COMP_DIR \<longrightarrow>
      dir_ok s' d \<and> (\<forall>e \<in> set (entries_of s' d). \<exists>n' \<in> N. mount_target s' e = Some n')))"
    using d(1,2) unfolding same_dirsD(2) [OF st] by simp
qed

lemma leads_to_same_dirs:
  assumes "same_dirs s s'"
  shows "leads_to s cs n \<Longrightarrow> leads_to s' cs n"
  unfolding leads_to_def same_dirsD(2,7) [OF assms] same_dirs_views(2) [OF assms] same_dirs_walk [OF assms]
  using same_dirs_ok [OF assms] by blast

section \<open>Writing to an empty file\<close>

lemma write_empty_run:
  assumes f: "file_comp f s = Some (a, x)" and x: "c_len (comps s x) = 0" and pos: "f_pos (files s a) = 0"
    and al: "alloc m s = Inr (p, s\<lparr>heap := h\<rparr>)" and m: "0 < m" "m \<le> 2048"
  shows "tmpfs_write f buf m s = Inr (int m, s\<lparr>heap := h, comps := (comps s)(x := (comps s x)\<lparr>c_len := m, c_union := Some p\<rparr>),
    bytes := memcpy m p buf (bytes s), files := (files s)(a := (files s a)\<lparr>f_pos := m\<rparr>)\<rparr>)"
proof -
  have "u64 (int m) = m" "c_int m = int m" using m by (simp_all add: u64_small c_int_small)
  moreover have "grow x m s = Inr (s\<lparr>heap := h, comps := (comps s)(x := (comps s x)\<lparr>c_len := m, c_union := Some p\<rparr>)\<rparr>)"
    using x al by (simp add: grow_def upd_comp_def)
  ultimately show ?thesis using f x pos m
    by (simp add: tmpfs_write_def Let_def TMPFS_MAX_FILE_SIZE_def copy_bytes_def upd_file_def)
qed

lemma sysc_write_empty:
  assumes cur: "get_current s = Inr c" and fd: "fd_get c (int k) s = Inr (Some g)" and f: "file_comp (Some g) (k_fs s) = Some (g, x)"
    and pos: "f_pos (files (k_fs s) g) = 0" and x: "c_len (comps (k_fs s) x) = 0" "c_type (comps (k_fs s) x) = COMP_FILE"
    and ops: "fop_table (k_fs s) (ff_ops (files (k_fs s) g)) = Tmpfs" and st: "kstock (heap (k_fs s)) (Suc j)" and m: "0 < m" "m \<le> 2048"
  obtains p l t where "sysc_write d (int k) buf m s = Inr (int m, s\<lparr>k_fs := t\<rparr>)" and "kstock (heap t) j"
    and "blks t = insert (p, l) (blks (k_fs s))" and "m \<le> l" and "p \<notin> in_use (k_fs s)" and "same_dirs (k_fs s) t"
    and "comps t x = (comps (k_fs s) x)\<lparr>c_len := m, c_union := Some p\<rparr>" and "bytes t = memcpy m p buf (bytes (k_fs s))"
    and "fop_table t = fop_table (k_fs s)"
proof -
  obtain p l h where a: "alloc m (k_fs s) = Inr (p, (k_fs s)\<lparr>heap := h\<rparr>)" "kstock h j" "m \<le> l" "p \<notin> in_use (k_fs s)"
    "blocks h = insert (p, l) (blks (k_fs s))" "fst ` blocks h = insert p (in_use (k_fs s))"
    by (rule alloc_fits [OF st m(2)])
  let ?c = "(comps (k_fs s) x)\<lparr>c_len := m, c_union := Some p\<rparr>"
  let ?t = "(k_fs s)\<lparr>heap := h, comps := (comps (k_fs s))(x := ?c), bytes := memcpy m p buf (bytes (k_fs s)),
    files := (files (k_fs s))(g := (files (k_fs s) g)\<lparr>f_pos := m\<rparr>)\<rparr>"
  have "vfs_write d (Some g) buf m (k_fs s) = Inr (int m, ?t)"
    using write_empty_run [OF f x(1) pos a(1) m, of buf] ops by (simp add: vfs_write_def)
  then have "sysc_write d (int k) buf m s = Inr (int m, s\<lparr>k_fs := ?t\<rparr>)" using cur fd by (simp add: sysc_write_def on_fs_def)
  moreover have "same_dirs (k_fs s) ?t" using a(6) x(2) by (auto simp: same_dirs_def in_use_def)
  ultimately show thesis using that [of ?t p l] a(2-5) by simp
qed

text \<open>A place in a block in use is apart from a new block.\<close>

lemma apart_new_block:
  assumes ok: "heap_ok t" and new: "blks t = insert (p, l) (blks s)" "p \<notin> in_use s" "m \<le> l"
    and a: "a \<in> blks s" "{y..<y + int n} \<subseteq> block_range a"
  shows "{y..<y + int n} \<inter> {p..<p + int m} = {}"
proof -
  have "a \<in> blks t" "(p, l) \<in> blks t" using a(1) new(1) by simp_all
  moreover have "a \<noteq> (p, l)" using a(1) new(2) by (force simp: in_use_def)
  ultimately have "block_range a \<inter> block_range (p, l) = {}" using kernel_heap.blocks_apart [OF ok] by blast
  moreover have "{p..<p + int m} \<subseteq> block_range (p, l)" using new(3) by (auto simp: block_range_def)
  ultimately show ?thesis using a(2) by blast
qed

section \<open>Through two descriptors\<close>

text \<open>C7: open of a path that leads to an empty file of the memory file system, write of m bytes to it, m between 1 and
  2048, open of the path again and read of m bytes through the second descriptor: every call
  succeeds, the descriptors are the two lowest free ones, and the second buffer then holds what the
  first held at the beginning. The buffers lie in blocks in use, so the allocator keeps the file's
  data away from them.\<close>

theorem file_calls_round_trip:
  assumes ok: "kernel_ok s c rq zq tq" and path: "leads_to (k_fs s) cs n" "length (render cs) < TMPFS_MAX_PATH_LEN"
    and fd: "first_idle s c k" "k < k'" "k' < VFS_PROCESS_MAX_OPEN_FILE" "fd_table (task_of s c) ! k' = None"
      "\<forall>j < k'. j \<noteq> k \<longrightarrow> fd_table (task_of s c) ! j \<noteq> None"
    and x: "component (vnodes (k_fs s) n) = Some x" "c_len (comps (k_fs s) x) = 0"
    and ops: "fop_table (k_fs s) (f_ops (vnodes (k_fs s) n)) = Tmpfs" and st: "kstock (heap (k_fs s)) 3"
    and m: "0 < m" "m \<le> 2048"
    and buf: "b \<in> blks (k_fs s)" "{buf..<buf + int m} \<subseteq> block_range b" "b' \<in> blks (k_fs s)" "{buf'..<buf' + int m} \<subseteq> block_range b'"
  shows "\<exists>s1 s2 s3 s4. sysc_open i0 (render cs) flags s = Inr (int k, s1) \<and> sysc_write d (int k) buf m s1 = Inr (int m, s2) \<and>
    sysc_open i0 (render cs) flags' s2 = Inr (int k', s3) \<and> sysc_read d (int k') buf' m s3 = Inr (int m, s4) \<and>
    mem_bytes (bytes (k_fs s4)) buf' m = mem_bytes (bytes (k_fs s)) buf m"
proof -
  have st3: "kstock (heap (k_fs s)) (Suc (Suc (Suc 0)))" using kstock_mono [OF st] by simp
  obtain g s1 where 1: "sysc_open i0 (render cs) flags s = Inr (int k, s1)" "fd_table (task_of s1 c) = (fd_table (task_of s c))[k := Some g]"
    "files (k_fs s1) = (files (k_fs s))(g := opened (k_fs s) n flags)" "kernel_ok s1 c rq zq tq" "same_tree (k_fs s) (k_fs s1)"
    "get_current s1 = Inr c" "fd_get c (int k) s1 = Inr (Some g)" "kstock (heap (k_fs s1)) (Suc (Suc 0))" "blks (k_fs s) \<subseteq> blks (k_fs s1)"
    by (rule open_run_stock [OF ok fd(1) path st3])
  note t = same_treeD [OF 1(5)]
  have ct: "c_type (comps (k_fs s) x) = COMP_FILE" using path(1) x(1) by (auto simp: leads_to_def)
  have f1: "file_comp (Some g) (k_fs s1) = Some (g, x)" "f_pos (files (k_fs s1) g) = 0"
    "fop_table (k_fs s1) (ff_ops (files (k_fs s1) g)) = Tmpfs" "c_len (comps (k_fs s1) x) = 0" "c_type (comps (k_fs s1) x) = COMP_FILE"
    using 1(3) t(2,3,7) x ct ops by (simp_all add: file_comp_def opened_def)
  obtain p l u where 2: "sysc_write d (int k) buf m s1 = Inr (int m, s1\<lparr>k_fs := u\<rparr>)" "kstock (heap u) (Suc 0)"
    "blks u = insert (p, l) (blks (k_fs s1))" "m \<le> l" "p \<notin> in_use (k_fs s1)" "same_dirs (k_fs s1) u"
    "comps u x = (comps (k_fs s1) x)\<lparr>c_len := m, c_union := Some p\<rparr>" "bytes u = memcpy m p buf (bytes (k_fs s1))"
    "fop_table u = fop_table (k_fs s1)"
    by (rule sysc_write_empty [OF 1(6,7) f1(1,2,4,5,3) 1(8) m])
  let ?s2 = "s1\<lparr>k_fs := u\<rparr>"
  note dirs = same_dirsD [OF 2(6)]
  have "kernel_ok ?s2 c rq zq tq" using 1(4) dirs(1) by (auto simp: kernel_ok_def)
  moreover have "first_idle ?s2 c k'" using fd 1(2) by (simp add: first_idle_def task_of_def nth_list_update)
  moreover have path2: "leads_to (k_fs ?s2) cs n"
    using leads_to_same_dirs [OF 2(6) leads_to_same [OF 1(5) path(1)]] by simp
  moreover have "kstock (heap (k_fs ?s2)) (Suc 0)" using 2(2) by simp
  ultimately obtain g' s3 where 3: "sysc_open i0 (render cs) flags' ?s2 = Inr (int k', s3)"
    "files (k_fs s3) = (files (k_fs ?s2))(g' := opened (k_fs ?s2) n flags')" "same_tree (k_fs ?s2) (k_fs s3)"
    "get_current s3 = Inr c" "fd_get c (int k') s3 = Inr (Some g')"
    using open_run_stock [OF _ _ _ path(2), of ?s2 c rq zq tq k' n 0 i0 flags'] by metis
  note t3 = same_treeD [OF 3(3)]
  have f3: "file_comp (Some g') (k_fs s3) = Some (g', x)" "f_pos (files (k_fs s3) g') = 0"
    "fop_table (k_fs s3) (ff_ops (files (k_fs s3) g')) = Tmpfs" "c_union (comps (k_fs s3) x) = Some p" "c_len (comps (k_fs s3) x) = m"
    using 3(2) t3(2,3,7) t(2,3,7) dirs(2) 2(7,9) x ct ops by (simp_all add: file_comp_def opened_def)
  have apart: "{y..<y + int m} \<inter> {p..<p + int m} = {}" if y: "a \<in> blks (k_fs s)" "{y..<y + int m} \<subseteq> block_range a" for a y
    using apart_new_block [OF kstock_ok [OF 2(2)] 2(3,5,4)] 1(9) y by blast
  have "c_len (comps (k_fs s3) x) < 2 ^ 31" "m \<le> c_len (comps (k_fs s3) x)" using f3(5) m by simp_all
  from read_start_run [OF f3(1,4) this(2,1) f3(2) apart [OF buf(3,4)]] obtain v where
    v: "tmpfs_read (Some g') buf' m (k_fs s3) = Inr (int m, v)" "mem_bytes (bytes v) buf' m = take m (contents (k_fs s3) x)"
    by blast
  then have 4: "sysc_read d (int k') buf' m s3 = Inr (int m, s3\<lparr>k_fs := v\<rparr>)"
    using 3(4,5) f3(3) by (simp add: sysc_read_def vfs_read_def on_fs_def)
  have "take m (contents (k_fs s3) x) = mem_bytes (bytes u) p m"
    using f3(4,5) t3(8) by (simp add: contents_def mem_bytes_def take_map)
  also have "\<dots> = mem_bytes (bytes (k_fs s)) buf m"
    using memcpy_bytes(1) [of p m buf "bytes (k_fs s)"] apart [OF buf(1,2)] 2(8) t(8) by (simp add: Int_commute)
  finally show ?thesis using 1(1) 2(1) 3(1) 4 v(2) by (intro exI [of _ s1] exI [of _ ?s2] exI [of _ s3] exI [of _ "s3\<lparr>k_fs := v\<rparr>"]) simp
qed

text \<open>The first user task, with the RAM disk's file emptied and all files in the memory file system: it writes
  five bytes from its stack and reads them back to another place there.\<close>

theorem file_calls_round_trip_witness:
  "\<forall>d. \<exists>s s1 s2 s3 s4 buf. sysc_open 0 (render [cstr ''initramfs'', [97]]) 0 s = Inr (3, s1) \<and> sysc_write d 3 buf 5 s1 = Inr (5, s2) \<and>
     sysc_open 0 (render [cstr ''initramfs'', [97]]) 0 s2 = Inr (4, s3) \<and> sysc_read d 4 (buf + 8) 5 s3 = Inr (5, s4) \<and>
     mem_bytes (bytes (k_fs s)) buf 5 = [1, 2, 3, 4, 5] \<and> mem_bytes (bytes (k_fs s4)) (buf + 8) 5 = [1, 2, 3, 4, 5]"
proof
  fix d
  obtain s c u i ls la where s: "kernel_ok s c [i] [] []" "first_idle s c 3" "kstock (heap (k_fs s)) 7"
    "path_has (k_fs s) [cstr ''initramfs'', [97]] [1, 2, 3, 4, 5]" "(user_sp (task_of s c), ls) \<in> blks (k_fs s)" "THREAD_SP_SIZE \<le> ls"
    by (rule user_kernel)
  obtain n x where n: "leads_to (k_fs s) [cstr ''initramfs'', [97]] n" "component (vnodes (k_fs s) n) = Some x"
    using s(4) by (auto simp: path_has_def)
  then have ct: "c_type (comps (k_fs s) x) = COMP_FILE" by (auto simp: leads_to_def)
  let ?buf = "user_sp (task_of s c)"
  let ?fs = "(k_fs s)\<lparr>comps := (comps (k_fs s))(x := (comps (k_fs s) x)\<lparr>c_len := 0, c_union := None\<rparr>), fop_table := (\<lambda>_. Tmpfs),
    bytes := (\<lambda>a. word_of_int (a - ?buf + 1))\<rparr>"
  let ?t = "s\<lparr>k_fs := ?fs\<rparr>"
  let ?s = "upd_task c (\<lambda>t. t\<lparr>fd_table := (fd_table t)[4 := None]\<rparr>) ?t"
  have fs: "k_fs ?s = ?fs" by (simp add: upd_task_def)
  have "kernel_ok ?t c [i] [] []" using s(1) by (simp add: kernel_ok_def in_use_def)
  then have ok: "kernel_ok ?s c [i] [] []" by (rule kernel_ok_upd_task) simp
  have "same_dirs (k_fs s) ?fs" using ct by (auto simp: same_dirs_def in_use_def)
  then have path: "leads_to (k_fs ?s) [cstr ''initramfs'', [97]] n" unfolding fs by (rule leads_to_same_dirs [OF _ n(1)])
  have len: "length (render [cstr ''initramfs'', [97]]) < TMPFS_MAX_PATH_LEN" by (simp add: cstr_def TMPFS_MAX_PATH_LEN_def)
  have T: "fd_table (task_of ?s c) = (fd_table (task_of s c))[4 := None]" by (simp add: upd_task_def task_of_def)
  have fd: "first_idle ?s c 3" "fd_table (task_of ?s c) ! 4 = None" "\<forall>j < 4. j \<noteq> 3 \<longrightarrow> fd_table (task_of ?s c) ! j \<noteq> None"
    using s(2) unfolding first_idle_def T by (simp_all add: VFS_PROCESS_MAX_OPEN_FILE_def nth_list_update)
  have st: "kstock (heap (k_fs ?s)) 3" unfolding fs using kstock_mono [OF s(3)] by simp
  have buf: "(?buf, ls) \<in> blks (k_fs ?s)" "{?buf..<?buf + int 5} \<subseteq> block_range (?buf, ls)"
    "{?buf + 8..<?buf + 8 + int 5} \<subseteq> block_range (?buf, ls)"
    using s(5,6) unfolding fs by (auto simp: block_range_def THREAD_SP_SIZE_def)
  have x: "component (vnodes (k_fs ?s) n) = Some x" "c_len (comps (k_fs ?s) x) = 0" "fop_table (k_fs ?s) (f_ops (vnodes (k_fs ?s) n)) = Tmpfs"
    unfolding fs using n(2) by simp_all
  have k: "(3 :: nat) < 4" "4 < VFS_PROCESS_MAX_OPEN_FILE" "(0 :: nat) < 5" "(5 :: nat) \<le> 2048" by (simp_all add: VFS_PROCESS_MAX_OPEN_FILE_def)
  have b: "mem_bytes (bytes (k_fs ?s)) ?buf 5 = [1, 2, 3, 4, 5]" unfolding fs by (simp add: mem_bytes_def upt_rec)
  obtain s1 s2 s3 s4 where r: "sysc_open 0 (render [cstr ''initramfs'', [97]]) 0 ?s = Inr (int 3, s1)" "sysc_write d (int 3) ?buf 5 s1 = Inr (int 5, s2)"
    "sysc_open 0 (render [cstr ''initramfs'', [97]]) 0 s2 = Inr (int 4, s3)" "sysc_read d (int 4) (?buf + 8) 5 s3 = Inr (int 5, s4)"
    "mem_bytes (bytes (k_fs s4)) (?buf + 8) 5 = mem_bytes (bytes (k_fs ?s)) ?buf 5"
    using file_calls_round_trip [OF ok path len fd(1) k(1,2) fd(2,3) x st k(3,4) buf(1,2) buf(1,3), of 0 0 d 0] by blast
  show "\<exists>s s1 s2 s3 s4 buf. sysc_open 0 (render [cstr ''initramfs'', [97]]) 0 s = Inr (3, s1) \<and> sysc_write d 3 buf 5 s1 = Inr (5, s2) \<and>
     sysc_open 0 (render [cstr ''initramfs'', [97]]) 0 s2 = Inr (4, s3) \<and> sysc_read d 4 (buf + 8) 5 s3 = Inr (5, s4) \<and>
     mem_bytes (bytes (k_fs s)) buf 5 = [1, 2, 3, 4, 5] \<and> mem_bytes (bytes (k_fs s4)) (buf + 8) 5 = [1, 2, 3, 4, 5]"
    by (intro exI conjI) (rule r [unfolded of_nat_numeral b] b)+
qed

end
