(* ===== verification/Heartbeat.thy ===== *)
theory Heartbeat
  imports TimerClaims SyscallClaims
begin

text \<open>
  The timer that drives the scheduler: \<open>idle_thread\<close> starts it, and its callback \<open>normal_timer\<close>
  (\<open>lib/timer.c\<close>) starts it anew and calls \<open>schedule\<close>. That call is inside \<open>pop_timer\<close>, on the kernel stack of
  the interrupted task, and ends when this task runs again, so \<open>pop_timer\<close> is cut at its callback:
  \<open>interrupted\<close> keeps the local variable \<open>timer\<close> of each task that is in it. The timers and the
  kernel use one allocator, the one of the file layer; \<open>t_heap\<close> is a copy for the time of an operation.
\<close>

section \<open>Timers and kernel together\<close>

text \<open>The function \<open>normal_timer\<close>, or any other place.\<close>

datatype callback = Normal_timer | Callback_at addr

record machine =
  m_kernel :: kernel
  m_timers :: "callback timers"
  interrupted :: "addr \<Rightarrow> addr option"

definition shared_timers :: "machine \<Rightarrow> callback timers" where
  "shared_timers m = (m_timers m)\<lparr>t_heap := heap (k_fs (m_kernel m))\<rparr>"

definition on_timers :: "(callback timers \<Rightarrow> callback timers res) \<Rightarrow> machine \<Rightarrow> machine res" where
  "on_timers f m =
     rbind (f (shared_timers m)) (\<lambda>t. Inr (m\<lparr>m_timers := t, m_kernel := (m_kernel m)\<lparr>k_fs := (k_fs (m_kernel m))\<lparr>heap := t_heap t\<rparr>\<rparr>\<rparr>))"

text \<open>The interrupt that \<open>schedule\<close> masks before it starts the shell is masked here, as \<open>schedule_k\<close> has no timers.
  \<open>add_timer(normal_timer, "normal_timer", get_timer_freq()>>5)\<close>; \<open>now\<close> and \<open>freq\<close> are what the counter registers
  hold.\<close>

definition start_normal_timer :: "nat \<Rightarrow> nat \<Rightarrow> machine \<Rightarrow> machine res" where
  "start_normal_timer now freq = on_timers (add_timer now Normal_timer (cstr ''normal_timer'') (c_int (freq div 2 ^ 5)))"

definition normal_timer :: "nat \<Rightarrow> nat \<Rightarrow> machine \<Rightarrow> (outcome \<times> machine) res" where
  "normal_timer now freq m =
     rbind (start_normal_timer now freq m) (\<lambda>m.
     rbind (schedule_k (m_kernel m)) (\<lambda>(r, k).
     Inr (r, m\<lparr>m_kernel := k, m_timers := (if r = Shell then core_timer_interrupt_disable (m_timers m) else m_timers m)\<rparr>)))"

text \<open>\<open>idle_thread\<close> up to its loop, which calls \<open>schedule\<close> and \<open>kill_zombies\<close> in turn.\<close>

definition idle_thread :: "nat \<Rightarrow> nat \<Rightarrow> machine \<Rightarrow> machine res" where
  "idle_thread now freq m = rbind (idle_start (m_kernel m)) (\<lambda>k. start_normal_timer now freq (m\<lparr>m_kernel := k\<rparr>))"

section \<open>The interrupt of the core timer\<close>

text \<open>\<open>pop_timer\<close> before and after its callback.\<close>

definition pop_first :: "'cb timers \<Rightarrow> (addr \<times> 'cb timers) res" where
  "pop_first s = rbind (deref (timer_queue s)) (\<lambda>a. Inr (a, s\<lparr>timer_queue := tm_next (timer s a)\<rparr>))"

definition pop_rest :: "nat \<Rightarrow> addr \<Rightarrow> 'cb timers \<Rightarrow> 'cb timers res" where
  "pop_rest now a s =
     (let s = (case timer_queue s of
                 None \<Rightarrow> core_timer_interrupt_disable s
               | Some n \<Rightarrow> core_timer_interrupt_enable
                   (set_core_timer_interrupt (u64 (int (expired_time (timer s n)) - int now)) s)) in
      rbind (kfree a (t_heap s)) (\<lambda>h. Inr (s\<lparr>t_heap := h\<rparr>)))"

lemma pop_timer_parts:
  "pop_timer run now s =
     rbind (pop_first s) (\<lambda>(a, t). rbind (run (call_back (timer s a)) (t_msg (timer s a)) t) (pop_rest now a))"
  by (cases "timer_queue s") (simp_all add: pop_timer_def pop_first_def pop_rest_def [abs_def] Let_def)

text \<open>The way from \<open>irq_router\<close> to the end of the callback, or to the switch in it; \<open>run\<close> is what a callback
  other than \<open>normal_timer\<close> does.\<close>

definition timer_interrupt :: "(addr \<Rightarrow> byte list \<Rightarrow> machine \<Rightarrow> (outcome \<times> machine) res) \<Rightarrow> nat \<Rightarrow> nat \<Rightarrow> machine \<Rightarrow>
    (outcome \<times> machine) res" where
  "timer_interrupt run now freq m =
     rbind (get_current (m_kernel m)) (\<lambda>cur.
     rbind (pop_first (core_timer_interrupt_disable (m_timers m))) (\<lambda>(a, t).
     let m = m\<lparr>m_timers := t, interrupted := (interrupted m)(cur := Some a)\<rparr> in
     case call_back (timer t a) of
       Normal_timer \<Rightarrow> normal_timer now freq m
     | Callback_at p \<Rightarrow> run p (t_msg (timer t a)) m))"

text \<open>The task that is current goes on after the callback of its interrupt, if it is in one.\<close>

definition timer_return :: "nat \<Rightarrow> machine \<Rightarrow> machine res" where
  "timer_return now m =
     rbind (get_current (m_kernel m)) (\<lambda>cur.
     case interrupted m cur of
       None \<Rightarrow> Inr m
     | Some a \<Rightarrow> rbind (on_timers (pop_rest now a) m) (\<lambda>m. Inr (m\<lparr>interrupted := (interrupted m)(cur := None)\<rparr>)))"

section \<open>Well-formed states\<close>

definition machine_ok :: "machine \<Rightarrow> addr \<Rightarrow> addr list \<Rightarrow> addr list \<Rightarrow> addr list \<Rightarrow> addr list \<Rightarrow> bool" where
  "machine_ok m c rq zq tq q \<longleftrightarrow> kernel_ok (m_kernel m) c rq zq tq \<and> timers_ok (shared_timers m) q"

abbreviation m_blks :: "machine \<Rightarrow> (addr \<times> nat) set" where
  "m_blks m \<equiv> blks (k_fs (m_kernel m))"

lemma machine_okD:
  assumes "machine_ok m c rq zq tq q"
  shows "kernel_ok (m_kernel m) c rq zq tq" and "timers_ok (shared_timers m) q" and "get_current (m_kernel m) = Inr c"
  using assms kernel_okD(3) unfolding machine_ok_def by blast+

lemma kernel_ok_heap:
  assumes "kernel_ok s c rq zq tq" and "set (c # rq @ zq @ tq) \<subseteq> fst ` blocks h"
  shows "kernel_ok (s\<lparr>k_fs := (k_fs s)\<lparr>heap := h\<rparr>\<rparr>) c rq zq tq"
  using assms by (simp add: kernel_ok_def in_use_def)

text \<open>Whether adding a timer leaves the interrupt unmasked.\<close>

lemma add_timer_armed:
  assumes ok: "timers_ok s q" and run: "kmalloc SIZEOF_timer_list (t_heap s) = Inr (a, h)" and len: "length msg < 100"
    and add: "add_timer now cb msg time s = Inr s'"
  shows "irq_enabled s' \<longleftrightarrow> irq_enabled s \<or> q = [] \<or> u64 (time + int now) < expired_time (timer s (hd q))"
    and "t_heap s' = h"
proof -
  have D: "chain (tnexts s) (timer_queue s) q" "alloc_ok (t_heap s)" "set q \<subseteq> fst ` blocks (t_heap s)"
    using ok by (simp_all add: timers_ok_def)
  obtain k where k: "a \<notin> fst ` blocks (t_heap s)"
    by (rule kernel_heap.alloc_fresh [OF D(2) _ run]) (simp add: SIZEOF_timer_list_def)
  then have a: "a \<notin> set q" using D(3) by blast
  show "irq_enabled s' \<longleftrightarrow> irq_enabled s \<or> q = [] \<or> u64 (time + int now) < expired_time (timer s (hd q))"
    using add run len D(1) a by (cases q)
      (auto simp: add_timer_def insert_timer_def link_timer_def core_timer_interrupt_enable_def set_core_timer_interrupt_def
        rbind_eq_Inr Let_def split: if_splits)
  show "t_heap s' = h"
    using add run len by (auto simp: add_timer_def insert_timer_def link_timer_def core_timer_interrupt_enable_def
        set_core_timer_interrupt_def rbind_eq_Inr Let_def split: if_splits option.splits)
qed

text \<open>Starting the timer: one new timer, nothing else in use changes.\<close>

lemma start_normal_timer_run:
  fixes now freq :: nat
  assumes ok: "machine_ok m c rq zq tq q" and st: "kstock (heap (k_fs (m_kernel m))) (Suc j)"
  defines "t \<equiv> u64 (c_int (freq div 2 ^ 5) + int now)" and "e \<equiv> \<lambda>b. expired_time (timer (m_timers m) b)"
  obtains b k m' where "start_normal_timer now freq m = Inr m'" and "machine_ok m' c rq zq tq (placed e t b q)"
    and "b \<notin> fst ` m_blks m" and "m_blks m' = insert (b, k) (m_blks m)" and "kstock (heap (k_fs (m_kernel m'))) j"
    and "expired_time (timer (m_timers m') b) = t" and "call_back (timer (m_timers m') b) = Normal_timer"
    and "\<forall>x \<in> set q. expired_time (timer (m_timers m') x) = e x \<and> call_back (timer (m_timers m') x) = call_back (timer (m_timers m) x)"
    and "irq_enabled (m_timers m') \<longleftrightarrow> irq_enabled (m_timers m) \<or> q = [] \<or> t < e (hd q)"
    and "k_sched (m_kernel m') = k_sched (m_kernel m)" and "interrupted m' = interrupted m"
proof -
  note D = machine_okD [OF ok]
  have heap [simp]: "t_heap (shared_timers m) = heap (k_fs (m_kernel m))" by (simp add: shared_timers_def)
  obtain b h where k: "kmalloc SIZEOF_timer_list (heap (k_fs (m_kernel m))) = Inr (b, h)" "kstock h j"
    using kmalloc_stock [OF st, of SIZEOF_timer_list] by (auto simp: SIZEOF_timer_list_def)
  obtain l where l: "blocks h = insert (b, l) (m_blks m)" "b \<notin> fst ` m_blks m"
    by (rule kernel_heap.alloc_fresh [OF kstock_ok [OF st] _ k(1)]) (simp add: SIZEOF_timer_list_def)
  have len: "length (cstr ''normal_timer'') < 100" by (simp add: cstr_def)
  have al: "kmalloc SIZEOF_timer_list (t_heap (shared_timers m)) = Inr (b, h)" using k(1) by simp
  obtain s' where s': "add_timer now Normal_timer (cstr ''normal_timer'') (c_int (freq div 2 ^ 5)) (shared_timers m) = Inr s'"
    "timers_ok s' (placed (\<lambda>b. expired_time (timer (shared_timers m) b)) t b q)"
    "expired_time (timer s' b) = t" "call_back (timer s' b) = Normal_timer"
    "\<forall>x \<in> set q. expired_time (timer s' x) = expired_time (timer (shared_timers m) x) \<and>
       call_back (timer s' x) = call_back (timer (shared_timers m) x)"
    using add_timer_run [OF D(2) len al, of now Normal_timer "c_int (freq div 2 ^ 5)"] unfolding t_def by blast
  note A = add_timer_armed [OF D(2) al len s'(1)]
  let ?m = "m\<lparr>m_timers := s', m_kernel := (m_kernel m)\<lparr>k_fs := (k_fs (m_kernel m))\<lparr>heap := h\<rparr>\<rparr>\<rparr>"
  have tm: "timer (shared_timers m) = timer (m_timers m)" by (simp add: shared_timers_def)
  have "start_normal_timer now freq m = Inr ?m" using s'(1) A(2) by (simp add: start_normal_timer_def on_timers_def)
  moreover have "shared_timers ?m = s'" using A(2) by (simp add: shared_timers_def)
  moreover have "set (c # rq @ zq @ tq) \<subseteq> fst ` blocks h" using kernel_okD(2) [OF D(1)] unfolding in_use_def l(1) by blast
  then have "kernel_ok (m_kernel ?m) c rq zq tq" using kernel_ok_heap [OF D(1)] by simp
  moreover have "irq_enabled (shared_timers m) = irq_enabled (m_timers m)" by (simp add: shared_timers_def)
  ultimately show thesis
    using that [of ?m b l] s'(2-5) A(1) l k(2) unfolding machine_ok_def tm t_def e_def by simp
qed

section \<open>A heartbeat\<close>

lemma pop_first_ok:
  fixes f :: "addr \<Rightarrow> addr option"
  assumes "machine_ok m c rq zq tq (a # q)"
  defines "m' \<equiv> m\<lparr>m_timers := (core_timer_interrupt_disable (m_timers m))\<lparr>timer_queue := tm_next (timer (m_timers m) a)\<rparr>,
    interrupted := f\<rparr>"
  shows "pop_first (core_timer_interrupt_disable (m_timers m)) = Inr (a, m_timers m')" and "machine_ok m' c rq zq tq q"
  using machine_okD(1,2) [OF assms(1)]
  by (simp_all add: m'_def machine_ok_def timers_ok_def shared_timers_def pop_first_def core_timer_interrupt_disable_def)

lemma normal_timer_run:
  assumes ok: "machine_ok m c (t # rq) zq tq q" and st: "kstock (heap (k_fs (m_kernel m))) (Suc j)"
    and run: "t_state (task_of (m_kernel m) c) \<noteq> EXIT" and e: "e = u64 (c_int (freq div 2 ^ 5) + int now)"
  obtains b k m' where "normal_timer now freq m = Inr (Switched, m')"
    and "machine_ok m' t (rq @ [c]) zq tq (placed (\<lambda>x. expired_time (timer (m_timers m) x)) e b q)"
    and "b \<notin> fst ` m_blks m" and "m_blks m' = insert (b, k) (m_blks m)" and "kstock (heap (k_fs (m_kernel m'))) j"
    and "call_back (timer (m_timers m') b) = Normal_timer" and "expired_time (timer (m_timers m') b) = e"
    and "irq_enabled (m_timers m') \<longleftrightarrow> irq_enabled (m_timers m) \<or> q = [] \<or> e < expired_time (timer (m_timers m) (hd q))"
    and "interrupted m' = interrupted m" and "\<forall>x. t_state (task_of (m_kernel m') x) = t_state (task_of (m_kernel m) x)"
proof -
  obtain b k m1 where 1: "start_normal_timer now freq m = Inr m1"
    "machine_ok m1 c (t # rq) zq tq (placed (\<lambda>x. expired_time (timer (m_timers m) x)) e b q)"
    "b \<notin> fst ` m_blks m" "m_blks m1 = insert (b, k) (m_blks m)" "kstock (heap (k_fs (m_kernel m1))) j"
    "expired_time (timer (m_timers m1) b) = e" "call_back (timer (m_timers m1) b) = Normal_timer"
    "irq_enabled (m_timers m1) \<longleftrightarrow> irq_enabled (m_timers m) \<or> q = [] \<or> e < expired_time (timer (m_timers m) (hd q))"
    "k_sched (m_kernel m1) = k_sched (m_kernel m)" "interrupted m1 = interrupted m"
    by (rule start_normal_timer_run [OF ok st, of now freq, folded e])
  note K = kernel_okD [OF machine_okD(1) [OF 1(2)]]
  have "t_state (tasks (k_sched (m_kernel m1)) c) \<noteq> EXIT" using run 1(9) by (simp add: task_of_def)
  then obtain k' where k': "schedule (k_sched (m_kernel m1)) = Inr (Switched, k')" "sched_ok k' t (rq @ [c]) zq tq"
    "only_next (insert c (set rq)) (tasks (k_sched (m_kernel m1))) (tasks k')"
    using schedule_next [OF K(1)] by blast
  let ?m = "m1\<lparr>m_kernel := (m_kernel m1)\<lparr>k_sched := k'\<rparr>\<rparr>"
  have "normal_timer now freq m = Inr (Switched, ?m)" using 1(1) k'(1) by (simp add: normal_timer_def schedule_k_def)
  moreover have "machine_ok ?m t (rq @ [c]) zq tq (placed (\<lambda>x. expired_time (timer (m_timers m) x)) e b q)"
    using k'(2) K(2) machine_okD(2) [OF 1(2)] by (auto simp: machine_ok_def kernel_ok_def shared_timers_def)
  moreover have "\<forall>x. t_state (task_of (m_kernel ?m) x) = t_state (task_of (m_kernel m) x)"
    using only_next_fields [OF k'(3)] 1(9) by (simp add: task_of_def)
  ultimately show thesis using that [of ?m b k] 1(3-8,10) by simp
qed

text \<open>The task goes on after its interrupt: the timer is set for the first of the queue, and the block of the one
  that had expired is given back.\<close>

lemma timer_return_run:
  assumes ok: "machine_ok m c rq zq tq q" and a: "interrupted m c = Some a" "a \<notin> set q" "a \<notin> set (c # rq @ zq @ tq)"
    and blk: "(a, k) \<in> m_blks m" "low_addr a"
  obtains m' where "timer_return now m = Inr m'" and "machine_ok m' c rq zq tq q" and "m_blks m' = m_blks m - {(a, k)}"
    and "interrupted m' = (interrupted m)(c := None)" and "irq_enabled (m_timers m') \<longleftrightarrow> q \<noteq> []"
proof -
  note D = machine_okD [OF ok]
  have T: "alloc_ok (heap (k_fs (m_kernel m)))" "chain (tnexts (m_timers m)) (timer_queue (m_timers m)) q" "set q \<subseteq> fst ` m_blks m"
    using D(2) by (simp_all add: timers_ok_def shared_timers_def)
  obtain h where h: "kfree a (heap (k_fs (m_kernel m))) = Inr h" "alloc_ok h" "blocks h = m_blks m - {(a, k)}"
    using kernel_heap.release_block [OF T(1) blk] by blast
  obtain t where t: "pop_rest now a (shared_timers m) = Inr t" "t_heap t = h" "timer t = timer (m_timers m)"
    "timer_queue t = timer_queue (m_timers m)" "irq_enabled t \<longleftrightarrow> q \<noteq> []"
    using h(1) T(2) by (cases q) (simp_all add: pop_rest_def Let_def shared_timers_def core_timer_interrupt_disable_def
        core_timer_interrupt_enable_def set_core_timer_interrupt_def)
  let ?m = "m\<lparr>m_timers := t, m_kernel := (m_kernel m)\<lparr>k_fs := (k_fs (m_kernel m))\<lparr>heap := h\<rparr>\<rparr>, interrupted := (interrupted m)(c := None)\<rparr>"
  have keep: "x \<in> fst ` blocks h" if "x \<in> fst ` m_blks m" "x \<noteq> a" for x using that h(3) by force
  have "timer_return now m = Inr ?m" using D(3) a(1) t(1,2) by (simp add: timer_return_def on_timers_def)
  moreover have "set (c # rq @ zq @ tq) \<subseteq> fst ` blocks h" using kernel_okD(2) [OF D(1)] a(3) keep unfolding in_use_def by blast
  then have "kernel_ok (m_kernel ?m) c rq zq tq" using kernel_ok_heap [OF D(1)] by simp
  moreover have "set q \<subseteq> fst ` blocks h" using T(3) a(2) keep by blast
  then have "timers_ok (shared_timers ?m) q" using h(2) t(2-4) T(2) by (simp add: timers_ok_def shared_timers_def)
  ultimately show thesis using that [of ?m] h(3) t(5) by (simp add: machine_ok_def)
qed

text \<open>The interrupt, up to the switch.\<close>

lemma timer_interrupt_run:
  assumes ok: "machine_ok m c (t # rq) zq tq (a # q)" and st: "kstock (heap (k_fs (m_kernel m))) (Suc j)"
    and run: "t_state (task_of (m_kernel m) c) \<noteq> EXIT" and cb: "call_back (timer (m_timers m) a) = Normal_timer"
    and e: "e = u64 (c_int (freq div 2 ^ 5) + int now)"
  obtains b k m' where "timer_interrupt run now freq m = Inr (Switched, m')"
    and "machine_ok m' t (rq @ [c]) zq tq (placed (\<lambda>x. expired_time (timer (m_timers m) x)) e b q)"
    and "b \<notin> fst ` m_blks m" and "m_blks m' = insert (b, k) (m_blks m)" and "kstock (heap (k_fs (m_kernel m'))) j"
    and "call_back (timer (m_timers m') b) = Normal_timer" and "expired_time (timer (m_timers m') b) = e"
    and "irq_enabled (m_timers m') \<longleftrightarrow> q = [] \<or> e < expired_time (timer (m_timers m) (hd q))"
    and "interrupted m' = (interrupted m)(c := Some a)" and "\<forall>x. t_state (task_of (m_kernel m') x) = t_state (task_of (m_kernel m) x)"
proof -
  note P = pop_first_ok [OF ok, where f = "(interrupted m)(c := Some a)"]
  let ?m = "m\<lparr>m_timers := (core_timer_interrupt_disable (m_timers m))\<lparr>timer_queue := tm_next (timer (m_timers m) a)\<rparr>,
    interrupted := (interrupted m)(c := Some a)\<rparr>"
  have i: "timer (m_timers ?m) = timer (m_timers m)" "m_kernel ?m = m_kernel m" "interrupted ?m = (interrupted m)(c := Some a)"
    "\<not> irq_enabled (m_timers ?m)" by (simp_all add: core_timer_interrupt_disable_def)
  have "timer_interrupt run now freq m = normal_timer now freq ?m"
    using machine_okD(3) [OF ok] P(1) cb i(1) by (simp add: timer_interrupt_def Let_def)
  moreover have "kstock (heap (k_fs (m_kernel ?m))) (Suc j)" "t_state (task_of (m_kernel ?m) c) \<noteq> EXIT" using st run by simp_all
  note N = normal_timer_run [OF P(2) this e, unfolded i]
  ultimately show thesis using N that i(4) by (metis (no_types, lifting))
qed

text \<open>A heartbeat: the interrupt, and then the task that runs ends its own interrupt, if it was in one.\<close>

definition heartbeat :: "(addr \<Rightarrow> byte list \<Rightarrow> machine \<Rightarrow> (outcome \<times> machine) res) \<Rightarrow> nat \<Rightarrow> nat \<times> nat \<Rightarrow> machine \<Rightarrow> machine res" where
  "heartbeat run freq n m = rbind (timer_interrupt run (fst n) freq m) (\<lambda>(r, m). timer_return (snd n) m)"

primrec heartbeats :: "(addr \<Rightarrow> byte list \<Rightarrow> machine \<Rightarrow> (outcome \<times> machine) res) \<Rightarrow> nat \<Rightarrow> (nat \<times> nat) list \<Rightarrow> machine \<Rightarrow> machine res" where
  "heartbeats run freq [] m = Inr m"
| "heartbeats run freq (n # ns) m = rbind (heartbeat run freq n m) (heartbeats run freq ns)"

lemma heartbeats_run:
  assumes "machine_ok m c rq zq tq [a]" and "call_back (timer (m_timers m) a) = Normal_timer"
    and "\<forall>t \<in> set (c # rq). t_state (task_of (m_kernel m) t) \<noteq> EXIT" and "length ns \<le> length rq"
    and "\<forall>t \<in> set (take (length ns) rq). interrupted m t = None" and "kstock (heap (k_fs (m_kernel m))) (length ns)"
  shows "\<exists>m' b. heartbeats run freq ns m = Inr m' \<and>
    machine_ok m' (hd (rotate (length ns) (c # rq))) (tl (rotate (length ns) (c # rq))) zq tq [b] \<and>
    call_back (timer (m_timers m') b) = Normal_timer \<and> (ns \<noteq> [] \<longrightarrow> irq_enabled (m_timers m'))"
  using assms
proof (induction ns arbitrary: m c rq a)
  case Nil
  then show ?case by auto
next
  case (Cons n ns)
  obtain t rs where rq: "rq = t # rs" using Cons.prems(4) by (cases rq) auto
  have st: "kstock (heap (k_fs (m_kernel m))) (Suc (length ns))" using Cons.prems(6) by simp
  have "t_state (task_of (m_kernel m) c) \<noteq> EXIT" using Cons.prems(3) by simp
  note T = timer_interrupt_run [OF Cons.prems(1) [unfolded rq] st this Cons.prems(2) refl, where run = run and freq = freq and now = "fst n",
      unfolded placed_def list.case]
  obtain b k m1 where 1: "timer_interrupt run (fst n) freq m = Inr (Switched, m1)" "machine_ok m1 t (rs @ [c]) zq tq [b]"
    "kstock (heap (k_fs (m_kernel m1))) (length ns)" "call_back (timer (m_timers m1) b) = Normal_timer"
    "irq_enabled (m_timers m1)" "interrupted m1 = (interrupted m)(c := Some a)"
    "\<forall>x. t_state (task_of (m_kernel m1) x) = t_state (task_of (m_kernel m) x)"
    by (rule T; rule that; simp)
  have dist: "distinct (c # rq)" using sched_okD(6) [OF kernel_okD(1) [OF machine_okD(1) [OF Cons.prems(1)]]] by simp
  have none: "interrupted m1 x = None" if "x \<in> set (take (length (n # ns)) rq)" for x
    using Cons.prems(5) 1(6) that dist by (auto dest: in_set_takeD)
  have "interrupted m1 t = None" by (rule none) (simp add: rq)
  then have ret: "timer_return (snd n) m1 = Inr m1" using machine_okD(3) [OF 1(2)] by (simp add: timer_return_def)
  have len: "length ns \<le> length rs" using Cons.prems(4) rq by simp
  have "\<exists>m' b. heartbeats run freq ns m1 = Inr m' \<and>
    machine_ok m' (hd (rotate (length ns) (t # rs @ [c]))) (tl (rotate (length ns) (t # rs @ [c]))) zq tq [b] \<and>
    call_back (timer (m_timers m') b) = Normal_timer \<and> (ns \<noteq> [] \<longrightarrow> irq_enabled (m_timers m'))"
  proof (rule Cons.IH [OF 1(2,4) _ _ _ 1(3)])
    show "\<forall>x \<in> set (t # rs @ [c]). t_state (task_of (m_kernel m1) x) \<noteq> EXIT" using Cons.prems(3) 1(7) rq by auto
    show "length ns \<le> length (rs @ [c])" using len by simp
    show "\<forall>x \<in> set (take (length ns) (rs @ [c])). interrupted m1 x = None" using none len rq by simp
  qed
  then show ?case using 1(1,5) ret rq by (cases ns) (auto simp: heartbeat_def rotate1_rotate_swap rotate_Suc)
qed

section \<open>Properties\<close>

text \<open>C13: The interrupt of the core timer, with the normal timer at the head of the timer queue, in a task that
  does not exit: the normal timer is queued anew, in a block of its own, for the time now plus 1/32
  second, and the interrupted task changes places with the first task of the run queue, going to its
  end. The interrupt is unmasked afterwards exactly when the new timer is the head of the queue. When
  another timer is before it, the interrupt stays masked until the code behind the callback runs, so
  a task that starts now is not interrupted by any timer.\<close>

theorem timer_interrupt_correct:
  assumes "machine_ok m c (t # rq) zq tq (a # q)" and "kstock (heap (k_fs (m_kernel m))) 1"
    and "t_state (task_of (m_kernel m) c) \<noteq> EXIT" and "call_back (timer (m_timers m) a) = Normal_timer"
    and "e = u64 (c_int (freq div 2 ^ 5) + int now)"
  shows "\<exists>b k m'. timer_interrupt run now freq m = Inr (Switched, m') \<and>
    machine_ok m' t (rq @ [c]) zq tq (placed (\<lambda>x. expired_time (timer (m_timers m) x)) e b q) \<and>
    m_blks m' = insert (b, k) (m_blks m) \<and> b \<notin> fst ` m_blks m \<and> call_back (timer (m_timers m') b) = Normal_timer \<and>
    expired_time (timer (m_timers m') b) = e \<and> interrupted m' = (interrupted m)(c := Some a) \<and>
    (irq_enabled (m_timers m') \<longleftrightarrow> q = [] \<or> e < expired_time (timer (m_timers m) (hd q)))"
proof -
  have "kstock (heap (k_fs (m_kernel m))) (Suc 0)" using assms(2) by simp
  note T = timer_interrupt_run [OF assms(1) this assms(3-5), where run = run]
  show ?thesis by (rule T) blast
qed

text \<open>C12: Heartbeats alone give every task the processor: in a state with only the normal timer queued, whose
  tasks do not exit and where no task of the run queue is in an interrupt, after any number n of
  heartbeats up to the length of the run queue the current task is the n-th of the queue, the queues
  are rotated by n, the normal timer is the only one queued, and its interrupt is unmasked.\<close>

theorem heartbeats_round_robin:
  assumes "machine_ok m c rq zq tq [a]" and "call_back (timer (m_timers m) a) = Normal_timer"
    and "\<forall>t \<in> set (c # rq). t_state (task_of (m_kernel m) t) \<noteq> EXIT" and "\<forall>t \<in> set rq. interrupted m t = None"
    and "0 < length ns" and "length ns \<le> length rq" and "kstock (heap (k_fs (m_kernel m))) (length ns)"
  shows "\<exists>m' b. heartbeats run freq ns m = Inr m' \<and> get_current (m_kernel m') = Inr (rq ! (length ns - 1)) \<and>
    machine_ok m' (hd (rotate (length ns) (c # rq))) (tl (rotate (length ns) (c # rq))) zq tq [b] \<and>
    call_back (timer (m_timers m') b) = Normal_timer \<and> irq_enabled (m_timers m')"
proof -
  have "\<forall>t \<in> set (take (length ns) rq). interrupted m t = None" using assms(4) by (auto dest: in_set_takeD)
  from heartbeats_run [OF assms(1-3,6) this assms(7), of run freq] obtain m' b where
    r: "heartbeats run freq ns m = Inr m'"
    "machine_ok m' (hd (rotate (length ns) (c # rq))) (tl (rotate (length ns) (c # rq))) zq tq [b]"
    "call_back (timer (m_timers m') b) = Normal_timer" "ns \<noteq> [] \<longrightarrow> irq_enabled (m_timers m')"
    by blast
  have "hd (rotate (length ns) (c # rq)) = (c # rq) ! (length ns mod length (c # rq))" by (rule hd_rotate_conv_nth) simp
  then have "hd (rotate (length ns) (c # rq)) = rq ! (length ns - 1)" using assms(5,6) by (simp add: nth_Cons')
  then show ?thesis using r machine_okD(3) [OF r(2)] assms(5) by auto
qed

text \<open>The first user task and the idle task, neither of which exits, with the normal timer started.\<close>

lemma ticking_machine:
  obtains m c i a where "machine_ok m c [i] [] [] [a]" and "call_back (timer (m_timers m) a) = Normal_timer"
    and "\<forall>t \<in> set [c, i]. t_state (task_of (m_kernel m) t) \<noteq> EXIT" and "interrupted m = (\<lambda>_. None)"
    and "kstock (heap (k_fs (m_kernel m))) 6"
proof -
  obtain s c u i ls la where s: "kernel_ok s c [i] [] []" "kstock (heap (k_fs s)) 7"
    by (rule user_kernel)
  let ?run = "\<lambda>t. upd_task t (\<lambda>x. x\<lparr>t_state := RUNNING\<rparr>)"
  let ?k = "?run c (?run i s)"
  let ?t = "\<lparr>t_heap = heap (k_fs s), timer = (\<lambda>_. \<lparr>expired_time = 0, call_back = Normal_timer, t_msg = [], tm_next = None\<rparr>),
     timer_queue = None, irq_enabled = False, tval = 0\<rparr>"
  let ?m = "\<lparr>m_kernel = ?k, m_timers = ?t, interrupted = (\<lambda>_. None)\<rparr>"
  have "kernel_ok (?run i s) c [i] [] []" by (rule kernel_ok_upd_task [OF s(1)]) simp
  then have "kernel_ok ?k c [i] [] []" by (rule kernel_ok_upd_task) simp
  then have ok: "machine_ok ?m c [i] [] [] []"
    using kstock_ok [OF s(2)] by (simp add: machine_ok_def timers_ok_def shared_timers_def)
  have st: "kstock (heap (k_fs (m_kernel ?m))) (Suc 6)" using s(2) by simp
  obtain b m' where m': "machine_ok m' c [i] [] [] [b]" "kstock (heap (k_fs (m_kernel m'))) 6"
    "call_back (timer (m_timers m') b) = Normal_timer" "k_sched (m_kernel m') = k_sched ?k" "interrupted m' = (\<lambda>_. None)"
    by (rule start_normal_timer_run [OF ok st, of 0 0, unfolded placed_def list.case]; rule that; simp)
  have "\<forall>t \<in> set [c, i]. t_state (task_of (m_kernel m') t) \<noteq> EXIT" by (simp add: task_of_def m'(4))
  then show thesis by (rule that [OF m'(1,3) _ m'(5,2)])
qed

theorem timer_interrupt_correct_witness:
  "\<forall>run. \<exists>m c i b m'. get_current (m_kernel m) = Inr c \<and> timer_interrupt run 100 32 m = Inr (Switched, m') \<and>
     machine_ok m' i [c] [] [] [b] \<and> expired_time (timer (m_timers m') b) = 101 \<and> irq_enabled (m_timers m')"
proof
  fix run
  obtain m c i a where m: "machine_ok m c [i] [] [] [a]" "call_back (timer (m_timers m) a) = Normal_timer"
    "\<forall>t \<in> set [c, i]. t_state (task_of (m_kernel m) t) \<noteq> EXIT" "kstock (heap (k_fs (m_kernel m))) 6"
    by (rule ticking_machine)
  have e: "101 = u64 (c_int (32 div 2 ^ 5) + int 100)" by (simp add: c_int_def u64_def)
  have h: "kstock (heap (k_fs (m_kernel m))) 1" "t_state (task_of (m_kernel m) c) \<noteq> EXIT" using kstock_mono [OF m(4)] m(3) by simp_all
  show "\<exists>m c i b m'. get_current (m_kernel m) = Inr c \<and> timer_interrupt run 100 32 m = Inr (Switched, m') \<and>
     machine_ok m' i [c] [] [] [b] \<and> expired_time (timer (m_timers m') b) = 101 \<and> irq_enabled (m_timers m')"
    using timer_interrupt_correct [OF m(1) h m(2) e, of run] machine_okD(3) [OF m(1)]
    unfolding placed_def list.case append_Nil by blast
qed

theorem heartbeats_round_robin_witness:
  "\<forall>run. \<exists>m c i b m'. machine_ok m c [i] [] [] [b] \<and> heartbeats run 32 [(100, 150)] m = Inr m' \<and>
     get_current (m_kernel m') = Inr i"
proof
  fix run
  obtain m c i a where m: "machine_ok m c [i] [] [] [a]" "call_back (timer (m_timers m) a) = Normal_timer"
    "\<forall>t \<in> set [c, i]. t_state (task_of (m_kernel m) t) \<noteq> EXIT" "interrupted m = (\<lambda>_. None)" "kstock (heap (k_fs (m_kernel m))) 6"
    by (rule ticking_machine)
  have "kstock (heap (k_fs (m_kernel m))) (length [(100 :: nat, 150 :: nat)])" using kstock_mono [OF m(5)] by simp
  from heartbeats_round_robin [OF m(1-3) _ _ _ this, of run 32]
  show "\<exists>m c i b m'. machine_ok m c [i] [] [] [b] \<and> heartbeats run 32 [(100, 150)] m = Inr m' \<and>
     get_current (m_kernel m') = Inr i"
    using m(1,4) by auto
qed

end
