(* ===== verification/Shell.thy ===== *)
theory Shell
  imports Syscalls
begin

text \<open>
  The shell of \<open>lib/shell.c\<close>: it edits a line in a block of 100 bytes, splits it at spaces and runs the
  command. One key is one step; what is printed is left out. The string literal that holds the
  delimiter lies at \<open>space\<close>, the RAM disk at \<open>place\<close>, and \<open>junk\<close>, \<open>i0\<close> and \<open>j\<close> are what is in the
  uninitialised variables of the functions that are called.
\<close>

section \<open>State\<close>

definition BUF_MAX_SIZE :: nat where "BUF_MAX_SIZE = 100"

definition BUF_ARG_SIZE :: nat where "BUF_ARG_SIZE = 100"

text \<open>The local variables \<open>input\<close> and \<open>args\<close>, with the kernel and the static variables of \<open>strtok\<close>.\<close>

record shell_state =
  sh_kernel :: kernel
  sh_tok :: tok_state
  input :: addr
  args :: addr

text \<open>\<open>Reads\<close>: the loop goes on; \<open>Reboots\<close>: it goes on until the watchdog fires; \<open>Idles\<close>: the shell has
  become the idle task.\<close>

datatype after = Reads | Reboots | Idles

definition sh_mem :: "shell_state \<Rightarrow> mem" where
  "sh_mem s = bytes (k_fs (sh_kernel s))"

definition set_mem :: "mem \<Rightarrow> kernel \<Rightarrow> kernel" where
  "set_mem m s = s\<lparr>k_fs := (k_fs s)\<lparr>bytes := m\<rparr>\<rparr>"

definition shell_start :: "tok_state \<Rightarrow> kernel \<Rightarrow> shell_state res" where
  "shell_start t s =
     rbind (on_fs (alloc BUF_MAX_SIZE) s) (\<lambda>(inp, s).
     rbind (on_fs (alloc (8 * BUF_ARG_SIZE)) s) (\<lambda>(arg, s).
     Inr \<lparr>sh_kernel = set_mem ((bytes (k_fs s))(inp := 0)) s, sh_tok = t, input = inp, args = arg\<rparr>))"

section \<open>Commands\<close>

text \<open>\<open>args[1]\<close> as a string: \<open>NULL\<close> when there is only the command.\<close>

definition arg1 :: "addr list \<Rightarrow> kernel \<Rightarrow> byte list res" where
  "arg1 as s = (case as of _ # a # _ \<Rightarrow> string_at a (k_fs s) | _ \<Rightarrow> Inl NullDeref)"

definition run_program :: "byte \<Rightarrow> addr \<Rightarrow> kernel \<Rightarrow> (after \<times> kernel) res" where
  "run_program junk place s =
     rbind (load_program junk place (cstr ''vfs1.img'') (bytes (k_fs s))) (\<lambda>(prog, m).
     let s = set_mem m s in
     case prog of
       None \<Rightarrow> Inr (Reads, s)
     | Some a \<Rightarrow>
         rbind (task_create (Some (Code_at a)) USER s) (\<lambda>(_, s).
         rbind (idle_start s) (\<lambda>s. Inr (Idles, s))))"

definition shell_command :: "byte \<Rightarrow> (nat \<Rightarrow> int) \<Rightarrow> int \<Rightarrow> addr \<Rightarrow> addr list \<Rightarrow> kernel \<Rightarrow> (after \<times> kernel) res" where
  "shell_command junk i0 j place as s =
     (let eq = (\<lambda>cmd. str_eq (bytes (k_fs s)) (hd as) (cstr cmd)) in
      if eq ''help'' then Inr (Reads, s)
      else if eq ''reboot'' then Inr (Reboots, s)
      else if eq ''ls'' then rbind (finish (cpio_ls junk (bytes (k_fs s)) place)) (\<lambda>_. Inr (Reads, s))
      else if eq ''cat'' then
        rbind (arg1 as s) (\<lambda>name. rbind (cpio_cat junk (bytes (k_fs s)) place name) (\<lambda>_. Inr (Reads, s)))
      else if eq ''run'' then run_program junk place s
      else if eq ''mkdir'' then rbind (arg1 as s) (\<lambda>p. rbind (on_fs (vfs_mkdir j p) s) (\<lambda>(_, s). Inr (Reads, s)))
      else if eq ''open'' then
        rbind (arg1 as s) (\<lambda>p. rbind (on_fs (vfs_open j p (int O_CREAT) None) s) (\<lambda>(_, s). Inr (Reads, s)))
      else if eq ''mount'' then
        rbind (arg1 as s) (\<lambda>p. rbind (on_fs (vfs_mount junk i0 j place p (cstr ''tmpfs'')) s) (\<lambda>(_, s). Inr (Reads, s)))
      else Inr (Reads, s))"

section \<open>Keys\<close>

definition NEWLINE :: byte where "NEWLINE = 10"

definition BACKSPACE :: byte where "BACKSPACE = 0x7f"

text \<open>A character that is not a command: at the end of the line, or taken off it.\<close>

definition edit_key :: "byte \<Rightarrow> addr \<Rightarrow> mem \<Rightarrow> mem res" where
  "edit_key read inp m =
     (if read \<noteq> BACKSPACE then returns (append_str inp read m)
      else rbind (returns (strlen m inp)) (\<lambda>n. if n > 0 then returns (pop_str inp m) else Inr m))"

definition shell_key :: "byte \<Rightarrow> (nat \<Rightarrow> int) \<Rightarrow> int \<Rightarrow> addr \<Rightarrow> addr \<Rightarrow> byte \<Rightarrow> shell_state \<Rightarrow> (after \<times> shell_state) res" where
  "shell_key junk i0 j place space read s =
     (if read \<noteq> NEWLINE then
        rbind (edit_key read (input s) (sh_mem s)) (\<lambda>m. Inr (Reads, s\<lparr>sh_kernel := set_mem m (sh_kernel s)\<rparr>))
      else
        rbind (finish (spilt_strings (input s) space (sh_tok s) (sh_mem s))) (\<lambda>(n, as, t, m).
        let s = s\<lparr>sh_tok := t, sh_kernel := set_mem m (sh_kernel s)\<rparr> in
        if n \<noteq> 0 then
          rbind (shell_command junk i0 j place as (sh_kernel s)) (\<lambda>(r, k).
          Inr (r, s\<lparr>sh_kernel := set_mem ((bytes (k_fs k))(input s := 0)) k\<rparr>))
        else Inr (Reads, s)))"

text \<open>The keys that are read one after the other, until the shell becomes the idle task.\<close>

fun shell_keys :: "byte \<Rightarrow> (nat \<Rightarrow> int) \<Rightarrow> int \<Rightarrow> addr \<Rightarrow> addr \<Rightarrow> byte list \<Rightarrow> shell_state \<Rightarrow> (after \<times> shell_state) res" where
  "shell_keys junk i0 j place space [] s = Inr (Reads, s)"
| "shell_keys junk i0 j place space (c # cs) s =
     rbind (shell_key junk i0 j place space c s) (\<lambda>(r, s).
     if r = Idles then Inr (Idles, s) else shell_keys junk i0 j place space cs s)"

end
