(* ===== verification/ShellClaims.thy ===== *)
theory ShellClaims
  imports Shell TaskClaims
begin

text \<open>
  The line that the keys edit, as a list operation, and the way from the keys of a command to the call
  that it makes.
\<close>

section \<open>Editing\<close>

definition edit :: "byte list \<Rightarrow> byte \<Rightarrow> byte list" where
  "edit line c = (if c = BACKSPACE then butlast line else line @ [c])"

lemma set_mem_simps [simp]:
  "bytes (k_fs (set_mem m s)) = m" "set_mem m (set_mem m' s) = set_mem m s"
  by (simp_all add: set_mem_def)

text \<open>The line stays in its block as long as it is shorter than it.\<close>

lemma edit_key_run:
  assumes str: "str_at m inp line" and c: "c \<noteq> 0" and fits: "length line < BUF_MAX_SIZE" "length (edit line c) < BUF_MAX_SIZE"
  shows "\<exists>m'. edit_key c inp m = Inr m' \<and> str_at m' inp (edit line c) \<and> (\<forall>a. outside inp BUF_MAX_SIZE a \<longrightarrow> m' a = m a)"
proof (cases "c = BACKSPACE")
  case False
  then obtain m' where "append_str inp c m = Some m'" "str_at m' inp (line @ [c])" "\<forall>a. outside inp (length line + 2) a \<longrightarrow> m' a = m a"
    using append_str_run [OF str c] by blast
  then show ?thesis using False fits(2) by (auto simp: edit_key_def edit_def outside_def)
next
  case True
  show ?thesis
  proof (cases line rule: rev_cases)
    case Nil
    then show ?thesis using True str strlen_str [OF str] by (auto simp: edit_key_def edit_def)
  next
    case (snoc xs x)
    obtain m' where m': "pop_str inp m = Some m'" "str_at m' inp xs" "\<forall>a. a \<noteq> inp + int (length xs) \<longrightarrow> m' a = m a"
      using pop_str_run str unfolding snoc by blast
    have "edit_key c inp m = Inr m'" using True strlen_str [OF str] m'(1) snoc by (simp add: edit_key_def)
    then show ?thesis using m'(2,3) True fits(1) snoc by (intro exI [of _ m']) (auto simp: edit_def outside_def)
  qed
qed

lemma shell_edit_run:
  assumes "str_at (sh_mem s) (input s) line" and "\<forall>c \<in> set ks. c \<noteq> 0 \<and> c \<noteq> NEWLINE"
    and "\<forall>n \<le> length ks. length (foldl edit line (take n ks)) < BUF_MAX_SIZE"
  shows "\<exists>m. shell_keys junk i0 j place space (ks @ rest) s =
      shell_keys junk i0 j place space rest (s\<lparr>sh_kernel := set_mem m (sh_kernel s)\<rparr>) \<and>
    str_at m (input s) (foldl edit line ks) \<and> (\<forall>a. outside (input s) BUF_MAX_SIZE a \<longrightarrow> m a = sh_mem s a)"
  using assms
proof (induction ks arbitrary: s line)
  case Nil
  then show ?case by (intro exI [of _ "sh_mem s"]) (simp add: set_mem_def sh_mem_def)
next
  case (Cons c ks)
  have c: "c \<noteq> 0" "length line < BUF_MAX_SIZE" "length (edit line c) < BUF_MAX_SIZE"
    using Cons.prems(2) Cons.prems(3) [rule_format, of 0] Cons.prems(3) [rule_format, of 1] by simp_all
  obtain m1 where m1: "edit_key c (input s) (sh_mem s) = Inr m1" "str_at m1 (input s) (edit line c)"
    "\<forall>a. outside (input s) BUF_MAX_SIZE a \<longrightarrow> m1 a = sh_mem s a"
    using edit_key_run [OF Cons.prems(1) c] by blast
  let ?s = "s\<lparr>sh_kernel := set_mem m1 (sh_kernel s)\<rparr>"
  have "\<forall>n \<le> length ks. length (foldl edit (edit line c) (take n ks)) < BUF_MAX_SIZE"
    using Cons.prems(3) by auto
  moreover have s: "sh_mem ?s = m1" "input ?s = input s" by (simp_all add: sh_mem_def)
  ultimately obtain m where "shell_keys junk i0 j place space (ks @ rest) ?s =
      shell_keys junk i0 j place space rest (?s\<lparr>sh_kernel := set_mem m (sh_kernel ?s)\<rparr>)"
    "str_at m (input s) (foldl edit (edit line c) ks)" "\<forall>a. outside (input s) BUF_MAX_SIZE a \<longrightarrow> m a = m1 a"
    using Cons.IH [of ?s "edit line c"] m1(2) Cons.prems(2) by auto
  moreover have "shell_keys junk i0 j place space ((c # ks) @ rest) s = shell_keys junk i0 j place space (ks @ rest) ?s"
    using m1(1) Cons.prems(2) by (simp add: shell_key_def)
  ultimately show ?case using m1(3) by (intro exI [of _ m]) simp
qed

lemma edit_plain:
  assumes "BACKSPACE \<notin> set ks"
  shows "foldl edit l ks = l @ ks"
  using assms by (induction ks arbitrary: l) (auto simp: edit_def)

section \<open>A command\<close>

lemma string_at_run: "str_at (bytes s) p cs \<Longrightarrow> string_at p s = Inr cs"
  by (simp add: string_at_def strlen_str mem_bytes_str)

lemma command_fields:
  assumes "32 \<notin> set cmd" and "32 \<notin> set p"
  shows "StringProps.fields 32 (cmd @ 32 # p) = [cmd, p]"
  using assms by (simp add: fields_some fields_none)

lemma commands_differ:
  "cstr ''mkdir'' \<noteq> cstr ''help''" "cstr ''mkdir'' \<noteq> cstr ''reboot''" "cstr ''mkdir'' \<noteq> cstr ''ls''"
  "cstr ''mkdir'' \<noteq> cstr ''cat''" "cstr ''mkdir'' \<noteq> cstr ''run''"
  by (simp_all add: cstr_def)

lemma command_chars: "0 \<notin> set (cstr ''mkdir'')" "0 \<notin> set (cstr ''help'')" "0 \<notin> set (cstr ''reboot'')" "0 \<notin> set (cstr ''ls'')"
  "0 \<notin> set (cstr ''cat'')" "0 \<notin> set (cstr ''run'')" "32 \<notin> set (cstr ''mkdir'')"
  by (simp_all add: cstr_def)

lemma mkdir_command:
  assumes a: "str_at (bytes (k_fs s)) a (cstr ''mkdir'')" and b: "str_at (bytes (k_fs s)) b p"
  shows "shell_command junk i0 j place [a, b] s = rbind (on_fs (vfs_mkdir j p) s) (\<lambda>(_, s). Inr (Reads, s))"
proof -
  have eq: "str_eq (bytes (k_fs s)) a (cstr x) \<longleftrightarrow> cstr ''mkdir'' = cstr x" if "0 \<notin> set (cstr x)" for x
    using str_eq_at [OF that, of "bytes (k_fs s)" a] a str_at_unique [OF a, of "cstr x"] by metis
  show ?thesis
    using string_at_run [OF b] by (simp add: shell_command_def arg1_def eq command_chars commands_differ)
qed

lemma mkdir_newline_run:
  assumes str: "str_at (sh_mem s) (input s) (cstr ''mkdir'' @ 32 # p)" and sp: "str_at (sh_mem s) space [32]"
    and out: "outside (input s) BUF_MAX_SIZE space" "outside (input s) BUF_MAX_SIZE (space + 1)" and fl: "tok_flag (sh_tok s) = 0"
    and p: "32 \<notin> set p" "length p < BUF_MAX_SIZE - 6"
  shows "\<exists>m. shell_key junk i0 j place space NEWLINE s =
      rbind (on_fs (vfs_mkdir j p) (set_mem m (sh_kernel s)))
        (\<lambda>(_, k). Inr (Reads, s\<lparr>sh_tok := tok_reset, sh_kernel := set_mem ((bytes (k_fs k))(input s := 0)) k\<rparr>)) \<and>
    (\<forall>a. outside (input s) BUF_MAX_SIZE a \<longrightarrow> m a = sh_mem s a)"
proof -
  let ?l = "cstr ''mkdir'' @ 32 # p"
  have f: "StringProps.fields 32 ?l = [cstr ''mkdir'', p]" by (rule command_fields [OF command_chars(7) p(1)])
  have len: "length ?l < BUF_MAX_SIZE" using p(2) by (simp add: cstr_def)
  have o: "outside (input s) (length ?l) space" "outside (input s) (length ?l) (space + 1)" using out len by (auto simp: outside_def)
  obtain ps m where r: "split_loop (Some (input s)) (Some space) (sh_tok s) (sh_mem s) = Some (Inr (ps, tok_reset, m))"
    "list_all2 (str_at m) ps [cstr ''mkdir'', p]" "\<forall>a. outside (input s) (length ?l) a \<longrightarrow> m a = sh_mem s a"
    using split_loop_str [OF str sp o fl, of "Some (input s)"] f by auto
  obtain a b where ps: "ps = [a, b]" "str_at m a (cstr ''mkdir'')" "str_at m b p" using r(2) by (auto simp: list_all2_Cons2)
  let ?k = "set_mem m (sh_kernel s)"
  have "shell_command junk i0 j place [a, b] ?k = rbind (on_fs (vfs_mkdir j p) ?k) (\<lambda>(_, s). Inr (Reads, s))"
    by (rule mkdir_command) (use ps(2,3) in simp_all)
  then have "shell_key junk i0 j place space NEWLINE s =
      rbind (on_fs (vfs_mkdir j p) ?k) (\<lambda>(_, k). Inr (Reads, s\<lparr>sh_tok := tok_reset, sh_kernel := set_mem ((bytes (k_fs k))(input s := 0)) k\<rparr>))"
    using r(1) ps(1) by (simp add: shell_key_def spilt_strings_def rbind_assoc split_def)
  then show ?thesis using r(3) len by (intro exI [of _ m]) (auto simp: outside_def)
qed

section \<open>Properties\<close>

text \<open>C27: The keys before a newline edit the line in the shell's block as on a list: a character goes to the end
  of the line and a backspace takes the last one off, if there is one. This holds as long as the line
  stays shorter than the 100 bytes of the block, and then no byte outside the block changes; the shell
  does not check the length.\<close>

theorem shell_edits_line:
  assumes "str_at (sh_mem s) (input s) line" and "\<forall>c \<in> set ks. c \<noteq> 0 \<and> c \<noteq> NEWLINE"
    and "\<forall>n \<le> length ks. length (foldl edit line (take n ks)) < BUF_MAX_SIZE"
  shows "\<exists>m. shell_keys junk i0 j place space ks s = Inr (Reads, s\<lparr>sh_kernel := set_mem m (sh_kernel s)\<rparr>) \<and>
    str_at m (input s) (foldl edit line ks) \<and> (\<forall>a. outside (input s) BUF_MAX_SIZE a \<longrightarrow> m a = sh_mem s a)"
  using shell_edit_run [OF assms, of junk i0 j place space "[]"] by simp

definition demo_shell :: shell_state where
  "demo_shell = \<lparr>sh_kernel = kernel_with ((\<lambda>_. 0)(8 := 32)), sh_tok = tok_reset, input = 16, args = 200\<rparr>"

text \<open>The keys "l", "x", backspace, "s".\<close>

theorem shell_edits_line_witness:
  "\<exists>m. shell_keys 0 (\<lambda>_. 0) 0 0 8 [108, 120, 127, 115] demo_shell = Inr (Reads, demo_shell\<lparr>sh_kernel := set_mem m (sh_kernel demo_shell)\<rparr>) \<and>
     str_at m 16 [108, 115]"
proof -
  have l: "length (foldl edit [] (take n [108, 120, 127, 115])) < BUF_MAX_SIZE" for n
  proof -
    have "length (foldl edit [] ks) \<le> length ks" for ks
      by (induction ks rule: rev_induct) (auto simp: edit_def)
    from this [of "take n [108, 120, 127, 115]"] show ?thesis by (simp add: BUF_MAX_SIZE_def)
  qed
  have "str_at (sh_mem demo_shell) (input demo_shell) []" by (simp add: demo_shell_def sh_mem_def kernel_with_facts)
  from shell_edits_line [OF this, of "[108, 120, 127, 115]" 0 "\<lambda>_. 0" 0 0 8] l show ?thesis
    by (auto simp: NEWLINE_def edit_def BACKSPACE_def demo_shell_def)
qed

text \<open>C28: Typing "mkdir ", a path without spaces, control characters or backspaces, and a newline calls
  vfs_mkdir with that path, and the line is empty again afterwards. The memory that the call sees
  differs only inside the shell's block.\<close>

theorem shell_mkdir_correct:
  assumes str: "str_at (sh_mem s) (input s) []" and sp: "str_at (sh_mem s) space [32]"
    and out: "outside (input s) BUF_MAX_SIZE space" "outside (input s) BUF_MAX_SIZE (space + 1)" and fl: "tok_flag (sh_tok s) = 0"
    and p: "\<forall>c \<in> set p. c \<notin> {0, NEWLINE, BACKSPACE, 32}" "length p < BUF_MAX_SIZE - 6"
  shows "\<exists>m. shell_keys junk i0 j place space (cstr ''mkdir'' @ 32 # p @ [NEWLINE]) s =
      rbind (on_fs (vfs_mkdir j p) (set_mem m (sh_kernel s)))
        (\<lambda>(_, k). Inr (Reads, s\<lparr>sh_tok := tok_reset, sh_kernel := set_mem ((bytes (k_fs k))(input s := 0)) k\<rparr>)) \<and>
    (\<forall>a. outside (input s) BUF_MAX_SIZE a \<longrightarrow> m a = sh_mem s a)"
proof -
  let ?l = "cstr ''mkdir'' @ 32 # p"
  have nb: "BACKSPACE \<notin> set ?l" "\<forall>c \<in> set ?l. c \<noteq> 0 \<and> c \<noteq> NEWLINE"
    using p(1) by (auto simp: cstr_def BACKSPACE_def NEWLINE_def)
  have e: "foldl edit [] (take n ?l) = take n ?l" for n
    using edit_plain [of "take n ?l" "[]"] nb(1) in_set_takeD [of BACKSPACE n ?l] by auto
  have len: "length ?l < BUF_MAX_SIZE" using p(2) by (simp add: cstr_def)
  then have "\<forall>n \<le> length ?l. length (foldl edit [] (take n ?l)) < BUF_MAX_SIZE" unfolding e by (simp del: length_append take_append)
  from shell_edit_run [OF str nb(2) this, of junk i0 j place space "[NEWLINE]"] obtain m1 where
    1: "shell_keys junk i0 j place space (?l @ [NEWLINE]) s =
      shell_keys junk i0 j place space [NEWLINE] (s\<lparr>sh_kernel := set_mem m1 (sh_kernel s)\<rparr>)"
    "str_at m1 (input s) ?l" "\<forall>a. outside (input s) BUF_MAX_SIZE a \<longrightarrow> m1 a = sh_mem s a"
    using e [of "length ?l"] by auto
  let ?s = "s\<lparr>sh_kernel := set_mem m1 (sh_kernel s)\<rparr>"
  have "sh_mem ?s = m1" by (simp add: sh_mem_def)
  moreover have "str_at m1 space [32]" using sp 1(3) out by simp
  moreover have "32 \<notin> set p" using p(1) by blast
  ultimately obtain m where 2: "shell_key junk i0 j place space NEWLINE ?s =
      rbind (on_fs (vfs_mkdir j p) (set_mem m (sh_kernel s)))
        (\<lambda>(_, k). Inr (Reads, s\<lparr>sh_tok := tok_reset, sh_kernel := set_mem ((bytes (k_fs k))(input s := 0)) k\<rparr>))"
    "\<forall>a. outside (input s) BUF_MAX_SIZE a \<longrightarrow> m a = m1 a"
    using mkdir_newline_run [of ?s p space junk i0 j place] 1(2) out fl p(2) by auto
  have "shell_keys junk i0 j place space [NEWLINE] ?s = shell_key junk i0 j place space NEWLINE ?s"
    using 2(1) by (cases "on_fs (vfs_mkdir j p) (set_mem m (sh_kernel s))") (auto split: prod.splits)
  then show ?thesis using 1(1,3) 2 by (intro exI [of _ m]) simp
qed

lemma set_bytes_dirs:
  fixes s :: vfs
  shows "dir_view (s\<lparr>bytes := m\<rparr>) d = dir_view s d" and "tree_root (s\<lparr>bytes := m\<rparr>) x r d = tree_root s x r d"
proof -
  have e: "entries_of (s\<lparr>bytes := m\<rparr>) d = entries_of s d" for d by (simp add: entries_of_def cong: option.case_cong)
  then show "dir_view (s\<lparr>bytes := m\<rparr>) d = dir_view s d"
    by (simp add: dir_view_def node_name_def [abs_def] cong: option.case_cong)
  have "dir_ok (s\<lparr>bytes := m\<rparr>) d = dir_ok s d" unfolding dir_ok_def e by (simp add: in_use_def cong: option.case_cong)
  then show "tree_root (s\<lparr>bytes := m\<rparr>) x r d = tree_root s x r d" by (simp add: tree_root_def in_use_def)
qed

text \<open>"mkdir /x" with nothing but the root file system.\<close>

theorem shell_mkdir_correct_witness:
  "\<exists>s s' d node. dir_view (k_fs (sh_kernel s)) d = [] \<and>
     shell_keys 0 (\<lambda>_. 0) 0 0 8 (cstr ''mkdir'' @ 32 # cstr ''/x'' @ [NEWLINE]) s = Inr (Reads, s') \<and>
     dir_view (k_fs (sh_kernel s')) d = [(cstr ''x'', node)]"
proof -
  let ?m = "(\<lambda>_. 0)(8 := 32) :: mem"
  have st: "kstock (heap (k_fs (kernel_with ?m))) (Suc (Suc (Suc (Suc (Suc (Suc (Suc 4)))))))"
    using kstock_mono [OF empty_pool_stock, of 11] by (simp add: kernel_with_facts)
  obtain x r d f where f: "tree_root f x r d" "dir_view f d = []" "kstock (heap f) 4" "bytes f = bytes (k_fs (kernel_with ?m))"
    by (rule root_mount_run [OF st, of 0 "\<lambda>_. 0" 0 0]) blast
  define s where "s = demo_shell\<lparr>sh_kernel := (sh_kernel demo_shell)\<lparr>k_fs := f\<rparr>\<rparr>"
  have s: "k_fs (sh_kernel s) = f" "sh_mem s = ?m" "input s = 16" "tok_flag (sh_tok s) = 0"
    by (simp_all add: s_def sh_mem_def f(4) demo_shell_def tok_reset_def kernel_with_facts)
  have "str_at (sh_mem s) (input s) []" "str_at (sh_mem s) 8 [32]" "outside (input s) BUF_MAX_SIZE 8"
    "outside (input s) BUF_MAX_SIZE (8 + 1)" "\<forall>c \<in> set (cstr ''/x''). c \<notin> {0, NEWLINE, BACKSPACE, 32}" "length (cstr ''/x'') < BUF_MAX_SIZE - 6"
    by (simp_all add: s outside_def cstr_def NEWLINE_def BACKSPACE_def BUF_MAX_SIZE_def)
  from shell_mkdir_correct [OF this(1-4) s(4) this(5,6), of 0 "\<lambda>_. 0" 0 0] obtain m where
    m: "shell_keys 0 (\<lambda>_. 0) 0 0 8 (cstr ''mkdir'' @ 32 # cstr ''/x'' @ [NEWLINE]) s =
      rbind (on_fs (vfs_mkdir 0 (cstr ''/x'')) (set_mem m (sh_kernel s)))
        (\<lambda>(_, k). Inr (Reads, s\<lparr>sh_tok := tok_reset, sh_kernel := set_mem ((bytes (k_fs k))(input s := 0)) k\<rparr>))" by blast
  have n: "tree_root (f\<lparr>bytes := m\<rparr>) x r d" "dir_view (f\<lparr>bytes := m\<rparr>) d = []" "kstock (heap (f\<lparr>bytes := m\<rparr>)) (Suc (Suc (Suc (Suc 0))))"
    using f kstock_mono [OF f(3)] by (simp_all add: set_bytes_dirs)
  then have room: "c_len (comps (f\<lparr>bytes := m\<rparr>) d) < TMPFS_MAX_ENTRY"
    using length_entries [OF tree_rootD(5)] by (fastforce simp: dir_view_def TMPFS_MAX_ENTRY_def)
  have x: "proper (cstr ''x'')" "length (cstr ''x'') < NAME_LEN" "map_of (dir_view (f\<lparr>bytes := m\<rparr>) d) (cstr ''x'') = None"
    by (simp_all add: proper_def cstr_def SLASH_def TMPFS_MAX_COMPONENT_NAME_def NAME_LEN_def n(2))
  obtain node f' where v: "vfs_mkdir 0 (render [cstr ''x'']) (f\<lparr>bytes := m\<rparr>) = Inr (0, f')"
    "dir_view f' d = dir_view (f\<lparr>bytes := m\<rparr>) d @ [(cstr ''x'', node)]"
    by (rule vfs_mkdir_root [OF n(1) x room n(3)]) blast
  have "render [cstr ''x''] = cstr ''/x''" by (simp add: cstr_def SLASH_def)
  then show ?thesis using f(2) m s(1) v n(2)
    by (intro exI [of _ s] exI conjI) (auto simp: on_fs_def set_mem_def set_bytes_dirs)
qed

end
