(* ===== verification/Printf.thy ===== *)
theory Printf
  imports FsState
begin

text \<open>
  The formatted output of \<open>lib/printf.c\<close>. An output function gets a character, its index and the state
  of where it writes, of a type \<open>'o\<close> of its own; \<open>rd\<close> is the memory that this state shows to \<open>%s\<close>. A
  format is the list of its bytes before the terminator. The bits of \<open>flags\<close> are named by their
  position. This theory has the integers, characters and strings; floating point is in \<open>Ftoa\<close>.
\<close>

section \<open>Output functions\<close>

type_synonym 'o out_fct = "byte \<Rightarrow> nat \<Rightarrow> 'o \<Rightarrow> 'o res"

definition out_buffer :: "addr \<Rightarrow> nat \<Rightarrow> mem out_fct" where
  "out_buffer buffer maxlen c idx m = Inr (if idx < maxlen then m(buffer + int idx := c) else m)"

definition out_null :: "'o out_fct" where
  "out_null c idx s = Inr s"

definition out_char :: "uart_dev \<Rightarrow> vfs out_fct" where
  "out_char d c idx s = (if c \<noteq> 0 then rbind (uart_send d c (console s)) (\<lambda>u. Inr (s\<lparr>console := u\<rparr>)) else Inr s)"

definition out_wrap :: "(byte \<Rightarrow> 'o \<Rightarrow> 'o res) \<Rightarrow> 'o out_fct" where
  "out_wrap f c idx s = (if c \<noteq> 0 then f c s else Inr s)"

section \<open>Flags and small helpers\<close>

definition PRINTF_NTOA_BUFFER_SIZE :: nat where "PRINTF_NTOA_BUFFER_SIZE = 32"

definition FLAGS_ZEROPAD :: nat where "FLAGS_ZEROPAD = 0"

definition FLAGS_LEFT :: nat where "FLAGS_LEFT = 1"

definition FLAGS_PLUS :: nat where "FLAGS_PLUS = 2"

definition FLAGS_SPACE :: nat where "FLAGS_SPACE = 3"

definition FLAGS_HASH :: nat where "FLAGS_HASH = 4"

definition FLAGS_UPPERCASE :: nat where "FLAGS_UPPERCASE = 5"

definition FLAGS_CHAR :: nat where "FLAGS_CHAR = 6"

definition FLAGS_SHORT :: nat where "FLAGS_SHORT = 7"

definition FLAGS_LONG :: nat where "FLAGS_LONG = 8"

definition FLAGS_LONG_LONG :: nat where "FLAGS_LONG_LONG = 9"

definition FLAGS_PRECISION :: nat where "FLAGS_PRECISION = 10"

definition FLAGS_ADAPT_EXP :: nat where "FLAGS_ADAPT_EXP = 11"

lemmas flag_bits = FLAGS_ZEROPAD_def FLAGS_LEFT_def FLAGS_PLUS_def FLAGS_SPACE_def FLAGS_HASH_def FLAGS_UPPERCASE_def
  FLAGS_CHAR_def FLAGS_SHORT_def FLAGS_LONG_def FLAGS_LONG_LONG_def FLAGS_PRECISION_def FLAGS_ADAPT_EXP_def

type_synonym flags = "32 word"

text \<open>A character literal.\<close>

abbreviation chr :: "char \<Rightarrow> byte" where
  "chr c \<equiv> of_char c"

definition is_dig :: "byte \<Rightarrow> bool" where
  "is_dig ch \<longleftrightarrow> 48 \<le> ch \<and> ch \<le> 57"

text \<open>\<open>_atoi\<close>: the number and the rest of the format.\<close>

fun pf_atoi :: "byte list \<Rightarrow> nat \<Rightarrow> nat \<times> byte list" where
  "pf_atoi (c # cs) i = (if is_dig c then pf_atoi cs (u32 (int (i * 10 + (unat c - 48)))) else (i, c # cs))"
| "pf_atoi [] i = (i, [])"

function strnlen_s :: "mem \<Rightarrow> addr \<Rightarrow> nat \<Rightarrow> nat" where
  "strnlen_s m str maxsize = (if m str \<noteq> 0 \<and> maxsize > 0 then 1 + strnlen_s m (str + 1) (maxsize - 1) else 0)"
  by pat_completeness auto
termination
  by (relation "measure (\<lambda>(m, str, maxsize). maxsize)") auto

declare strnlen_s.simps [simp del]

section \<open>Numbers\<close>

text \<open>\<open>for (i = len; i < width; i++) out(' ', buffer, idx++, maxlen)\<close>, which is also how the other loops pad.\<close>

function pad_spaces :: "'o out_fct \<Rightarrow> nat \<Rightarrow> nat \<Rightarrow> nat \<Rightarrow> 'o \<Rightarrow> (nat \<times> 'o) res" where
  "pad_spaces out i width idx s =
     (if i < width then rbind (out (chr CHR '' '') idx s) (\<lambda>s. pad_spaces out (i + 1) width (idx + 1) s)
      else Inr (idx, s))"
  by pat_completeness auto
termination
  by (relation "measure (\<lambda>(out, i, width, idx, s). width - i)") auto

declare pad_spaces.simps [simp del]

primrec rev_loop :: "'o out_fct \<Rightarrow> byte list \<Rightarrow> nat \<Rightarrow> nat \<Rightarrow> 'o \<Rightarrow> (nat \<times> 'o) res" where
  "rev_loop out buf 0 idx s = Inr (idx, s)"
| "rev_loop out buf (Suc len) idx s = rbind (out (buf ! len) idx s) (\<lambda>s. rev_loop out buf len (idx + 1) s)"

definition out_rev :: "'o out_fct \<Rightarrow> byte list \<Rightarrow> nat \<Rightarrow> flags \<Rightarrow> nat \<Rightarrow> 'o \<Rightarrow> (nat \<times> 'o) res" where
  "out_rev out buf width flags idx s =
     (let start_idx = idx in
      rbind (if \<not> bit flags FLAGS_LEFT \<and> \<not> bit flags FLAGS_ZEROPAD then pad_spaces out (length buf) width idx s else Inr (idx, s))
        (\<lambda>(idx, s).
      rbind (rev_loop out buf (length buf) idx s) (\<lambda>(idx, s).
      if bit flags FLAGS_LEFT then pad_spaces out (idx - start_idx) width idx s else Inr (idx, s))))"

text \<open>\<open>while (len < lim && len < PRINTF_NTOA_BUFFER_SIZE) buf[len++] = '0';\<close> where \<open>buf\<close> is the filled part.\<close>

function zero_loop :: "nat \<Rightarrow> byte list \<Rightarrow> byte list" where
  "zero_loop lim buf =
     (if length buf < lim \<and> length buf < PRINTF_NTOA_BUFFER_SIZE then zero_loop lim (buf @ [chr CHR ''0'']) else buf)"
  by pat_completeness auto
termination
  by (relation "measure (\<lambda>(lim, buf). lim - length buf)") auto

declare zero_loop.simps [simp del]

text \<open>\<open>if (len < PRINTF_NTOA_BUFFER_SIZE) buf[len++] = c;\<close>\<close>

definition put :: "byte \<Rightarrow> byte list \<Rightarrow> byte list" where
  "put c buf = (if length buf < PRINTF_NTOA_BUFFER_SIZE then buf @ [c] else buf)"

definition hash_prefix :: "nat \<Rightarrow> nat \<Rightarrow> nat \<Rightarrow> flags \<Rightarrow> byte list \<Rightarrow> byte list" where
  "hash_prefix base prec width flags buf =
     (let buf = (if \<not> bit flags FLAGS_PRECISION \<and> buf \<noteq> [] \<and> (length buf = prec \<or> length buf = width)
                 then (let buf = butlast buf in if buf \<noteq> [] \<and> base = 16 then butlast buf else buf) else buf);
          buf = (if base = 16 \<and> \<not> bit flags FLAGS_UPPERCASE \<and> length buf < PRINTF_NTOA_BUFFER_SIZE then buf @ [chr CHR ''x'']
                 else if base = 16 \<and> bit flags FLAGS_UPPERCASE \<and> length buf < PRINTF_NTOA_BUFFER_SIZE then buf @ [chr CHR ''X'']
                 else if base = 2 \<and> length buf < PRINTF_NTOA_BUFFER_SIZE then buf @ [chr CHR ''b''] else buf) in
      put (chr CHR ''0'') buf)"

definition sign_char :: "bool \<Rightarrow> flags \<Rightarrow> byte list \<Rightarrow> byte list" where
  "sign_char negative flags buf =
     (if negative then put (chr CHR ''-'') buf
      else if bit flags FLAGS_PLUS then put (chr CHR ''+'') buf
      else if bit flags FLAGS_SPACE then put (chr CHR '' '') buf
      else buf)"

definition ntoa_format :: "'o out_fct \<Rightarrow> byte list \<Rightarrow> bool \<Rightarrow> nat \<Rightarrow> nat \<Rightarrow> nat \<Rightarrow> flags \<Rightarrow> nat \<Rightarrow> 'o \<Rightarrow> (nat \<times> 'o) res" where
  "ntoa_format out buf negative base prec width flags idx s =
     (let width = (if \<not> bit flags FLAGS_LEFT \<and> width \<noteq> 0 \<and> bit flags FLAGS_ZEROPAD \<and>
                     (negative \<or> bit flags FLAGS_PLUS \<or> bit flags FLAGS_SPACE) then width - 1 else width);
          buf = (if \<not> bit flags FLAGS_LEFT then
                   (let buf = zero_loop prec buf in if bit flags FLAGS_ZEROPAD then zero_loop width buf else buf) else buf);
          buf = (if bit flags FLAGS_HASH then hash_prefix base prec width flags buf else buf);
          buf = sign_char negative flags buf in
      out_rev out buf width flags idx s)"

text \<open>A digit, and the loop that stores the digits from the last one on.\<close>

definition digit_char :: "bool \<Rightarrow> nat \<Rightarrow> byte" where
  "digit_char upper digit =
     (if digit < 10 then chr CHR ''0'' + of_nat digit
      else (if upper then chr CHR ''A'' else chr CHR ''a'') + of_nat digit - 10)"

function digit_loop :: "nat \<Rightarrow> nat \<Rightarrow> bool \<Rightarrow> byte list \<Rightarrow> byte list" where
  "digit_loop value base upper buf =
     (let buf' = buf @ [digit_char upper (value mod base)]; value' = value div base in
      if value' \<noteq> 0 \<and> length buf' < PRINTF_NTOA_BUFFER_SIZE then digit_loop value' base upper buf' else buf')"
  by pat_completeness auto
termination
  by (relation "measure (\<lambda>(value, base, upper, buf). PRINTF_NTOA_BUFFER_SIZE - length buf)") auto

declare digit_loop.simps [simp del]

text \<open>\<open>_ntoa_long\<close> and \<open>_ntoa_long_long\<close>, whose types have the same 64 bits here.\<close>

definition ntoa_long :: "'o out_fct \<Rightarrow> nat \<Rightarrow> bool \<Rightarrow> nat \<Rightarrow> nat \<Rightarrow> nat \<Rightarrow> flags \<Rightarrow> nat \<Rightarrow> 'o \<Rightarrow> (nat \<times> 'o) res" where
  "ntoa_long out value negative base prec width flags idx s =
     (let flags = (if value = 0 then unset_bit FLAGS_HASH flags else flags);
          buf = (if \<not> bit flags FLAGS_PRECISION \<or> value \<noteq> 0 then digit_loop value base (bit flags FLAGS_UPPERCASE) [] else []) in
      ntoa_format out buf negative base prec width flags idx s)"

definition ntoa_long_long :: "'o out_fct \<Rightarrow> nat \<Rightarrow> bool \<Rightarrow> nat \<Rightarrow> nat \<Rightarrow> nat \<Rightarrow> flags \<Rightarrow> nat \<Rightarrow> 'o \<Rightarrow> (nat \<times> 'o) res" where
  "ntoa_long_long out value negative base prec width flags idx s =
     (let flags = (if value = 0 then unset_bit FLAGS_HASH flags else flags);
          buf = (if \<not> bit flags FLAGS_PRECISION \<or> value \<noteq> 0 then digit_loop value base (bit flags FLAGS_UPPERCASE) [] else []) in
      ntoa_format out buf negative base prec width flags idx s)"

end
