(* ===== verification/Ftoa.thy ===== *)
theory Ftoa
  imports Complex_Main Printf "HOL-Library.Signed_Division"
begin

text \<open>
  \<open>_ftoa\<close> and \<open>_etoa\<close> of \<open>lib/printf.c\<close>. HOL's libraries here have no type of IEEE numbers, so the type \<open>'d\<close>
  of \<open>double\<close> and its operations are the parameter \<open>fp\<close>: \<open>d_of\<close> gives the value of a literal or of
  a converted integer, \<open>d_trunc\<close> drops the fraction. Converting a value that its integer type cannot
  hold is a fault. The two functions call each other; the fuel counts these calls, of which there
  are at most three, as \<open>_etoa\<close> brings the value below 10 first. Both functions have a buffer of 32 bytes, like
  the one for integers.
\<close>

record 'd fpu =
  d_of :: "rat \<Rightarrow> 'd"
  d_add :: "'d \<Rightarrow> 'd \<Rightarrow> 'd"
  d_sub :: "'d \<Rightarrow> 'd \<Rightarrow> 'd"
  d_mul :: "'d \<Rightarrow> 'd \<Rightarrow> 'd"
  d_div :: "'d \<Rightarrow> 'd \<Rightarrow> 'd"
  d_neg :: "'d \<Rightarrow> 'd"
  d_less :: "'d \<Rightarrow> 'd \<Rightarrow> bool"
  d_le :: "'d \<Rightarrow> 'd \<Rightarrow> bool"
  d_eq :: "'d \<Rightarrow> 'd \<Rightarrow> bool"
  d_trunc :: "'d \<Rightarrow> int"
  d_bits :: "'d \<Rightarrow> 64 word"
  d_of_bits :: "64 word \<Rightarrow> 'd"
  DBL_MAX :: "'d"

definition PRINTF_FTOA_BUFFER_SIZE :: nat where "PRINTF_FTOA_BUFFER_SIZE = 32"

definition PRINTF_DEFAULT_FLOAT_PRECISION :: nat where "PRINTF_DEFAULT_FLOAT_PRECISION = 6"

definition PRINTF_MAX_FLOAT :: rat where "PRINTF_MAX_FLOAT = 10 ^ 9"

definition to_int :: "'d fpu \<Rightarrow> 'd \<Rightarrow> int res" where
  "to_int fp v = int_check (d_trunc fp v)"

definition to_ulong :: "'d fpu \<Rightarrow> 'd \<Rightarrow> nat res" where
  "to_ulong fp v = (if 0 \<le> d_trunc fp v \<and> d_trunc fp v < 2 ^ 64 then Inr (nat (d_trunc fp v)) else Inl IntOverflow)"

definition pow10 :: "nat \<Rightarrow> rat res" where
  "pow10 prec = (if prec < 10 then Inr (10 ^ prec) else Inl OutOfBounds)"

section \<open>The digits of a value, last one first\<close>

text \<open>\<open>while (len < PRINTF_FTOA_BUFFER_SIZE && prec > 9) { buf[len++] = '0'; prec--; }\<close>\<close>

function limit_prec :: "nat \<Rightarrow> byte list \<Rightarrow> byte list \<times> nat" where
  "limit_prec prec buf =
     (if length buf < PRINTF_FTOA_BUFFER_SIZE \<and> 9 < prec then limit_prec (prec - 1) (buf @ [chr CHR ''0'']) else (buf, prec))"
  by pat_completeness auto
termination
  by (relation "measure fst") auto

text \<open>The digits of the fraction; \<open>count\<close> is an \<open>unsigned int\<close>.\<close>

function frac_digits :: "nat \<Rightarrow> nat \<Rightarrow> byte list \<Rightarrow> byte list \<times> nat" where
  "frac_digits fract count buf =
     (if length buf < PRINTF_FTOA_BUFFER_SIZE then
        (let count = u32 (int count - 1); buf = buf @ [of_nat (48 + fract mod 10)]; fract = fract div 10 in
         if fract = 0 then (buf, count) else frac_digits fract count buf)
      else (buf, count))"
  by pat_completeness auto
termination
  by (relation "measure (\<lambda>(fract, count, buf). PRINTF_FTOA_BUFFER_SIZE - length buf)") auto

function frac_zeros :: "nat \<Rightarrow> byte list \<Rightarrow> byte list" where
  "frac_zeros count buf =
     (if length buf < PRINTF_FTOA_BUFFER_SIZE \<and> 0 < count then frac_zeros (count - 1) (buf @ [chr CHR ''0'']) else buf)"
  by pat_completeness auto
termination
  by (relation "measure fst") auto

function whole_digits :: "int \<Rightarrow> byte list \<Rightarrow> byte list" where
  "whole_digits whole buf =
     (if length buf < PRINTF_FTOA_BUFFER_SIZE then
        (let buf = buf @ [word_of_int (48 + whole smod 10)]; whole = whole sdiv 10 in
         if whole = 0 then buf else whole_digits whole buf)
      else buf)"
  by pat_completeness auto
termination
  by (relation "measure (\<lambda>(whole, buf). PRINTF_FTOA_BUFFER_SIZE - length buf)") auto

declare limit_prec.simps [simp del] frac_digits.simps [simp del] frac_zeros.simps [simp del] whole_digits.simps [simp del]

text \<open>The fraction rounded to the digits that are printed, with the carry into the whole part.\<close>

definition round_frac :: "'d fpu \<Rightarrow> 'd \<Rightarrow> rat \<Rightarrow> int \<Rightarrow> (nat \<times> int) res" where
  "round_frac fp value p whole =
     (let tmp = d_mul fp (d_sub fp value (d_of fp (of_int whole))) (d_of fp p) in
      rbind (to_ulong fp tmp) (\<lambda>fract.
      let diff = d_sub fp tmp (d_of fp (of_nat fract)); half = d_of fp (1 / 2) in
      if d_less fp half diff then
        (let fract = fract + 1 in
         if d_le fp (d_of fp p) (d_of fp (of_nat fract)) then rbind (int_check (whole + 1)) (\<lambda>whole. Inr (0, whole))
         else Inr (fract, whole))
      else if d_less fp diff half then Inr (fract, whole)
      else if fract = 0 \<or> odd fract then Inr (fract + 1, whole)
      else Inr (fract, whole)))"

text \<open>The digits of the fraction and the decimal point, or the rounding when none is wanted.\<close>

definition frac_part :: "'d fpu \<Rightarrow> 'd \<Rightarrow> nat \<Rightarrow> nat \<Rightarrow> int \<Rightarrow> byte list \<Rightarrow> (byte list \<times> int) res" where
  "frac_part fp value prec fract whole buf =
     (if prec = 0 then
        (let diff = d_sub fp value (d_of fp (of_int whole)); half = d_of fp (1 / 2) in
         if (\<not> d_less fp diff half \<or> d_less fp half diff) \<and> odd whole
         then rbind (int_check (whole + 1)) (\<lambda>whole. Inr (buf, whole)) else Inr (buf, whole))
      else
        (let (buf, count) = frac_digits fract prec buf;
             buf = frac_zeros count buf in
         Inr (if length buf < PRINTF_FTOA_BUFFER_SIZE then buf @ [chr CHR ''.''] else buf, whole)))"

text \<open>\<open>_ftoa\<close> once the special and the very large values are dealt with.\<close>

definition ftoa_digits :: "'d fpu \<Rightarrow> 'o out_fct \<Rightarrow> 'd \<Rightarrow> nat \<Rightarrow> nat \<Rightarrow> flags \<Rightarrow> nat \<Rightarrow> 'o \<Rightarrow> (nat \<times> 'o) res" where
  "ftoa_digits fp out value prec width flags idx s =
     (let negative = d_less fp value (d_of fp 0);
          value = (if negative then d_sub fp (d_of fp 0) value else value);
          prec = (if \<not> bit flags FLAGS_PRECISION then PRINTF_DEFAULT_FLOAT_PRECISION else prec);
          (buf, prec) = limit_prec prec [] in
      rbind (to_int fp value) (\<lambda>whole.
      rbind (pow10 prec) (\<lambda>p.
      rbind (round_frac fp value p whole) (\<lambda>(fract, whole).
      rbind (frac_part fp value prec fract whole buf) (\<lambda>(buf, whole).
      let buf = whole_digits whole buf;
          width = (if \<not> bit flags FLAGS_LEFT \<and> bit flags FLAGS_ZEROPAD \<and> width \<noteq> 0 \<and>
                     (negative \<or> bit flags FLAGS_PLUS \<or> bit flags FLAGS_SPACE) then width - 1 else width);
          buf = (if \<not> bit flags FLAGS_LEFT \<and> bit flags FLAGS_ZEROPAD then zero_loop width buf else buf);
          buf = sign_char negative flags buf in
      out_rev out buf width flags idx s)))))"

section \<open>The exponent\<close>

text \<open>The decimal exponent of \<open>value\<close> and the power of ten it stands for.\<close>

definition dec_exponent :: "'d fpu \<Rightarrow> 'd \<Rightarrow> (int \<times> 'd) res" where
  "dec_exponent fp value =
     (let lit = d_of fp; num = (\<lambda>i. d_of fp (of_int i));
          u = d_bits fp value;
          exp2 = uint (drop_bit 52 u AND 0x07FF) - 1023;
          f = d_of_bits fp ((u AND (push_bit 52 1 - 1)) OR push_bit 52 1023) in
      rbind (to_int fp (d_add fp (d_add fp (lit (1760912590558 / 10 ^ 13)) (d_mul fp (num exp2) (lit (301029995663981 / 10 ^ 15))))
               (d_mul fp (d_sub fp f (lit (3 / 2))) (lit (289529654602168 / 10 ^ 15))))) (\<lambda>expval.
      rbind (to_int fp (d_add fp (d_mul fp (num expval) (lit (3321928094887362 / 10 ^ 15))) (lit (1 / 2)))) (\<lambda>exp2.
      let z = d_sub fp (d_mul fp (num expval) (lit (2302585092994046 / 10 ^ 15))) (d_mul fp (num exp2) (lit (6931471805599453 / 10 ^ 16)));
          z2 = d_mul fp z z;
          f = d_of_bits fp (push_bit 52 (word_of_int (exp2 + 1023)));
          f = d_mul fp f (d_add fp (num 1) (d_div fp (d_mul fp (num 2) z)
                (d_add fp (d_sub fp (num 2) z)
                  (d_div fp z2 (d_add fp (num 6) (d_div fp z2 (d_add fp (num 10) (d_div fp z2 (num 14)))))))))
      in Inr (if d_less fp value f then (expval - 1, d_div fp f (num 10)) else (expval, f)))))"

text \<open>The exponent, the precision, the flags and the width of the exponent of \<open>%g\<close> and \<open>%e\<close>.\<close>

definition exp_format :: "'d fpu \<Rightarrow> 'd \<Rightarrow> int \<Rightarrow> nat \<Rightarrow> flags \<Rightarrow> (int \<times> nat \<times> flags \<times> nat) res" where
  "exp_format fp value expval prec flags =
     (let minwidth = (if expval < 100 \<and> - 100 < expval then 4 else 5) in
      if bit flags FLAGS_ADAPT_EXP then
        if d_le fp (d_of fp (1 / 10 ^ 4)) value \<and> d_less fp value (d_of fp (10 ^ 6)) then
          rbind (if expval < c_int prec then rbind (int_check (c_int prec - expval)) (\<lambda>x. rbind (int_check (x - 1)) (\<lambda>y. Inr (u32 y)))
                 else Inr 0) (\<lambda>prec.
          Inr (0, prec, set_bit FLAGS_PRECISION flags, 0))
        else Inr (expval, if 0 < prec \<and> bit flags FLAGS_PRECISION then prec - 1 else prec, flags, minwidth)
      else Inr (expval, prec, flags, minwidth))"

fun ftoa :: "'d fpu \<Rightarrow> nat \<Rightarrow> 'o out_fct \<Rightarrow> 'd \<Rightarrow> nat \<Rightarrow> nat \<Rightarrow> flags \<Rightarrow> nat \<Rightarrow> 'o \<Rightarrow> (nat \<times> 'o) res"
  and etoa :: "'d fpu \<Rightarrow> nat \<Rightarrow> 'o out_fct \<Rightarrow> 'd \<Rightarrow> nat \<Rightarrow> nat \<Rightarrow> flags \<Rightarrow> nat \<Rightarrow> 'o \<Rightarrow> (nat \<times> 'o) res" where
  "ftoa fp 0 out value prec width flags idx s = Inl OutOfFuel"
| "ftoa fp (Suc fuel) out value prec width flags idx s =
     (if \<not> d_eq fp value value then out_rev out (map of_char ''nan'') width flags idx s
      else if d_less fp value (d_neg fp (DBL_MAX fp)) then out_rev out (map of_char ''fni-'') width flags idx s
      else if d_less fp (DBL_MAX fp) value then
        out_rev out (map of_char (if bit flags FLAGS_PLUS then ''fni+'' else ''fni'')) width flags idx s
      else if d_less fp (d_of fp PRINTF_MAX_FLOAT) value \<or> d_less fp value (d_of fp (- PRINTF_MAX_FLOAT)) then
        etoa fp fuel out value prec width flags idx s
      else ftoa_digits fp out value prec width flags idx s)"
| "etoa fp 0 out value prec width flags idx s = Inl OutOfFuel"
| "etoa fp (Suc fuel) out value prec width flags idx s =
     (if \<not> d_eq fp value value \<or> d_less fp (DBL_MAX fp) value \<or> d_less fp value (d_neg fp (DBL_MAX fp)) then
        ftoa fp fuel out value prec width flags idx s
      else
        (let negative = d_less fp value (d_of fp 0);
             value = (if negative then d_neg fp value else value);
             prec = (if \<not> bit flags FLAGS_PRECISION then PRINTF_DEFAULT_FLOAT_PRECISION else prec) in
         rbind (dec_exponent fp value) (\<lambda>(expval, f).
         rbind (exp_format fp value expval prec flags) (\<lambda>(expval, prec, flags, minwidth).
         let fwidth = (if minwidth < width then width - minwidth else 0);
             fwidth = (if bit flags FLAGS_LEFT \<and> minwidth \<noteq> 0 then 0 else fwidth);
             value = (if expval \<noteq> 0 then d_div fp value f else value);
             start_idx = idx in
         rbind (ftoa fp fuel out (if negative then d_neg fp value else value) prec fwidth (unset_bit FLAGS_ADAPT_EXP flags) idx s)
           (\<lambda>(idx, s).
         if minwidth \<noteq> 0 then
           rbind (out (if bit flags FLAGS_UPPERCASE then chr CHR ''E'' else chr CHR ''e'') idx s) (\<lambda>s.
           rbind (ntoa_long out (nat \<bar>expval\<bar>) (expval < 0) 10 0 (minwidth - 1)
                   (set_bit FLAGS_ZEROPAD (set_bit FLAGS_PLUS 0)) (idx + 1) s) (\<lambda>(idx, s).
           if bit flags FLAGS_LEFT then pad_spaces out (idx - start_idx) width idx s else Inr (idx, s)))
         else Inr (idx, s))))))"

end
