(* ===== verification/Format.thy ===== *)
theory Format
  imports Ftoa
begin

text \<open>
  \<open>_vsnprintf\<close> of \<open>lib/printf.c\<close> and the functions that call it. The arguments of a call are the list of
  the values that \<open>va_arg\<close> takes one by one: \<open>Arg\<close> holds the 64 bits of an integer or a pointer,
  \<open>Double\<close> a floating point value. Taking an argument that was not passed, or one of the other kind, is
  a fault. \<open>rd\<close> is the memory that \<open>%s\<close> reads. A format that ends inside a conversion makes the
  code step over the terminator, which is a fault as well.
\<close>

section \<open>Arguments\<close>

datatype 'd arg = Arg nat | Double 'd

primrec va_arg :: "'d arg list \<Rightarrow> (nat \<times> 'd arg list) res" where
  "va_arg [] = Inl OutOfBounds"
| "va_arg (a # as) = (case a of Arg n \<Rightarrow> Inr (n, as) | Double _ \<Rightarrow> Inl OutOfBounds)"

primrec va_arg_double :: "'d arg list \<Rightarrow> ('d \<times> 'd arg list) res" where
  "va_arg_double [] = Inl OutOfBounds"
| "va_arg_double (a # as) = (case a of Double v \<Rightarrow> Inr (v, as) | Arg _ \<Rightarrow> Inl OutOfBounds)"

text \<open>The signed number in the lowest \<open>w\<close> bits, and \<open>value > 0 ? value : 0 - value\<close> in that type.\<close>

definition signed :: "nat \<Rightarrow> nat \<Rightarrow> int" where
  "signed w n = (int n + 2 ^ (w - 1)) mod 2 ^ w - 2 ^ (w - 1)"

definition magnitude :: "nat \<Rightarrow> int \<Rightarrow> nat res" where
  "magnitude w v = (if v > 0 then Inr (nat v) else if - v < 2 ^ (w - 1) then Inr (nat (- v)) else Inl IntOverflow)"

section \<open>The fields of a conversion\<close>

text \<open>The character at the format pointer.\<close>

definition cur :: "byte list \<Rightarrow> byte" where
  "cur fmt = (case fmt of [] \<Rightarrow> 0 | c # cs \<Rightarrow> c)"

definition flag_of :: "byte \<Rightarrow> nat option" where
  "flag_of c =
     (if c = chr CHR ''0'' then Some FLAGS_ZEROPAD
      else if c = chr CHR ''-'' then Some FLAGS_LEFT
      else if c = chr CHR ''+'' then Some FLAGS_PLUS
      else if c = chr CHR '' '' then Some FLAGS_SPACE
      else if c = chr CHR ''#'' then Some FLAGS_HASH
      else None)"

fun parse_flags :: "byte list \<Rightarrow> flags \<Rightarrow> flags \<times> byte list" where
  "parse_flags (c # cs) flags = (case flag_of c of Some f \<Rightarrow> parse_flags cs (set_bit f flags) | None \<Rightarrow> (flags, c # cs))"
| "parse_flags [] flags = (flags, [])"

definition parse_width :: "byte list \<Rightarrow> flags \<Rightarrow> 'd arg list \<Rightarrow> (nat \<times> flags \<times> byte list \<times> 'd arg list) res" where
  "parse_width fmt flags va =
     (if is_dig (cur fmt) then (let (width, fmt) = pf_atoi fmt 0 in Inr (width, flags, fmt, va))
      else if cur fmt = chr CHR ''*'' then
        rbind (va_arg va) (\<lambda>(n, va).
        let w = c_int n in
        if w < 0 then rbind (int_check (- w)) (\<lambda>w. Inr (u32 w, set_bit FLAGS_LEFT flags, tl fmt, va))
        else Inr (u32 w, flags, tl fmt, va))
      else Inr (0, flags, fmt, va))"

definition parse_precision :: "byte list \<Rightarrow> flags \<Rightarrow> 'd arg list \<Rightarrow> (nat \<times> flags \<times> byte list \<times> 'd arg list) res" where
  "parse_precision fmt flags va =
     (if cur fmt = chr CHR ''.'' then
        (let flags = set_bit FLAGS_PRECISION flags; fmt = tl fmt in
         if is_dig (cur fmt) then (let (precision, fmt) = pf_atoi fmt 0 in Inr (precision, flags, fmt, va))
         else if cur fmt = chr CHR ''*'' then
           rbind (va_arg va) (\<lambda>(n, va).
           let prec = c_int n in
           Inr (if 0 < prec then u32 prec else 0, flags, tl fmt, va))
         else Inr (0, flags, fmt, va))
      else Inr (0, flags, fmt, va))"

text \<open>\<open>ptrdiff_t\<close>, \<open>intmax_t\<close> and \<open>size_t\<close> have the size of \<open>long\<close>.\<close>

definition parse_length :: "byte list \<Rightarrow> flags \<Rightarrow> flags \<times> byte list" where
  "parse_length fmt flags =
     (if cur fmt = chr CHR ''l'' then
        (let flags = set_bit FLAGS_LONG flags; fmt = tl fmt in
         if cur fmt = chr CHR ''l'' then (set_bit FLAGS_LONG_LONG flags, tl fmt) else (flags, fmt))
      else if cur fmt = chr CHR ''h'' then
        (let flags = set_bit FLAGS_SHORT flags; fmt = tl fmt in
         if cur fmt = chr CHR ''h'' then (set_bit FLAGS_CHAR flags, tl fmt) else (flags, fmt))
      else if cur fmt = chr CHR ''t'' \<or> cur fmt = chr CHR ''j'' \<or> cur fmt = chr CHR ''z'' then (set_bit FLAGS_LONG flags, tl fmt)
      else (flags, fmt))"

section \<open>The conversions\<close>

definition is_signed :: "byte \<Rightarrow> bool" where
  "is_signed c \<longleftrightarrow> c = chr CHR ''i'' \<or> c = chr CHR ''d''"

definition base_of :: "byte \<Rightarrow> nat" where
  "base_of c =
     (if c = chr CHR ''x'' \<or> c = chr CHR ''X'' then 16
      else if c = chr CHR ''o'' then 8
      else if c = chr CHR ''b'' then 2
      else 10)"

text \<open>The changes of the flags before an integer is converted.\<close>

definition int_flags :: "byte \<Rightarrow> flags \<Rightarrow> flags" where
  "int_flags c flags =
     (let flags = (if base_of c = 10 then unset_bit FLAGS_HASH flags else flags);
          flags = (if c = chr CHR ''X'' then set_bit FLAGS_UPPERCASE flags else flags);
          flags = (if \<not> is_signed c then unset_bit FLAGS_PLUS (unset_bit FLAGS_SPACE flags) else flags) in
      if bit flags FLAGS_PRECISION then unset_bit FLAGS_ZEROPAD flags else flags)"

definition convert_int ::
  "'o out_fct \<Rightarrow> byte \<Rightarrow> flags \<Rightarrow> nat \<Rightarrow> nat \<Rightarrow> 'd arg list \<Rightarrow> nat \<Rightarrow> 'o \<Rightarrow> (nat \<times> 'o \<times> 'd arg list) res" where
  "convert_int out c flags width precision va idx s =
     (let base = base_of c; flags = int_flags c flags in
      rbind (va_arg va) (\<lambda>(n, va).
      if is_signed c then
        if bit flags FLAGS_LONG_LONG then
          (let value = signed 64 n in
           rbind (magnitude 64 value) (\<lambda>v.
           rbind (ntoa_long_long out v (value < 0) base precision width flags idx s) (\<lambda>(idx, s). Inr (idx, s, va))))
        else if bit flags FLAGS_LONG then
          (let value = signed 64 n in
           rbind (magnitude 64 value) (\<lambda>v.
           rbind (ntoa_long out v (value < 0) base precision width flags idx s) (\<lambda>(idx, s). Inr (idx, s, va))))
        else
          (let value = (if bit flags FLAGS_CHAR then int (n mod 2 ^ 8)
                        else if bit flags FLAGS_SHORT then signed 16 n else signed 32 n) in
           rbind (magnitude 32 value) (\<lambda>v.
           rbind (ntoa_long out v (value < 0) base precision width flags idx s) (\<lambda>(idx, s). Inr (idx, s, va))))
      else
        if bit flags FLAGS_LONG_LONG then
          rbind (ntoa_long_long out n False base precision width flags idx s) (\<lambda>(idx, s). Inr (idx, s, va))
        else if bit flags FLAGS_LONG then
          rbind (ntoa_long out n False base precision width flags idx s) (\<lambda>(idx, s). Inr (idx, s, va))
        else
          (let value = (if bit flags FLAGS_CHAR then n mod 2 ^ 8
                        else if bit flags FLAGS_SHORT then n mod 2 ^ 16 else n mod 2 ^ 32) in
           rbind (ntoa_long out value False base precision width flags idx s) (\<lambda>(idx, s). Inr (idx, s, va)))))"

definition convert_char ::
  "'o out_fct \<Rightarrow> flags \<Rightarrow> nat \<Rightarrow> 'd arg list \<Rightarrow> nat \<Rightarrow> 'o \<Rightarrow> (nat \<times> 'o \<times> 'd arg list) res" where
  "convert_char out flags width va idx s =
     rbind (if \<not> bit flags FLAGS_LEFT then pad_spaces out 1 width idx s else Inr (idx, s)) (\<lambda>(idx, s).
     rbind (va_arg va) (\<lambda>(n, va).
     rbind (out (of_nat n) idx s) (\<lambda>s.
     rbind (if bit flags FLAGS_LEFT then pad_spaces out 1 width (idx + 1) s else Inr (idx + 1, s)) (\<lambda>(idx, s).
     Inr (idx, s, va)))))"

text \<open>\<open>while ((*p != 0) && (!(flags & FLAGS_PRECISION) || precision--)) out(*(p++), buffer, idx++, maxlen);\<close>\<close>

partial_function (option) string_loop ::
  "'o out_fct \<Rightarrow> ('o \<Rightarrow> mem) \<Rightarrow> bool \<Rightarrow> addr \<Rightarrow> nat \<Rightarrow> nat \<Rightarrow> 'o \<Rightarrow> (nat \<times> 'o) res option" where
  "string_loop out rd limited p precision idx s =
     (if rd s p \<noteq> 0 \<and> (\<not> limited \<or> 0 < precision) then
        (case out (rd s p) idx s of
           Inl e \<Rightarrow> Some (Inl e)
         | Inr s \<Rightarrow> string_loop out rd limited (p + 1) (if limited then precision - 1 else precision) (idx + 1) s)
      else Some (Inr (idx, s)))"

definition convert_string ::
  "'o out_fct \<Rightarrow> ('o \<Rightarrow> mem) \<Rightarrow> flags \<Rightarrow> nat \<Rightarrow> nat \<Rightarrow> 'd arg list \<Rightarrow> nat \<Rightarrow> 'o \<Rightarrow> (nat \<times> 'o \<times> 'd arg list) res" where
  "convert_string out rd flags width precision va idx s =
     rbind (va_arg va) (\<lambda>(p, va).
     if p = 0 then Inl NullDeref
     else
       (let l = u32 (int (strnlen_s (rd s) (int p) (if precision \<noteq> 0 then precision else 2 ^ 64 - 1)));
            l = (if bit flags FLAGS_PRECISION then min l precision else l) in
        rbind (if \<not> bit flags FLAGS_LEFT then pad_spaces out l width idx s else Inr (idx, s)) (\<lambda>(idx, s).
        rbind (finish (string_loop out rd (bit flags FLAGS_PRECISION) (int p) precision idx s)) (\<lambda>(idx, s).
        rbind (if bit flags FLAGS_LEFT then pad_spaces out l width idx s else Inr (idx, s)) (\<lambda>(idx, s).
        Inr (idx, s, va))))))"

definition convert_pointer ::
  "'o out_fct \<Rightarrow> flags \<Rightarrow> nat \<Rightarrow> 'd arg list \<Rightarrow> nat \<Rightarrow> 'o \<Rightarrow> (nat \<times> 'o \<times> 'd arg list) res" where
  "convert_pointer out flags precision va idx s =
     rbind (va_arg va) (\<lambda>(n, va).
     rbind (ntoa_long_long out n False 16 precision 16 (set_bit FLAGS_ZEROPAD (set_bit FLAGS_UPPERCASE flags)) idx s)
       (\<lambda>(idx, s). Inr (idx, s, va)))"

text \<open>\<open>%f\<close> and \<open>%F\<close>, and \<open>%e\<close>, \<open>%E\<close>, \<open>%g\<close> and \<open>%G\<close>.\<close>

definition convert_float ::
  "'d fpu \<Rightarrow> 'o out_fct \<Rightarrow> byte \<Rightarrow> flags \<Rightarrow> nat \<Rightarrow> nat \<Rightarrow> 'd arg list \<Rightarrow> nat \<Rightarrow> 'o \<Rightarrow> (nat \<times> 'o \<times> 'd arg list) res" where
  "convert_float fp out c flags width precision va idx s =
     rbind (va_arg_double va) (\<lambda>(v, va).
     rbind (if c = chr CHR ''f'' \<or> c = chr CHR ''F'' then
              ftoa fp 3 out v precision width (if c = chr CHR ''F'' then set_bit FLAGS_UPPERCASE flags else flags) idx s
            else
              (let flags = (if c = chr CHR ''g'' \<or> c = chr CHR ''G'' then set_bit FLAGS_ADAPT_EXP flags else flags);
                   flags = (if c = chr CHR ''E'' \<or> c = chr CHR ''G'' then set_bit FLAGS_UPPERCASE flags else flags) in
               etoa fp 3 out v precision width flags idx s)) (\<lambda>(idx, s).
     Inr (idx, s, va)))"

definition convert ::
  "'d fpu \<Rightarrow> 'o out_fct \<Rightarrow> ('o \<Rightarrow> mem) \<Rightarrow> byte \<Rightarrow> flags \<Rightarrow> nat \<Rightarrow> nat \<Rightarrow> 'd arg list \<Rightarrow> nat \<Rightarrow> 'o \<Rightarrow>
   (nat \<times> 'o \<times> 'd arg list) res" where
  "convert fp out rd c flags width precision va idx s =
     (if c \<in> set (map of_char ''diuxXob'') then convert_int out c flags width precision va idx s
      else if c \<in> set (map of_char ''fFeEgG'') then convert_float fp out c flags width precision va idx s
      else if c = chr CHR ''c'' then convert_char out flags width va idx s
      else if c = chr CHR ''s'' then convert_string out rd flags width precision va idx s
      else if c = chr CHR ''p'' then convert_pointer out flags precision va idx s
      else rbind (out c idx s) (\<lambda>s. Inr (idx + 1, s, va)))"

section \<open>The main loop\<close>

text \<open>The fields between \<open>%\<close> and the character of the conversion.\<close>

definition parse_fields :: "byte list \<Rightarrow> 'd arg list \<Rightarrow> (flags \<times> nat \<times> nat \<times> byte list \<times> 'd arg list) res" where
  "parse_fields fmt va =
     (let (flags, fmt) = parse_flags fmt 0 in
      rbind (parse_width fmt flags va) (\<lambda>(width, flags, fmt, va).
      rbind (parse_precision fmt flags va) (\<lambda>(precision, flags, fmt, va).
      let (flags, fmt) = parse_length fmt flags in
      Inr (flags, width, precision, fmt, va))))"

lemma parse_flags_length: "length (snd (parse_flags fmt flags)) \<le> length fmt"
  by (induction fmt flags rule: parse_flags.induct) (auto split: option.split simp: le_SucI)

lemma pf_atoi_length: "length (snd (pf_atoi fmt i)) \<le> length fmt"
  by (induction fmt i rule: pf_atoi.induct) auto

lemma parse_width_length:
  "parse_width fmt flags va = Inr (w, flags', fmt', va') \<Longrightarrow> length fmt' \<le> length fmt"
  using pf_atoi_length [of fmt 0]
  by (auto simp: parse_width_def rbind_eq_Inr Let_def split: if_splits prod.splits)

lemma parse_precision_length:
  "parse_precision fmt flags va = Inr (p, flags', fmt', va') \<Longrightarrow> length fmt' \<le> length fmt"
  using pf_atoi_length [of "tl fmt" 0]
  by (auto simp: parse_precision_def rbind_eq_Inr Let_def split: if_splits prod.splits)

lemma parse_length_length: "length (snd (parse_length fmt flags)) \<le> length fmt"
  by (auto simp: parse_length_def Let_def)

lemma parse_fields_length:
  assumes "parse_fields fmt va = Inr (flags, width, precision, fmt', va')"
  shows "length fmt' \<le> length fmt"
proof -
  obtain f1 c1 where 1: "parse_flags fmt 0 = (f1, c1)" by fastforce
  obtain w f2 c2 v2 where 2: "parse_width c1 f1 va = Inr (w, f2, c2, v2)"
    and r: "rbind (parse_precision c2 f2 v2) (\<lambda>(precision, flags, fmt, va).
      let (flags, fmt) = parse_length fmt flags in Inr (flags, w, precision, fmt, va))
      = Inr (flags, width, precision, fmt', va')"
    using assms by (auto simp: parse_fields_def 1 rbind_eq_Inr)
  obtain p f3 c3 v3 where 3: "parse_precision c2 f2 v2 = Inr (p, f3, c3, v3)" and 4: "fmt' = snd (parse_length c3 f3)"
    using r by (fastforce simp: rbind_eq_Inr case_prod_unfold Let_def)
  show ?thesis
    using parse_flags_length [of fmt 0] parse_width_length [OF 2] parse_precision_length [OF 3] parse_length_length [of c3 f3]
    by (simp add: 1 4)
qed

function vsn_loop ::
  "'d fpu \<Rightarrow> 'o out_fct \<Rightarrow> ('o \<Rightarrow> mem) \<Rightarrow> byte list \<Rightarrow> 'd arg list \<Rightarrow> nat \<Rightarrow> 'o \<Rightarrow> (nat \<times> 'o) res" where
  "vsn_loop fp out rd [] va idx s = Inr (idx, s)"
| "vsn_loop fp out rd (c # fmt) va idx s =
     (if c \<noteq> chr CHR ''%'' then rbind (out c idx s) (\<lambda>s. vsn_loop fp out rd fmt va (idx + 1) s)
      else
        rbind (parse_fields fmt va) (\<lambda>(flags, width, precision, fmt, va).
        rbind (convert fp out rd (cur fmt) flags width precision va idx s) (\<lambda>(idx, s, va).
        case fmt of [] \<Rightarrow> Inl OutOfBounds | _ # fmt \<Rightarrow> vsn_loop fp out rd fmt va idx s)))"
  by pat_completeness auto
termination
  by (relation "measure (\<lambda>(fp, out, rd, fmt, va, idx, s). length fmt)") (auto dest: parse_fields_length)

text \<open>\<open>null\<close> tells whether the buffer is \<open>NULL\<close>.\<close>

definition vsnprintf_core ::
  "'d fpu \<Rightarrow> 'o out_fct \<Rightarrow> ('o \<Rightarrow> mem) \<Rightarrow> bool \<Rightarrow> nat \<Rightarrow> byte list \<Rightarrow> 'd arg list \<Rightarrow> 'o \<Rightarrow> (int \<times> 'o) res" where
  "vsnprintf_core fp out rd null maxlen fmt va s =
     (let out = (if null then out_null else out) in
      rbind (vsn_loop fp out rd fmt va 0 s) (\<lambda>(idx, s).
      rbind (out 0 (if idx < maxlen then idx else u64 (int maxlen - 1)) s) (\<lambda>s.
      Inr (c_int idx, s))))"

section \<open>The functions that programs call\<close>

definition printf :: "'d fpu \<Rightarrow> uart_dev \<Rightarrow> byte list \<Rightarrow> 'd arg list \<Rightarrow> vfs \<Rightarrow> (int \<times> vfs) res" where
  "printf fp d fmt va s = vsnprintf_core fp (out_char d) bytes False (2 ^ 64 - 1) fmt va s"

definition vprintf :: "'d fpu \<Rightarrow> uart_dev \<Rightarrow> byte list \<Rightarrow> 'd arg list \<Rightarrow> vfs \<Rightarrow> (int \<times> vfs) res" where
  "vprintf fp d fmt va s = vsnprintf_core fp (out_char d) bytes False (2 ^ 64 - 1) fmt va s"

definition sprintf :: "'d fpu \<Rightarrow> addr \<Rightarrow> byte list \<Rightarrow> 'd arg list \<Rightarrow> mem \<Rightarrow> (int \<times> mem) res" where
  "sprintf fp buffer fmt va m =
     vsnprintf_core fp (out_buffer buffer (2 ^ 64 - 1)) (\<lambda>m. m) (buffer = 0) (2 ^ 64 - 1) fmt va m"

definition snprintf :: "'d fpu \<Rightarrow> addr \<Rightarrow> nat \<Rightarrow> byte list \<Rightarrow> 'd arg list \<Rightarrow> mem \<Rightarrow> (int \<times> mem) res" where
  "snprintf fp buffer n fmt va m = vsnprintf_core fp (out_buffer buffer n) (\<lambda>m. m) (buffer = 0) n fmt va m"

definition vsnprintf :: "'d fpu \<Rightarrow> addr \<Rightarrow> nat \<Rightarrow> byte list \<Rightarrow> 'd arg list \<Rightarrow> mem \<Rightarrow> (int \<times> mem) res" where
  "vsnprintf fp buffer n fmt va m = vsnprintf_core fp (out_buffer buffer n) (\<lambda>m. m) (buffer = 0) n fmt va m"

text \<open>The caller's function with its argument is \<open>f\<close>.\<close>

definition fctprintf ::
  "'d fpu \<Rightarrow> (byte \<Rightarrow> 'o \<Rightarrow> 'o res) \<Rightarrow> ('o \<Rightarrow> mem) \<Rightarrow> byte list \<Rightarrow> 'd arg list \<Rightarrow> 'o \<Rightarrow> (int \<times> 'o) res" where
  "fctprintf fp f rd fmt va s = vsnprintf_core fp (out_wrap f) rd False (2 ^ 64 - 1) fmt va s"

end
