(* ===== verification/PrintfProps.thy ===== *)
theory PrintfProps
  imports Format StringProps
begin

text \<open>
  What the functions of \<open>lib/printf.c\<close> put out, as lists of characters. \<open>emit\<close> puts out a list one
  character after the other; the padding loops, the reversal and the conversions of integers are
  shown to emit a list that does not depend on the output function. A floating point conversion
  does so too, whatever the operations on \<open>double\<close> are. \<open>sink\<close> is the contract of an output
  function that leaves the strings of \<open>%s\<close> alone, under which the whole loop emits the text that
  the same loop collects in a list.
\<close>

section \<open>Emitting a list of characters\<close>

primrec emit :: "'o out_fct \<Rightarrow> byte list \<Rightarrow> nat \<Rightarrow> 'o \<Rightarrow> (nat \<times> 'o) res" where
  "emit out [] idx s = Inr (idx, s)"
| "emit out (c # cs) idx s = rbind (out c idx s) (\<lambda>s. emit out cs (idx + 1) s)"

lemma emit_append: "emit out (xs @ ys) idx s = rbind (emit out xs idx s) (\<lambda>(idx, s). emit out ys idx s)"
  by (induction xs arbitrary: idx s) (simp_all add: rbind_assoc)

lemma emit_index: "emit out cs idx s = Inr (i, s') \<Longrightarrow> i = idx + length cs"
  by (induction cs arbitrary: idx s) (fastforce simp: rbind_eq_Inr)+

text \<open>A step after \<open>emit\<close> may use the number of characters instead of the index.\<close>

lemma emit_then:
  "(\<And>s. f (idx + length cs, s) = g s) \<Longrightarrow> rbind (emit out cs idx s) f = rbind (emit out cs idx s) (\<lambda>(_, s). g s)"
  by (cases "emit out cs idx s") (auto dest: emit_index)

lemma emit_one: "rbind (out c idx s) (\<lambda>s. emit out cs (idx + 1) s) = emit out (c # cs) idx s"
  by simp

text \<open>The list as an output function.\<close>

definition out_list :: "byte list out_fct" where
  "out_list c idx l = Inr (l @ [c])"

lemma emit_list [simp]: "emit out_list cs idx l = Inr (idx + length cs, l @ cs)"
  by (induction cs arbitrary: idx l) (simp_all add: out_list_def)

section \<open>Padding and reversal\<close>

lemma pad_spaces_emit: "pad_spaces out i width idx s = emit out (replicate (width - i) (chr CHR '' '')) idx s"
proof (induction out i width idx s rule: pad_spaces.induct)
  case (1 out i width idx s)
  show ?case
  proof (cases "i < width")
    case True
    then have "width - i = Suc (width - (i + 1))" by simp
    then show ?thesis using 1 True by (subst pad_spaces.simps) (simp cong: rbind_cong)
  qed (subst pad_spaces.simps, simp)
qed

lemma rev_loop_emit: "n \<le> length buf \<Longrightarrow> rev_loop out buf n idx s = emit out (rev (take n buf)) idx s"
  by (induction n arbitrary: idx s) (simp_all add: take_Suc_conv_app_nth)

definition rev_chars :: "byte list \<Rightarrow> nat \<Rightarrow> flags \<Rightarrow> byte list" where
  "rev_chars buf width flags =
     (let pad = replicate (width - length buf) (chr CHR '' '') in
      (if \<not> bit flags FLAGS_LEFT \<and> \<not> bit flags FLAGS_ZEROPAD then pad else []) @ rev buf @
      (if bit flags FLAGS_LEFT then pad else []))"

lemma out_rev_emit: "out_rev out buf width flags idx s = emit out (rev_chars buf width flags) idx s"
proof -
  have left: "rbind (emit out (rev buf) idx s) (\<lambda>(i, s). pad_spaces out (i - idx) width i s) =
      emit out (rev buf @ replicate (width - length buf) (chr CHR '' '')) idx s"
    unfolding emit_append by (cases "emit out (rev buf) idx s") (auto simp: pad_spaces_emit dest: emit_index)
  show ?thesis
    using left by (auto simp: out_rev_def rev_chars_def Let_def rev_loop_emit pad_spaces_emit emit_append
        case_prod_unfold rbind_assoc)
qed

section \<open>Integers\<close>

text \<open>The buffer of a number before it is reversed, and the text of the number.\<close>

definition num_buf :: "byte list \<Rightarrow> bool \<Rightarrow> nat \<Rightarrow> nat \<Rightarrow> nat \<Rightarrow> flags \<Rightarrow> byte list" where
  "num_buf buf negative base prec width flags =
     (let buf = (if \<not> bit flags FLAGS_LEFT then
                   (let buf = zero_loop prec buf in if bit flags FLAGS_ZEROPAD then zero_loop width buf else buf) else buf);
          buf = (if bit flags FLAGS_HASH then hash_prefix base prec width flags buf else buf) in
      sign_char negative flags buf)"

definition num_width :: "bool \<Rightarrow> nat \<Rightarrow> flags \<Rightarrow> nat" where
  "num_width negative width flags =
     (if \<not> bit flags FLAGS_LEFT \<and> width \<noteq> 0 \<and> bit flags FLAGS_ZEROPAD \<and>
        (negative \<or> bit flags FLAGS_PLUS \<or> bit flags FLAGS_SPACE) then width - 1 else width)"

definition int_text :: "nat \<Rightarrow> bool \<Rightarrow> nat \<Rightarrow> nat \<Rightarrow> nat \<Rightarrow> flags \<Rightarrow> byte list" where
  "int_text value negative base prec width flags =
     (let flags = (if value = 0 then unset_bit FLAGS_HASH flags else flags);
          buf = (if \<not> bit flags FLAGS_PRECISION \<or> value \<noteq> 0 then digit_loop value base (bit flags FLAGS_UPPERCASE) [] else []);
          width = num_width negative width flags in
      rev_chars (num_buf buf negative base prec width flags) width flags)"

lemma ntoa_format_emit:
  "ntoa_format out buf negative base prec width flags idx s =
     (let width = num_width negative width flags in
      emit out (rev_chars (num_buf buf negative base prec width flags) width flags) idx s)"
  by (simp only: ntoa_format_def num_width_def num_buf_def Let_def out_rev_emit)

lemma ntoa_long_emit: "ntoa_long out value negative base prec width flags idx s =
    emit out (int_text value negative base prec width flags) idx s"
  by (simp only: ntoa_long_def int_text_def Let_def ntoa_format_emit)

lemma ntoa_long_long_emit: "ntoa_long_long out value negative base prec width flags idx s =
    emit out (int_text value negative base prec width flags) idx s"
  by (simp only: ntoa_long_long_def int_text_def Let_def ntoa_format_emit)

section \<open>Floating point numbers\<close>

text \<open>Two runs, with different output functions, emit the same list or fail in the same way.\<close>

definition same_text :: "'o out_fct \<Rightarrow> 'p out_fct \<Rightarrow> (nat \<Rightarrow> 'o \<Rightarrow> (nat \<times> 'o) res) \<Rightarrow> (nat \<Rightarrow> 'p \<Rightarrow> (nat \<times> 'p) res) \<Rightarrow> bool" where
  "same_text out out' F G \<longleftrightarrow>
     (\<exists>r. (\<forall>idx s. F idx s = rbind r (\<lambda>cs. emit out cs idx s)) \<and> (\<forall>idx s. G idx s = rbind r (\<lambda>cs. emit out' cs idx s)))"

lemma same_text_emit [intro]:
  "(\<And>idx s. F idx s = emit out cs idx s) \<Longrightarrow> (\<And>idx s. G idx s = emit out' cs idx s) \<Longrightarrow> same_text out out' F G"
  unfolding same_text_def by (rule exI [of _ "Inr cs"]) simp

lemma same_text_fault [intro]: "same_text out out' (\<lambda>idx s. Inl e) (\<lambda>idx s. Inl e)"
  unfolding same_text_def by (rule exI [of _ "Inl e"]) simp

lemma same_text_if [intro]:
  "same_text out out' F G \<Longrightarrow> same_text out out' F' G' \<Longrightarrow>
   same_text out out' (\<lambda>idx s. if b then F idx s else F' idx s) (\<lambda>idx s. if b then G idx s else G' idx s)"
  by (cases b) simp_all

lemma same_text_bind [intro]:
  assumes "\<And>x. same_text out out' (F x) (G x)"
  shows "same_text out out' (\<lambda>idx s. rbind p (\<lambda>x. F x idx s)) (\<lambda>idx s. rbind p (\<lambda>x. G x idx s))"
  using assms by (cases p) auto

text \<open>What follows may depend on the number of characters put out so far.\<close>

lemma same_text_seq:
  assumes "same_text out out' F G"
    and f: "\<And>idx n s. f idx (idx + n, s) = emit out (q n) (idx + n) s"
    and g: "\<And>idx n s. g idx (idx + n, s) = emit out' (q n) (idx + n) s"
  shows "same_text out out' (\<lambda>idx s. rbind (F idx s) (f idx)) (\<lambda>idx s. rbind (G idx s) (g idx))"
proof -
  obtain r where F: "\<And>idx s. F idx s = rbind r (\<lambda>cs. emit out cs idx s)" and G: "\<And>idx s. G idx s = rbind r (\<lambda>cs. emit out' cs idx s)"
    using assms(1) unfolding same_text_def by blast
  have step: "rbind (emit o' cs idx s) (h idx) = emit o' (cs @ q (length cs)) idx s"
    if "\<And>idx n s. h idx (idx + n, s) = emit o' (q n) (idx + n) s" for o' :: "'x out_fct" and h cs idx s
    using that by (cases "emit o' cs idx s") (auto simp: emit_append dest: emit_index)
  show ?thesis
  proof (cases r)
    case (Inl e)
    then show ?thesis by (auto simp: F G)
  next
    case (Inr cs)
    then show ?thesis
      by (intro same_text_emit [where cs = "cs @ q (length cs)"]) (simp_all add: F G step [OF f] step [OF g])
  qed
qed

lemma ftoa_digits_same:
  "same_text out out' (ftoa_digits fp out value prec width flags) (ftoa_digits fp out' value prec width flags)"
proof -
  obtain buf prec' where l: "limit_prec (if \<not> bit flags FLAGS_PRECISION then PRINTF_DEFAULT_FLOAT_PRECISION else prec) [] = (buf, prec')"
    by fastforce
  show ?thesis
    unfolding ftoa_digits_def Let_def l out_rev_emit
    by (simp only: case_prod_unfold fst_conv snd_conv) (intro same_text_bind same_text_emit; rule refl)
qed

text \<open>What \<open>_etoa\<close> puts out after the floating part, which has \<open>n\<close> characters.\<close>

definition exp_text :: "nat \<Rightarrow> int \<Rightarrow> nat \<Rightarrow> nat \<Rightarrow> flags \<Rightarrow> byte list" where
  "exp_text n expval minwidth width flags =
     (if minwidth \<noteq> 0 then
        (let cs = (if bit flags FLAGS_UPPERCASE then chr CHR ''E'' else chr CHR ''e'') #
               int_text (nat \<bar>expval\<bar>) (expval < 0) 10 0 (minwidth - 1) (set_bit FLAGS_ZEROPAD (set_bit FLAGS_PLUS 0)) in
         cs @ (if bit flags FLAGS_LEFT then replicate (width - (n + length cs)) (chr CHR '' '') else []))
      else [])"

lemma exp_text_emit:
  "(if minwidth \<noteq> 0 then
      rbind (out (if bit flags FLAGS_UPPERCASE then chr CHR ''E'' else chr CHR ''e'') (idx + n) s) (\<lambda>s.
      rbind (ntoa_long out (nat \<bar>expval\<bar>) (expval < 0) 10 0 (minwidth - 1)
              (set_bit FLAGS_ZEROPAD (set_bit FLAGS_PLUS 0)) (idx + n + 1) s) (\<lambda>(i, s).
      if bit flags FLAGS_LEFT then pad_spaces out (i - idx) width i s else Inr (i, s)))
    else Inr (idx + n, s)) = emit out (exp_text n expval minwidth width flags) (idx + n) s"
proof -
  let ?cs = "int_text (nat \<bar>expval\<bar>) (expval < 0) 10 0 (minwidth - 1) (set_bit FLAGS_ZEROPAD (set_bit FLAGS_PLUS 0))"
  have "rbind (emit out ?cs (idx + n + 1) s) (\<lambda>(i, s). if bit flags FLAGS_LEFT then pad_spaces out (i - idx) width i s else Inr (i, s)) =
      emit out (?cs @ (if bit flags FLAGS_LEFT then replicate (width - (n + Suc (length ?cs))) (chr CHR '' '') else [])) (idx + n + 1) s"
    for s by (cases "emit out ?cs (idx + n + 1) s") (auto simp: emit_append pad_spaces_emit dest: emit_index)
  then show ?thesis by (auto simp: exp_text_def Let_def ntoa_long_emit)
qed

lemma ftoa_etoa_same:
  "same_text out out' (ftoa fp fuel out v prec width flags) (ftoa fp fuel out' v prec width flags)"
  "same_text out out' (etoa fp fuel out v prec width flags) (etoa fp fuel out' v prec width flags)"
proof (induction fuel arbitrary: v prec width flags)
  case 0
  case 1
  show ?case unfolding ftoa.simps by (rule same_text_fault)
  case 2
  show ?case unfolding etoa.simps by (rule same_text_fault)
next
  case (Suc fuel)
  case 1
  show ?case
    unfolding ftoa.simps out_rev_emit
    by (intro same_text_if same_text_emit Suc.IH ftoa_digits_same) (rule refl)+
  case 2
  show ?case
    unfolding etoa.simps Let_def case_prod_unfold
  proof (intro same_text_if same_text_bind Suc.IH, goal_cases)
    case (1 x y)
    show ?case
      by (rule same_text_seq [OF Suc.IH(1), where q = "\<lambda>n. exp_text n (fst y) (snd (snd (snd y))) width (fst (snd (snd y)))"])
        (simp_all only: fst_conv snd_conv exp_text_emit [unfolded case_prod_unfold])
  qed
qed

section \<open>Strings\<close>

lemma strnlen_s_str: "str_at m p cs \<Longrightarrow> strnlen_s m p n = min (length cs) n"
proof (induction cs arbitrary: p n)
  case Nil
  then show ?case by (simp add: strnlen_s.simps)
next
  case (Cons c cs)
  then show ?case by (cases n) (simp_all add: strnlen_s.simps [of m p])
qed

text \<open>An output function that does not change the memory at the addresses \<open>keep\<close>.\<close>

locale sink =
  fixes out :: "'o out_fct" and rd :: "'o \<Rightarrow> mem" and keep :: "addr \<Rightarrow> bool"
  assumes keeps: "out c idx s = Inr s' \<Longrightarrow> keep a \<Longrightarrow> rd s' a = rd s a"
begin

lemma emit_keeps: "emit out cs idx s = Inr (i, s') \<Longrightarrow> keep a \<Longrightarrow> rd s' a = rd s a"
  by (induction cs arbitrary: idx s) (auto simp: rbind_eq_Inr dest: keeps)

lemma string_loop_emit:
  assumes "str_at m p cs" and "\<And>a. p \<le> a \<Longrightarrow> a \<le> p + int (length cs) \<Longrightarrow> keep a"
    and "\<And>a. keep a \<Longrightarrow> rd s a = m a"
  shows "string_loop out rd lmt p prec idx s = Some (emit out (if lmt then take prec cs else cs) idx s)"
  using assms
proof (induction cs arbitrary: p prec idx s)
  case Nil
  then have "rd s p = 0" by simp
  then show ?case by (simp add: string_loop.simps)
next
  case (Cons c cs)
  have c: "rd s p = c" "c \<noteq> 0" and cs: "str_at m (p + 1) cs" using Cons.prems by simp_all
  show ?case
  proof (cases "lmt \<and> prec = 0")
    case True
    then show ?thesis by (simp add: string_loop.simps)
  next
    case go: False
    show ?thesis
    proof (cases "out c idx s")
      case (Inl e)
      then show ?thesis using go c by (auto simp: string_loop.simps [of _ _ _ p] take_Cons')
    next
      case (Inr s')
      have "string_loop out rd lmt (p + 1) (if lmt then prec - 1 else prec) (idx + 1) s' =
          Some (emit out (if lmt then take (if lmt then prec - 1 else prec) cs else cs) (idx + 1) s')"
        by (rule Cons.IH [OF cs]) (use Cons.prems keeps [OF Inr] in auto)
      then show ?thesis using go c Inr
        by (auto simp: string_loop.simps [of _ _ _ p] take_Cons')
    qed
  qed
qed

end

interpretation list_sink: sink out_list "\<lambda>_. m" "\<lambda>_. True" for m
  by unfold_locales simp

section \<open>Conversions\<close>

text \<open>A conversion that succeeds with the list appends a text that it emits with any output function.\<close>

definition converts :: "'o out_fct \<Rightarrow> ('o \<Rightarrow> bool) \<Rightarrow> 'd arg list \<Rightarrow> (nat \<Rightarrow> 'o \<Rightarrow> (nat \<times> 'o \<times> 'd arg list) res) \<Rightarrow>
    (nat \<Rightarrow> byte list \<Rightarrow> (nat \<times> byte list \<times> 'd arg list) res) \<Rightarrow> bool" where
  "converts out A rest F G \<longleftrightarrow>
     (\<forall>idx l i l' va'. G idx l = Inr (i, l', va') \<longrightarrow>
        (\<exists>cs. l' = l @ cs \<and> i = idx + length cs \<and> va' = rest \<and>
           (\<forall>idx s. A s \<longrightarrow> F idx s = rbind (emit out cs idx s) (\<lambda>(i, s). Inr (i, s, va')))))"

lemma convertsI:
  assumes "\<And>idx s. A s \<Longrightarrow> F idx s = rbind (emit out cs idx s) (\<lambda>(i, s). Inr (i, s, va'))"
    and "\<And>idx l. G idx l = Inr (idx + length cs, l @ cs, va')" and "va' = rest"
  shows "converts out A rest F G"
  using assms by (auto simp: converts_def)

lemma convertsE:
  assumes "converts out A rest F G" and "G idx l = Inr (i, l', va')"
  obtains cs where "l' = l @ cs" and "i = idx + length cs" and "va' = rest"
    and "\<And>idx s. A s \<Longrightarrow> F idx s = rbind (emit out cs idx s) (\<lambda>(i, s). Inr (i, s, va'))"
  using assms unfolding converts_def by blast

lemma converts_emit:
  "va' = rest \<Longrightarrow>
   converts out A rest (\<lambda>idx s. rbind (emit out cs idx s) (\<lambda>r. Inr (fst r, snd r, va')))
     (\<lambda>idx l. rbind (emit out_list cs idx l) (\<lambda>r. Inr (fst r, snd r, va')))"
  by (rule convertsI [where cs = cs and va' = va']) (simp_all add: case_prod_unfold)

lemma converts_fault: "(\<And>idx l. G idx l = Inl e) \<Longrightarrow> converts out A rest F G"
  by (simp add: converts_def)

lemma converts_if:
  "converts out A rest F G \<Longrightarrow> converts out A rest F' G' \<Longrightarrow>
   converts out A rest (\<lambda>idx s. if b then F idx s else F' idx s) (\<lambda>idx s. if b then G idx s else G' idx s)"
  by (cases b) simp_all

lemma converts_cond:
  "converts out A rest F G \<Longrightarrow> converts out A rest F' G' \<Longrightarrow>
   converts out A rest (if b then F else F') (if b then G else G')"
  by simp

lemma converts_bind:
  assumes "\<And>x. p = Inr x \<Longrightarrow> converts out A rest (F x) (G x)"
  shows "converts out A rest (\<lambda>idx s. rbind p (\<lambda>x. F x idx s)) (\<lambda>idx s. rbind p (\<lambda>x. G x idx s))"
  using assms by (cases p) (auto simp: converts_def)

lemma va_arg_tl: "va_arg va = Inr r \<Longrightarrow> snd r = tl va"
  by (cases va) (auto split: arg.splits)

lemma va_arg_double_tl: "va_arg_double va = Inr r \<Longrightarrow> snd r = tl va"
  by (cases va) (auto split: arg.splits)

lemma convert_int_converts:
  "converts out A (tl va) (convert_int out c flags width precision va) (convert_int out_list c flags width precision va)"
  unfolding convert_int_def Let_def ntoa_long_emit ntoa_long_long_emit case_prod_unfold
  by (intro converts_bind converts_if converts_emit; rule va_arg_tl)

lemma convert_pointer_converts:
  "converts out A (tl va) (convert_pointer out flags precision va) (convert_pointer out_list flags precision va)"
  unfolding convert_pointer_def ntoa_long_long_emit case_prod_unfold
  by (intro converts_bind converts_emit; rule va_arg_tl)

lemma convert_float_converts:
  "converts out A (tl va) (convert_float fp out c flags width precision va) (convert_float fp out_list c flags width precision va)"
proof -
  have step: "converts out A (tl va) (\<lambda>idx s. rbind (F idx s) (\<lambda>r. Inr (fst r, snd r, va')))
      (\<lambda>idx s. rbind (G idx s) (\<lambda>r. Inr (fst r, snd r, va')))"
    if same: "same_text out out_list F G" and va': "va' = tl va" for F G va'
  proof -
    obtain r where F: "\<And>idx s. F idx s = rbind r (\<lambda>cs. emit out cs idx s)"
      and G: "\<And>idx l. G idx l = rbind r (\<lambda>cs. emit out_list cs idx l)"
      using same unfolding same_text_def by blast
    show ?thesis
      unfolding F G rbind_assoc by (intro converts_bind converts_emit va')
  qed
  show ?thesis
    unfolding convert_float_def Let_def case_prod_unfold
    by (intro converts_bind step same_text_if ftoa_etoa_same; rule va_arg_double_tl)
qed

lemma convert_char_converts:
  "converts out A (tl va) (convert_char out flags width va) (convert_char out_list flags width va)"
proof (cases "va_arg va")
  case (Inl e)
  then show ?thesis
    by (intro converts_fault [of _ e]) (simp add: convert_char_def pad_spaces_emit)
next
  case (Inr r)
  obtain n va' where r: "va_arg va = Inr (n, va')" using Inr by (cases r) simp
  let ?pad = "replicate (width - 1) (chr CHR '' '')"
  let ?cs = "(if \<not> bit flags FLAGS_LEFT then ?pad else []) @ of_nat n # (if bit flags FLAGS_LEFT then ?pad else [])"
  have eq: "convert_char o' flags width va idx s = rbind (emit o' ?cs idx s) (\<lambda>(i, s). Inr (i, s, va'))"
    for o' :: "'x out_fct" and idx s
    by (auto simp: convert_char_def r pad_spaces_emit emit_append rbind_assoc case_prod_unfold)
  show ?thesis
    by (rule convertsI [where cs = ?cs and va' = va', OF eq]) (simp_all only: eq emit_list rbind_Inr prod.case va_arg_tl [OF r, unfolded snd_conv])
qed

text \<open>A string that lies where the output function changes nothing.\<close>

definition kept_string :: "(addr \<Rightarrow> bool) \<Rightarrow> mem \<Rightarrow> nat \<Rightarrow> bool" where
  "kept_string keep m n \<longleftrightarrow>
     (\<exists>cs. str_at m (int n) cs \<and> (\<forall>a. int n \<le> a \<and> a \<le> int n + int (length cs) \<longrightarrow> keep a))"

text \<open>The pointers that the \<open>%s\<close> of a format take from the arguments.\<close>

definition takes_arg :: "byte \<Rightarrow> bool" where
  "takes_arg c \<longleftrightarrow> c \<in> set (map of_char ''diuxXobfFeEgGcsp'')"

function string_args :: "byte list \<Rightarrow> 'd arg list \<Rightarrow> nat list" where
  "string_args [] va = []"
| "string_args (c # fmt) va =
     (if c \<noteq> chr CHR ''%'' then string_args fmt va
      else
        (case parse_fields fmt va of
           Inl e \<Rightarrow> []
         | Inr (flags, width, precision, fmt', va') \<Rightarrow>
             (case (cur fmt', va') of (d, Arg n # _) \<Rightarrow> if d = chr CHR ''s'' then [n] else [] | _ \<Rightarrow> []) @
             (case fmt' of [] \<Rightarrow> [] | _ # rest \<Rightarrow> string_args rest (if takes_arg (cur fmt') then tl va' else va'))))"
  by pat_completeness auto
termination
  by (relation "measure (\<lambda>(fmt, va). length fmt)") (auto dest: parse_fields_length)

definition agree :: "(addr \<Rightarrow> bool) \<Rightarrow> mem \<Rightarrow> mem \<Rightarrow> bool" where
  "agree keep m m' \<longleftrightarrow> (\<forall>a. keep a \<longrightarrow> m' a = m a)"

text \<open>The text of \<open>%s\<close>.\<close>

definition string_text :: "flags \<Rightarrow> nat \<Rightarrow> nat \<Rightarrow> byte list \<Rightarrow> byte list" where
  "string_text flags width precision cs =
     (let shown = (if bit flags FLAGS_PRECISION then take precision cs else cs);
          l = u32 (int (min (length cs) (if precision \<noteq> 0 then precision else 2 ^ 64 - 1)));
          l = (if bit flags FLAGS_PRECISION then min l precision else l);
          pad = replicate (width - l) (chr CHR '' '') in
      (if \<not> bit flags FLAGS_LEFT then pad else []) @ shown @ (if bit flags FLAGS_LEFT then pad else []))"

context sink
begin

lemma str_at_agree:
  assumes "str_at m p cs" and "\<And>a. p \<le> a \<Longrightarrow> a \<le> p + int (length cs) \<Longrightarrow> keep a" and "agree keep m m'"
  shows "str_at m' p cs"
  using assms str_at_cong [of p cs m' m] by (auto simp: agree_def)

lemma agree_emit:
  assumes "agree keep m (rd s)" and "emit out cs idx s = Inr (i, s')"
  shows "agree keep m (rd s')"
  using assms emit_keeps by (auto simp: agree_def)

lemma convert_string_emit:
  assumes "va_arg va = Inr (n, va')" and "n \<noteq> 0" and cs: "str_at m (int n) cs"
    and kept: "\<And>a. int n \<le> a \<Longrightarrow> a \<le> int n + int (length cs) \<Longrightarrow> keep a" and m: "agree keep m (rd s)"
  shows "convert_string out rd flags width precision va idx s =
    rbind (emit out (string_text flags width precision cs) idx s) (\<lambda>(i, s). Inr (i, s, va'))"
proof -
  let ?l = "u32 (int (min (length cs) (if precision \<noteq> 0 then precision else 2 ^ 64 - 1)))"
  let ?l' = "if bit flags FLAGS_PRECISION then min ?l precision else ?l"
  let ?pad = "replicate (width - ?l') (chr CHR '' '')"
  let ?pre = "if \<not> bit flags FLAGS_LEFT then ?pad else []" and ?post = "if bit flags FLAGS_LEFT then ?pad else []"
  let ?shown = "if bit flags FLAGS_PRECISION then take precision cs else cs"
  have len: "strnlen_s (rd s) (int n) (if precision \<noteq> 0 then precision else 2 ^ 64 - 1) =
      min (length cs) (if precision \<noteq> 0 then precision else 2 ^ 64 - 1)"
    by (rule strnlen_s_str [OF str_at_agree [OF cs kept m]])
  have pre: "(if \<not> bit flags FLAGS_LEFT then pad_spaces out ?l' width idx s else Inr (idx, s)) = emit out ?pre idx s"
    by (simp add: pad_spaces_emit)
  have loop: "string_loop out rd (bit flags FLAGS_PRECISION) (int n) precision i s' = Some (emit out ?shown i s')"
    if "agree keep m (rd s')" for i s'
    by (rule string_loop_emit [OF cs kept]) (use that in \<open>auto simp: agree_def\<close>)
  have post: "(if bit flags FLAGS_LEFT then pad_spaces out ?l' width i s' else Inr (i, s')) = emit out ?post i s'" for i s'
    by (simp add: pad_spaces_emit)
  have shape: "string_text flags width precision cs = ?pre @ ?shown @ ?post"
    by (simp only: string_text_def Let_def)
  show ?thesis
  proof (cases "emit out ?pre idx s")
    case (Inl e)
    then show ?thesis using assms(1,2)
      by (simp only: convert_string_def rbind_Inr prod.case len pre shape emit_append rbind_Inl Let_def if_False)
  next
    case (Inr r)
    obtain i s' where r: "emit out ?pre idx s = Inr (i, s')" using Inr by (cases r) simp
    show ?thesis using assms(1,2) agree_emit [OF m r]
      by (simp only: convert_string_def rbind_Inr prod.case len pre shape emit_append Let_def if_False r loop finish_simps post)
        (simp add: rbind_assoc case_prod_unfold)
  qed
qed

lemma convert_string_converts:
  assumes "\<And>n va'. va = Arg n # va' \<Longrightarrow> kept_string keep m n"
  shows "converts out (\<lambda>s. agree keep m (rd s)) (tl va) (convert_string out rd flags width precision va)
    (convert_string out_list (\<lambda>_. m) flags width precision va)"
proof (cases "va_arg va")
  case (Inl e)
  then show ?thesis by (intro converts_fault [of _ e]) (simp add: convert_string_def)
next
  case (Inr r)
  obtain n va' where r: "va_arg va = Inr (n, va')" using Inr by (cases r) simp
  then have "va = Arg n # va'" by (cases va) (auto split: arg.splits)
  then obtain cs where cs: "str_at m (int n) cs" and kept: "\<And>a. int n \<le> a \<Longrightarrow> a \<le> int n + int (length cs) \<Longrightarrow> keep a"
    using assms unfolding kept_string_def by blast
  show ?thesis
  proof (cases "n = 0")
    case True
    then show ?thesis by (intro converts_fault [of _ NullDeref]) (simp add: convert_string_def r)
  next
    case False
    show ?thesis
      by (rule convertsI [where cs = "string_text flags width precision cs" and va' = va'])
        (use convert_string_emit [OF r False cs kept] va_arg_tl [OF r] in \<open>simp_all add: list_sink.convert_string_emit [OF r False cs] agree_def\<close>)
  qed
qed

lemma convert_converts:
  assumes "\<And>n va'. c = chr CHR ''s'' \<Longrightarrow> va = Arg n # va' \<Longrightarrow> kept_string keep m n"
  shows "converts out (\<lambda>s. agree keep m (rd s)) (if takes_arg c then tl va else va)
    (convert fp out rd c flags width precision va) (convert fp out_list (\<lambda>_. m) c flags width precision va)"
proof -
  have other: "converts out A va (\<lambda>idx s. rbind (out c idx s) (\<lambda>s. Inr (idx + 1, s, va)))
      (\<lambda>idx l. rbind (out_list c idx l) (\<lambda>l. Inr (idx + 1, l, va)))" for A
    by (rule convertsI [where cs = "[c]" and va' = va]) (simp_all add: rbind_assoc out_list_def)
  consider (string) "c = chr CHR ''s''" | (arg) "c \<noteq> chr CHR ''s''" "takes_arg c" | (none) "\<not> takes_arg c" by blast
  then show ?thesis
  proof cases
    case string
    then have "takes_arg c" by (simp add: takes_arg_def)
    then show ?thesis unfolding convert_def using convert_string_converts [of va m] assms string by simp
  next
    case arg
    then have eq: "convert fp o' rd' c flags width precision va =
        (if c \<in> set (map of_char ''diuxXob'') then convert_int o' c flags width precision va
         else if c \<in> set (map of_char ''fFeEgG'') then convert_float fp o' c flags width precision va
         else if c = chr CHR ''c'' then convert_char o' flags width va
         else convert_pointer o' flags precision va)" for o' :: "'x out_fct" and rd'
      by (intro ext) (auto simp: convert_def takes_arg_def)
    show ?thesis
      unfolding eq if_P [OF arg(2)]
      by (intro converts_cond convert_int_converts convert_float_converts convert_char_converts convert_pointer_converts)
  next
    case none
    then have eq: "convert fp o' rd' c flags width precision va = (\<lambda>idx s. rbind (o' c idx s) (\<lambda>s. Inr (idx + 1, s, va)))"
      for o' :: "'x out_fct" and rd'
      by (intro ext) (auto simp: convert_def takes_arg_def)
    show ?thesis unfolding eq if_not_P [OF none] by (rule other)
  qed
qed

text \<open>The loop emits the text that it collects in a list.\<close>

lemma vsn_loop_text:
  assumes "vsn_loop fp out_list (\<lambda>_. m) fmt va idx l = Inr (i, l')"
    and "\<forall>n \<in> set (string_args fmt va). kept_string keep m n"
  shows "\<exists>cs. l' = l @ cs \<and> i = idx + length cs \<and>
    (\<forall>idx s. agree keep m (rd s) \<longrightarrow> vsn_loop fp out rd fmt va idx s = emit out cs idx s)"
  using assms
proof (induction "length fmt" arbitrary: fmt va idx l rule: less_induct)
  case less
  show ?case
  proof (cases fmt)
    case Nil
    then show ?thesis using less.prems(1) by simp
  next
    case (Cons c rest)
    show ?thesis
    proof (cases "c = chr CHR ''%''")
      case False
      have "vsn_loop fp out_list (\<lambda>_. m) rest va (idx + 1) (l @ [c]) = Inr (i, l')"
        using less.prems(1) Cons False by (simp add: out_list_def)
      then obtain cs where "l' = (l @ [c]) @ cs" and "i = idx + 1 + length cs"
        and run: "\<And>idx s. agree keep m (rd s) \<Longrightarrow> vsn_loop fp out rd rest va idx s = emit out cs idx s"
        using less.hyps [of rest va "idx + 1" "l @ [c]"] less.prems(2) Cons False by auto
      moreover have "vsn_loop fp out rd fmt va j s = emit out (c # cs) j s" if "agree keep m (rd s)" for j s
        using that False keeps [of c j s] by (cases "out c j s") (simp_all add: Cons run agree_def)
      ultimately show ?thesis by (intro exI [of _ "c # cs"]) simp
    next
      case True
      obtain flags width precision fmt1 va1 where
        f: "parse_fields rest va = Inr (flags, width, precision, fmt1, va1)"
        using less.prems(1) Cons True by (cases "parse_fields rest va") (auto simp: rbind_def)
      obtain i1 l1 va2 d rest' where
        conv: "convert fp out_list (\<lambda>_. m) (cur fmt1) flags width precision va1 idx l = Inr (i1, l1, va2)"
        and fmt1: "fmt1 = d # rest'" and tail: "vsn_loop fp out_list (\<lambda>_. m) rest' va2 i1 l1 = Inr (i, l')"
        using less.prems(1) Cons True f by (cases fmt1) (auto simp: rbind_eq_Inr)
      have kept: "kept_string keep m n" if "cur fmt1 = chr CHR ''s''" and "va1 = Arg n # va'" for n va'
        using less.prems(2) that by (simp add: Cons True f)
      have cv: "converts out (\<lambda>s. agree keep m (rd s)) (if takes_arg (cur fmt1) then tl va1 else va1)
          (convert fp out rd (cur fmt1) flags width precision va1) (convert fp out_list (\<lambda>_. m) (cur fmt1) flags width precision va1)"
        by (rule convert_converts) (rule kept)
      obtain cs where l1: "l1 = l @ cs" "i1 = idx + length cs" and va2: "va2 = (if takes_arg (cur fmt1) then tl va1 else va1)"
        and run1: "\<And>idx s. agree keep m (rd s) \<Longrightarrow>
          convert fp out rd (cur fmt1) flags width precision va1 idx s = rbind (emit out cs idx s) (\<lambda>(i, s). Inr (i, s, va2))"
        by (rule convertsE [OF cv conv]) (rule that)
      have "length rest' < length fmt" using parse_fields_length [OF f] fmt1 Cons by simp
      moreover have "\<forall>n \<in> set (string_args rest' va2). kept_string keep m n"
        using less.prems(2) by (simp add: Cons True f fmt1 va2)
      ultimately obtain ds where l': "l' = l1 @ ds" "i = i1 + length ds"
        and run2: "\<And>idx s. agree keep m (rd s) \<Longrightarrow> vsn_loop fp out rd rest' va2 idx s = emit out ds idx s"
        using less.hyps [OF _ tail] by auto
      have "vsn_loop fp out rd fmt va j s = emit out (cs @ ds) j s" if "agree keep m (rd s)" for j s
        using that agree_emit [OF that, of cs]
        by (cases "emit out cs j s") (auto simp: Cons True f run1 [unfolded fmt1] fmt1 emit_append run2)
      then show ?thesis using l1 l' by (intro exI [of _ "cs @ ds"]) simp
    qed
  qed
qed

end

end
