(* ===== verification/PrintfClaims.thy ===== *)
theory PrintfClaims
  imports PrintfProps UartClaims
begin

text \<open>
  The properties of the formatted output. \<open>text_of\<close> is the text of a format and its arguments, what
  the loop collects in a list. A buffer gets this text as far as it fits, with its terminator, and
  the console gets all of it. \<open>piece\<close> is a format taken apart; its text is given by \<open>digits\<close>, the
  number of a base written from its first digit on, and by the strings themselves.
\<close>

section \<open>The text of a format\<close>

definition text_of :: "'d fpu \<Rightarrow> mem \<Rightarrow> byte list \<Rightarrow> 'd arg list \<Rightarrow> byte list res" where
  "text_of fp m fmt va = rbind (vsn_loop fp out_list (\<lambda>_. m) fmt va 0 []) (\<lambda>(_, cs). Inr cs)"

lemma text_ofE:
  assumes "text_of fp m fmt va = Inr cs"
  obtains i where "vsn_loop fp out_list (\<lambda>_. m) fmt va 0 [] = Inr (i, cs)"
  using assms by (auto simp: text_of_def rbind_eq_Inr)

section \<open>Buffers\<close>

definition store :: "mem \<Rightarrow> addr \<Rightarrow> byte list \<Rightarrow> mem" where
  "store m b cs = (\<lambda>a. if b \<le> a \<and> a < b + int (length cs) then cs ! nat (a - b) else m a)"

lemma store_Nil [simp]: "store m b [] = m"
  by (auto simp: store_def intro!: ext)

lemma store_Cons: "store (m(b := c)) (b + 1) cs = store m b (c # cs)"
  by (auto simp: store_def nth_Cons' nat_diff_distrib' intro!: ext arg_cong [where f = "nth cs"])

lemma store_snoc: "(store m b cs)(b + int (length cs) := c) = store m b (cs @ [c])"
  by (auto simp: store_def nth_append intro!: ext)

lemma str_at_store: "0 \<notin> set cs \<Longrightarrow> str_at (store m b (cs @ [0])) b cs"
  by (auto simp: str_at_def store_def nth_append) (metis nth_mem)

interpretation buffer_sink: sink "out_buffer b n" "\<lambda>m. m" "\<lambda>a. a < b \<or> b + int n \<le> a" for b n
  by unfold_locales (auto simp: out_buffer_def)

lemma emit_buffer:
  "emit (out_buffer b n) cs idx m = Inr (idx + length cs, store m (b + int idx) (take (n - idx) cs))"
proof (induction cs arbitrary: idx m)
  case Nil
  then show ?case by simp
next
  case (Cons c cs)
  show ?case
  proof (cases "idx < n")
    case True
    then have "n - idx = Suc (n - (idx + 1))" by simp
    then show ?thesis using True Cons [of "idx + 1"] store_Cons [of m "b + int idx" c]
      by (simp add: out_buffer_def ac_simps)
  next
    case False
    then show ?thesis using Cons [of "idx + 1"] by (simp add: out_buffer_def)
  qed
qed

lemma snprintf_run:
  assumes "text_of fp m fmt va = Inr cs" and "b \<noteq> 0" and "n \<le> 2 ^ 64"
    and "\<forall>p \<in> set (string_args fmt va). kept_string (\<lambda>a. a < b \<or> b + int n \<le> a) m p"
  shows "snprintf fp b n fmt va m =
    Inr (c_int (length cs), if n = 0 then m else store m b (take (n - 1) cs @ [0]))"
proof -
  obtain i where i: "vsn_loop fp out_list (\<lambda>_. m) fmt va 0 [] = Inr (i, cs)" using assms(1) by (rule text_ofE)
  have loop: "vsn_loop fp (out_buffer b n) (\<lambda>m. m) fmt va 0 m = Inr (length cs, store m b (take n cs))"
    using buffer_sink.vsn_loop_text [OF i, of b n] assms(4) emit_buffer [of b n cs 0 m]
    by (auto simp: agree_def)
  have last: "out_buffer b n 0 (if length cs < n then length cs else u64 (int n - 1)) (store m b (take n cs)) =
      Inr (if n = 0 then m else store m b (take (n - 1) cs @ [0]))"
  proof (cases "length cs < n")
    case True
    then show ?thesis using store_snoc [of m b cs 0] by (simp add: out_buffer_def)
  next
    case False
    show ?thesis
    proof (cases n)
      case 0
      then show ?thesis by (simp add: out_buffer_def u64_def)
    next
      case (Suc k)
      have "k < 2 ^ 64" using assms(3) Suc by simp
      then have k: "u64 (int n - 1) = k" using Suc by (simp add: u64_def)
      have "(store m b (take n cs))(b + int k := 0) = store m b (take k cs @ [0])"
        using False Suc by (auto simp: store_def nth_append intro!: ext)
      then show ?thesis using False Suc k by (simp add: out_buffer_def)
    qed
  qed
  show ?thesis by (simp add: snprintf_def vsnprintf_core_def Let_def assms(2) loop last)
qed

section \<open>Digits\<close>

fun digits :: "nat \<Rightarrow> nat \<Rightarrow> byte list" where
  "digits base n =
     (if n < base \<or> base < 2 then [digit_char False n] else digits base (n div base) @ [digit_char False (n mod base)])"

declare digits.simps [simp del]

lemma digit_loop_digits:
  assumes "n < base ^ k" and "length buf + k \<le> PRINTF_NTOA_BUFFER_SIZE" and "2 \<le> base" and "0 < k"
  shows "digit_loop n base False buf = buf @ rev (digits base n)"
  using assms
proof (induction k arbitrary: n buf)
  case 0
  then show ?case by simp
next
  case (Suc k)
  show ?case
  proof (cases "n < base")
    case True
    then show ?thesis using Suc.prems(3) by (simp add: digit_loop.simps [of n] digits.simps)
  next
    case False
    then have pos: "0 < n div base" using Suc.prems(3) by (simp add: div_greater_zero_iff)
    have "k \<noteq> 0" using False Suc.prems(1) by (cases k) auto
    moreover have "n div base < base ^ k" using Suc.prems(1,3) by (simp add: less_mult_imp_div_less mult.commute)
    ultimately have "digit_loop (n div base) base False (buf @ [digit_char False (n mod base)]) =
        (buf @ [digit_char False (n mod base)]) @ rev (digits base (n div base))"
      using Suc.IH [of "n div base" "buf @ [digit_char False (n mod base)]"] Suc.prems by simp
    moreover have "length (buf @ [digit_char False (n mod base)]) < PRINTF_NTOA_BUFFER_SIZE"
      using Suc.prems(2) \<open>k \<noteq> 0\<close> by simp
    ultimately show ?thesis using pos False Suc.prems(3)
      by (subst digit_loop.simps) (simp add: Let_def digits.simps [of base n])
  qed
qed

lemma digits_length:
  assumes "n < base ^ k" and "0 < k" and "2 \<le> base"
  shows "length (digits base n) \<le> k"
  using assms
proof (induction k arbitrary: n)
  case (Suc k)
  show ?case
  proof (cases "n < base")
    case False
    then have "k \<noteq> 0" using Suc.prems(1) by (cases k) auto
    moreover have "n div base < base ^ k" using Suc.prems by (simp add: less_mult_imp_div_less mult.commute)
    ultimately show ?thesis using Suc.IH [of "n div base"] Suc.prems(3) False by (simp add: digits.simps [of base n])
  qed (simp add: digits.simps)
qed simp

lemma zero_loop_none: "zero_loop 0 buf = buf"
  by (subst zero_loop.simps) simp

lemma int_text_plain:
  assumes "n < base ^ k" and "0 < k" and "k < PRINTF_NTOA_BUFFER_SIZE" and "2 \<le> base"
  shows "int_text n negative base 0 0 0 = (if negative then [chr CHR ''-''] else []) @ digits base n"
proof -
  have "digit_loop n base False [] = rev (digits base n)"
    using digit_loop_digits [of n base k "[]"] assms by simp
  moreover have "length (digits base n) < PRINTF_NTOA_BUFFER_SIZE"
    using digits_length [of n base k] assms by simp
  ultimately show ?thesis
    by (cases "n = 0") (simp_all add: int_text_def num_width_def num_buf_def Let_def rev_chars_def sign_char_def put_def zero_loop_none)
qed

text \<open>The digits of a number have its value, so that \<open>atoi\<close> reads it back.\<close>

lemma uint_digit_char:
  assumes "d < 10"
  shows "uint (digit_char False d) = 48 + int d"
proof -
  have "d \<in> {0, 1, 2, 3, 4, 5, 6, 7, 8, 9}" using assms by auto
  then show ?thesis by (auto simp: digit_char_def)
qed

lemma digits_decimal: "(\<forall>c \<in> set (digits 10 n). is_digit c) \<and> dec_value (digits 10 n) = int n"
proof (induction "n" rule: less_induct)
  case (less n)
  show ?case
  proof (cases "n < 10")
    case True
    then show ?thesis by (simp add: digits.simps is_digit_def dec_value_def uint_digit_char)
  next
    case False
    then have "(\<forall>c \<in> set (digits 10 (n div 10)). is_digit c) \<and> dec_value (digits 10 (n div 10)) = int (n div 10)"
      by (intro less) simp
    moreover have "uint (digit_char False (n mod 10)) = 48 + int (n mod 10)" by (simp add: uint_digit_char)
    ultimately show ?thesis using False
      by (subst (1 2) digits.simps) (auto simp: is_digit_def dec_value_def zmod_int zdiv_int)
  qed
qed

section \<open>Formats taken apart\<close>

datatype piece = Lit byte | Percent | Num nat | Uns nat | Hex nat | Str nat "byte list" | Chr byte

definition decimal :: "int \<Rightarrow> byte list" where
  "decimal i = (if i < 0 then [chr CHR ''-''] else []) @ digits 10 (nat \<bar>i\<bar>)"

primrec piece_fmt :: "piece \<Rightarrow> byte list" where
  "piece_fmt (Lit c) = [c]"
| "piece_fmt Percent = map of_char ''%%''"
| "piece_fmt (Num n) = map of_char ''%d''"
| "piece_fmt (Uns n) = map of_char ''%u''"
| "piece_fmt (Hex n) = map of_char ''%x''"
| "piece_fmt (Str p cs) = map of_char ''%s''"
| "piece_fmt (Chr c) = map of_char ''%c''"

primrec piece_args :: "piece \<Rightarrow> 'd arg list" where
  "piece_args (Lit c) = []"
| "piece_args Percent = []"
| "piece_args (Num n) = [Arg n]"
| "piece_args (Uns n) = [Arg n]"
| "piece_args (Hex n) = [Arg n]"
| "piece_args (Str p cs) = [Arg p]"
| "piece_args (Chr c) = [Arg (unat c)]"

primrec piece_text :: "piece \<Rightarrow> byte list" where
  "piece_text (Lit c) = [c]"
| "piece_text Percent = [chr CHR ''%'']"
| "piece_text (Num n) = decimal (c_int n)"
| "piece_text (Uns n) = digits 10 (n mod 2 ^ 32)"
| "piece_text (Hex n) = digits 16 (n mod 2 ^ 32)"
| "piece_text (Str p cs) = cs"
| "piece_text (Chr c) = [c]"

text \<open>The value -2^31 is left out, as \<open>0 - value\<close> overflows.\<close>

primrec piece_ok :: "mem \<Rightarrow> piece \<Rightarrow> bool" where
  "piece_ok m (Lit c) \<longleftrightarrow> c \<noteq> chr CHR ''%''"
| "piece_ok m Percent \<longleftrightarrow> True"
| "piece_ok m (Num n) \<longleftrightarrow> c_int n \<noteq> - (2 ^ 31)"
| "piece_ok m (Uns n) \<longleftrightarrow> True"
| "piece_ok m (Hex n) \<longleftrightarrow> True"
| "piece_ok m (Str p cs) \<longleftrightarrow> p \<noteq> 0 \<and> str_at m (int p) cs"
| "piece_ok m (Chr c) \<longleftrightarrow> True"

lemma parse_fields_plain:
  assumes "c \<in> set (map of_char ''duxsc%'')"
  shows "parse_fields (c # fmt) va = Inr (0, 0, 0, c # fmt, va)"
  using assms
  by (auto simp: parse_fields_def flag_of_def parse_width_def parse_precision_def parse_length_def cur_def is_dig_def)

lemma vsn_loop_plain:
  assumes "c \<in> set (map of_char ''duxsc%'')"
  shows "vsn_loop fp out rd (chr CHR ''%'' # c # fmt) va idx s =
    rbind (convert fp out rd c 0 0 0 va idx s) (\<lambda>(idx, s, va). vsn_loop fp out rd fmt va idx s)"
  by (simp add: parse_fields_plain [OF assms] cur_def)

lemma int_flags_plain [simp]: "int_flags c 0 = (if c = chr CHR ''X'' then set_bit FLAGS_UPPERCASE 0 else 0)"
  by (auto simp: int_flags_def Let_def flag_bits base_of_def is_signed_def bit_set_bit_iff)

lemma magnitude_int: "i \<noteq> - (2 ^ 31) \<Longrightarrow> - (2 ^ 31) \<le> i \<Longrightarrow> magnitude 32 i = Inr (nat \<bar>i\<bar>)"
  by (simp add: magnitude_def)

lemma signed_32: "signed 32 n = c_int n"
  by (simp add: signed_def c_int_def)

text \<open>One conversion appends its text.\<close>

lemma convert_num:
  assumes "c_int n \<noteq> - (2 ^ 31)"
  shows "convert fp out_list rd (chr CHR ''d'') 0 0 0 (Arg n # va) idx l =
    Inr (idx + length (decimal (c_int n)), l @ decimal (c_int n), va)"
proof -
  let ?v = "nat \<bar>c_int n\<bar>"
  have "?v < 10 ^ 10" using c_int_bounds [of n] by (auto simp: abs_if)
  then have "int_text ?v (c_int n < 0) 10 0 0 0 = decimal (c_int n)"
    by (simp add: int_text_plain [where k = 10] PRINTF_NTOA_BUFFER_SIZE_def decimal_def)
  then show ?thesis using magnitude_int [OF assms] c_int_bounds [of n]
    by (simp add: convert_def convert_int_def Let_def is_signed_def base_of_def signed_32 ntoa_long_emit)
qed

lemma convert_unsigned:
  assumes "c = chr CHR ''u'' \<and> base = 10 \<or> c = chr CHR ''x'' \<and> base = 16"
  shows "convert fp out_list rd c 0 0 0 (Arg n # va) idx l =
    Inr (idx + length (digits base (n mod 2 ^ 32)), l @ digits base (n mod 2 ^ 32), va)"
proof -
  have base: "2 \<le> base" "base_of c = base" "\<not> is_signed c" "int_flags c 0 = 0" "c \<in> set (map of_char ''diuxXob'')"
    using assms by (elim disjE conjE; simp add: base_of_def is_signed_def)+
  have "(2 :: nat) ^ 32 \<le> base ^ 10" using assms by (elim disjE conjE) simp_all
  moreover have "n mod 2 ^ 32 < 2 ^ 32" by (rule mod_less_divisor) simp
  ultimately have lt: "n mod 2 ^ 32 < base ^ 10" by (rule less_le_trans [rotated])
  have eq: "int_text (n mod 2 ^ 32) False base 0 0 0 = digits base (n mod 2 ^ 32)"
    using int_text_plain [OF lt _ _ base(1)] by (simp add: PRINTF_NTOA_BUFFER_SIZE_def)
  have "convert_int out_list c 0 0 0 (Arg n # va) idx l =
      rbind (emit out_list (digits base (n mod 2 ^ 32)) idx l) (\<lambda>(idx, s). Inr (idx, s, va))"
    by (simp only: convert_int_def Let_def base ntoa_long_emit eq va_arg.simps arg.case rbind_Inr prod.case bit_0_eq bot_apply if_False bot_bool_def)
  then show ?thesis using base(5) by (simp only: convert_def if_True emit_list rbind_Inr prod.case)
qed

lemma convert_str:
  assumes "p \<noteq> 0" and "str_at m (int p) cs"
  shows "convert fp out_list (\<lambda>_. m) (chr CHR ''s'') 0 0 0 (Arg p # va) idx l = Inr (idx + length cs, l @ cs, va)"
  using list_sink.convert_string_emit [of "Arg p # va" p va m cs m 0 0 0 idx l] assms
  by (simp add: convert_def agree_def string_text_def Let_def)

lemma convert_chr: "convert fp out_list rd (chr CHR ''c'') 0 0 0 (Arg (unat c) # va) idx l = Inr (idx + 1, l @ [c], va)"
  by (simp add: convert_def convert_char_def pad_spaces_emit out_list_def)

lemma convert_percent: "convert fp out_list rd (chr CHR ''%'') 0 0 0 va idx l = Inr (idx + 1, l @ [chr CHR ''%''], va)"
  by (simp add: convert_def out_list_def)

lemma piece_run:
  assumes "piece_ok m x"
  shows "vsn_loop fp out_list (\<lambda>_. m) (piece_fmt x @ fmt) (piece_args x @ va) idx l =
    vsn_loop fp out_list (\<lambda>_. m) fmt va (idx + length (piece_text x)) (l @ piece_text x)"
proof (cases x)
  case (Num n)
  then show ?thesis using assms convert_num [of n fp "\<lambda>_. m" va idx l] by (simp add: parse_fields_plain cur_def)
next
  case (Uns n)
  then show ?thesis using convert_unsigned [of _ 10 fp "\<lambda>_. m" n va idx l] by (simp add: parse_fields_plain cur_def)
next
  case (Hex n)
  then show ?thesis using convert_unsigned [of _ 16 fp "\<lambda>_. m" n va idx l] by (simp add: parse_fields_plain cur_def)
next
  case (Str p cs)
  then show ?thesis using assms convert_str [of p m cs fp va idx l] by (simp add: parse_fields_plain cur_def)
next
  case (Chr c)
  then show ?thesis using convert_chr [of fp "\<lambda>_. m" c va idx l] by (simp add: parse_fields_plain cur_def)
next
  case Percent
  then show ?thesis using convert_percent [of fp "\<lambda>_. m" va idx l] by (simp add: parse_fields_plain cur_def)
next
  case (Lit c)
  then show ?thesis using assms by (simp add: out_list_def)
qed

lemma pieces_run:
  assumes "\<forall>x \<in> set ps. piece_ok m x"
  shows "vsn_loop fp out_list (\<lambda>_. m) (concat (map piece_fmt ps)) (concat (map piece_args ps)) idx l =
    Inr (idx + length (concat (map piece_text ps)), l @ concat (map piece_text ps))"
  using assms
proof (induction ps arbitrary: idx l)
  case (Cons x ps)
  then show ?case by (simp add: piece_run)
qed simp

section \<open>The console\<close>

text \<open>The line status register says sooner or later that a byte can be sent.\<close>

definition drains :: "uart_dev \<Rightarrow> bool" where
  "drains d \<longleftrightarrow> (\<forall>k. \<exists>j \<ge> k. lsr d j AND 0x20 \<noteq> 0)"

interpretation console_sink: sink "out_char d" bytes "\<lambda>_. True" for d
  by unfold_locales (auto simp: out_char_def rbind_eq_Inr split: if_splits)

text \<open>The readings from \<open>k\<close> up to \<open>k'\<close> (excluded) in which the device said so.\<close>

definition ready_reads :: "uart_dev \<Rightarrow> nat \<Rightarrow> nat \<Rightarrow> nat set" where
  "ready_reads d k k' = {j. k \<le> j \<and> j < k' \<and> lsr d j AND 0x20 \<noteq> 0}"

lemma wait_lsr_ends:
  "lsr d j AND 0x20 \<noteq> 0 \<Longrightarrow> k \<le> j \<Longrightarrow> \<exists>i. wait_lsr (lsr d) 0x20 k = Some i \<and> k \<le> i \<and> ready_reads d k (i + 1) = {i}"
proof (induction "j - k" arbitrary: k)
  case 0
  then have "j = k" by simp
  with 0(2) have "ready_reads d k (k + 1) = {k}" by (auto simp: ready_reads_def)
  then show ?case using 0 by (intro exI [of _ k]) (simp add: wait_lsr.simps)
next
  case (Suc n)
  show ?case
  proof (cases "lsr d k AND 0x20 = 0")
    case True
    then have kj: "k + 1 \<le> j" using Suc.prems by (cases "j = k") auto
    have n: "n = j - (k + 1)" using Suc.hyps(2) by simp
    obtain i where i: "wait_lsr (lsr d) 0x20 (k + 1) = Some i" "k + 1 \<le> i" "ready_reads d (k + 1) (i + 1) = {i}"
      using Suc.hyps(1) [OF n Suc.prems(1) kj] by blast
    have "ready_reads d k (i + 1) = ready_reads d (k + 1) (i + 1)"
      using True by (force simp: ready_reads_def Suc_le_eq le_less)
    then show ?thesis using True i by (intro exI [of _ i]) (simp add: wait_lsr.simps [of "lsr d" _ k])
  next
    case False
    then have "ready_reads d k (k + 1) = {k}" by (auto simp: ready_reads_def)
    then show ?thesis using False by (intro exI [of _ k]) (simp add: wait_lsr.simps)
  qed
qed

lemma ready_reads_split: "k \<le> i \<Longrightarrow> i \<le> k' \<Longrightarrow> ready_reads d k k' = ready_reads d k i \<union> ready_reads d i k'"
  by (auto simp: ready_reads_def)

lemma ready_reads_card: "k \<le> i \<Longrightarrow> i \<le> k' \<Longrightarrow> card (ready_reads d k k') = card (ready_reads d k i) + card (ready_reads d i k')"
  unfolding ready_reads_split [of k i k'] by (rule card_Un_disjoint) (auto simp: ready_reads_def)

text \<open>\<open>polled d k n k'\<close>: reading from \<open>k\<close> on until the device has been ready \<open>n\<close> times ends at \<open>k'\<close>.\<close>

definition polled :: "uart_dev \<Rightarrow> nat \<Rightarrow> nat \<Rightarrow> nat \<Rightarrow> bool" where
  "polled d k n k' \<longleftrightarrow> k \<le> k' \<and> card (ready_reads d k k') = n \<and> (if n = 0 then k' = k else k' - 1 \<in> ready_reads d k k')"

lemma polled_0: "polled d k 0 k"
  by (simp add: polled_def ready_reads_def)

lemma polled_Suc:
  assumes "k \<le> i" and "ready_reads d k (i + 1) = {i}" and p: "polled d (i + 1) n k'"
  shows "polled d k (Suc n) k'"
proof -
  have le: "k \<le> i + 1" "i + 1 \<le> k'" using assms(1) p by (simp_all add: polled_def)
  have "card (ready_reads d k k') = Suc n" using ready_reads_card [OF le] assms(2) p by (simp add: polled_def)
  moreover have "k' - 1 \<in> ready_reads d k k'"
    using p ready_reads_split [OF le] assms(2) unfolding polled_def by (cases "n = 0") auto
  ultimately show ?thesis using le by (simp add: polled_def)
qed

lemma emit_console:
  assumes "drains d"
  shows "\<exists>k. emit (out_char d) cs idx s = Inr (idx + length cs,
    s\<lparr>console := console s\<lparr>lsr_reads := k, io_out := io_out (console s) @ filter (\<lambda>c. c \<noteq> 0) cs\<rparr>\<rparr>) \<and>
    polled d (lsr_reads (console s)) (length (filter (\<lambda>c. c \<noteq> 0) cs)) k"
proof (induction cs arbitrary: idx s)
  case Nil
  then show ?case using polled_0 by (intro exI [of _ "lsr_reads (console s)"]) simp
next
  case (Cons c cs)
  show ?case
  proof (cases "c = 0")
    case True
    then show ?thesis using Cons [of "idx + 1" s] by (simp add: out_char_def)
  next
    case False
    obtain i where i: "wait_lsr (lsr d) 0x20 (lsr_reads (console s)) = Some i" "lsr_reads (console s) \<le> i"
      "ready_reads d (lsr_reads (console s)) (i + 1) = {i}"
      using assms wait_lsr_ends unfolding drains_def by blast
    let ?s = "s\<lparr>console := console s\<lparr>lsr_reads := i + 1, io_out := io_out (console s) @ [c]\<rparr>\<rparr>"
    have out: "out_char d c idx s = Inr ?s" using False i(1) by (simp add: out_char_def uart_send_def)
    obtain k where k: "emit (out_char d) cs (idx + 1) ?s = Inr (idx + 1 + length cs,
        ?s\<lparr>console := console ?s\<lparr>lsr_reads := k, io_out := io_out (console ?s) @ filter (\<lambda>c. c \<noteq> 0) cs\<rparr>\<rparr>)"
      "polled d (i + 1) (length (filter (\<lambda>c. c \<noteq> 0) cs)) k"
      using Cons [of "idx + 1" ?s] by auto
    have "polled d (lsr_reads (console s)) (Suc (length (filter (\<lambda>c. c \<noteq> 0) cs))) k" by (rule polled_Suc [OF i(2,3) k(2)])
    then show ?thesis using False out k(1) by (intro exI [of _ k]) simp
  qed
qed

lemma printf_run:
  assumes "text_of fp (bytes s) fmt va = Inr cs" and "drains d"
    and "\<forall>p \<in> set (string_args fmt va). \<exists>cs. str_at (bytes s) (int p) cs"
  shows "\<exists>k. printf fp d fmt va s = Inr (c_int (length cs),
    s\<lparr>console := console s\<lparr>lsr_reads := k, io_out := io_out (console s) @ filter (\<lambda>c. c \<noteq> 0) cs\<rparr>\<rparr>) \<and>
    polled d (lsr_reads (console s)) (length (filter (\<lambda>c. c \<noteq> 0) cs)) k"
proof -
  obtain i where i: "vsn_loop fp out_list (\<lambda>_. bytes s) fmt va 0 [] = Inr (i, cs)" using assms(1) by (rule text_ofE)
  have "vsn_loop fp (out_char d) bytes fmt va 0 s = emit (out_char d) cs 0 s"
    using console_sink.vsn_loop_text [OF i, of d] assms(3) by (auto simp: agree_def kept_string_def)
  then show ?thesis using emit_console [OF assms(2), of cs 0 s]
    by (auto simp: printf_def vsnprintf_core_def out_char_def)
qed

section \<open>The properties\<close>

lemma text_of_pieces:
  assumes "\<forall>x \<in> set ps. piece_ok m x"
  shows "text_of fp m (concat (map piece_fmt ps)) (concat (map piece_args ps)) = Inr (concat (map piece_text ps))"
  by (simp add: text_of_def pieces_run [OF assms])

text \<open>C29: A format of plain characters and of the conversions \<open>%d\<close>, \<open>%u\<close>, \<open>%x\<close>, \<open>%s\<close>, \<open>%c\<close> and \<open>%%\<close> has the
  text that is expected of it: the number in decimal or hexadecimal digits without leading zeros, with a sign if
  it is negative (any value of an int but -2^31), the string up to its terminator, the character itself; whatever the operations on floating point
  numbers are.\<close>

theorem format_text_correct:
  assumes "\<forall>x \<in> set ps. piece_ok m x"
  shows "text_of fp m (concat (map piece_fmt ps)) (concat (map piece_args ps)) = Inr (concat (map piece_text ps))"
  by (rule text_of_pieces [OF assms])

definition demo_pieces :: "piece list" where
  "demo_pieces = [Lit 110, Lit 61, Num 42, Lit 32, Str 100 [104, 105]]"

definition hi_mem :: mem where
  "hi_mem = (\<lambda>_. 0)(100 := 104, 101 := 105)"

lemma demo_pieces_ok: "\<forall>x \<in> set demo_pieces. piece_ok hi_mem x"
  by (simp add: demo_pieces_def hi_mem_def c_int_def)

lemma demo_digits: "digits 10 42 = [52, 50]"
  by (simp add: digits.simps [of 10 42] digits.simps [of 10 4] digit_char_def)

lemma demo_parts:
  "concat (map piece_fmt demo_pieces) = map of_char ''n=%d %s''"
  "concat (map piece_args demo_pieces) = [Arg 42, Arg 100]"
  "concat (map piece_text demo_pieces) = map of_char ''n=42 hi''"
  by (simp_all add: demo_pieces_def decimal_def c_int_def demo_digits)

theorem format_text_correct_witness:
  "\<forall>fp :: nat fpu. text_of fp hi_mem (map of_char ''n=%d %s'') [Arg 42, Arg 100] = Inr (map of_char ''n=42 hi'')"
  using format_text_correct [OF demo_pieces_ok] unfolding demo_parts by blast

text \<open>C30: \<open>snprintf\<close> of a format whose strings end outside the buffer writes the text of the format as far as it
  fits into the buffer together with a terminator, changes no other byte of memory, and returns the length of the
  whole text; with a buffer of 0 bytes it writes nothing.\<close>

theorem snprintf_correct:
  assumes "text_of fp m fmt va = Inr cs" and "b \<noteq> 0" and "n \<le> 2 ^ 64"
    and "\<forall>p \<in> set (string_args fmt va). kept_string (\<lambda>a. a < b \<or> b + int n \<le> a) m p"
  shows "snprintf fp b n fmt va m =
    Inr (c_int (length cs), if n = 0 then m else store m b (take (n - 1) cs @ [0]))"
  by (rule snprintf_run [OF assms])

theorem snprintf_correct_witness:
  "\<forall>fp :: nat fpu. snprintf fp 16 6 (map of_char ''n=%d %s'') [Arg 42, Arg 100] hi_mem =
     Inr (7, store hi_mem 16 (map of_char ''n=42 '' @ [0]))"
proof
  fix fp :: "nat fpu"
  have 1: "text_of fp hi_mem (map of_char ''n=%d %s'') [Arg 42, Arg 100] = Inr (map of_char ''n=42 hi'')"
    using text_of_pieces [OF demo_pieces_ok] unfolding demo_parts by blast
  have "str_at hi_mem 100 [104, 105]" by (simp add: hi_mem_def)
  then have "kept_string (\<lambda>a. a < 16 \<or> 22 \<le> a) hi_mem 100"
    unfolding kept_string_def by (intro exI [of _ "[104, 105]"]) auto
  then have 2: "\<forall>p \<in> set (string_args (map of_char ''n=%d %s'') [Arg 42 :: nat arg, Arg 100]).
      kept_string (\<lambda>a. a < 16 \<or> 16 + int 6 \<le> a) hi_mem p"
    by (simp add: parse_fields_plain cur_def takes_arg_def)
  show "snprintf fp 16 6 (map of_char ''n=%d %s'') [Arg 42, Arg 100] hi_mem =
     Inr (7, store hi_mem 16 (map of_char ''n=42 '' @ [0]))"
    using snprintf_correct [OF 1 _ _ 2] by (simp add: c_int_def)
qed

lemma digits_not_nul: "0 \<notin> set (digits 10 i)"
  using digits_decimal [of i] by (force simp: is_digit_def)

lemma print_number:
  assumes "c_int k = i" and "i \<noteq> - (2 ^ 31)" and "b \<noteq> 0" and "length (decimal i) < n" and "n \<le> 2 ^ 64" and "length (decimal i) < 2 ^ 31"
  shows "snprintf fp b n (map of_char ''%d'') [Arg k] m = Inr (int (length (decimal i)), store m b (decimal i @ [0]))"
proof -
  have "text_of fp m (map of_char ''%d'') [Arg k] = Inr (decimal i)"
    using text_of_pieces [of "[Num k]" m fp] assms(1,2) by simp
  then show ?thesis
    using snprintf_run [of fp m "map of_char ''%d''" "[Arg k]" "decimal i" b n] assms(3-)
    by (simp add: parse_fields_plain cur_def takes_arg_def c_int_small)
qed

text \<open>\<open>atoi\<close> takes the sign for a digit of value -3 and goes on below 0.\<close>

abbreviation dec_from :: "int \<Rightarrow> byte list \<Rightarrow> int" where
  "dec_from r cs \<equiv> foldl (\<lambda>r c. r * 10 + (uint c - 48)) r cs"

lemma dec_from_value: "dec_from r cs = r * 10 ^ length cs + dec_value cs"
proof (induction cs arbitrary: r)
  case (Cons c cs)
  have "dec_from r (c # cs) = (r * 10 + (uint c - 48)) * 10 ^ length cs + dec_value cs" by (simp add: Cons)
  also have "\<dots> = r * 10 ^ length (c # cs) + ((uint c - 48) * 10 ^ length cs + dec_value cs)" by (simp add: algebra_simps)
  also have "(uint c - 48) * 10 ^ length cs + dec_value cs = dec_value (c # cs)"
    using Cons [of "uint c - 48"] by (simp add: dec_value_def)
  finally show ?case .
qed (simp add: dec_value_def)

lemma atoi_loop_below:
  assumes "str_at m p cs" and "\<forall>c \<in> set cs. is_digit c" and "r < 0" and "- (2 ^ 31) \<le> r * 10 ^ length cs"
  shows "atoi_loop m p r = Some (Inr (dec_from r cs))"
  using assms
proof (induction cs arbitrary: p r)
  case Nil
  then show ?case by (simp add: atoi_loop.simps)
next
  case (Cons c cs)
  let ?r = "r * 10 + (uint c - 48)" and ?P = "10 ^ length cs :: int"
  have dg: "48 \<le> uint c" "uint c \<le> 57" using Cons.prems(2) by (simp_all add: is_digit_def)
  have "r * 10 ^ length (c # cs) = (r * 10) * ?P" by simp
  then have lo: "- (2 ^ 31) \<le> (r * 10) * ?P" using Cons.prems(4) by simp
  have "(r * 10) * ?P \<le> (r * 10) * 1" using Cons.prems(3) by (intro mult_left_mono_neg) simp_all
  then have low: "- (2 ^ 31) \<le> r * 10" using lo by linarith
  have "(r * 10) * ?P \<le> ?r * ?P" using dg by (intro mult_right_mono) simp_all
  then have "- (2 ^ 31) \<le> ?r * ?P" using lo by linarith
  moreover have "?r < 0" using Cons.prems(3) dg by simp
  moreover have "push_digit 10 r c 48 = Inr ?r"
    using low dg Cons.prems(3) by (simp add: push_digit_def int_check_def)
  then have "atoi_loop m p r = atoi_loop m (p + 1) ?r"
    using Cons.prems(1) by (simp add: atoi_loop.simps [of m p])
  ultimately show ?case using Cons.IH [of "p + 1" ?r] Cons.prems(1,2) by simp
qed

lemma atoi_negative:
  assumes "str_at m p (chr CHR ''-'' # cs)" and "\<forall>c \<in> set cs. is_digit c" and "length cs \<le> 8"
  shows "atoi m p = Some (Inr (dec_value cs - 3 * 10 ^ length cs))"
proof -
  have "(10::int) ^ length cs \<le> 10 ^ 8" using assms(3) by (intro power_increasing) simp_all
  then have "- (2 ^ 31) \<le> - 3 * (10::int) ^ length cs" by simp
  then have "atoi_loop m (p + 1) (- 3) = Some (Inr (dec_from (- 3) cs))"
    using assms(1,2) by (intro atoi_loop_below) simp_all
  moreover have "atoi m p = atoi_loop m (p + 1) (- 3)"
    using assms(1) by (simp add: atoi_def atoi_loop.simps [of m p] push_digit_def int_check_def)
  ultimately show ?thesis by (simp add: dec_from_value)
qed

lemma decimal_not_nul: "0 \<notin> set (decimal i)"
  using digits_not_nul by (auto simp: decimal_def)

text \<open>C31: A number that \<open>snprintf\<close> prints with \<open>%d\<close> into a buffer that is large enough is read back by \<open>atoi\<close> when it is
  not negative and at most the last value that \<open>atoi\<close> can read. A negative number above -10^8 does not come back:
  \<open>atoi\<close> takes its sign for a digit of value -3, so that -5 comes back as -25.\<close>

theorem print_atoi_round_trip:
  assumes "c_int k = i" and "- (10 ^ 8) < i" and "i < 2 ^ 31 - 48" and "b \<noteq> 0" and "10 < n" and "n \<le> 2 ^ 64"
  shows "\<exists>m'. snprintf fp b n (map of_char ''%d'') [Arg k] m = Inr (int (length (decimal i)), m') \<and>
    atoi m' b = Some (Inr (if 0 \<le> i then i else - i - 3 * 10 ^ (length (decimal i) - 1)))"
proof (intro exI conjI)
  have len: "length (decimal i) \<le> 10"
  proof (cases "0 \<le> i")
    case True
    then show ?thesis using digits_length [of "nat i" 10 10] assms(3) by (simp add: decimal_def)
  next
    case False
    then have "nat (- i) < 10 ^ 8" using assms(2) by (simp add: nat_less_iff)
    then have "length (digits 10 (nat (- i))) \<le> 8" by (rule digits_length) simp_all
    then show ?thesis using False by (simp add: decimal_def)
  qed
  show "snprintf fp b n (map of_char ''%d'') [Arg k] m = Inr (int (length (decimal i)), store m b (decimal i @ [0]))"
    using assms len by (intro print_number) simp_all
  let ?m = "store m b (decimal i @ [0])"
  have st: "str_at ?m b (decimal i)" by (rule str_at_store [OF decimal_not_nul])
  show "atoi ?m b = Some (Inr (if 0 \<le> i then i else - i - 3 * 10 ^ (length (decimal i) - 1)))"
  proof (cases "0 \<le> i")
    case True
    then have "decimal i = digits 10 (nat i)" by (simp add: decimal_def)
    then show ?thesis using True atoi_loop_str [of ?m b "decimal i" 0] st digits_decimal [of "nat i"] assms(3)
      by (simp add: atoi_def dec_value_def)
  next
    case False
    then have e: "decimal i = chr CHR ''-'' # digits 10 (nat (- i))" by (simp add: decimal_def)
    have "nat (- i) < 10 ^ 8" using False assms(2) by (simp add: nat_less_iff)
    then have "length (digits 10 (nat (- i))) \<le> 8" by (rule digits_length) simp_all
    then show ?thesis using atoi_negative [of ?m b "digits 10 (nat (- i))"] st digits_decimal [of "nat (- i)"] False
      unfolding e by simp
  qed
qed

theorem print_atoi_round_trip_witness:
  "\<forall>fp :: nat fpu. (\<exists>m'. snprintf fp 16 12 (map of_char ''%d'') [Arg 42] hi_mem = Inr (2, m') \<and> atoi m' 16 = Some (Inr 42)) \<and>
     (\<exists>m'. snprintf fp 16 12 (map of_char ''%d'') [Arg 4294967291] hi_mem = Inr (2, m') \<and> atoi m' 16 = Some (Inr (- 25)))"
proof
  fix fp :: "nat fpu"
  have "decimal 42 = [52, 50]" "decimal (- 5) = [45, 53]" by (simp_all add: decimal_def demo_digits digits.simps digit_char_def)
  then show "(\<exists>m'. snprintf fp 16 12 (map of_char ''%d'') [Arg 42] hi_mem = Inr (2, m') \<and> atoi m' 16 = Some (Inr 42)) \<and>
     (\<exists>m'. snprintf fp 16 12 (map of_char ''%d'') [Arg 4294967291] hi_mem = Inr (2, m') \<and> atoi m' 16 = Some (Inr (- 25)))"
    using print_atoi_round_trip [of 42 42 16 12 fp hi_mem] print_atoi_round_trip [of 4294967291 "- 5" 16 12 fp hi_mem]
    by (simp add: c_int_def)
qed

text \<open>C32: \<open>printf\<close> sends the text of the format to the console, in order and without its NUL characters,
  and changes nothing else but the count of its readings of the line status; it returns the length of the text. For
  each byte that it sends it reads the line status until the device says that it can take one: of its readings exactly as many
  as there are bytes say so, the last reading is one of them, and for an empty text there is no reading.\<close>

theorem printf_correct:
  assumes "text_of fp (bytes s) fmt va = Inr cs" and "drains d"
    and "\<forall>p \<in> set (string_args fmt va). \<exists>cs. str_at (bytes s) (int p) cs"
  shows "\<exists>k. printf fp d fmt va s = Inr (c_int (length cs),
    s\<lparr>console := console s\<lparr>lsr_reads := k, io_out := io_out (console s) @ filter (\<lambda>c. c \<noteq> 0) cs\<rparr>\<rparr>) \<and>
    (let k0 = lsr_reads (console s); sent = filter (\<lambda>c. c \<noteq> 0) cs; ready = {j. k0 \<le> j \<and> j < k \<and> lsr d j AND 0x20 \<noteq> 0} in
      k0 \<le> k \<and> card ready = length sent \<and> (if sent = [] then k = k0 else k - 1 \<in> ready))"
  using printf_run [OF assms] unfolding polled_def ready_reads_def Let_def length_0_conv by blast

theorem printf_correct_witness:
  "\<forall>(fp :: nat fpu) s. printf fp \<lparr>lsr = \<lambda>_. 0x20, io_in = \<lambda>_. 0\<rparr> (map of_char ''n=%d %s'') [Arg 42, Arg 100] (s\<lparr>bytes := hi_mem\<rparr>) =
     Inr (7, s\<lparr>bytes := hi_mem, console := console s\<lparr>lsr_reads := lsr_reads (console s) + 7,
       io_out := io_out (console s) @ map of_char ''n=42 hi''\<rparr>\<rparr>)"
proof (intro allI)
  fix fp :: "nat fpu" and s :: vfs
  let ?s = "s\<lparr>bytes := hi_mem\<rparr>" and ?d = "\<lparr>lsr = \<lambda>_. 0x20, io_in = \<lambda>_. 0\<rparr>"
  have 1: "text_of fp (bytes ?s) (map of_char ''n=%d %s'') [Arg 42, Arg 100] = Inr (map of_char ''n=42 hi'')"
    using text_of_pieces [OF demo_pieces_ok] unfolding demo_parts by simp
  have 2: "drains ?d" unfolding drains_def by auto
  have "str_at hi_mem 100 [104, 105]" by (simp add: hi_mem_def)
  then have "\<exists>cs. str_at hi_mem 100 cs" ..
  then have 3: "\<forall>p \<in> set (string_args (map of_char ''n=%d %s'') [Arg 42 :: nat arg, Arg 100]). \<exists>cs. str_at (bytes ?s) (int p) cs"
    by (simp add: parse_fields_plain cur_def takes_arg_def)
  let ?T = "map of_char ''n=42 hi'' :: byte list" and ?k = "lsr_reads (console ?s)"
  have T: "filter (\<lambda>c. c \<noteq> 0) ?T = ?T" "length ?T = 7" by simp_all
  obtain k where k: "printf fp ?d (map of_char ''n=%d %s'') [Arg 42, Arg 100] ?s = Inr (c_int (length ?T),
      ?s\<lparr>console := console ?s\<lparr>lsr_reads := k, io_out := io_out (console ?s) @ ?T\<rparr>\<rparr>)"
    "card {j. ?k \<le> j \<and> j < k \<and> lsr ?d j AND 0x20 \<noteq> 0} = 7" "?k \<le> k"
    using printf_correct [OF 1 2 3] unfolding Let_def T by blast
  have "{j. ?k \<le> j \<and> j < k \<and> lsr ?d j AND 0x20 \<noteq> 0} = {lsr_reads (console s)..<k}" by auto
  with k(2) have "card {lsr_reads (console s)..<k} = 7" by (simp only:)
  with k(3) have "k = lsr_reads (console s) + 7" by simp
  then show "printf fp ?d (map of_char ''n=%d %s'') [Arg 42, Arg 100] ?s =
     Inr (7, s\<lparr>bytes := hi_mem, console := console s\<lparr>lsr_reads := lsr_reads (console s) + 7,
       io_out := io_out (console s) @ map of_char ''n=42 hi''\<rparr>\<rparr>)"
    using k(1) T(2) by (simp add: c_int_def)
qed

text \<open>A format that ends in \<open>%\<close>, like the one in \<open>initramfs_setup_mount\<close>, is read past its end.\<close>

lemma dangling_percent: "printf fp d (map of_char ''%'') va s = Inl OutOfBounds"
  by (simp add: printf_def vsnprintf_core_def parse_fields_def flag_of_def parse_width_def parse_precision_def
      parse_length_def cur_def is_dig_def convert_def out_char_def)

text \<open>A precision of more than 41 digits leaves more than 9 after the buffer is full, which is behind the end of
  the table of powers of ten.\<close>

lemma limit_prec_full:
  "length buf + k = PRINTF_FTOA_BUFFER_SIZE \<Longrightarrow> k + 9 < prec \<Longrightarrow>
   limit_prec prec buf = (buf @ replicate k (chr CHR ''0''), prec - k)"
proof (induction k arbitrary: prec buf)
  case 0
  then show ?case by (subst limit_prec.simps) simp
next
  case (Suc k)
  then show ?case using Suc.IH [of "buf @ [chr CHR ''0'']" "prec - 1"] by (subst limit_prec.simps) simp
qed

lemma float_precision_fault:
  assumes "bit flags FLAGS_PRECISION" and "41 < prec"
  shows "\<exists>e. ftoa_digits fp out v prec width flags idx s = Inl e"
proof -
  have "limit_prec prec [] = (replicate 32 (chr CHR ''0''), prec - 32)"
    using limit_prec_full [of "[]" 32 prec] assms(2) by (simp add: PRINTF_FTOA_BUFFER_SIZE_def)
  moreover have "pow10 (prec - 32) = Inl OutOfBounds" using assms(2) by (simp add: pow10_def)
  ultimately show ?thesis
    using assms(1) by (simp add: ftoa_digits_def Let_def to_int_def int_check_def)
qed

end
